(* ===== verification/Go_Prelude.thy ===== *)
theory Go_Prelude
  imports Main "HOL-Library.AList"
begin

text \<open>
  What every component of the development shares.

  A Go string or \<open>[]byte\<close> is the type \<open>bytes\<close>: a list of \<open>char\<close>, one per byte, because
  \<open>len\<close>, indexing and slicing of the program count bytes.  A Go \<open>int\<close> is \<open>int\<close>: every value
  the modelled code computes with it is a length, a counter or a configured bound, far below
  \<open>2 ^ 63\<close>.  A \<open>uint64\<close> that may wrap is a \<open>64 word\<close>.

  A Go map that the code only reads and writes by key is a HOL map.  A Go map the code ranges
  over is an association list with distinct keys, whose order stands for the iteration order of
  that range; the laws below relate both views.

  A fallible function returns \<open>'e + 'a\<close>, \<open>Inl\<close> for the error.

  The collection \<open>go_simps\<close> holds the unfolding facts the component proofs share.
\<close>

named_theorems go_simps \<open>unfolding facts shared by the component proofs\<close>

type_synonym bytes = "char list"

section \<open>Results\<close>

definition bind_res :: "'e + 'a \<Rightarrow> ('a \<Rightarrow> 'e + 'b) \<Rightarrow> 'e + 'b" where
  "bind_res r f = (case r of Inl e \<Rightarrow> Inl e | Inr x \<Rightarrow> f x)"

lemma bind_res_simps [simp]:
  "bind_res (Inl e) f = Inl e"
  "bind_res (Inr x) f = f x"
  by (simp_all add: bind_res_def)

lemma bind_res_eq_Inr: "bind_res r f = Inr y \<longleftrightarrow> (\<exists>x. r = Inr x \<and> f x = Inr y)"
  by (cases r) auto

lemma bind_res_eq_Inl: "bind_res r f = Inl e \<longleftrightarrow> r = Inl e \<or> (\<exists>x. r = Inr x \<and> f x = Inl e)"
  by (cases r) auto

section \<open>Byte sequences: the first and the last bytes\<close>

text \<open>The last \<open>n\<close> elements of a list: what a suffix slice of the program keeps.\<close>

definition last_n :: "nat \<Rightarrow> 'a list \<Rightarrow> 'a list" where
  "last_n n xs = drop (length xs - n) xs"

lemma length_last_n [simp]: "length (last_n n xs) = min n (length xs)"
  by (simp add: last_n_def)

lemma last_n_0 [simp]: "last_n 0 xs = []"
  by (simp add: last_n_def)

lemma last_n_Nil [simp]: "last_n n [] = []"
  by (simp add: last_n_def)

lemma last_n_all [simp]: "length xs \<le> n \<Longrightarrow> last_n n xs = xs"
  by (simp add: last_n_def)

lemma last_n_append: "last_n n (xs @ ys) = last_n (n - length ys) xs @ last_n n ys"
proof (cases "length ys \<le> n")
  case True
  then have "length xs + length ys - n = length xs - (n - length ys)" by simp
  then show ?thesis using True by (simp add: last_n_def)
next
  case False
  then show ?thesis by (simp add: last_n_def)
qed

lemma last_n_last_n [simp]: "last_n m (last_n n xs) = last_n (min m n) xs"
  by (auto simp: last_n_def min_def intro!: arg_cong [where f = "\<lambda>k. drop k xs"])

lemma last_n_append_last_n [simp]: "last_n n (last_n n xs @ ys) = last_n n (xs @ ys)"
  by (simp add: last_n_append min_def)

lemma drop_eq_last_n: "drop k xs = last_n (length xs - k) xs"
  by (cases "k \<le> length xs") (simp_all add: last_n_def)

lemma take_drop_last_n: "length xs \<le> h + t \<Longrightarrow> take h xs @ last_n t (drop h xs) = xs"
  by simp

section \<open>Association lists as Go maps\<close>

abbreviation keys_of :: "('k \<times> 'v) list \<Rightarrow> 'k list" where
  "keys_of m \<equiv> map fst m"

abbreviation go_map :: "('k \<times> 'v) list \<Rightarrow> bool" where
  "go_map m \<equiv> distinct (keys_of m)"

lemma map_of_update [simp]: "map_of (AList.update k v m) = (map_of m)(k \<mapsto> v)"
  by (rule update_conv')

lemma map_of_delete [simp]: "map_of (AList.delete k m) = (map_of m)(k := None)"
  by (rule delete_conv')

lemma go_map_update [simp]: "go_map m \<Longrightarrow> go_map (AList.update k v m)"
  by (rule distinct_update)

lemma go_map_delete [simp]: "go_map m \<Longrightarrow> go_map (AList.delete k m)"
  by (rule distinct_delete)

lemma in_keys_iff: "k \<in> set (keys_of m) \<longleftrightarrow> (\<exists>v. map_of m k = Some v)"
  by (metis domIff dom_map_of_conv_image_fst list.set_map not_None_eq)

lemma set_alist_iff: "go_map m \<Longrightarrow> (k, v) \<in> set m \<longleftrightarrow> map_of m k = Some v"
  by simp

text \<open>Lookups are kept as lookups.\<close>

declare map_of_eq_Some_iff [simp del]

lemma length_update_fresh: "map_of m k = None \<Longrightarrow> length (AList.update k v m) = Suc (length m)"
  by (induction m) (auto split: if_splits)

lemma length_update_old: "map_of m k \<noteq> None \<Longrightarrow> length (AList.update k v m) = length m"
  by (induction m) (auto split: if_splits)

lemma length_delete_less: "map_of m k = Some v \<Longrightarrow> length (AList.delete k m) < length m"
  by (induction m) (auto split: if_splits simp: AList.delete_eq less_Suc_eq_le)

end
