(* ===== verification/Head_Tail_Buffer.thy ===== *)
theory Head_Tail_Buffer
  imports Go_Prelude
begin

text \<open>
  The bounded output buffer of a unified exec process, \<open>HeadTailBuffer\<close> in
  \<open>exec/buffer.go\<close>: it keeps the first half of its byte budget verbatim (the head), the latest
  bytes in the rest (the tail), and counts what it dropped.  The Go methods accept a nil
  receiver and do nothing then; a nil receiver is \<open>None\<close> of an option over which the functions
  here are mapped.

  The specification is \<open>retained_spec\<close>: what the buffer holds is a function of the concatenated
  stream alone, however the stream was cut into chunks.
\<close>

section \<open>The buffer and its operations\<close>

record head_tail_buffer =
  maxBytes :: int
  headBudget :: int
  tailBudget :: int
  buf_head :: "bytes list"
  buf_tail :: "bytes list"
  headBytes :: int
  tailBytes :: int
  omittedBytes :: int

definition new_head_tail_buffer :: "int \<Rightarrow> head_tail_buffer" where
  "new_head_tail_buffer n =
     (let m = (if n < 0 then 0 else n); h = m div 2 in
      \<lparr>maxBytes = m, headBudget = h, tailBudget = m - h, buf_head = [], buf_tail = [],
       headBytes = 0, tailBytes = 0, omittedBytes = 0\<rparr>)"

text \<open>\<open>trimTail\<close>: the loop drops whole chunks from the front of the tail while the excess
  covers them and cuts the chunk the excess ends in.\<close>

fun trim_tail_loop :: "int \<Rightarrow> bytes list \<Rightarrow> int \<Rightarrow> int \<Rightarrow> bytes list \<times> int \<times> int" where
  "trim_tail_loop excess [] tailB omitted = ([], tailB, omitted)"
| "trim_tail_loop excess (front # rest) tailB omitted =
     (if 0 < excess then
        if int (length front) \<le> excess then
          trim_tail_loop (excess - int (length front)) rest
            (tailB - int (length front)) (omitted + int (length front))
        else (drop (nat excess) front # rest, tailB - excess, omitted + excess)
      else (front # rest, tailB, omitted))"

definition trim_tail :: "head_tail_buffer \<Rightarrow> head_tail_buffer" where
  "trim_tail b =
     (case trim_tail_loop (tailBytes b - tailBudget b) (buf_tail b) (tailBytes b) (omittedBytes b)
      of (t, tb, om) \<Rightarrow> b\<lparr>buf_tail := t, tailBytes := tb, omittedBytes := om\<rparr>)"

definition reserve_omission_byte :: "head_tail_buffer \<Rightarrow> head_tail_buffer" where
  "reserve_omission_byte b =
     (if 0 < omittedBytes b \<or> maxBytes b \<le> 1 then b
      else let t = maxBytes b - headBudget b - 1; target = (if t < 0 then 0 else t) in
        if target < tailBudget b then trim_tail (b\<lparr>tailBudget := target\<rparr>) else b)"

definition push_tail :: "bytes \<Rightarrow> head_tail_buffer \<Rightarrow> head_tail_buffer" where
  "push_tail chunk b0 =
     (if chunk = [] then b0
      else let b = reserve_omission_byte b0; n = int (length chunk) in
        if tailBudget b = 0 then b\<lparr>omittedBytes := omittedBytes b + n\<rparr>
        else if tailBudget b \<le> n then
          let start = n - tailBudget b in
          b\<lparr>omittedBytes := omittedBytes b + (tailBytes b + start),
            buf_tail := [drop (nat start) chunk], tailBytes := tailBudget b\<rparr>
        else trim_tail (b\<lparr>buf_tail := buf_tail b @ [chunk], tailBytes := tailBytes b + n\<rparr>))"

definition push_chunk :: "bytes \<Rightarrow> head_tail_buffer \<Rightarrow> head_tail_buffer" where
  "push_chunk chunk b =
     (if chunk = [] then b
      else let n = int (length chunk) in
        if maxBytes b = 0 then b\<lparr>omittedBytes := omittedBytes b + n\<rparr>
        else if headBytes b < headBudget b then
          let remaining = headBudget b - headBytes b in
          if n \<le> remaining then
            b\<lparr>buf_head := buf_head b @ [chunk], headBytes := headBytes b + n\<rparr>
          else
            let b' = (if 0 < remaining
                      then b\<lparr>buf_head := buf_head b @ [take (nat remaining) chunk],
                             headBytes := headBytes b + remaining\<rparr>
                      else b)
            in push_tail (drop (nat remaining) chunk) b'
        else push_tail chunk b)"

definition snapshot_chunks :: "head_tail_buffer \<Rightarrow> bytes list" where
  "snapshot_chunks b = buf_head b @ buf_tail b"

definition buffer_bytes :: "head_tail_buffer \<Rightarrow> bytes" where
  "buffer_bytes b = concat (buf_head b) @ concat (buf_tail b)"

definition retained_bytes :: "head_tail_buffer \<Rightarrow> int" where
  "retained_bytes b = headBytes b + tailBytes b"

definition drain_chunks :: "head_tail_buffer \<Rightarrow> bytes list \<times> head_tail_buffer" where
  "drain_chunks b =
     (snapshot_chunks b,
      b\<lparr>buf_head := [], buf_tail := [], headBytes := 0, tailBytes := 0, omittedBytes := 0\<rparr>)"

definition push_all :: "bytes list \<Rightarrow> head_tail_buffer \<Rightarrow> head_tail_buffer" where
  "push_all cs b = fold push_chunk cs b"

text \<open>The buffer \<open>cloneEntry\<close> builds: a fresh one of the same size, fed the snapshot.\<close>

definition clone_output :: "head_tail_buffer \<Rightarrow> head_tail_buffer" where
  "clone_output b =
     (push_all (snapshot_chunks b) (new_head_tail_buffer (maxBytes b)))
       \<lparr>omittedBytes := omittedBytes b\<rparr>"

section \<open>What the buffer promises\<close>

text \<open>
  The head keeps \<open>m div 2\<close> bytes.  Once a byte went past the head, the tail keeps one byte less
  than the rest of the budget when \<open>m > 1\<close>: that byte is reserved for the omission marker.
\<close>

definition head_room :: "int \<Rightarrow> nat" where
  "head_room m = nat (m div 2)"

definition tail_room :: "int \<Rightarrow> nat" where
  "tail_room m = (if m \<le> 1 then nat (m - m div 2) else nat (m - m div 2 - 1))"

definition retained_spec :: "int \<Rightarrow> bytes \<Rightarrow> bytes" where
  "retained_spec m xs = take (head_room m) xs @ last_n (tail_room m) (drop (head_room m) xs)"

text \<open>The invariant, relative to the stream \<open>xs\<close> pushed since the buffer was created or drained.\<close>

definition buffer_inv :: "bytes \<Rightarrow> head_tail_buffer \<Rightarrow> bool" where
  "buffer_inv xs b \<longleftrightarrow>
     0 \<le> maxBytes b \<and> headBudget b = maxBytes b div 2 \<and>
     (tailBudget b = int (tail_room (maxBytes b)) \<or>
        (drop (head_room (maxBytes b)) xs = [] \<and> tailBudget b = maxBytes b - maxBytes b div 2)) \<and>
     concat (buf_head b) = take (head_room (maxBytes b)) xs \<and>
     concat (buf_tail b) = last_n (tail_room (maxBytes b)) (drop (head_room (maxBytes b)) xs) \<and>
     headBytes b = int (length (concat (buf_head b))) \<and>
     tailBytes b = int (length (concat (buf_tail b))) \<and>
     omittedBytes b = int (length xs) - headBytes b - tailBytes b"

section \<open>Trimming and pushing keep the invariant\<close>

lemma trim_tail_loop_spec:
  assumes "trim_tail_loop e ts tb om = (ts', tb', om')" and "tb = int (length (concat ts))"
  shows "concat ts' = drop (nat e) (concat ts) \<and> tb' = int (length (concat ts')) \<and> om' + tb' = om + tb"
  using assms
proof (induction e ts tb om rule: trim_tail_loop.induct)
  case (1 e tb om)
  then show ?case by simp
next
  case (2 e front rest tb om)
  show ?case
  proof (cases "0 < e \<and> int (length front) \<le> e")
    case True
    have eq: "trim_tail_loop (e - int (length front)) rest (tb - int (length front))
        (om + int (length front)) = (ts', tb', om')"
      using "2.prems"(1) True by simp
    have "concat ts' = drop (nat (e - int (length front))) (concat rest) \<and>
        tb' = int (length (concat ts')) \<and>
        om' + tb' = om + int (length front) + (tb - int (length front))"
      by (rule "2.IH" [OF _ _ eq]) (use True "2.prems"(2) in simp_all)
    moreover have "nat (e - int (length front)) = nat e - length front" by simp
    ultimately show ?thesis using True by (auto simp: drop_append)
  next
    case False
    then show ?thesis using "2.prems" by (auto split: if_splits)
  qed
qed

lemma trim_tail_frame [simp]:
  "maxBytes (trim_tail b) = maxBytes b" "headBudget (trim_tail b) = headBudget b"
  "tailBudget (trim_tail b) = tailBudget b" "buf_head (trim_tail b) = buf_head b"
  "headBytes (trim_tail b) = headBytes b"
  by (simp_all add: trim_tail_def split: prod.splits)

lemma trim_tail_spec:
  assumes "tailBytes b = int (length (concat (buf_tail b)))" and "0 \<le> tailBudget b"
  shows "concat (buf_tail (trim_tail b)) = last_n (nat (tailBudget b)) (concat (buf_tail b))"
    and "tailBytes (trim_tail b) = int (length (concat (buf_tail (trim_tail b))))"
    and "omittedBytes (trim_tail b) + tailBytes (trim_tail b) = omittedBytes b + tailBytes b"
proof -
  obtain ts' tb' om' where run: "trim_tail_loop (tailBytes b - tailBudget b) (buf_tail b)
      (tailBytes b) (omittedBytes b) = (ts', tb', om')"
    by (metis prod_cases3)
  note spec = trim_tail_loop_spec [OF run assms(1)]
  have "length (concat (buf_tail b)) - nat (tailBytes b - tailBudget b) =
      min (nat (tailBudget b)) (length (concat (buf_tail b)))"
    using assms by simp
  then have "drop (nat (tailBytes b - tailBudget b)) (concat (buf_tail b)) =
      last_n (nat (tailBudget b)) (concat (buf_tail b))"
    by (metis drop_eq_last_n last_n_all last_n_last_n order_refl)
  then show "concat (buf_tail (trim_tail b)) = last_n (nat (tailBudget b)) (concat (buf_tail b))"
    and "tailBytes (trim_tail b) = int (length (concat (buf_tail (trim_tail b))))"
    and "omittedBytes (trim_tail b) + tailBytes (trim_tail b) = omittedBytes b + tailBytes b"
    using spec by (auto simp: trim_tail_def run)
qed

lemma reserve_omission_byte_inv:
  assumes inv: "buffer_inv xs b" and pos: "0 < maxBytes b"
  shows "buffer_inv xs (reserve_omission_byte b)"
    and "tailBudget (reserve_omission_byte b) = int (tail_room (maxBytes b))"
    and "maxBytes (reserve_omission_byte b) = maxBytes b"
proof -
  let ?m = "maxBytes b" and ?ys = "drop (head_room (maxBytes b)) xs"
  have tail: "concat (buf_tail b) = last_n (tail_room ?m) ?ys"
    and tb: "tailBytes b = int (length (concat (buf_tail b)))"
    and budget: "tailBudget b = int (tail_room ?m) \<or> (?ys = [] \<and> tailBudget b = ?m - ?m div 2)"
    and hb: "headBudget b = ?m div 2"
    and om: "omittedBytes b = int (length xs) - headBytes b - tailBytes b"
    and hd: "headBytes b = int (length (take (head_room ?m) xs))"
    using inv by (auto simp: buffer_inv_def)
  consider (kept) "tailBudget b = int (tail_room ?m)"
    | (cut) "1 < ?m" "?ys = []" "tailBudget b = int (tail_room ?m) + 1" "omittedBytes b = 0"
  proof (cases "tailBudget b = int (tail_room ?m)")
    case True
    then show ?thesis by (rule kept)
  next
    case False
    then have ys: "?ys = []" and tbud: "tailBudget b = ?m - ?m div 2" using budget by auto
    have "omittedBytes b = 0" using om hd tb tail ys by simp
    moreover have "1 < ?m" "tailBudget b = int (tail_room ?m) + 1"
      using False tbud pos by (auto simp: tail_room_def split: if_splits)
    ultimately show ?thesis using ys cut by blast
  qed
  then have "buffer_inv xs (reserve_omission_byte b) \<and>
      tailBudget (reserve_omission_byte b) = int (tail_room ?m) \<and>
      maxBytes (reserve_omission_byte b) = ?m"
  proof cases
    case kept
    then have "reserve_omission_byte b = b"
      using hb pos by (auto simp: reserve_omission_byte_def tail_room_def Let_def)
    then show ?thesis using kept inv by simp
  next
    case cut
    let ?b = "b\<lparr>tailBudget := int (tail_room ?m)\<rparr>"
    have "reserve_omission_byte b = trim_tail ?b"
      using cut hb by (auto simp: reserve_omission_byte_def tail_room_def Let_def)
    moreover have "tailBytes ?b = int (length (concat (buf_tail ?b)))" "0 \<le> tailBudget ?b"
      using tb by simp_all
    note trim_tail_spec [OF this]
    ultimately show ?thesis
      using inv cut tail by (simp add: buffer_inv_def)
  qed
  then show "buffer_inv xs (reserve_omission_byte b)"
    and "tailBudget (reserve_omission_byte b) = int (tail_room (maxBytes b))"
    and "maxBytes (reserve_omission_byte b) = maxBytes b"
    by simp_all
qed

lemma push_tail_inv:
  assumes inv: "buffer_inv xs b" and full: "head_room (maxBytes b) \<le> length xs" and pos: "0 < maxBytes b"
  shows "buffer_inv (xs @ chunk) (push_tail chunk b)" and "maxBytes (push_tail chunk b) = maxBytes b"
proof -
  let ?m = "maxBytes b" and ?r = "reserve_omission_byte b"
  let ?h = "head_room ?m" and ?t = "tail_room ?m" and ?n = "length chunk"
  note r = reserve_omission_byte_inv [OF inv pos]
  have tail: "concat (buf_tail ?r) = last_n ?t (drop ?h xs)"
    and tb: "tailBytes ?r = int (length (concat (buf_tail ?r)))"
    using r(1,3) by (auto simp: buffer_inv_def)
  consider (empty) "chunk = []" | (none) "chunk \<noteq> []" "?t = 0"
    | (over) "chunk \<noteq> []" "0 < ?t" "?t \<le> ?n" | (fits) "chunk \<noteq> []" "0 < ?t" "?n < ?t"
    by force
  then have "buffer_inv (xs @ chunk) (push_tail chunk b) \<and> maxBytes (push_tail chunk b) = ?m"
  proof cases
    case empty
    then show ?thesis using inv by (simp add: push_tail_def)
  next
    case none
    then show ?thesis using r full tail by (simp add: push_tail_def Let_def buffer_inv_def)
  next
    case over
    have "nat (int ?n - int ?t) = ?n - ?t" by simp
    moreover have "drop (?n - ?t) chunk = last_n ?t (drop ?h xs @ chunk)"
      using over by (simp add: last_n_append) (simp add: last_n_def)
    ultimately show ?thesis using r full over tail
      by (simp add: push_tail_def Let_def buffer_inv_def)
  next
    case fits
    let ?b = "?r\<lparr>buf_tail := buf_tail ?r @ [chunk], tailBytes := tailBytes ?r + int ?n\<rparr>"
    have eq: "push_tail chunk b = trim_tail ?b"
      using fits r(2) by (simp add: push_tail_def Let_def)
    have "tailBytes ?b = int (length (concat (buf_tail ?b)))" "0 \<le> tailBudget ?b"
      using tb r(2) by simp_all
    note trim = trim_tail_spec [OF this]
    have "concat (buf_tail (trim_tail ?b)) = last_n ?t (drop ?h xs @ chunk)"
      using trim(1) tail r(2) by simp
    then show ?thesis using trim(2,3) r full unfolding eq
      by (auto simp: buffer_inv_def)
  qed
  then show "buffer_inv (xs @ chunk) (push_tail chunk b)" and "maxBytes (push_tail chunk b) = maxBytes b"
    by simp_all
qed

lemma push_head_inv:
  assumes "buffer_inv xs b" and "length xs + length c \<le> head_room (maxBytes b)"
  shows "buffer_inv (xs @ c) (b\<lparr>buf_head := buf_head b @ [c], headBytes := headBytes b + int (length c)\<rparr>)"
  using assms by (auto simp: buffer_inv_def)

lemma push_chunk_inv:
  assumes inv: "buffer_inv xs b"
  shows "buffer_inv (xs @ chunk) (push_chunk chunk b)" and "maxBytes (push_chunk chunk b) = maxBytes b"
proof -
  let ?m = "maxBytes b" and ?n = "length chunk" and ?rem = "nat (headBudget b - headBytes b)"
  have nonneg: "0 \<le> ?m" and hB: "headBudget b = ?m div 2"
    and hb: "headBytes b = int (min (head_room ?m) (length xs))"
    using inv by (auto simp: buffer_inv_def min.commute)
  have room: "headBudget b - headBytes b = int (head_room ?m - length xs)"
    using hB hb nonneg by (auto simp: head_room_def min_def)
  consider (empty) "chunk = []" | (zero) "chunk \<noteq> []" "?m = 0"
    | (head) "chunk \<noteq> []" "0 < ?m" "length xs < head_room ?m" "?n \<le> head_room ?m - length xs"
    | (split) "chunk \<noteq> []" "0 < ?m" "length xs < head_room ?m" "head_room ?m - length xs < ?n"
    | (tail) "chunk \<noteq> []" "0 < ?m" "head_room ?m \<le> length xs"
    using nonneg by linarith
  then have "buffer_inv (xs @ chunk) (push_chunk chunk b) \<and> maxBytes (push_chunk chunk b) = ?m"
  proof cases
    case empty
    then show ?thesis using inv by (simp add: push_chunk_def)
  next
    case zero
    then show ?thesis using inv
      by (auto simp: push_chunk_def Let_def buffer_inv_def head_room_def tail_room_def)
  next
    case head
    then have "push_chunk chunk b = b\<lparr>buf_head := buf_head b @ [chunk], headBytes := headBytes b + int ?n\<rparr>"
      using room by (auto simp: push_chunk_def Let_def)
    then show ?thesis using push_head_inv [OF inv, of chunk] head by simp
  next
    case split
    let ?r = "head_room ?m - length xs"
    let ?b = "b\<lparr>buf_head := buf_head b @ [take ?r chunk], headBytes := headBytes b + int ?r\<rparr>"
    have "nat (int ?r) = ?r" by simp
    then have eq: "push_chunk chunk b = push_tail (drop ?r chunk) ?b"
      using split room unfolding push_chunk_def Let_def by (simp del: of_nat_diff)
    have "buffer_inv (xs @ take ?r chunk) ?b"
      using push_head_inv [OF inv, of "take ?r chunk"] split by simp
    moreover have "head_room (maxBytes ?b) \<le> length (xs @ take ?r chunk)" "0 < maxBytes ?b"
      using split by simp_all
    ultimately show ?thesis
      using push_tail_inv [of "xs @ take ?r chunk" ?b "drop ?r chunk"] unfolding eq by simp
  next
    case tail
    then have "push_chunk chunk b = push_tail chunk b"
      using room by (simp add: push_chunk_def Let_def)
    then show ?thesis using push_tail_inv [OF inv] tail by simp
  qed
  then show "buffer_inv (xs @ chunk) (push_chunk chunk b)" and "maxBytes (push_chunk chunk b) = maxBytes b"
    by simp_all
qed

lemma push_all_inv:
  "buffer_inv xs b \<Longrightarrow> buffer_inv (xs @ concat cs) (push_all cs b) \<and> maxBytes (push_all cs b) = maxBytes b"
proof (induction cs arbitrary: xs b)
  case Nil
  then show ?case by (simp add: push_all_def)
next
  case (Cons c cs)
  from push_chunk_inv [OF Cons.prems, of c] Cons.IH [of "xs @ c" "push_chunk c b"]
  show ?case by (simp add: push_all_def)
qed

lemma new_buffer_inv: "buffer_inv [] (new_head_tail_buffer n)"
  by (auto simp: new_head_tail_buffer_def buffer_inv_def Let_def head_room_def tail_room_def)

lemma maxBytes_new: "maxBytes (new_head_tail_buffer n) = max 0 n"
  by (simp add: new_head_tail_buffer_def Let_def max_def)

lemma drain_inv: "buffer_inv xs b \<Longrightarrow> buffer_inv [] (snd (drain_chunks b))"
  by (auto simp: buffer_inv_def drain_chunks_def)

lemma buffer_inv_bytes: "buffer_inv xs b \<Longrightarrow> buffer_bytes b = retained_spec (maxBytes b) xs"
  by (simp add: buffer_inv_def buffer_bytes_def retained_spec_def)

lemma buffer_inv_counts:
  "buffer_inv xs b \<Longrightarrow> retained_bytes b = int (length (buffer_bytes b)) \<and>
     omittedBytes b = int (length xs) - retained_bytes b"
  by (simp add: buffer_inv_def buffer_bytes_def retained_bytes_def)

section \<open>The interface of an output sink\<close>

text \<open>
  What the process store and the clone rely on: an invariant that ties the sink to the bytes
  pushed into it, kept by every push, under which the contents are a function of those bytes.
\<close>

locale output_sink =
  fixes fresh :: "'b" and push :: "bytes \<Rightarrow> 'b \<Rightarrow> 'b" and contents :: "'b \<Rightarrow> bytes"
    and keeps :: "bytes \<Rightarrow> bytes" and tied :: "bytes \<Rightarrow> 'b \<Rightarrow> bool"
  assumes tied_fresh: "tied [] fresh"
    and tied_push: "tied xs b \<Longrightarrow> tied (xs @ c) (push c b)"
    and tied_contents: "tied xs b \<Longrightarrow> contents b = keeps xs"
begin

lemma tied_fold: "tied xs b \<Longrightarrow> tied (xs @ concat cs) (fold push cs b)"
proof (induction cs arbitrary: xs b)
  case Nil
  then show ?case by simp
next
  case (Cons c cs)
  from Cons.IH [OF tied_push [OF Cons.prems, of c]] show ?case by simp
qed

lemma contents_fold: "tied xs b \<Longrightarrow> contents (fold push cs b) = keeps (xs @ concat cs)"
  by (rule tied_contents [OF tied_fold])

lemma contents_chunking:
  assumes "concat cs = concat ds"
  shows "contents (fold push cs fresh) = contents (fold push ds fresh)"
  using contents_fold [OF tied_fresh, of cs] contents_fold [OF tied_fresh, of ds] assms by simp

end

text \<open>A buffer of the invariant with its size fixed.\<close>

definition sized_inv :: "int \<Rightarrow> bytes \<Rightarrow> head_tail_buffer \<Rightarrow> bool" where
  "sized_inv m xs b \<longleftrightarrow> buffer_inv xs b \<and> maxBytes b = max 0 m"

interpretation ht: output_sink "new_head_tail_buffer m" push_chunk buffer_bytes
    "retained_spec (max 0 m)" "sized_inv m" for m
  by unfold_locales
    (auto simp: sized_inv_def new_buffer_inv maxBytes_new push_chunk_inv buffer_inv_bytes)

lemma sized_inv_push_all: "sized_inv m xs b \<Longrightarrow> sized_inv m (xs @ concat cs) (push_all cs b)"
  unfolding push_all_def by (rule ht.tied_fold)

lemma sized_inv_new: "sized_inv m [] (new_head_tail_buffer m)"
  by (rule ht.tied_fresh)

lemma length_retained_spec:
  "length (retained_spec m xs) \<le> nat m"
  "1 < m \<Longrightarrow> length (retained_spec m xs) < nat m"
proof -
  have len: "length (retained_spec m xs) \<le> head_room m + tail_room m"
    by (simp add: retained_spec_def)
  also have "head_room m + tail_room m \<le> nat m"
    by (auto simp: head_room_def tail_room_def)
  finally show "length (retained_spec m xs) \<le> nat m" .
  have "int (head_room m + tail_room m) = m - 1" if "1 < m"
    using that by (simp add: head_room_def tail_room_def)
  then show "1 < m \<Longrightarrow> length (retained_spec m xs) < nat m" using len by linarith
qed

text \<open>Retaining what was already retained changes nothing: why a clone has the same bytes.\<close>

lemma retained_spec_idem: "retained_spec m (retained_spec m xs) = retained_spec m xs"
proof (cases "head_room m \<le> length xs")
  case True
  then have "take (head_room m) (retained_spec m xs) = take (head_room m) xs"
    and "drop (head_room m) (retained_spec m xs) = last_n (tail_room m) (drop (head_room m) xs)"
    by (simp_all add: retained_spec_def)
  then show ?thesis by (simp add: retained_spec_def)
next
  case False
  then show ?thesis by (simp add: retained_spec_def)
qed

section \<open>Properties\<close>

text \<open>C33: whatever chunks the output arrives in, a new buffer holds the first half of its budget of
  the concatenated stream followed by the last bytes of the rest, its counters agree with its
  contents, and the omitted count is exactly what is missing.\<close>

theorem head_tail_buffer_contents:
  "buffer_bytes (push_all cs (new_head_tail_buffer n)) = retained_spec (max 0 n) (concat cs) \<and>
   retained_bytes (push_all cs (new_head_tail_buffer n)) =
     int (length (retained_spec (max 0 n) (concat cs))) \<and>
   omittedBytes (push_all cs (new_head_tail_buffer n)) =
     int (length (concat cs)) - int (length (retained_spec (max 0 n) (concat cs)))"
proof -
  have inv: "sized_inv n (concat cs) (push_all cs (new_head_tail_buffer n))"
    using sized_inv_push_all [OF sized_inv_new] by simp
  then show ?thesis
    using ht.tied_contents [OF inv] by (auto simp: sized_inv_def dest: buffer_inv_counts)
qed

text \<open>The retained bytes never exceed the budget, and once anything was omitted a budget above
  one byte leaves at least one byte free for the omission marker.\<close>

theorem head_tail_buffer_bounded:
  fixes cs n
  defines "b \<equiv> push_all cs (new_head_tail_buffer n)"
  shows "0 \<le> retained_bytes b \<and>
    retained_bytes b \<le> (if 0 < omittedBytes b \<and> 1 < n then n - 1 else max 0 n)"
proof -
  have inv: "sized_inv n (concat cs) b"
    using sized_inv_push_all [OF sized_inv_new] by (simp add: b_def)
  then have bytes: "buffer_bytes b = retained_spec (max 0 n) (concat cs)"
    and counts: "retained_bytes b = int (length (buffer_bytes b))"
      "omittedBytes b = int (length (concat cs)) - retained_bytes b"
    using ht.tied_contents [OF inv] buffer_inv_counts by (auto simp: sized_inv_def)
  show ?thesis
    using length_retained_spec [of "max 0 n" "concat cs"] bytes counts by auto
qed

lemma clone_output_same:
  assumes "buffer_inv xs b"
  shows "buffer_bytes (clone_output b) = buffer_bytes b \<and>
    maxBytes (clone_output b) = maxBytes b \<and> omittedBytes (clone_output b) = omittedBytes b"
proof -
  let ?m = "maxBytes b"
  have nonneg: "0 \<le> ?m" using assms by (simp add: buffer_inv_def)
  have snap: "concat (snapshot_chunks b) = buffer_bytes b"
    by (simp add: snapshot_chunks_def buffer_bytes_def)
  have inv: "sized_inv ?m (buffer_bytes b) (push_all (snapshot_chunks b) (new_head_tail_buffer ?m))"
    using sized_inv_push_all [OF sized_inv_new, of ?m "snapshot_chunks b"] snap by simp
  have "retained_spec ?m (buffer_bytes b) = buffer_bytes b"
    using buffer_inv_bytes [OF assms] retained_spec_idem by simp
  moreover have "buffer_bytes (clone_output b) =
      buffer_bytes (push_all (snapshot_chunks b) (new_head_tail_buffer ?m))"
    by (simp add: clone_output_def buffer_bytes_def)
  ultimately show ?thesis
    using ht.tied_contents [OF inv] inv nonneg by (simp add: clone_output_def sized_inv_def)
qed

text \<open>The copy of an entry's output (as handed out by the process store) has the same bytes, size
  and omitted count as the original, for every buffer reachable by pushes, drains included.\<close>

theorem clone_output_faithful:
  assumes "buffer_inv xs b"
  shows "buffer_bytes (clone_output b) = buffer_bytes b \<and>
    maxBytes (clone_output b) = maxBytes b \<and> omittedBytes (clone_output b) = omittedBytes b"
  by (rule clone_output_same [OF assms])

theorem clone_output_faithful_witness:
  "buffer_inv ''abcdefgh'' (push_all [''abc'', ''defgh''] (new_head_tail_buffer 5)) \<and>
   buffer_bytes (clone_output (push_all [''abc'', ''defgh''] (new_head_tail_buffer 5))) = ''abgh'' \<and>
   omittedBytes (clone_output (push_all [''abc'', ''defgh''] (new_head_tail_buffer 5))) = 4"
proof -
  let ?b = "push_all [''abc'', ''defgh''] (new_head_tail_buffer 5)"
  have inv: "buffer_inv ''abcdefgh'' ?b"
    using sized_inv_push_all [OF sized_inv_new, of 5 "[''abc'', ''defgh'']"]
    by (simp add: sized_inv_def)
  have "buffer_bytes ?b = ''abgh''" and "omittedBytes ?b = 4"
    by code_simp+
  then show ?thesis using clone_output_faithful [OF inv] inv by simp
qed

text \<open>Draining hands out the retained chunks and leaves a buffer that treats the later stream as a
  fresh one of the same size would.\<close>

theorem drain_starts_afresh:
  fixes cs ds n
  defines "r \<equiv> drain_chunks (push_all cs (new_head_tail_buffer n))"
  shows "concat (fst r) = retained_spec (max 0 n) (concat cs) \<and>
    buffer_bytes (snd r) = [] \<and> omittedBytes (snd r) = 0 \<and>
    buffer_bytes (push_all ds (snd r)) = buffer_bytes (push_all ds (new_head_tail_buffer n))"
proof -
  let ?b = "push_all cs (new_head_tail_buffer n)"
  have inv: "sized_inv n (concat cs) ?b"
    using sized_inv_push_all [OF sized_inv_new] by simp
  then have "sized_inv n [] (snd r)"
    using drain_inv by (auto simp: sized_inv_def r_def drain_chunks_def)
  then have "sized_inv n (concat ds) (push_all ds (snd r))"
    using sized_inv_push_all by fastforce
  moreover have "sized_inv n (concat ds) (push_all ds (new_head_tail_buffer n))"
    using sized_inv_push_all [OF sized_inv_new] by fastforce
  moreover have "concat (fst r) = buffer_bytes ?b"
    by (simp add: r_def drain_chunks_def snapshot_chunks_def buffer_bytes_def)
  ultimately show ?thesis
    using ht.tied_contents inv
    by (simp add: r_def drain_chunks_def) (simp add: buffer_bytes_def)
qed

end
