(* ===== verification/Go_Strings.thy ===== *)
theory Go_Strings
  imports Go_Prelude
begin

text \<open>
  The part of Go's \<open>strings\<close>, \<open>unicode/utf8\<close>, \<open>strconv\<close> and \<open>path/filepath\<close> packages (on a
  Unix host) that the modelled code calls, on byte strings.  \<open>strings.TrimSpace\<close> removes the
  runes of \<open>unicode.IsSpace\<close>: on bytes that is the removal of their UTF-8 encodings, because no
  encoding is a proper part of another at a rune boundary.
\<close>

abbreviation "LF \<equiv> CHR 0x0A"
abbreviation "CR \<equiv> CHR 0x0D"
abbreviation "TAB \<equiv> CHR 0x09"

section \<open>Prefixes, suffixes and cuts\<close>

definition has_prefix :: "bytes \<Rightarrow> bytes \<Rightarrow> bool" where
  "has_prefix s p \<longleftrightarrow> take (length p) s = p"

definition has_suffix :: "bytes \<Rightarrow> bytes \<Rightarrow> bool" where
  "has_suffix s p \<longleftrightarrow> length p \<le> length s \<and> drop (length s - length p) s = p"

definition trim_prefix :: "bytes \<Rightarrow> bytes \<Rightarrow> bytes" where
  "trim_prefix s p = (if has_prefix s p then drop (length p) s else s)"

definition trim_suffix :: "bytes \<Rightarrow> bytes \<Rightarrow> bytes" where
  "trim_suffix s p = (if has_suffix s p then take (length s - length p) s else s)"

definition cut_prefix :: "bytes \<Rightarrow> bytes \<Rightarrow> bytes option" where
  "cut_prefix s p = (if has_prefix s p then Some (drop (length p) s) else None)"

lemma has_prefix_append [simp]: "has_prefix (p @ s) p"
  by (simp add: has_prefix_def)

lemma has_prefix_iff: "has_prefix s p \<longleftrightarrow> (\<exists>r. s = p @ r)"
  by (auto simp: has_prefix_def) (metis append_take_drop_id)

lemma has_suffix_append [simp]: "has_suffix (s @ p) p"
  by (simp add: has_suffix_def)

lemma has_suffix_iff: "has_suffix s p \<longleftrightarrow> (\<exists>r. s = r @ p)"
  by (auto simp: has_suffix_def) (metis append_take_drop_id)

lemma trim_prefix_append [simp]: "trim_prefix (p @ s) p = s"
  by (simp add: trim_prefix_def)

lemma cut_prefix_append [simp]: "cut_prefix (p @ s) p = Some s"
  by (simp add: cut_prefix_def)

lemma cut_prefix_eq_Some: "cut_prefix s p = Some r \<longleftrightarrow> s = p @ r"
  by (auto simp: cut_prefix_def has_prefix_iff)

lemma has_prefix_Cons [simp]: "has_prefix (c # s) (d # p) \<longleftrightarrow> c = d \<and> has_prefix s p"
  by (auto simp: has_prefix_def)

lemma has_prefix_Nil [simp]: "has_prefix s []"
  by (simp add: has_prefix_def)

lemma has_prefix_empty [simp]: "has_prefix [] p \<longleftrightarrow> p = []"
  by (auto simp: has_prefix_def)

section \<open>White space\<close>

text \<open>The UTF-8 encodings of the runes of \<open>unicode.IsSpace\<close>.\<close>

definition space_runes :: "bytes list" where
  "space_runes =
     [[CHR 0x09], [CHR 0x0A], [CHR 0x0B], [CHR 0x0C], [CHR 0x0D], [CHR 0x20],
      [CHR 0xC2, CHR 0x85], [CHR 0xC2, CHR 0xA0], [CHR 0xE1, CHR 0x9A, CHR 0x80],
      [CHR 0xE2, CHR 0x80, CHR 0x80], [CHR 0xE2, CHR 0x80, CHR 0x81],
      [CHR 0xE2, CHR 0x80, CHR 0x82], [CHR 0xE2, CHR 0x80, CHR 0x83],
      [CHR 0xE2, CHR 0x80, CHR 0x84], [CHR 0xE2, CHR 0x80, CHR 0x85],
      [CHR 0xE2, CHR 0x80, CHR 0x86], [CHR 0xE2, CHR 0x80, CHR 0x87],
      [CHR 0xE2, CHR 0x80, CHR 0x88], [CHR 0xE2, CHR 0x80, CHR 0x89],
      [CHR 0xE2, CHR 0x80, CHR 0x8A], [CHR 0xE2, CHR 0x80, CHR 0xA8],
      [CHR 0xE2, CHR 0x80, CHR 0xA9], [CHR 0xE2, CHR 0x80, CHR 0xAF],
      [CHR 0xE2, CHR 0x81, CHR 0x9F], [CHR 0xE3, CHR 0x80, CHR 0x80]]"

lemma space_runes_nonempty: "w \<in> set space_runes \<Longrightarrow> w \<noteq> []"
  by (auto simp: space_runes_def)

definition leading_space :: "bytes \<Rightarrow> bytes option" where
  "leading_space s = find (has_prefix s) space_runes"

definition trailing_space :: "bytes \<Rightarrow> bytes option" where
  "trailing_space s = find (has_suffix s) space_runes"

lemma leading_space_rune: "leading_space s = Some w \<Longrightarrow> w \<in> set space_runes"
  by (auto simp: leading_space_def find_Some_iff dest: nth_mem)

lemma trailing_space_rune: "trailing_space s = Some w \<Longrightarrow> w \<in> set space_runes"
  by (auto simp: trailing_space_def find_Some_iff dest: nth_mem)

lemma leading_space_Some: "leading_space s = Some w \<Longrightarrow> w \<noteq> [] \<and> has_prefix s w"
  using leading_space_rune [of s w] by (auto simp: leading_space_def find_Some_iff dest: space_runes_nonempty)

lemma trailing_space_Some: "trailing_space s = Some w \<Longrightarrow> w \<noteq> [] \<and> has_suffix s w"
  using trailing_space_rune [of s w] by (auto simp: trailing_space_def find_Some_iff dest: space_runes_nonempty)

function trim_left :: "bytes \<Rightarrow> bytes" where
  "trim_left s = (case leading_space s of None \<Rightarrow> s | Some w \<Rightarrow> trim_left (drop (length w) s))"
  by pat_completeness auto
termination
proof (relation "measure length", goal_cases)
  case (2 s w)
  then have "w \<noteq> [] \<and> has_prefix s w" by (rule leading_space_Some)
  then show ?case by (auto simp: has_prefix_iff)
qed simp

function trim_right :: "bytes \<Rightarrow> bytes" where
  "trim_right s =
     (case trailing_space s of None \<Rightarrow> s | Some w \<Rightarrow> trim_right (take (length s - length w) s))"
  by pat_completeness auto
termination
proof (relation "measure length", goal_cases)
  case (2 s w)
  then have "w \<noteq> [] \<and> has_suffix s w" by (rule trailing_space_Some)
  then show ?case by (auto simp: has_suffix_iff)
qed simp

declare trim_left.simps [simp del] trim_right.simps [simp del]

definition trim_space :: "bytes \<Rightarrow> bytes" where
  "trim_space s = trim_right (trim_left s)"

text \<open>\<open>strings.TrimRight(s, " \t")\<close>.\<close>

definition trim_right_blanks :: "bytes \<Rightarrow> bytes" where
  "trim_right_blanks s = rev (dropWhile (\<lambda>c. c = CHR '' '' \<or> c = TAB) (rev s))"

lemma trim_left_id: "leading_space s = None \<Longrightarrow> trim_left s = s"
  by (simp add: trim_left.simps)

lemma trim_right_id: "trailing_space s = None \<Longrightarrow> trim_right s = s"
  by (simp add: trim_right.simps)

lemma trim_left_suffix: "\<exists>r. s = r @ trim_left s"
proof (induction s rule: trim_left.induct)
  case (1 s)
  show ?case
  proof (cases "leading_space s")
    case None
    then show ?thesis by (simp add: trim_left_id)
  next
    case (Some w)
    then obtain r where "drop (length w) s = r @ trim_left (drop (length w) s)"
      using "1.IH" by blast
    then have "s = (take (length w) s @ r) @ trim_left (drop (length w) s)"
      by (metis append.assoc append_take_drop_id)
    moreover have "trim_left s = trim_left (drop (length w) s)"
      using Some by (simp add: trim_left.simps [of s])
    ultimately show ?thesis by metis
  qed
qed

lemma trim_right_prefix: "\<exists>r. s = trim_right s @ r"
proof (induction s rule: trim_right.induct)
  case (1 s)
  show ?case
  proof (cases "trailing_space s")
    case None
    then show ?thesis by (simp add: trim_right_id)
  next
    case (Some w)
    let ?t = "take (length s - length w) s"
    obtain r where "?t = trim_right ?t @ r" using "1.IH" Some by blast
    then have "s = trim_right ?t @ (r @ drop (length s - length w) s)"
      by (metis append.assoc append_take_drop_id)
    moreover have "trim_right s = trim_right ?t"
      using Some by (simp add: trim_right.simps [of s])
    ultimately show ?thesis by metis
  qed
qed

lemma trailing_space_trim_right [simp]: "trailing_space (trim_right s) = None"
proof (induction s rule: trim_right.induct)
  case (1 s)
  then show ?case by (cases "trailing_space s") (auto simp: trim_right.simps [of s])
qed

lemma leading_space_trim_left [simp]: "leading_space (trim_left s) = None"
proof (induction s rule: trim_left.induct)
  case (1 s)
  then show ?case by (cases "leading_space s") (auto simp: trim_left.simps [of s])
qed

lemma trim_space_id: "leading_space s = None \<Longrightarrow> trailing_space s = None \<Longrightarrow> trim_space s = s"
  by (simp add: trim_space_def trim_left_id trim_right_id)

lemma leading_space_take: "leading_space s = None \<Longrightarrow> s = t @ r \<Longrightarrow> leading_space t = None"
  by (auto simp: leading_space_def find_None_iff has_prefix_iff)

lemma trim_space_idem [simp]: "trim_space (trim_space s) = trim_space s"
proof -
  obtain r where "trim_left s = trim_right (trim_left s) @ r" using trim_right_prefix by blast
  then have "leading_space (trim_right (trim_left s)) = None"
    using leading_space_take leading_space_trim_left by blast
  then show ?thesis by (simp add: trim_space_def trim_left_id trim_right_id)
qed

lemma trim_space_infix: "\<exists>r1 r2. s = r1 @ trim_space s @ r2"
  using trim_left_suffix [of s] trim_right_prefix [of "trim_left s"]
  by (metis append.assoc trim_space_def)

lemma set_trim_space: "set (trim_space s) \<subseteq> set s"
  using trim_space_infix [of s] by (metis Un_iff set_append subsetI)

text \<open>A line that starts (ends) with a printable ASCII byte keeps that end when trimmed.\<close>

definition ascii_graphic :: "char \<Rightarrow> bool" where
  "ascii_graphic c \<longleftrightarrow> 0x20 < (of_char c :: nat) \<and> (of_char c :: nat) < 0x80"

lemma space_rune_last: "w \<in> set space_runes \<Longrightarrow> \<not> ascii_graphic (last w)"
  by (auto simp: space_runes_def ascii_graphic_def)

lemma space_rune_hd: "w \<in> set space_runes \<Longrightarrow> \<not> ascii_graphic (hd w)"
  by (auto simp: space_runes_def ascii_graphic_def)

lemma leading_space_graphic [simp]:
  assumes "ascii_graphic c" shows "leading_space (c # s) = None"
proof (cases "leading_space (c # s)")
  case (Some w)
  then have "hd w = c" using leading_space_Some [OF Some] by (auto simp: has_prefix_iff Cons_eq_append_conv)
  then show ?thesis using assms space_rune_hd [OF leading_space_rune [OF Some]] by simp
qed simp

lemma trailing_space_graphic [simp]:
  assumes "ascii_graphic c" shows "trailing_space (s @ [c]) = None"
proof (cases "trailing_space (s @ [c])")
  case (Some w)
  then have "w \<noteq> []" "has_suffix (s @ [c]) w" by (simp_all add: trailing_space_Some)
  then have "last w = c" by (auto simp: has_suffix_iff) (metis last_appendR last_snoc)
  then show ?thesis using assms space_rune_last [OF trailing_space_rune [OF Some]] by simp
qed simp

lemma leading_space_Nil [simp]: "leading_space [] = None"
  by (auto simp: leading_space_def find_None_iff dest: space_runes_nonempty)

lemma trailing_space_Nil [simp]: "trailing_space [] = None"
  by (auto simp: trailing_space_def find_None_iff has_suffix_def dest: space_runes_nonempty)

lemma trim_space_Nil [simp]: "trim_space [] = []"
  by (simp add: trim_space_id)

text \<open>Equations that evaluate: the test comes before the recursive call.\<close>

lemma trim_left_code [code]:
  "trim_left s = (if leading_space s = None then s
                  else trim_left (drop (length (the (leading_space s))) s))"
  by (simp add: trim_left.simps [of s] split: option.split)

lemma trim_right_code [code]:
  "trim_right s = (if trailing_space s = None then s
                   else trim_right (take (length s - length (the (trailing_space s))) s))"
  by (simp add: trim_right.simps [of s] split: option.split)

lemma trim_left_graphic [simp]: "ascii_graphic c \<Longrightarrow> trim_left (c # s) = c # s"
  by (simp add: trim_left_id)

lemma trim_right_graphic_Cons: "ascii_graphic c \<Longrightarrow> \<exists>r. trim_right (c # s) = c # r"
proof (induction "c # s" arbitrary: s rule: trim_right.induct)
  case (1 s)
  show ?case
  proof (cases "trailing_space (c # s)")
    case None
    then show ?thesis by (simp add: trim_right_id)
  next
    case (Some w)
    then have w: "w \<noteq> [] \<and> has_suffix (c # s) w" by (rule trailing_space_Some)
    have "w \<noteq> c # s"
      using "1.prems" space_rune_hd [OF trailing_space_rune [OF Some]] by auto
    then have "length w < length (c # s)"
      using w by (auto simp: has_suffix_iff Cons_eq_append_conv)
    then have t: "take (length (c # s) - length w) (c # s) = c # take (length s - length w) s"
      by (cases "length (c # s) - length w") (auto simp: Suc_diff_le)
    show ?thesis using "1.hyps" [OF Some t "1.prems"] Some t
      by (subst trim_right.simps) simp
  qed
qed

lemma trim_space_graphic_Cons: "ascii_graphic c \<Longrightarrow> \<exists>r. trim_space (c # s) = c # r"
  by (simp add: trim_space_def trim_right_graphic_Cons)


section \<open>Searching, replacing, splitting and joining\<close>

fun contains_bytes :: "bytes \<Rightarrow> bytes \<Rightarrow> bool" where
  "contains_bytes [] p \<longleftrightarrow> p = []"
| "contains_bytes (c # s) p \<longleftrightarrow> has_prefix (c # s) p \<or> contains_bytes s p"

lemma contains_bytes_append: "contains_bytes s p \<Longrightarrow> contains_bytes (r @ s) p"
  by (induction r) auto

lemma contains_bytes_prefix: "has_prefix s p \<Longrightarrow> contains_bytes s p"
  by (cases s) auto

text \<open>\<open>strings.ReplaceAll(s, "\\r\\n", "\\n")\<close> and \<open>strings.ReplaceAll(s, "\\r", "\\n")\<close>.\<close>

fun replace_crlf :: "bytes \<Rightarrow> bytes" where
  "replace_crlf [] = []"
| "replace_crlf [c] = [c]"
| "replace_crlf (c # d # s) =
     (if c = CR \<and> d = LF then LF # replace_crlf s else c # replace_crlf (d # s))"

definition replace_cr :: "bytes \<Rightarrow> bytes" where
  "replace_cr s = map (\<lambda>c. if c = CR then LF else c) s"

lemma replace_crlf_id: "CR \<notin> set s \<Longrightarrow> replace_crlf s = s"
  by (induction s rule: replace_crlf.induct) auto

lemma replace_cr_id: "CR \<notin> set s \<Longrightarrow> replace_cr s = s"
  by (induction s) (auto simp: replace_cr_def)

text \<open>\<open>strings.Split\<close> on a one-byte separator.\<close>

fun split_on :: "char \<Rightarrow> bytes \<Rightarrow> bytes list" where
  "split_on c [] = [[]]"
| "split_on c (x # xs) =
     (if x = c then [] # split_on c xs
      else (case split_on c xs of [] \<Rightarrow> [[x]] | y # ys \<Rightarrow> (x # y) # ys))"

fun join_with :: "bytes \<Rightarrow> bytes list \<Rightarrow> bytes" where
  "join_with sep [] = []"
| "join_with sep [x] = x"
| "join_with sep (x # y # ys) = x @ sep @ join_with sep (y # ys)"

lemma split_on_nonempty [simp]: "split_on c s \<noteq> []"
  by (induction s) (auto split: list.splits)

lemma split_on_no_sep: "x \<in> set (split_on c s) \<Longrightarrow> c \<notin> set x"
  by (induction s arbitrary: x) (auto split: list.splits if_splits)

lemma split_on_id: "c \<notin> set s \<Longrightarrow> split_on c s = [s]"
  by (induction s) auto

lemma split_on_append: "c \<notin> set x \<Longrightarrow> split_on c (x @ c # s) = x # split_on c s"
  by (induction x) auto

lemma split_on_join:
  "xs \<noteq> [] \<Longrightarrow> (\<And>x. x \<in> set xs \<Longrightarrow> c \<notin> set x) \<Longrightarrow> split_on c (join_with [c] xs) = xs"
  by (induction "[c]" xs rule: join_with.induct) (auto simp: split_on_id split_on_append)

lemma join_split_on: "join_with [c] (split_on c s) = s"
proof (induction s)
  case Nil
  then show ?case by simp
next
  case (Cons x s)
  then show ?case by (cases "split_on c s") (auto split: list.splits, (case_tac list; simp)+)
qed

lemma set_join_with: "set (join_with sep xs) \<subseteq> set sep \<union> (\<Union>x \<in> set xs. set x)"
  by (induction sep xs rule: join_with.induct) auto

lemma join_with_snoc: "xs \<noteq> [] \<Longrightarrow> join_with sep (xs @ [x]) = join_with sep xs @ sep @ x"
  by (induction sep xs rule: join_with.induct) auto

section \<open>Decimal numbers\<close>

fun dec_nat :: "nat \<Rightarrow> bytes" where
  "dec_nat n = (if n < 10 then [char_of (48 + n)] else dec_nat (n div 10) @ [char_of (48 + n mod 10)])"

declare dec_nat.simps [simp del]

definition dec_int :: "int \<Rightarrow> bytes" where
  "dec_int i = (if i < 0 then CHR ''-'' # dec_nat (nat (- i)) else dec_nat (nat i))"

section \<open>Runes\<close>

text \<open>\<open>utf8.DecodeRune\<close>: the rune at the front of the bytes and its width; a byte that starts no
  valid encoding is the rune U+FFFD of width one.\<close>

definition cont_byte :: "nat \<Rightarrow> bool" where
  "cont_byte n \<longleftrightarrow> 0x80 \<le> n \<and> n \<le> 0xBF"

definition second_byte_ok :: "nat \<Rightarrow> nat \<Rightarrow> bool" where
  "second_byte_ok b0 b1 \<longleftrightarrow>
     (if b0 = 0xE0 then 0xA0 \<le> b1 \<and> b1 \<le> 0xBF
      else if b0 = 0xED then 0x80 \<le> b1 \<and> b1 \<le> 0x9F
      else if b0 = 0xF0 then 0x90 \<le> b1 \<and> b1 \<le> 0xBF
      else if b0 = 0xF4 then 0x80 \<le> b1 \<and> b1 \<le> 0x8F
      else cont_byte b1)"

definition rune_error :: nat where
  "rune_error = 0xFFFD"

definition decode_rune :: "nat list \<Rightarrow> nat \<times> nat" where
  "decode_rune bs =
     (case bs of
        [] \<Rightarrow> (rune_error, 0)
      | b0 # r0 \<Rightarrow>
        if b0 < 0x80 then (b0, 1)
        else if b0 < 0xC2 \<or> 0xF4 < b0 then (rune_error, 1)
        else (case r0 of
            [] \<Rightarrow> (rune_error, 1)
          | b1 # r1 \<Rightarrow>
            if \<not> second_byte_ok b0 b1 then (rune_error, 1)
            else if b0 < 0xE0 then ((b0 - 0xC0) * 0x40 + (b1 - 0x80), 2)
            else (case r1 of
                [] \<Rightarrow> (rune_error, 1)
              | b2 # r2 \<Rightarrow>
                if \<not> cont_byte b2 then (rune_error, 1)
                else if b0 < 0xF0
                  then ((b0 - 0xE0) * 0x1000 + (b1 - 0x80) * 0x40 + (b2 - 0x80), 3)
                else (case r2 of
                    [] \<Rightarrow> (rune_error, 1)
                  | b3 # r3 \<Rightarrow>
                    if \<not> cont_byte b3 then (rune_error, 1)
                    else ((b0 - 0xF0) * 0x40000 + (b1 - 0x80) * 0x1000
                          + (b2 - 0x80) * 0x40 + (b3 - 0x80), 4)))))"

text \<open>\<open>utf8.EncodeRune\<close>, which \<open>WriteRune\<close> uses.\<close>

definition encode_rune :: "nat \<Rightarrow> nat list" where
  "encode_rune r =
     (if r < 0x80 then [r]
      else if r < 0x800 then [0xC0 + r div 0x40, 0x80 + r mod 0x40]
      else if (0xD800 \<le> r \<and> r \<le> 0xDFFF) \<or> 0x10FFFF < r then [0xEF, 0xBF, 0xBD]
      else if r < 0x10000 then [0xE0 + r div 0x1000, 0x80 + r div 0x40 mod 0x40, 0x80 + r mod 0x40]
      else [0xF0 + r div 0x40000, 0x80 + r div 0x1000 mod 0x40,
            0x80 + r div 0x40 mod 0x40, 0x80 + r mod 0x40])"

text \<open>The runes of a string, as \<open>for _, r := range s\<close> visits them.\<close>

lemma decode_rune_width: "bs \<noteq> [] \<Longrightarrow> 0 < snd (decode_rune bs)"
  by (auto simp: decode_rune_def split: list.splits)

function runes_of :: "nat list \<Rightarrow> nat list" where
  "runes_of bs = (if bs = [] then []
     else fst (decode_rune bs) # runes_of (drop (snd (decode_rune bs)) bs))"
  by pat_completeness auto
termination
  by (relation "measure length") (use decode_rune_width in auto)

declare runes_of.simps [simp del]

definition string_runes :: "bytes \<Rightarrow> nat list" where
  "string_runes s = runes_of (map of_char s)"

definition string_of_runes :: "nat list \<Rightarrow> bytes" where
  "string_of_runes rs = map char_of (concat (map encode_rune rs))"

lemma runes_of_ascii: "(\<And>b. b \<in> set bs \<Longrightarrow> b < 0x80) \<Longrightarrow> runes_of bs = bs"
proof (induction bs)
  case Nil
  then show ?case by (simp add: runes_of.simps)
next
  case (Cons b bs)
  then show ?case by (subst runes_of.simps) (simp add: decode_rune_def)
qed

end
