(* ===== verification/Process_Store.thy ===== *)
theory Process_Store
  imports Head_Tail_Buffer Go_Strings
begin

text \<open>
  The store of unified exec processes, \<open>Store\<close> in \<open>exec/buffer.go\<close>: a bounded table of entries
  with their output buffers, whose operations run under one mutex, so a run of the program is a
  sequence of operations.  The table is ranged over by \<open>Create\<close> and \<open>List\<close>; it is an association
  list.  Entries are handed out as copies.
\<close>

section \<open>State\<close>

record process_state =
  has_exited :: bool
  exit_code :: "int option"
  failure_message :: bytes
  sandbox_denied :: bool

definition state_exited :: "int \<Rightarrow> process_state \<Rightarrow> process_state" where
  "state_exited code s = s\<lparr>has_exited := True, exit_code := Some code\<rparr>"

definition state_failed :: "bytes \<Rightarrow> process_state \<Rightarrow> process_state" where
  "state_failed message s = s\<lparr>has_exited := True, failure_message := message\<rparr>"

record process_entry =
  entry_id :: int
  command :: "bytes list"
  entry_cwd :: bytes
  tty :: bool
  entry_state :: process_state
  entry_output :: head_tail_buffer
  stdin :: "bytes list"
  closed :: bool
  call_id :: bytes

record store =
  next_id :: int
  max_processes :: int
  processes :: "(int \<times> process_entry) list"

datatype store_error =
  MissingCommand | ProcessLimit int | UnknownProcessID int | StdinClosed

definition default_output_max_bytes :: int where
  "default_output_max_bytes = 64 * 1024"

definition default_max_processes :: int where
  "default_max_processes = 64"

section \<open>Operations\<close>

definition new_store :: "int \<Rightarrow> store" where
  "new_store m = \<lparr>next_id = 1, max_processes = (if m \<le> 0 then default_max_processes else m), processes = []\<rparr>"

definition active_count :: "store \<Rightarrow> int" where
  "active_count s = int (length (filter (\<lambda>(i, e). \<not> has_exited (entry_state e)) (processes s)))"

definition clone_entry :: "process_entry \<Rightarrow> process_entry" where
  "clone_entry e = e\<lparr>entry_output := clone_output (entry_output e)\<rparr>"

definition new_entry :: "int \<Rightarrow> bytes list \<Rightarrow> bytes \<Rightarrow> bool \<Rightarrow> process_entry" where
  "new_entry i cmd cwd tt = \<lparr>entry_id = i, command = cmd, entry_cwd = cwd, tty = tt,
     entry_state = \<lparr>has_exited = False, exit_code = None, failure_message = '''', sandbox_denied = False\<rparr>,
     entry_output = new_head_tail_buffer default_output_max_bytes, stdin = [], closed = False,
     call_id = ''exec-'' @ dec_int i\<rparr>"

definition create_process ::
  "bytes list \<Rightarrow> bytes \<Rightarrow> bool \<Rightarrow> store \<Rightarrow> (store_error + process_entry) \<times> store" where
  "create_process cmd cwd tt s =
     (if cmd = [] then (Inl MissingCommand, s)
      else if max_processes s \<le> active_count s then (Inl (ProcessLimit (max_processes s)), s)
      else let i = next_id s; e = new_entry i cmd cwd tt in
        (Inr (clone_entry e), s\<lparr>next_id := next_id s + 1, processes := AList.update i e (processes s)\<rparr>))"

definition get_process :: "int \<Rightarrow> store \<Rightarrow> store_error + process_entry" where
  "get_process i s = (case map_of (processes s) i of
     None \<Rightarrow> Inl (UnknownProcessID i) | Some e \<Rightarrow> Inr (clone_entry e))"

definition append_output :: "int \<Rightarrow> bytes \<Rightarrow> store \<Rightarrow> store_error option \<times> store" where
  "append_output i chunk s = (case map_of (processes s) i of
     None \<Rightarrow> (Some (UnknownProcessID i), s)
   | Some e \<Rightarrow> (None, s\<lparr>processes :=
       AList.update i (e\<lparr>entry_output := push_chunk chunk (entry_output e)\<rparr>) (processes s)\<rparr>))"

definition write_stdin :: "int \<Rightarrow> bytes \<Rightarrow> store \<Rightarrow> store_error option \<times> store" where
  "write_stdin i input s = (case map_of (processes s) i of
     None \<Rightarrow> (Some (UnknownProcessID i), s)
   | Some e \<Rightarrow>
       if \<not> tty e \<or> closed e \<or> has_exited (entry_state e) then (Some StdinClosed, s)
       else (None, s\<lparr>processes := AList.update i (e\<lparr>stdin := stdin e @ [input]\<rparr>) (processes s)\<rparr>))"

definition mark_exited :: "int \<Rightarrow> int \<Rightarrow> store \<Rightarrow> store_error option \<times> store" where
  "mark_exited i code s = (case map_of (processes s) i of
     None \<Rightarrow> (Some (UnknownProcessID i), s)
   | Some e \<Rightarrow> (None, s\<lparr>processes :=
       AList.update i (e\<lparr>entry_state := state_exited code (entry_state e), closed := True\<rparr>) (processes s)\<rparr>))"

definition mark_failed :: "int \<Rightarrow> bytes \<Rightarrow> store \<Rightarrow> store_error option \<times> store" where
  "mark_failed i message s = (case map_of (processes s) i of
     None \<Rightarrow> (Some (UnknownProcessID i), s)
   | Some e \<Rightarrow> (None, s\<lparr>processes :=
       AList.update i (e\<lparr>entry_state := state_failed message (entry_state e), closed := True\<rparr>) (processes s)\<rparr>))"

definition delete_process :: "int \<Rightarrow> store \<Rightarrow> store_error option \<times> store" where
  "delete_process i s = (case map_of (processes s) i of
     None \<Rightarrow> (Some (UnknownProcessID i), s)
   | Some _ \<Rightarrow> (None, s\<lparr>processes := AList.delete i (processes s)\<rparr>))"

definition list_processes :: "store \<Rightarrow> process_entry list" where
  "list_processes s = map (\<lambda>i. clone_entry (the (map_of (processes s) i))) (sort (keys_of (processes s)))"

section \<open>Runs\<close>

datatype store_op =
    Create "bytes list" bytes bool
  | AppendOutput int bytes
  | WriteStdin int bytes
  | MarkExited int int
  | MarkFailed int bytes
  | Delete int

fun store_step :: "store_op \<Rightarrow> store \<Rightarrow> store" where
  "store_step (Create cmd cwd tt) s = snd (create_process cmd cwd tt s)"
| "store_step (AppendOutput i chunk) s = snd (append_output i chunk s)"
| "store_step (WriteStdin i input) s = snd (write_stdin i input s)"
| "store_step (MarkExited i code) s = snd (mark_exited i code s)"
| "store_step (MarkFailed i message) s = snd (mark_failed i message s)"
| "store_step (Delete i) s = snd (delete_process i s)"

definition run_store :: "store_op list \<Rightarrow> store \<Rightarrow> store" where
  "run_store ops s = fold store_step ops s"

section \<open>What the store promises\<close>

text \<open>The output stream of a process: every chunk appended since it was created.\<close>

definition stream_step :: "store_op \<Rightarrow> store \<Rightarrow> (int \<Rightarrow> bytes) \<Rightarrow> int \<Rightarrow> bytes" where
  "stream_step op s xs = (case op of
     AppendOutput i chunk \<Rightarrow> if map_of (processes s) i = None then xs else xs(i := xs i @ chunk)
   | _ \<Rightarrow> xs)"

fun streams :: "store_op list \<Rightarrow> store \<Rightarrow> (int \<Rightarrow> bytes) \<Rightarrow> int \<Rightarrow> bytes" where
  "streams [] s xs = xs"
| "streams (op # ops) s xs = streams ops (store_step op s) (stream_step op s xs)"

definition entry_ok :: "int \<Rightarrow> bytes \<Rightarrow> process_entry \<Rightarrow> bool" where
  "entry_ok i xs e \<longleftrightarrow> entry_id e = i \<and> call_id e = ''exec-'' @ dec_int i \<and> command e \<noteq> [] \<and>
     closed e = has_exited (entry_state e) \<and> (stdin e \<noteq> [] \<longrightarrow> tty e) \<and>
     sized_inv default_output_max_bytes xs (entry_output e)"

definition store_inv :: "(int \<Rightarrow> bytes) \<Rightarrow> store \<Rightarrow> bool" where
  "store_inv xs s \<longleftrightarrow> go_map (processes s) \<and> 1 \<le> next_id s \<and> 0 < max_processes s \<and>
     active_count s \<le> max_processes s \<and>
     (\<forall>i e. map_of (processes s) i = Some e \<longrightarrow> 1 \<le> i \<and> i < next_id s \<and> entry_ok i (xs i) e) \<and>
     (\<forall>i. next_id s \<le> i \<longrightarrow> xs i = '''')"

text \<open>How one changed entry shows in the number of active processes.\<close>

definition active_entries :: "(int \<times> process_entry) list \<Rightarrow> (int \<times> process_entry) list" where
  "active_entries m = filter (\<lambda>(i, e). \<not> has_exited (entry_state e)) m"

lemma active_count_alt: "active_count s = int (length (active_entries (processes s)))"
  by (simp add: active_count_def active_entries_def)

lemma active_update_old:
  "map_of m i = Some e \<Longrightarrow> (\<not> has_exited (entry_state e') \<Longrightarrow> \<not> has_exited (entry_state e)) \<Longrightarrow>
   length (active_entries (AList.update i e' m)) \<le> length (active_entries m)"
  by (induction m) (auto simp: active_entries_def)

lemma active_update_new:
  "map_of m i = None \<Longrightarrow> length (active_entries (AList.update i e' m)) \<le> Suc (length (active_entries m))"
  by (induction m) (auto simp: active_entries_def split: if_splits)

lemma active_delete: "length (active_entries (AList.delete i m)) \<le> length (active_entries m)"
  by (induction m) (auto simp: active_entries_def AList.delete_eq)

lemma store_inv_new: "store_inv (\<lambda>_. '''') (new_store m)"
  by (simp add: store_inv_def new_store_def active_count_def default_max_processes_def)

text \<open>Changing an entry in place, the shape of four of the operations.\<close>

lemma store_inv_change:
  assumes "store_inv xs s" and "map_of (processes s) i = Some e" and "entry_ok i (ys i) e'"
    and "\<not> has_exited (entry_state e') \<Longrightarrow> \<not> has_exited (entry_state e)"
    and "\<And>j. j \<noteq> i \<Longrightarrow> ys j = xs j"
  shows "store_inv ys (s\<lparr>processes := AList.update i e' (processes s)\<rparr>)"
proof -
  have "active_count (s\<lparr>processes := AList.update i e' (processes s)\<rparr>) \<le> active_count s"
    using active_update_old [OF assms(2,4)] by (simp add: active_count_alt)
  moreover have "1 \<le> i" "i < next_id s" using assms(1,2) by (auto simp: store_inv_def)
  ultimately show ?thesis
    using assms(1,3,5) unfolding store_inv_def by (auto simp: not_le split: if_splits)
qed

lemma entry_ok_changes:
  assumes "entry_ok i xs e"
  shows "entry_ok i (xs @ chunk) (e\<lparr>entry_output := push_chunk chunk (entry_output e)\<rparr>)"
    and "tty e \<Longrightarrow> entry_ok i xs (e\<lparr>stdin := stdin e @ [input]\<rparr>)"
    and "entry_ok i xs (e\<lparr>entry_state := state_exited code (entry_state e), closed := True\<rparr>)"
    and "entry_ok i xs (e\<lparr>entry_state := state_failed message (entry_state e), closed := True\<rparr>)"
  using assms by (simp_all add: entry_ok_def state_exited_def state_failed_def ht.tied_push)

lemma entry_ok_new: "cmd \<noteq> [] \<Longrightarrow> entry_ok i '''' (new_entry i cmd cwd tt)"
  by (simp add: entry_ok_def new_entry_def sized_inv_new)

lemma store_inv_entry: "store_inv xs s \<Longrightarrow> map_of (processes s) i = Some e \<Longrightarrow> entry_ok i (xs i) e"
  by (simp add: store_inv_def)

lemma store_inv_create:
  assumes "store_inv xs s" shows "store_inv xs (snd (create_process cmd cwd tt s))"
proof (cases "cmd = [] \<or> max_processes s \<le> active_count s")
  case False
  have fresh: "map_of (processes s) (next_id s) = None"
    using assms by (cases "map_of (processes s) (next_id s)") (auto simp: store_inv_def)
  let ?s = "s\<lparr>next_id := next_id s + 1,
     processes := AList.update (next_id s) (new_entry (next_id s) cmd cwd tt) (processes s)\<rparr>"
  have "active_count ?s \<le> max_processes s"
    using active_update_new [OF fresh, of "new_entry (next_id s) cmd cwd tt"] False
    by (simp add: active_count_alt)
  moreover have "xs (next_id s) = ''''" using assms by (simp add: store_inv_def)
  ultimately have "store_inv xs ?s"
    using assms False entry_ok_new [of cmd "next_id s" cwd tt]
    by (auto simp: store_inv_def split: if_splits intro!: less_imp_le)
  with False show ?thesis by (simp add: create_process_def Let_def)
qed (use assms in \<open>auto simp: create_process_def\<close>)

lemma store_inv_step:
  assumes "store_inv xs s" shows "store_inv (stream_step op s xs) (store_step op s)"
proof (cases op)
  case (Create cmd cwd tt)
  with assms store_inv_create show ?thesis by (simp add: stream_step_def)
next
  case (AppendOutput i chunk)
  show ?thesis
  proof (cases "map_of (processes s) i")
    case (Some e)
    with store_inv_entry [OF assms Some] AppendOutput show ?thesis
      by (auto simp: append_output_def stream_step_def entry_ok_changes
          intro!: store_inv_change [OF assms Some])
  qed (use assms AppendOutput in \<open>simp add: append_output_def stream_step_def\<close>)
next
  case (WriteStdin i input)
  show ?thesis
  proof (cases "map_of (processes s) i")
    case (Some e)
    with store_inv_entry [OF assms Some] WriteStdin assms show ?thesis
      by (auto simp: write_stdin_def stream_step_def entry_ok_changes
          intro!: store_inv_change [OF assms Some])
  qed (use assms WriteStdin in \<open>simp add: write_stdin_def stream_step_def\<close>)
next
  case (MarkExited i code)
  show ?thesis
  proof (cases "map_of (processes s) i")
    case (Some e)
    with store_inv_entry [OF assms Some] MarkExited show ?thesis
      by (auto simp: mark_exited_def stream_step_def entry_ok_changes
          intro!: store_inv_change [OF assms Some]) (simp add: state_exited_def)
  qed (use assms MarkExited in \<open>simp add: mark_exited_def stream_step_def\<close>)
next
  case (MarkFailed i message)
  show ?thesis
  proof (cases "map_of (processes s) i")
    case (Some e)
    with store_inv_entry [OF assms Some] MarkFailed show ?thesis
      by (auto simp: mark_failed_def stream_step_def entry_ok_changes
          intro!: store_inv_change [OF assms Some]) (simp add: state_failed_def)
  qed (use assms MarkFailed in \<open>simp add: mark_failed_def stream_step_def\<close>)
next
  case (Delete i)
  have "active_count (s\<lparr>processes := AList.delete i (processes s)\<rparr>) \<le> active_count s"
    using active_delete by (simp add: active_count_alt)
  with assms Delete show ?thesis
    by (auto simp: delete_process_def stream_step_def store_inv_def split: option.splits if_splits)
qed

lemma store_inv_run: "store_inv xs s \<Longrightarrow> store_inv (streams ops s xs) (run_store ops s)"
proof (induction ops arbitrary: s xs)
  case (Cons op ops)
  from Cons.IH [OF store_inv_step [OF Cons.prems, of op]] show ?case by (simp add: run_store_def)
qed (simp add: run_store_def)

section \<open>Properties\<close>

definition store_summary :: "store \<Rightarrow> bool" where
  "store_summary s \<longleftrightarrow> active_count s \<le> max_processes s \<and> go_map (processes s) \<and>
     list_all (\<lambda>(i, e). 1 \<le> i \<and> i < next_id s \<and> entry_id e = i \<and> call_id e = ''exec-'' @ dec_int i \<and>
       closed e = has_exited (entry_state e)) (processes s)"

lemma store_inv_summary:
  assumes "store_inv xs s" shows "store_summary s"
proof -
  have "1 \<le> i \<and> i < next_id s \<and> entry_ok i (xs i) e" if "(i, e) \<in> set (processes s)" for i e
    using assms that by (auto simp: store_inv_def)
  then show ?thesis
    using assms by (auto simp: store_summary_def store_inv_def list_all_iff entry_ok_def)
qed

text \<open>C34: after any sequence of operations on a new store, at most the configured number of processes
  is active, the ids in use are distinct, positive and below the next id, every entry carries its own
  id and call id, and its stdin is closed exactly when the process has exited.\<close>

theorem process_store_invariant: "store_summary (run_store ops (new_store m))"
  by (rule store_inv_summary [OF store_inv_run [OF store_inv_new]])

text \<open>What \<open>Get\<close> hands out for a process is its whole output history, cut to the buffer's budget:
  the bytes and the omitted count are functions of the chunks appended to that id since the store was
  created, however they were interleaved with operations on other processes.\<close>

theorem process_output_history:
  fixes ops m i
  defines "xs \<equiv> streams ops (new_store m) (\<lambda>_. '''')"
  shows "case get_process i (run_store ops (new_store m)) of
     Inl e \<Rightarrow> e = UnknownProcessID i
   | Inr e \<Rightarrow> entry_id e = i \<and>
       buffer_bytes (entry_output e) = retained_spec default_output_max_bytes (xs i) \<and>
       omittedBytes (entry_output e) =
         int (length (xs i)) - int (length (retained_spec default_output_max_bytes (xs i)))"
proof (cases "map_of (processes (run_store ops (new_store m))) i")
  case None
  then show ?thesis by (simp add: get_process_def)
next
  case (Some e)
  have inv: "store_inv xs (run_store ops (new_store m))"
    unfolding xs_def by (rule store_inv_run [OF store_inv_new])
  from store_inv_entry [OF inv Some] have ok: "entry_ok i (xs i) e" .
  then have sized: "sized_inv default_output_max_bytes (xs i) (entry_output e)"
    and buf: "buffer_inv (xs i) (entry_output e)" by (simp_all add: entry_ok_def sized_inv_def)
  from ht.tied_contents [OF sized] buffer_inv_counts [OF buf] clone_output_same [OF buf] Some ok
  show ?thesis
    by (simp add: get_process_def clone_entry_def entry_ok_def default_output_max_bytes_def)
qed

text \<open>The listing is complete and in order: strictly increasing ids, one copy per process.\<close>

theorem process_list_sorted:
  fixes ops m
  defines "s \<equiv> run_store ops (new_store m)"
  shows "sorted_wrt (<) (map entry_id (list_processes s)) \<and>
     set (map entry_id (list_processes s)) = set (keys_of (processes s)) \<and>
     map Inr (list_processes s) = map (\<lambda>i. get_process i s) (map entry_id (list_processes s))"
proof -
  have inv: "store_inv (streams ops (new_store m) (\<lambda>_. '''')) s"
    unfolding s_def by (rule store_inv_run [OF store_inv_new])
  have some: "\<exists>e. map_of (processes s) i = Some e \<and> entry_id e = i" if "i \<in> set (keys_of (processes s))" for i
  proof -
    from that obtain e where e: "map_of (processes s) i = Some e" unfolding in_keys_iff by blast
    from store_inv_entry [OF inv e] e show ?thesis by (simp add: entry_ok_def)
  qed
  have ids: "map entry_id (list_processes s) = sort (keys_of (processes s))"
    unfolding list_processes_def map_map using some
    by (intro map_idI) (fastforce simp: clone_entry_def)
  have "map Inr (list_processes s) = map (\<lambda>i. get_process i s) (sort (keys_of (processes s)))"
    unfolding list_processes_def map_map using some by (intro map_cong) (fastforce simp: get_process_def)+
  moreover have "sorted_wrt (<) (sort (keys_of (processes s)))"
    using inv by (simp add: store_inv_def strict_sorted_iff)
  ultimately show ?thesis by (simp add: ids)
qed

text \<open>A process that has exited, or is gone, as an operation sequence sees it.\<close>

definition frozen :: "int \<Rightarrow> process_entry \<Rightarrow> store \<Rightarrow> bool" where
  "frozen i e s \<longleftrightarrow> i < next_id s \<and> (case map_of (processes s) i of
     None \<Rightarrow> True
   | Some e' \<Rightarrow> has_exited (entry_state e') \<and> closed e' \<and> stdin e' = stdin e \<and> command e' = command e)"

lemma frozen_step: "frozen i e s \<Longrightarrow> frozen i e (store_step op s)"
  by (cases op) (auto simp: frozen_def create_process_def append_output_def write_stdin_def
      mark_exited_def mark_failed_def delete_process_def state_exited_def state_failed_def Let_def
      split: option.splits)

lemma frozen_run: "frozen i e s \<Longrightarrow> frozen i e (run_store ops s)"
proof (induction ops arbitrary: s)
  case (Cons op ops)
  from Cons.IH [OF frozen_step [OF Cons.prems, of op]] show ?case by (simp add: run_store_def)
qed (simp add: run_store_def)

text \<open>An exit is final: once a process is marked exited or failed, no later sequence of operations
  writes to its stdin, reopens it, or gives its id to another process.\<close>

theorem exited_process_is_final:
  assumes "map_of (processes (run_store before (new_store m))) i = Some e"
    and "op = MarkExited i code \<or> op = MarkFailed i message"
  shows "case map_of (processes (run_store (before @ op # after) (new_store m))) i of
     None \<Rightarrow> True
   | Some e' \<Rightarrow> has_exited (entry_state e') \<and> closed e' \<and> stdin e' = stdin e \<and> command e' = command e"
proof -
  let ?s = "run_store before (new_store m)"
  have "i < next_id ?s" using store_inv_run [OF store_inv_new] assms(1) by (fastforce simp: store_inv_def)
  then have "frozen i e (store_step op ?s)"
    using assms by (auto simp: frozen_def mark_exited_def mark_failed_def state_exited_def state_failed_def)
  from frozen_run [OF this, of after] show ?thesis by (simp add: frozen_def run_store_def)
qed

abbreviation "example_before \<equiv> [Create [''sh''] ''/'' True, WriteStdin 1 ''a'']"
abbreviation "example_after \<equiv> [WriteStdin 1 ''b'', Create [''ls''] ''/'' False]"

lemma exited_process_is_final_witness:
  "map_option (\<lambda>e. (stdin e, exit_code (entry_state e)))
     (map_of (processes (run_store (example_before @ MarkExited 1 3 # example_after) (new_store 8))) 1) =
   Some ([''a''], Some 3)"
proof -
  have "map_option stdin (map_of (processes (run_store example_before (new_store 8))) 1) = Some [''a'']"
    by code_simp
  then obtain e where e: "map_of (processes (run_store example_before (new_store 8))) 1 = Some e"
    and st: "stdin e = [''a'']" unfolding map_option_eq_Some by blast
  have "map_option (\<lambda>e. exit_code (entry_state e))
      (map_of (processes (run_store (example_before @ MarkExited 1 3 # example_after) (new_store 8))) 1) = Some (Some 3)"
    by code_simp
  then obtain e' where e': "map_of (processes (run_store (example_before @ MarkExited 1 3 # example_after) (new_store 8))) 1 = Some e'"
    and code: "exit_code (entry_state e') = Some 3" unfolding map_option_eq_Some by blast
  have "stdin e' = stdin e"
    using exited_process_is_final [OF e disjI1 [OF refl], of 3 example_after] unfolding e' by (simp only: option.case)
  then show ?thesis unfolding e' option.map st code by simp
qed

text \<open>A process is created exactly when there is a command and a free slot; it gets the next id,
  which no earlier process had, and an empty output.\<close>

theorem create_process_exact:
  fixes ops m
  defines "s \<equiv> run_store ops (new_store m)"
  shows "case create_process cmd cwd tt s of
     (Inl MissingCommand, s') \<Rightarrow> cmd = [] \<and> s' = s
   | (Inl (ProcessLimit k), s') \<Rightarrow> cmd \<noteq> [] \<and> s' = s \<and> k = max_processes s \<and> active_count s = k
   | (Inl e, s') \<Rightarrow> False
   | (Inr e, s') \<Rightarrow> cmd \<noteq> [] \<and> active_count s < max_processes s \<and> entry_id e = next_id s \<and>
       map_of (processes s) (next_id s) = None \<and> get_process (next_id s) s' = Inr e \<and>
       buffer_bytes (entry_output e) = '''' \<and> next_id s' = next_id s + 1"
proof -
  have inv: "store_inv (streams ops (new_store m) (\<lambda>_. '''')) s"
    unfolding s_def by (rule store_inv_run [OF store_inv_new])
  then have "active_count s \<le> max_processes s" by (simp add: store_inv_def)
  moreover have "map_of (processes s) (next_id s) = None"
    using inv by (cases "map_of (processes s) (next_id s)") (auto simp: store_inv_def)
  moreover have "buffer_bytes (clone_output (new_head_tail_buffer n)) = ''''" for n
    using clone_output_same [OF new_buffer_inv]
    by (simp add: new_head_tail_buffer_def buffer_bytes_def Let_def)
  ultimately show ?thesis
    by (auto simp: create_process_def Let_def get_process_def clone_entry_def new_entry_def)
qed

end
