(* ===== verification/Go_Paths.thy ===== *)
theory Go_Paths
  imports Go_Strings
begin

text \<open>
  \<open>path/filepath\<close> on a Unix host: lexical cleaning, joining, base names and absolute paths.
  \<open>filepath.Clean\<close> is written over path components: empty and \<open>.\<close> components vanish, a \<open>..\<close>
  removes the component before it, and a leading \<open>..\<close> survives in a relative path only.
\<close>

abbreviation "SLASH \<equiv> CHR ''/''"

fun clean_step :: "bool \<Rightarrow> bytes list \<Rightarrow> bytes \<Rightarrow> bytes list" where
  "clean_step rooted stack c =
     (if c = '''' \<or> c = ''.'' then stack
      else if c = ''..'' then
        (case stack of
           [] \<Rightarrow> if rooted then [] else [c]
         | t # rest \<Rightarrow> if t = ''..'' then c # stack else rest)
      else c # stack)"

definition clean_components :: "bool \<Rightarrow> bytes list \<Rightarrow> bytes list" where
  "clean_components rooted cs = rev (foldl (clean_step rooted) [] cs)"

definition is_abs :: "bytes \<Rightarrow> bool" where
  "is_abs p \<longleftrightarrow> has_prefix p [SLASH]"

definition path_clean :: "bytes \<Rightarrow> bytes" where
  "path_clean p =
     (let body = join_with [SLASH] (clean_components (is_abs p) (split_on SLASH p)) in
      if is_abs p then SLASH # body else if body = '''' then ''.'' else body)"

text \<open>\<open>filepath.Join\<close> of two elements: empty elements are ignored.\<close>

definition path_join :: "bytes \<Rightarrow> bytes \<Rightarrow> bytes" where
  "path_join a b =
     (if a = '''' then (if b = '''' then '''' else path_clean b)
      else if b = '''' then path_clean a
      else path_clean (a @ SLASH # b))"

definition path_dir :: "bytes \<Rightarrow> bytes" where
  "path_dir p =
     (let cs = split_on SLASH p in
      path_clean (if length cs \<le> 1 then '''' else join_with [SLASH] (butlast cs) @ [SLASH]))"

definition path_base :: "bytes \<Rightarrow> bytes" where
  "path_base p =
     (if p = '''' then ''.''
      else let t = rev (dropWhile (\<lambda>c. c = SLASH) (rev p)) in
        if t = '''' then [SLASH] else last (split_on SLASH t))"

text \<open>\<open>filepath.Abs\<close>, relative to the working directory of the process.\<close>

definition path_abs :: "bytes \<Rightarrow> bytes \<Rightarrow> bytes" where
  "path_abs wd p = (if is_abs p then path_clean p else path_join wd p)"

lemma clean_step_plain:
  "x \<notin> {'''', ''.'', ''..''} \<Longrightarrow> clean_step rooted st x = x # st"
  by simp

lemma foldl_clean_plain:
  "(\<And>x. x \<in> set cs \<Longrightarrow> x \<notin> {'''', ''.'', ''..''}) \<Longrightarrow> foldl (clean_step rooted) st cs = rev cs @ st"
  by (induction cs arbitrary: st) auto

text \<open>The components a cleaned path is made of: plain names, after a run of \<open>..\<close> when relative.\<close>

definition clean_stack :: "bool \<Rightarrow> bytes list \<Rightarrow> bool" where
  "clean_stack rooted st \<longleftrightarrow>
     (\<exists>ns k. st = ns @ replicate k ''..'' \<and> (rooted \<longrightarrow> k = 0) \<and>
        (\<forall>n \<in> set ns. n \<notin> {'''', ''.'', ''..''} \<and> SLASH \<notin> set n))"

lemma clean_stack_step:
  assumes "clean_stack rooted st" and "SLASH \<notin> set c"
  shows "clean_stack rooted (clean_step rooted st c)"
proof -
  obtain ns k where st: "st = ns @ replicate k ''..''" and k: "rooted \<longrightarrow> k = 0"
    and ns: "\<forall>n \<in> set ns. n \<notin> {'''', ''.'', ''..''} \<and> SLASH \<notin> set n"
    using assms(1) unfolding clean_stack_def by blast
  consider (skip) "c = '''' \<or> c = ''.''" | (up) "c = ''..''" | (name) "c \<notin> {'''', ''.'', ''..''}"
    by blast
  then show ?thesis
  proof cases
    case skip
    then show ?thesis using assms(1) by auto
  next
    case name
    have "clean_stack rooted (c # st)"
      unfolding clean_stack_def using st k ns name assms(2)
      by (intro exI [of _ "c # ns"] exI [of _ k]) auto
    then show ?thesis using name by simp
  next
    case up
    show ?thesis
    proof (cases ns)
      case (Cons n ns')
      then have "clean_step rooted st c = ns' @ replicate k ''..''"
        using st up ns by simp
      moreover have "clean_stack rooted (ns' @ replicate k ''..'')"
        unfolding clean_stack_def using k ns Cons
        by (intro exI [of _ ns'] exI [of _ k] conjI) simp_all
      ultimately show ?thesis by simp
    next
      case Nil
      show ?thesis
      proof (cases k)
        case 0
        then have "clean_step rooted st c = [] @ replicate (if rooted then 0 else 1) ''..''"
          using st up Nil by simp
        then show ?thesis unfolding clean_stack_def
          by (metis empty_iff list.set(1))
      next
        case (Suc j)
        then have "clean_step rooted st c = [] @ replicate (Suc k) ''..''" and "\<not> rooted"
          using st up Nil k by auto
        then show ?thesis unfolding clean_stack_def
          by (metis empty_iff list.set(1))
      qed
    qed
  qed
qed

lemma clean_stack_foldl:
  "clean_stack rooted st \<Longrightarrow> (\<And>c. c \<in> set cs \<Longrightarrow> SLASH \<notin> set c) \<Longrightarrow>
   clean_stack rooted (foldl (clean_step rooted) st cs)"
proof (induction cs arbitrary: st)
  case Nil
  then show ?case by simp
next
  case (Cons c cs)
  from clean_stack_step [OF Cons.prems(1), of c] Cons.prems(2)
  have "clean_stack rooted (clean_step rooted st c)" by simp
  from Cons.IH [OF this] Cons.prems(2) show ?case by simp
qed

lemma foldl_clean_dotdots:
  "foldl (clean_step False) (replicate k ''..'') (replicate j ''..'') = replicate (j + k) ''..''"
proof (induction j arbitrary: k)
  case 0
  then show ?case by simp
next
  case (Suc j)
  have "clean_step False (replicate k ''..'') ''..'' = replicate (Suc k) ''..''"
    by (cases k) auto
  then show ?case using Suc.IH [of "Suc k"] by simp
qed

lemma clean_components_clean:
  assumes "clean_stack rooted st"
  shows "foldl (clean_step rooted) [] (rev st) = st"
proof -
  obtain ns k where st: "st = ns @ replicate k ''..''" and k: "rooted \<longrightarrow> k = 0"
    and ns: "\<forall>n \<in> set ns. n \<notin> {'''', ''.'', ''..''} \<and> SLASH \<notin> set n"
    using assms unfolding clean_stack_def by blast
  have "foldl (clean_step rooted) [] (replicate k ''..'') = replicate k ''..''"
    using k foldl_clean_dotdots [of 0 k] by (cases rooted) auto
  moreover have "foldl (clean_step rooted) (replicate k ''..'') (rev ns) = rev (rev ns) @ replicate k ''..''"
    by (rule foldl_clean_plain) (use ns in auto)
  ultimately show ?thesis by (simp add: st)
qed

lemma clean_stack_no_slash:
  assumes "clean_stack rooted st" and "x \<in> set st"
  shows "SLASH \<notin> set x \<and> x \<noteq> ''''"
proof -
  obtain ns k where st: "st = ns @ replicate k ''..''"
    and ns: "\<forall>n \<in> set ns. n \<notin> {'''', ''.'', ''..''} \<and> SLASH \<notin> set n"
    using assms(1) unfolding clean_stack_def by blast
  have "x \<in> set ns \<or> x = ''..''" using assms(2) st by (auto split: if_splits)
  then show ?thesis
  proof
    assume "x \<in> set ns"
    then show ?thesis using ns by blast
  qed simp
qed

lemma split_clean_components:
  assumes "clean_stack rooted st" and "st \<noteq> []"
  shows "split_on SLASH (join_with [SLASH] (rev st)) = rev st"
  using assms by (intro split_on_join) (auto dest: clean_stack_no_slash)

lemma join_clean_head:
  assumes "clean_stack rooted st"
  shows "\<not> has_prefix (join_with [SLASH] (rev st)) [SLASH]"
proof (cases "rev st")
  case Nil
  then show ?thesis by simp
next
  case (Cons x xs)
  then have "x \<in> set st" by (metis list.set_intros(1) set_rev)
  then have x: "SLASH \<notin> set x" "x \<noteq> ''''" using clean_stack_no_slash [OF assms] by auto
  then obtain c x' where "x = c # x'" by (cases x) auto
  then show ?thesis using x Cons by (cases xs) auto
qed

text \<open>Cleaning is idempotent: the canonical keys the patch preflight compares are stable.\<close>

lemma path_clean_idem: "path_clean (path_clean p) = path_clean p"
proof -
  define st where "st = foldl (clean_step (is_abs p)) [] (split_on SLASH p)"
  have "clean_stack (is_abs p) []" by (auto simp: clean_stack_def)
  then have stk: "clean_stack (is_abs p) st"
    unfolding st_def by (rule clean_stack_foldl) (auto dest: split_on_no_sep)
  let ?body = "join_with [SLASH] (rev st)"
  have body: "join_with [SLASH] (clean_components (is_abs p) (split_on SLASH p)) = ?body"
    by (simp add: clean_components_def st_def)
  have again: "foldl (clean_step (is_abs p)) [] (rev st) = st"
    by (rule clean_components_clean [OF stk])
  show ?thesis
  proof (cases "is_abs p")
    case True
    have "path_clean p = SLASH # ?body" using True body by (simp add: path_clean_def)
    moreover have "clean_components True (split_on SLASH (SLASH # ?body)) = rev st"
    proof (cases "st = []")
      case True
      then show ?thesis by (simp add: clean_components_def)
    next
      case False
      then show ?thesis
        using split_clean_components [OF stk False] again True
        by (simp add: clean_components_def)
    qed
    ultimately show ?thesis by (simp add: path_clean_def is_abs_def)
  next
    case False
    have not_abs: "\<not> is_abs ?body" using join_clean_head [OF stk] by (simp add: is_abs_def)
    show ?thesis
    proof (cases "?body = ''''")
      case True
      then have "path_clean p = ''.''" using False body by (simp add: path_clean_def)
      then show ?thesis by (simp add: path_clean_def is_abs_def clean_components_def)
    next
      case ne: False
      then have "path_clean p = ?body" using False body by (simp add: path_clean_def Let_def)
      moreover have "st \<noteq> []" using ne by auto
      ultimately show ?thesis
        using split_clean_components [OF stk] again False not_abs ne
        by (simp add: path_clean_def clean_components_def Let_def)
    qed
  qed
qed

lemma path_clean_abs: "is_abs p \<Longrightarrow> is_abs (path_clean p)"
  by (simp add: path_clean_def is_abs_def)

end
