(* ===== verification/Patch_Parser.thy ===== *)
theory Patch_Parser
  imports Go_Paths
begin

text \<open>
  The parser of \<open>apply_patch\<close> patches, \<open>Parse\<close> in \<open>applypatch/applypatch.go\<close>: a line-by-line
  state machine whose error values carry the line number it was looking at.  The fields of
  \<open>patchParser\<close> are those of the record \<open>patch_parser\<close>; every Go method is a function from the
  parser to its next state or an error, in the order of the source.
\<close>

section \<open>Data\<close>

datatype change_kind = ChangeAdd | ChangeDelete | ChangeUpdate | ChangeOther bytes

record change =
  change_kind :: change_kind
  change_path :: bytes
  move_path :: bytes
  content :: bytes
  unified_diff :: bytes

record action =
  environment_id :: bytes
  action_cwd :: bytes
  hunks :: "change list"
  changes :: "bytes \<Rightarrow> change option"

text \<open>
  The errors of the package: the two typed errors, an error that wraps \<open>ErrInvalidPatch\<close> with a
  message, the two of these whose message quotes a text with \<open>%q\<close>, and any other error.
\<close>

datatype patch_error =
    InvalidPatchError bytes
  | InvalidHunkError int bytes
  | WrapsInvalidPatch bytes
  | InvalidUpdateLine bytes
  | UnknownChangeKind bytes
  | PlainError bytes

datatype error_kind = ErrorKindGrammar | ErrorKindApply

definition classify_error :: "patch_error \<Rightarrow> error_kind" where
  "classify_error e = (case e of PlainError _ \<Rightarrow> ErrorKindApply | _ \<Rightarrow> ErrorKindGrammar)"

text \<open>\<open>err.Error()\<close>; \<open>quote\<close> is the \<open>%q\<close> verb of \<open>fmt\<close>.\<close>

definition error_text :: "(bytes \<Rightarrow> bytes) \<Rightarrow> patch_error \<Rightarrow> bytes" where
  "error_text quote e =
     (case e of
        InvalidPatchError m \<Rightarrow> ''invalid patch: '' @ m
      | InvalidHunkError n m \<Rightarrow> ''invalid hunk at line '' @ dec_int n @ '', '' @ m
      | WrapsInvalidPatch m \<Rightarrow> ''invalid apply_patch: '' @ m
      | InvalidUpdateLine l \<Rightarrow> ''invalid apply_patch: invalid update line '' @ quote l
      | UnknownChangeKind k \<Rightarrow> ''invalid apply_patch: unknown change kind '' @ quote k
      | PlainError m \<Rightarrow> m)"

definition format_error :: "(bytes \<Rightarrow> bytes) \<Rightarrow> patch_error option \<Rightarrow> bytes" where
  "format_error quote err =
     (case err of
        None \<Rightarrow> ''''
      | Some e \<Rightarrow>
          if contains_bytes (error_text quote e) ''patch contains no hunks''
          then ''No files were modified.'' else error_text quote e)"

definition format_cli_error :: "(bytes \<Rightarrow> bytes) \<Rightarrow> patch_error \<Rightarrow> bytes" where
  "format_cli_error quote e =
     (case e of
        InvalidHunkError n m \<Rightarrow> ''Invalid patch hunk on line '' @ dec_int n @ '': '' @ m
      | InvalidPatchError m \<Rightarrow> ''Invalid patch: '' @ m
      | _ \<Rightarrow> format_error quote (Some e))"

text \<open>Text between single quotes, as the messages and the heredoc marker have it.\<close>

definition squoted :: "bytes \<Rightarrow> bytes" where
  "squoted s = CHR 0x27 # s @ [CHR 0x27]"

section \<open>Lines and boundaries\<close>

definition split_lines :: "bytes \<Rightarrow> bytes list" where
  "split_lines s0 =
     (let s = trim_suffix (replace_cr (replace_crlf (trim_space s0))) [LF] in
      if s = '''' then [] else split_on LF s)"

definition validate_path :: "bytes \<Rightarrow> patch_error option" where
  "validate_path p =
     (if trim_space p = '''' then Some (WrapsInvalidPatch ''empty path'')
      else if path_clean p = ''.'' then Some (WrapsInvalidPatch ''empty path'')
      else None)"

definition first_line_error :: patch_error where
  "first_line_error = InvalidPatchError (''The first line of the patch must be '' @ squoted ''*** Begin Patch'')"
definition last_line_error :: patch_error where
  "last_line_error = InvalidPatchError (''The last line of the patch must be '' @ squoted ''*** End Patch'')"

definition check_strict_patch_boundaries :: "bytes list \<Rightarrow> patch_error option" where
  "check_strict_patch_boundaries lines =
     (if lines \<noteq> [] then
        let first = trim_space (hd lines); final = trim_space (last lines) in
        if first = ''*** Begin Patch'' \<and> final = ''*** End Patch'' then None
        else if first \<noteq> ''*** Begin Patch'' then Some first_line_error
        else Some last_line_error
      else Some last_line_error)"

definition check_patch_boundaries :: "bytes list \<Rightarrow> patch_error + bytes list" where
  "check_patch_boundaries lines =
     (case check_strict_patch_boundaries lines of
        None \<Rightarrow> Inr lines
      | Some err \<Rightarrow>
          if 4 \<le> length lines then
            let first = hd lines; final = last lines in
            if (first = ''<<EOF'' \<or> first = ''<<'' @ squoted ''EOF'' \<or>
                first = ''<<'' @ [CHR 0x22] @ ''EOF'' @ [CHR 0x22])
               \<and> has_suffix final ''EOF'' then
              let inner = butlast (tl lines) in
              (case check_strict_patch_boundaries inner of
                 Some err' \<Rightarrow> Inl err'
               | None \<Rightarrow> Inr inner)
            else Inl err
          else Inl err)"

section \<open>The parser state\<close>

datatype patch_mode =
  PatchNotStarted | PatchStarted | PatchAddFile | PatchDeleteFile | PatchUpdateFile | PatchEnded

record patch_chunk =
  old_lines :: int
  new_lines :: int
  is_end_of_file :: bool

definition chunk_empty :: "patch_chunk \<Rightarrow> bool" where
  "chunk_empty c \<longleftrightarrow> old_lines c = 0 \<and> new_lines c = 0"

abbreviation "new_chunk \<equiv> \<lparr>old_lines = 0, new_lines = 0, is_end_of_file = False\<rparr>"

record patch_parser =
  pp_action :: action
  pp_mode :: patch_mode
  line_number :: int
  pending :: change
  update_hunk_line :: int
  update_move_path :: bytes
  update_diff :: bytes
  chunks :: "patch_chunk list"
  add_content :: bytes

definition empty_action :: action where
  "empty_action = \<lparr>environment_id = '''', action_cwd = '''', hunks = [], changes = (\<lambda>_. None)\<rparr>"

definition no_change :: change where
  "no_change = \<lparr>change_kind = ChangeOther '''', change_path = '''', move_path = '''',
     content = '''', unified_diff = ''''\<rparr>"

definition new_parser :: patch_parser where
  "new_parser = \<lparr>pp_action = empty_action, pp_mode = PatchNotStarted, line_number = 0,
     pending = no_change, update_hunk_line = 0, update_move_path = '''', update_diff = '''',
     chunks = [], add_content = ''''\<rparr>"

definition add_change :: "change \<Rightarrow> action \<Rightarrow> action" where
  "add_change c a = a\<lparr>changes := (changes a)(change_path c \<mapsto> c), hunks := hunks a @ [c]\<rparr>"

definition last_chunk :: "patch_parser \<Rightarrow> patch_chunk option" where
  "last_chunk p = (if chunks p = [] then None else Some (last (chunks p)))"

text \<open>The guards \<open>chunk := p.lastChunk(); chunk != nil && ...\<close>.\<close>

definition last_chunk_is :: "(patch_chunk \<Rightarrow> bool) \<Rightarrow> patch_parser \<Rightarrow> bool" where
  "last_chunk_is P p = (case last_chunk p of None \<Rightarrow> False | Some c \<Rightarrow> P c)"

text \<open>What the code does through the pointer \<open>lastChunk()\<close> returns.\<close>

definition update_last_chunk :: "(patch_chunk \<Rightarrow> patch_chunk) \<Rightarrow> patch_parser \<Rightarrow> patch_parser" where
  "update_last_chunk f p = p\<lparr>chunks := butlast (chunks p) @ [f (last (chunks p))]\<rparr>"

section \<open>Messages\<close>

definition unexpected_update_line_message :: "bytes \<Rightarrow> bytes" where
  "unexpected_update_line_message line =
     ''Unexpected line found in update hunk: '' @ squoted line @
     ''. Every line should start with '' @ squoted '' '' @ '' (context line), '' @ squoted ''+'' @
     '' (added line), or '' @ squoted ''-'' @ '' (removed line)''"

definition expected_change_context_message :: "bytes \<Rightarrow> bytes" where
  "expected_change_context_message line =
     ''Expected update hunk to start with a @@ context marker, got: '' @ squoted line"

definition invalid_hunk_header_error :: "bytes \<Rightarrow> int \<Rightarrow> patch_error" where
  "invalid_hunk_header_error line n =
     InvalidHunkError n (squoted line @
       '' is not a valid hunk header. Valid hunk headers: '' @ squoted ''*** Add File: {path}'' @
       '', '' @ squoted ''*** Delete File: {path}'' @ '', '' @ squoted ''*** Update File: {path}'')"

section \<open>Hunk headers\<close>

definition ensure_update_hunk_not_empty :: "bytes \<Rightarrow> patch_parser \<Rightarrow> patch_error option" where
  "ensure_update_hunk_not_empty line p =
     (if pp_mode p \<noteq> PatchUpdateFile then None
      else (case last_chunk p of
          None \<Rightarrow> Some (InvalidHunkError (update_hunk_line p)
            (''Update file hunk for path '' @ squoted (change_path (pending p)) @ '' is empty''))
        | Some c \<Rightarrow>
            if chunk_empty c then
              if line = ''*** End Patch''
              then Some (InvalidHunkError (line_number p) ''Update hunk does not contain any lines'')
              else Some (InvalidHunkError (line_number p) (unexpected_update_line_message line))
            else None))"

definition finish_hunk :: "patch_parser \<Rightarrow> patch_parser" where
  "finish_hunk p =
     (case pp_mode p of
        PatchAddFile \<Rightarrow>
          (let c = (pending p)\<lparr>content := add_content p\<rparr>
           in p\<lparr>pending := c, pp_action := add_change c (pp_action p)\<rparr>)
      | PatchUpdateFile \<Rightarrow>
          (let c = (pending p)\<lparr>move_path := update_move_path p, unified_diff := update_diff p\<rparr>
           in p\<lparr>pending := c, pp_action := add_change c (pp_action p)\<rparr>)
      | _ \<Rightarrow> p)"

definition start_hunk :: "bytes \<Rightarrow> patch_error option \<Rightarrow> patch_parser \<Rightarrow> patch_error + patch_parser" where
  "start_hunk header path_err p =
     (case ensure_update_hunk_not_empty header p of
        Some err \<Rightarrow> Inl err
      | None \<Rightarrow> (case path_err of Some err \<Rightarrow> Inl err | None \<Rightarrow> Inr (finish_hunk p)))"

definition fresh_change :: "change_kind \<Rightarrow> bytes \<Rightarrow> change" where
  "fresh_change k path = \<lparr>change_kind = k, change_path = path, move_path = '''',
     content = '''', unified_diff = ''''\<rparr>"

definition handle_environment_id :: "bytes \<Rightarrow> patch_parser \<Rightarrow> patch_error + bool \<times> patch_parser" where
  "handle_environment_id rest p =
     (if environment_id (pp_action p) \<noteq> '''' then
        Inl (InvalidPatchError ''apply_patch environment_id cannot be specified more than once'')
      else let v = trim_space rest in
        if v = '''' then Inl (InvalidPatchError ''apply_patch environment_id cannot be empty'')
        else Inr (True, p\<lparr>pp_action := (pp_action p)\<lparr>environment_id := v\<rparr>\<rparr>))"

definition handle_file_header :: "bytes \<Rightarrow> patch_parser \<Rightarrow> patch_error + bool \<times> patch_parser" where
  "handle_file_header trimmed p =
     (if trimmed = ''*** End Patch'' then
        (case ensure_update_hunk_not_empty trimmed p of
           Some err \<Rightarrow> Inl err
         | None \<Rightarrow> Inr (True, (finish_hunk p)\<lparr>pp_mode := PatchEnded\<rparr>))
      else (case cut_prefix trimmed ''*** Add File: '' of
        Some path \<Rightarrow>
          bind_res (start_hunk trimmed (validate_path path) p) (\<lambda>q.
            Inr (True, q\<lparr>pending := fresh_change ChangeAdd path, add_content := '''',
                        pp_mode := PatchAddFile\<rparr>))
      | None \<Rightarrow> (case cut_prefix trimmed ''*** Delete File: '' of
        Some path \<Rightarrow>
          bind_res (start_hunk trimmed (validate_path path) p) (\<lambda>q.
            Inr (True, q\<lparr>pp_action := add_change (fresh_change ChangeDelete path) (pp_action q),
                        pp_mode := PatchDeleteFile\<rparr>))
      | None \<Rightarrow> (case cut_prefix trimmed ''*** Update File: '' of
        Some path \<Rightarrow>
          bind_res (start_hunk trimmed (validate_path path) p) (\<lambda>q.
            Inr (True, q\<lparr>pending := fresh_change ChangeUpdate path,
                        update_hunk_line := line_number q, update_move_path := '''',
                        update_diff := '''', chunks := [], pp_mode := PatchUpdateFile\<rparr>))
      | None \<Rightarrow> Inr (False, p)))))"

definition handle_hunk_header_or_end :: "bytes \<Rightarrow> patch_parser \<Rightarrow> patch_error + bool \<times> patch_parser" where
  "handle_hunk_header_or_end trimmed p =
     (case (if pp_mode p = PatchStarted then cut_prefix trimmed ''*** Environment ID:'' else None) of
        Some rest \<Rightarrow> handle_environment_id rest p
      | None \<Rightarrow> handle_file_header trimmed p)"

section \<open>Lines of an update hunk\<close>

definition append_update_diff_line :: "bytes \<Rightarrow> patch_parser \<Rightarrow> patch_parser" where
  "append_update_diff_line line p = p\<lparr>update_diff := update_diff p @ line @ [LF]\<rparr>"

definition ensure_chunk_for_content :: "patch_parser \<Rightarrow> patch_parser" where
  "ensure_chunk_for_content p = (if chunks p = [] then p\<lparr>chunks := [new_chunk]\<rparr> else p)"

definition is_chunk_header :: "bytes \<Rightarrow> bool" where
  "is_chunk_header s \<longleftrightarrow> s = ''@@'' \<or> has_prefix s ''@@ ''"

definition count_line :: "(patch_chunk \<Rightarrow> patch_chunk) \<Rightarrow> bytes \<Rightarrow> patch_parser \<Rightarrow> patch_parser" where
  "count_line f line p = append_update_diff_line line (update_last_chunk f (ensure_chunk_for_content p))"

definition count_both :: "patch_chunk \<Rightarrow> patch_chunk" where
  "count_both c = c\<lparr>old_lines := old_lines c + 1, new_lines := new_lines c + 1\<rparr>"

definition process_content_line :: "bytes \<Rightarrow> patch_parser \<Rightarrow> patch_error + patch_parser" where
  "process_content_line line p =
     (if line = '''' \<or> has_prefix line '' '' then Inr (count_line count_both line p)
      else if has_prefix line ''+'' then
        Inr (count_line (\<lambda>c. c\<lparr>new_lines := new_lines c + 1\<rparr>) line p)
      else if has_prefix line ''-'' then
        Inr (count_line (\<lambda>c. c\<lparr>old_lines := old_lines c + 1\<rparr>) line p)
      else (case last_chunk p of
          Some c \<Rightarrow>
            if \<not> chunk_empty c
            then Inl (InvalidHunkError (line_number p) (expected_change_context_message line))
            else Inl (InvalidHunkError (line_number p) (unexpected_update_line_message line))
        | None \<Rightarrow> Inl (InvalidHunkError (line_number p) (unexpected_update_line_message line))))"

definition process_end_of_file :: "bytes \<Rightarrow> patch_parser \<Rightarrow> patch_error + patch_parser" where
  "process_end_of_file line p =
     (case last_chunk p of
        Some c \<Rightarrow>
          if chunk_empty c
          then Inl (InvalidHunkError (line_number p) ''Update hunk does not contain any lines'')
          else Inr (append_update_diff_line line
                      (update_last_chunk (\<lambda>c. c\<lparr>is_end_of_file := True\<rparr>) p))
      | None \<Rightarrow> Inr (append_update_diff_line line p))"

definition process_update_body :: "bytes \<Rightarrow> bytes \<Rightarrow> patch_parser \<Rightarrow> patch_error + patch_parser" where
  "process_update_body line update_line p =
     (if is_chunk_header update_line \<and> last_chunk_is chunk_empty p then
        Inl (InvalidHunkError (line_number p) (unexpected_update_line_message line))
      else if is_chunk_header update_line then
        Inr (append_update_diff_line line (p\<lparr>chunks := chunks p @ [new_chunk]\<rparr>))
      else if update_line = ''*** End of File'' then process_end_of_file line p
      else process_content_line line p)"

definition process_move_or_body :: "bytes \<Rightarrow> bytes \<Rightarrow> patch_parser \<Rightarrow> patch_error + patch_parser" where
  "process_move_or_body line update_line p =
     (case (if chunks p = [] \<and> update_move_path p = ''''
            then cut_prefix update_line ''*** Move to: '' else None) of
        Some move_to \<Rightarrow>
          (case validate_path move_to of
             Some err \<Rightarrow> Inl err
           | None \<Rightarrow> Inr (p\<lparr>update_move_path := move_to\<rparr>))
      | None \<Rightarrow> process_update_body line update_line p)"

definition process_update_line :: "bytes \<Rightarrow> bool \<Rightarrow> patch_parser \<Rightarrow> patch_error + patch_parser" where
  "process_update_line line is_last p0 =
     (let update_line = trim_right_blanks line;
          header = (if is_last \<and> trim_space line = ''*** End Patch''
                    then ''*** End Patch'' else update_line) in
      bind_res (handle_hunk_header_or_end header p0) (\<lambda>(handled, p).
        if handled then Inr p
        else if last_chunk_is is_end_of_file p \<and> update_line = '''' then Inr p
        else if last_chunk_is is_end_of_file p \<and> \<not> is_chunk_header update_line then
          Inl (InvalidHunkError (line_number p) (expected_change_context_message line))
        else process_move_or_body line update_line p))"

section \<open>The parser\<close>

definition process_line :: "bytes \<Rightarrow> bool \<Rightarrow> patch_parser \<Rightarrow> patch_error + patch_parser" where
  "process_line line is_last p =
     (let trimmed = trim_space line in
      case pp_mode p of
        PatchNotStarted \<Rightarrow>
          if trimmed = ''*** Begin Patch'' then Inr (p\<lparr>pp_mode := PatchStarted\<rparr>)
          else Inl first_line_error
      | PatchUpdateFile \<Rightarrow> process_update_line line is_last p
      | PatchEnded \<Rightarrow> if trimmed = '''' then Inr p else Inl last_line_error
      | _ \<Rightarrow>
          bind_res (handle_hunk_header_or_end trimmed p) (\<lambda>(handled, q).
            if handled then Inr q
            else (case (if pp_mode q = PatchAddFile then cut_prefix line ''+'' else None) of
                Some text \<Rightarrow> Inr (q\<lparr>add_content := add_content q @ text @ [LF]\<rparr>)
              | None \<Rightarrow> Inl (invalid_hunk_header_error trimmed (line_number q)))))"

fun parse_lines :: "int \<Rightarrow> bytes list \<Rightarrow> patch_parser \<Rightarrow> patch_error + patch_parser" where
  "parse_lines index [] p = Inr p"
| "parse_lines index (line # rest) p =
     bind_res (process_line line (rest = []) (p\<lparr>line_number := index + 1\<rparr>))
       (parse_lines (index + 1) rest)"

definition parse_patch :: "bytes \<Rightarrow> patch_error + action" where
  "parse_patch input =
     bind_res (check_patch_boundaries (split_lines input)) (\<lambda>lines.
     bind_res (parse_lines 0 lines new_parser) (\<lambda>p.
       if pp_mode p \<noteq> PatchEnded then Inl last_line_error
       else if hunks (pp_action p) = [] then Inl (WrapsInvalidPatch ''patch contains no hunks'')
       else Inr (pp_action p)))"

definition validate_patch :: "bytes \<Rightarrow> patch_error option" where
  "validate_patch input = (case parse_patch input of Inl e \<Rightarrow> Some e | Inr _ \<Rightarrow> None)"

section \<open>Reading an action\<close>

definition action_is_empty :: "action \<Rightarrow> bool" where
  "action_is_empty a \<longleftrightarrow> hunks a = []"

definition add_path :: "bytes \<Rightarrow> bytes list \<Rightarrow> bytes list" where
  "add_path p ps = (if p \<in> set ps then ps else ps @ [p])"

fun file_paths_loop :: "bytes list \<Rightarrow> change list \<Rightarrow> bytes list" where
  "file_paths_loop ps [] = ps"
| "file_paths_loop ps (c # cs) =
     (let ps' = add_path (change_path c) ps;
          ps'' = (if change_kind c = ChangeUpdate \<and> move_path c \<noteq> ''''
                  then add_path (move_path c) ps' else ps')
      in file_paths_loop ps'' cs)"

definition file_paths :: "action \<Rightarrow> bytes list" where
  "file_paths a = file_paths_loop [] (hunks a)"

text \<open>\<open>movePathFor\<close>: the first hunk of that path with a move target.\<close>

definition move_path_for :: "action \<Rightarrow> bytes \<Rightarrow> bytes option" where
  "move_path_for a path =
     map_option (\<lambda>c. trim_space (move_path c))
       (find (\<lambda>c. trim_space (change_path c) = trim_space path \<and> trim_space (move_path c) \<noteq> '''')
         (hunks a))"

section \<open>The invariant of the parser\<close>

text \<open>The map an action keeps is determined by its hunks: the last hunk of a path wins.\<close>

definition changes_of :: "change list \<Rightarrow> bytes \<Rightarrow> change option" where
  "changes_of cs = foldl (\<lambda>m c. m(change_path c \<mapsto> c)) Map.empty cs"

lemma changes_of_simps [simp]:
  "changes_of [] = Map.empty"
  "changes_of (cs @ [c]) = (changes_of cs)(change_path c \<mapsto> c)"
  by (simp_all add: changes_of_def)

lemma dom_changes_of: "dom (changes_of cs) = change_path ` set cs"
proof (induction cs rule: rev_induct)
  case (snoc c cs)
  show ?case unfolding changes_of_simps dom_fun_upd using snoc by simp
qed simp

lemma changes_of_in: "changes_of cs path = Some c \<Longrightarrow> c \<in> set cs \<and> change_path c = path"
  by (induction cs rule: rev_induct) (auto split: if_splits)

text \<open>What every hunk of a parsed action satisfies.\<close>

definition hunk_ok :: "change \<Rightarrow> bool" where
  "hunk_ok c \<longleftrightarrow> validate_path (change_path c) = None \<and>
     (case change_kind c of
        ChangeAdd \<Rightarrow> move_path c = '''' \<and> unified_diff c = ''''
      | ChangeDelete \<Rightarrow> move_path c = '''' \<and> unified_diff c = '''' \<and> content c = ''''
      | ChangeUpdate \<Rightarrow> content c = '''' \<and> unified_diff c \<noteq> '''' \<and>
          (move_path c = '''' \<or> validate_path (move_path c) = None)
      | ChangeOther _ \<Rightarrow> False)"

definition action_inv :: "action \<Rightarrow> bool" where
  "action_inv a \<longleftrightarrow> changes a = changes_of (hunks a) \<and> list_all hunk_ok (hunks a) \<and>
     trim_space (environment_id a) = environment_id a"

definition parser_inv :: "patch_parser \<Rightarrow> bool" where
  "parser_inv p \<longleftrightarrow> action_inv (pp_action p) \<and>
     (case pp_mode p of
        PatchAddFile \<Rightarrow> hunk_ok (pending p) \<and> change_kind (pending p) = ChangeAdd
      | PatchUpdateFile \<Rightarrow> pending p = fresh_change ChangeUpdate (change_path (pending p)) \<and>
          validate_path (change_path (pending p)) = None \<and>
          (update_move_path p = '''' \<or> validate_path (update_move_path p) = None) \<and>
          (chunks p \<noteq> [] \<longrightarrow> update_diff p \<noteq> '''')
      | _ \<Rightarrow> True)"

lemma action_inv_add_change: "action_inv a \<Longrightarrow> hunk_ok c \<Longrightarrow> action_inv (add_change c a)"
  by (simp add: action_inv_def add_change_def)

lemma action_inv_empty: "action_inv empty_action"
  by (simp add: action_inv_def empty_action_def)

lemma ensure_not_empty_None:
  "ensure_update_hunk_not_empty line p = None \<Longrightarrow> pp_mode p = PatchUpdateFile \<Longrightarrow> chunks p \<noteq> []"
  by (auto simp: ensure_update_hunk_not_empty_def last_chunk_def split: if_splits)

lemma finish_hunk_inv:
  assumes "parser_inv p" and "ensure_update_hunk_not_empty line p = None"
  shows "action_inv (pp_action (finish_hunk p))"
proof (cases "pp_mode p")
  case PatchUpdateFile
  with assms have "pending p = fresh_change ChangeUpdate (change_path (pending p))"
    and "update_diff p \<noteq> ''''" and "validate_path (change_path (pending p)) = None"
    and "update_move_path p = '''' \<or> validate_path (update_move_path p) = None"
    by (auto simp: parser_inv_def dest: ensure_not_empty_None)
  then have "hunk_ok ((pending p)\<lparr>move_path := update_move_path p, unified_diff := update_diff p\<rparr>)"
    by (cases "pending p") (auto simp: hunk_ok_def fresh_change_def)
  with assms PatchUpdateFile show ?thesis
    by (simp add: finish_hunk_def Let_def parser_inv_def action_inv_add_change)
next
  case PatchAddFile
  with assms have "hunk_ok ((pending p)\<lparr>content := add_content p\<rparr>)"
    by (auto simp: parser_inv_def hunk_ok_def)
  with assms PatchAddFile show ?thesis
    by (simp add: finish_hunk_def Let_def parser_inv_def action_inv_add_change)
qed (use assms in \<open>simp_all add: finish_hunk_def parser_inv_def\<close>)

lemma start_hunk_inv:
  assumes "start_hunk header perr p = Inr q" and "parser_inv p"
  shows "action_inv (pp_action q) \<and> perr = None"
  using assms finish_hunk_inv [of p header]
  by (auto simp: start_hunk_def split: option.splits)

lemma line_number_finish_hunk [simp]: "line_number (finish_hunk p) = line_number p"
  by (simp add: finish_hunk_def Let_def split: patch_mode.split)

lemma line_number_start_hunk: "start_hunk header perr p = Inr q \<Longrightarrow> line_number q = line_number p"
  by (auto simp: start_hunk_def split: option.splits)

lemma handle_file_header_inv:
  assumes "handle_file_header trimmed p = Inr (handled, q)" and inv: "parser_inv p"
  shows "parser_inv q"
  using assms finish_hunk_inv [of p trimmed]
  by (auto simp: handle_file_header_def bind_res_eq_Inr parser_inv_def fresh_change_def hunk_ok_def
      action_inv_add_change split: if_splits option.splits dest!: start_hunk_inv [OF _ inv])

lemma handle_hunk_header_or_end_inv:
  assumes "handle_hunk_header_or_end trimmed p = Inr (handled, q)" and inv: "parser_inv p"
  shows "parser_inv q"
proof (cases "if pp_mode p = PatchStarted then cut_prefix trimmed ''*** Environment ID:'' else None")
  case None
  with assms show ?thesis by (simp add: handle_hunk_header_or_end_def handle_file_header_inv)
next
  case (Some rest)
  then have "pp_mode p = PatchStarted" by (metis option.simps(3))
  with Some assms show ?thesis
    by (auto simp: handle_hunk_header_or_end_def handle_environment_id_def Let_def parser_inv_def
        action_inv_def split: if_splits)
qed

lemma not_handled_same:
  assumes "handle_hunk_header_or_end trimmed p = Inr (False, q)" shows "q = p"
  using assms
  by (auto simp: handle_hunk_header_or_end_def handle_environment_id_def handle_file_header_def
      Let_def bind_res_eq_Inr split: if_splits option.splits)

lemma count_line_inv:
  "pp_mode p = PatchUpdateFile \<Longrightarrow> parser_inv p \<Longrightarrow> parser_inv (count_line f line p)"
  by (auto simp: parser_inv_def count_line_def append_update_diff_line_def update_last_chunk_def
      ensure_chunk_for_content_def)

lemma process_content_line_inv:
  "process_content_line line p = Inr q \<Longrightarrow> pp_mode p = PatchUpdateFile \<Longrightarrow> parser_inv p \<Longrightarrow> parser_inv q"
  by (auto simp: process_content_line_def count_line_inv split: if_splits option.splits)

lemma process_end_of_file_inv:
  "process_end_of_file line p = Inr q \<Longrightarrow> pp_mode p = PatchUpdateFile \<Longrightarrow> parser_inv p \<Longrightarrow> parser_inv q"
  by (auto simp: process_end_of_file_def parser_inv_def append_update_diff_line_def
      update_last_chunk_def split: if_splits option.splits)

lemma process_update_body_inv:
  "process_update_body line ul p = Inr q \<Longrightarrow> pp_mode p = PatchUpdateFile \<Longrightarrow> parser_inv p \<Longrightarrow> parser_inv q"
  by (auto simp: process_update_body_def parser_inv_def append_update_diff_line_def
      split: if_splits dest: process_end_of_file_inv process_content_line_inv)

lemma set_move_path_inv:
  "pp_mode p = PatchUpdateFile \<Longrightarrow> parser_inv p \<Longrightarrow> validate_path m = None \<Longrightarrow>
   parser_inv (p\<lparr>update_move_path := m\<rparr>)"
  by (auto simp: parser_inv_def)

lemma process_move_or_body_inv:
  "process_move_or_body line ul p = Inr q \<Longrightarrow> pp_mode p = PatchUpdateFile \<Longrightarrow> parser_inv p \<Longrightarrow> parser_inv q"
  by (auto simp: process_move_or_body_def split: option.splits if_splits
      intro: set_move_path_inv process_update_body_inv)

lemma process_update_line_inv:
  assumes "process_update_line line is_last p = Inr q" and "pp_mode p = PatchUpdateFile" and "parser_inv p"
  shows "parser_inv q"
proof -
  define header where "header = (if is_last \<and> trim_space line = ''*** End Patch''
    then ''*** End Patch'' else trim_right_blanks line)"
  from assms obtain handled r where h: "handle_hunk_header_or_end header p = Inr (handled, r)"
    and rest: "if handled then q = r
      else (last_chunk_is is_end_of_file r \<and> q = r) \<or>
        process_move_or_body line (trim_right_blanks line) r = Inr q"
    by (auto simp: process_update_line_def Let_def bind_res_eq_Inr header_def [symmetric] split: if_splits)
  show ?thesis
  proof (cases handled)
    case True
    with h rest assms show ?thesis by (auto dest: handle_hunk_header_or_end_inv)
  next
    case False
    with h have "r = p" by (auto dest: not_handled_same)
    with rest False assms show ?thesis by (auto dest: process_move_or_body_inv)
  qed
qed

lemma add_content_inv:
  "pp_mode p = PatchAddFile \<Longrightarrow> parser_inv p \<Longrightarrow> parser_inv (p\<lparr>add_content := x\<rparr>)"
  by (simp add: parser_inv_def)

lemma process_line_inv:
  assumes "process_line line is_last p = Inr q" and inv: "parser_inv p"
  shows "parser_inv q"
proof -
  have start: "parser_inv (p\<lparr>pp_mode := PatchStarted\<rparr>)" using inv by (simp add: parser_inv_def)
  show ?thesis
    using assms start
    by (auto simp: process_line_def Let_def bind_res_eq_Inr split: patch_mode.splits if_splits
        option.splits dest: not_handled_same handle_hunk_header_or_end_inv process_update_line_inv
        intro: add_content_inv)
qed

lemma parser_inv_line_number [simp]: "parser_inv (p\<lparr>line_number := n\<rparr>) = parser_inv p"
  by (cases "pp_mode p") (simp_all add: parser_inv_def)

lemma parse_lines_inv: "parse_lines n ls p = Inr q \<Longrightarrow> parser_inv p \<Longrightarrow> parser_inv q"
proof (induction n ls p rule: parse_lines.induct)
  case (2 index line rest p)
  then show ?case by (auto simp: bind_res_eq_Inr dest!: process_line_inv)
qed simp

lemma parser_inv_new: "parser_inv new_parser"
  by (simp add: parser_inv_def new_parser_def action_inv_empty)

text \<open>The line numbers the errors carry.\<close>

definition update_line_ok :: "patch_parser \<Rightarrow> bool" where
  "update_line_ok p \<longleftrightarrow> (pp_mode p = PatchUpdateFile \<longrightarrow>
     1 \<le> update_hunk_line p \<and> update_hunk_line p \<le> line_number p)"

definition error_within :: "int \<Rightarrow> patch_error \<Rightarrow> bool" where
  "error_within n e \<longleftrightarrow>
     (case e of InvalidHunkError k _ \<Rightarrow> 1 \<le> k \<and> k \<le> n | PlainError _ \<Rightarrow> False | _ \<Rightarrow> True)"

lemma error_within_mono: "error_within n e \<Longrightarrow> n \<le> m \<Longrightarrow> error_within m e"
  by (cases e) (auto simp: error_within_def)

lemma validate_path_error: "validate_path path = Some e \<Longrightarrow> error_within n e"
  by (auto simp: validate_path_def error_within_def split: if_splits)

lemma ensure_not_empty_error:
  "ensure_update_hunk_not_empty line p = Some e \<Longrightarrow> update_line_ok p \<Longrightarrow> 1 \<le> line_number p \<Longrightarrow>
   error_within (line_number p) e"
  by (auto simp: ensure_update_hunk_not_empty_def error_within_def update_line_ok_def
      split: if_splits option.splits)

lemma start_hunk_error:
  assumes "start_hunk line (validate_path path) p = Inl e" and "update_line_ok p" and "1 \<le> line_number p"
  shows "error_within (line_number p) e"
  using assms by (auto simp: start_hunk_def split: option.splits
      dest: validate_path_error ensure_not_empty_error)

lemma handle_header_error:
  assumes "handle_hunk_header_or_end line p = Inl e" and "update_line_ok p" and "1 \<le> line_number p"
  shows "error_within (line_number p) e"
  using assms
  by (auto simp: handle_hunk_header_or_end_def handle_environment_id_def handle_file_header_def
      Let_def bind_res_eq_Inl error_within_def split: if_splits option.splits
      dest!: start_hunk_error ensure_not_empty_error)

lemma handle_header_lines:
  assumes "handle_hunk_header_or_end line p = Inr (handled, q)" and "update_line_ok p" and "1 \<le> line_number p"
  shows "line_number q = line_number p \<and> update_line_ok q"
  using assms
  by (auto simp: handle_hunk_header_or_end_def handle_environment_id_def handle_file_header_def
      Let_def bind_res_eq_Inr update_line_ok_def split: if_splits option.splits
      dest!: line_number_start_hunk)

lemma count_line_lines:
  "line_number (count_line f line p) = line_number p \<and>
   update_hunk_line (count_line f line p) = update_hunk_line p \<and> pp_mode (count_line f line p) = pp_mode p"
  by (simp add: count_line_def append_update_diff_line_def update_last_chunk_def ensure_chunk_for_content_def)

lemma process_move_or_body_lines:
  assumes "process_move_or_body line ul p = Inr q"
  shows "line_number q = line_number p \<and> update_hunk_line q = update_hunk_line p \<and> pp_mode q = pp_mode p"
  using assms
  by (auto simp: process_move_or_body_def process_update_body_def process_end_of_file_def
      process_content_line_def count_line_lines append_update_diff_line_def update_last_chunk_def
      split: if_splits option.splits)

lemma process_move_or_body_error:
  assumes "process_move_or_body line ul p = Inl e" and "1 \<le> line_number p"
  shows "error_within (line_number p) e"
  using assms
  by (auto simp: process_move_or_body_def process_update_body_def process_end_of_file_def
      process_content_line_def error_within_def split: if_splits option.splits
      dest: validate_path_error [where n = "line_number p"])

lemma process_update_line_lines:
  assumes "process_update_line line is_last p = Inr q" and "update_line_ok p" and "1 \<le> line_number p"
  shows "line_number q = line_number p \<and> update_line_ok q"
proof -
  define header where "header = (if is_last \<and> trim_space line = ''*** End Patch''
    then ''*** End Patch'' else trim_right_blanks line)"
  from assms obtain handled r where h: "handle_hunk_header_or_end header p = Inr (handled, r)"
    and "q = r \<or> process_move_or_body line (trim_right_blanks line) r = Inr q"
    by (auto simp: process_update_line_def Let_def bind_res_eq_Inr header_def [symmetric] split: if_splits)
  with assms handle_header_lines [OF h] show ?thesis
    by (auto simp: update_line_ok_def dest: process_move_or_body_lines)
qed

lemma process_update_line_error:
  assumes "process_update_line line is_last p = Inl e" and "update_line_ok p" and "1 \<le> line_number p"
  shows "error_within (line_number p) e"
proof -
  define header where "header = (if is_last \<and> trim_space line = ''*** End Patch''
    then ''*** End Patch'' else trim_right_blanks line)"
  consider (header) "handle_hunk_header_or_end header p = Inl e"
    | (body) handled r where "handle_hunk_header_or_end header p = Inr (handled, r)"
      "e = InvalidHunkError (line_number r) (expected_change_context_message line) \<or>
       process_move_or_body line (trim_right_blanks line) r = Inl e"
    using assms
    by (auto simp: process_update_line_def Let_def bind_res_eq_Inl header_def [symmetric] split: if_splits)
  then show ?thesis
  proof cases
    case header
    with assms show ?thesis by (auto dest: handle_header_error)
  next
    case body
    with assms have "line_number r = line_number p" by (auto dest: handle_header_lines)
    with body assms process_move_or_body_error [of line "trim_right_blanks line" r e]
    show ?thesis by (auto simp: error_within_def)
  qed
qed

text \<open>One line outside an update hunk.\<close>

definition process_plain_line :: "bytes \<Rightarrow> patch_parser \<Rightarrow> patch_error + patch_parser" where
  "process_plain_line line p =
     bind_res (handle_hunk_header_or_end (trim_space line) p) (\<lambda>(handled, q).
       if handled then Inr q
       else (case (if pp_mode q = PatchAddFile then cut_prefix line ''+'' else None) of
           Some text \<Rightarrow> Inr (q\<lparr>add_content := add_content q @ text @ [LF]\<rparr>)
         | None \<Rightarrow> Inl (invalid_hunk_header_error (trim_space line) (line_number q))))"

lemma process_line_modes:
  "process_line line is_last p =
     (case pp_mode p of
        PatchNotStarted \<Rightarrow>
          if trim_space line = ''*** Begin Patch'' then Inr (p\<lparr>pp_mode := PatchStarted\<rparr>)
          else Inl first_line_error
      | PatchUpdateFile \<Rightarrow> process_update_line line is_last p
      | PatchEnded \<Rightarrow> if trim_space line = '''' then Inr p else Inl last_line_error
      | _ \<Rightarrow> process_plain_line line p)"
  by (simp only: process_line_def process_plain_line_def Let_def)

lemma process_plain_line_lines:
  assumes "process_plain_line line p = Inr q" and "update_line_ok p" and "1 \<le> line_number p"
  shows "line_number q = line_number p \<and> update_line_ok q"
proof -
  from assms obtain handled r where h: "handle_hunk_header_or_end (trim_space line) p = Inr (handled, r)"
    and q: "q = r \<or> (\<exists>x. q = r\<lparr>add_content := x\<rparr>)"
    by (auto simp: process_plain_line_def bind_res_eq_Inr split: if_splits option.splits)
  have "update_line_ok (r\<lparr>add_content := x\<rparr>) = update_line_ok r" for x by (simp add: update_line_ok_def)
  with q assms handle_header_lines [OF h] show ?thesis by auto
qed

lemma process_plain_line_error:
  assumes "process_plain_line line p = Inl e" and "update_line_ok p" and "1 \<le> line_number p"
  shows "error_within (line_number p) e"
proof -
  consider (header) "handle_hunk_header_or_end (trim_space line) p = Inl e"
    | (body) handled r where "handle_hunk_header_or_end (trim_space line) p = Inr (handled, r)"
      "e = invalid_hunk_header_error (trim_space line) (line_number r)"
    using assms by (auto simp: process_plain_line_def bind_res_eq_Inl split: if_splits option.splits)
  then show ?thesis
  proof cases
    case header
    with assms show ?thesis by (auto dest: handle_header_error)
  next
    case body
    with assms have "line_number r = line_number p" by (auto dest: handle_header_lines)
    with body assms show ?thesis by (simp add: error_within_def invalid_hunk_header_error_def)
  qed
qed

lemma process_line_lines:
  assumes "process_line line is_last p = Inr q" and "update_line_ok p" and "1 \<le> line_number p"
  shows "line_number q = line_number p \<and> update_line_ok q"
proof (cases "pp_mode p")
  case PatchNotStarted
  with assms show ?thesis
    by (cases "trim_space line = ''*** Begin Patch''") (auto simp: process_line_modes update_line_ok_def)
next
  case PatchEnded
  with assms show ?thesis by (cases "trim_space line = ''''") (auto simp: process_line_modes)
qed (use assms process_plain_line_lines process_update_line_lines in \<open>auto simp: process_line_modes\<close>)

lemma process_line_error:
  assumes "process_line line is_last p = Inl e" and "update_line_ok p" and "1 \<le> line_number p"
  shows "error_within (line_number p) e"
proof (cases "pp_mode p")
  case PatchNotStarted
  with assms show ?thesis
    by (cases "trim_space line = ''*** Begin Patch''")
      (auto simp: process_line_modes error_within_def first_line_error_def)
next
  case PatchEnded
  with assms show ?thesis
    by (cases "trim_space line = ''''") (auto simp: process_line_modes error_within_def last_line_error_def)
qed (use assms process_plain_line_error process_update_line_error in \<open>auto simp: process_line_modes\<close>)

lemma parse_lines_error:
  assumes "parse_lines n ls p = Inl e" and "update_line_ok p" and "line_number p \<le> n" and "0 \<le> n"
  shows "error_within (n + int (length ls)) e"
  using assms
proof (induction ls arbitrary: n p)
  case (Cons line rest)
  have ok: "update_line_ok (p\<lparr>line_number := n + 1\<rparr>)"
    using Cons.prems by (auto simp: update_line_ok_def)
  from Cons.prems(1) consider (now) "process_line line (rest = []) (p\<lparr>line_number := n + 1\<rparr>) = Inl e"
    | (later) q where "process_line line (rest = []) (p\<lparr>line_number := n + 1\<rparr>) = Inr q"
      "parse_lines (n + 1) rest q = Inl e"
    by (auto simp: bind_res_eq_Inl)
  then show ?case
  proof cases
    case now
    from process_line_error [OF now ok] Cons.prems(4) have "error_within (n + 1) e" by simp
    then show ?thesis by (rule error_within_mono) simp
  next
    case later
    from process_line_lines [OF later(1) ok] Cons.prems(4)
    have "line_number q = n + 1" "update_line_ok q" by simp_all
    with later Cons.IH [of "n + 1" q] Cons.prems(4) show ?thesis by (simp add: add.assoc)
  qed
qed simp

lemma check_boundaries_error: "check_patch_boundaries lines = Inl e \<Longrightarrow> error_within n e"
  by (auto simp: check_patch_boundaries_def check_strict_patch_boundaries_def error_within_def Let_def
      first_line_error_def last_line_error_def split: if_splits option.splits)

lemma check_boundaries_length: "check_patch_boundaries lines = Inr ls \<Longrightarrow> length ls \<le> length lines"
  by (auto simp: check_patch_boundaries_def Let_def split: if_splits option.splits)

text \<open>C37: a parsed action has at least one hunk; every hunk is an addition, a deletion or an
  update with a path that is neither blank nor the working directory itself, an update carries a
  diff and a valid move target if any; and the map of changes the callers look paths up in holds
  exactly the last hunk of every path.  Every rejection is an error of the grammar kind, and a hunk
  error names a line between 1 and the number of lines of the input.\<close>

theorem parse_patch_outcome:
  "case parse_patch input of
     Inr a \<Rightarrow> hunks a \<noteq> [] \<and> list_all hunk_ok (hunks a) \<and> changes a = changes_of (hunks a) \<and>
       dom (changes a) = change_path ` set (hunks a)
   | Inl e \<Rightarrow> classify_error e = ErrorKindGrammar \<and>
       error_within (int (length (split_lines input))) e"
proof (cases "parse_patch input")
  case (Inr a)
  then obtain ls p where p: "parse_lines 0 ls new_parser = Inr p" "a = pp_action p" "hunks a \<noteq> []"
    by (auto simp: parse_patch_def bind_res_eq_Inr split: if_splits)
  then have "action_inv a" using parse_lines_inv [OF p(1) parser_inv_new] by (simp add: parser_inv_def)
  then have "list_all hunk_ok (hunks a) \<and> changes a = changes_of (hunks a)"
    by (simp add: action_inv_def)
  with p Inr show ?thesis using dom_changes_of [of "hunks a"] by simp
next
  case (Inl e)
  have new: "update_line_ok new_parser" "line_number new_parser \<le> 0"
    by (simp_all add: update_line_ok_def new_parser_def)
  have "error_within (int (length (split_lines input))) e"
  proof (cases "check_patch_boundaries (split_lines input)")
    case (Inl e')
    with \<open>parse_patch input = Inl e\<close> show ?thesis
      by (auto simp: parse_patch_def dest: check_boundaries_error)
  next
    case (Inr ls)
    show ?thesis
    proof (cases "parse_lines 0 ls new_parser")
      case (Inl e')
      with Inr \<open>parse_patch input = Inl e\<close> have "parse_lines 0 ls new_parser = Inl e"
        by (simp add: parse_patch_def)
      from parse_lines_error [OF this new] have "error_within (int (length ls)) e" by simp
      then show ?thesis by (rule error_within_mono) (simp add: check_boundaries_length [OF Inr])
    next
      case (Inr p)
      with \<open>check_patch_boundaries (split_lines input) = Inr ls\<close> \<open>parse_patch input = Inl e\<close>
      have "e = last_line_error \<or> (\<exists>m. e = WrapsInvalidPatch m)"
        by (simp add: parse_patch_def split: if_splits) blast
      then show ?thesis by (auto simp: error_within_def last_line_error_def)
    qed
  qed
  moreover have "error_within n e \<Longrightarrow> classify_error e = ErrorKindGrammar" for n
    by (cases e) (simp_all add: error_within_def classify_error_def)
  ultimately show ?thesis using Inl by simp
qed

section \<open>The paths of an action\<close>

definition hunk_paths :: "change \<Rightarrow> bytes list" where
  "hunk_paths c = change_path c #
     (if change_kind c = ChangeUpdate \<and> move_path c \<noteq> '''' then [move_path c] else [])"

lemma add_path_laws:
  "distinct ps \<Longrightarrow> distinct (add_path p ps)" "set (add_path p ps) = insert p (set ps)"
  by (auto simp: add_path_def)

lemma file_paths_loop_laws:
  "distinct ps \<Longrightarrow> distinct (file_paths_loop ps cs) \<and>
     set (file_paths_loop ps cs) = set ps \<union> set (concat (map hunk_paths cs))"
proof (induction ps cs rule: file_paths_loop.induct)
  case (2 ps c cs)
  then show ?case by (auto simp: Let_def add_path_laws hunk_paths_def)
qed simp

text \<open>The path list of an action names every path once, and names exactly the sources and the
  move targets of its hunks.\<close>

theorem file_paths_exact:
  "distinct (file_paths a) \<and> set (file_paths a) = set (concat (map hunk_paths (hunks a)))"
  using file_paths_loop_laws [of "[]" "hunks a"] by (simp add: file_paths_def)

text \<open>A move target that \<open>movePathFor\<close> reports is the trimmed, non-blank target of a hunk of
  that path, and none is reported exactly when no hunk of the path has one.\<close>

theorem move_path_for_exact:
  "case move_path_for a path of
     None \<Rightarrow> \<not> list_ex (\<lambda>c. trim_space (change_path c) = trim_space path \<and> trim_space (move_path c) \<noteq> '''') (hunks a)
   | Some m \<Rightarrow> m \<noteq> '''' \<and> list_ex (\<lambda>c. trim_space (change_path c) = trim_space path \<and>
       m = trim_space (move_path c)) (hunks a)"
  by (auto simp: move_path_for_def list_all_iff list_ex_iff find_None_iff find_Some_iff
      split: option.splits)

end
