(* ===== verification/Patch_Roundtrip.thy ===== *)
theory Patch_Roundtrip
  imports Patch_Parser
begin

text \<open>
  The grammar of patches as an abstract syntax, its canonical rendering, and the proof that the
  parser of \<open>Patch_Parser\<close> reads back exactly the action the syntax describes.  The proof is a
  small Hoare logic over \<open>parse_lines\<close>: \<open>triple P ls Q\<close> says that from a parser state in \<open>P\<close> the
  lines \<open>ls\<close> are consumed without error and end in \<open>Q\<close>.
\<close>

section \<open>Abstract syntax and rendering\<close>

datatype chunk_syntax = Chunk "bytes option" "bytes list" bool

datatype hunk_syntax =
    AddFile bytes "bytes list"
  | DeleteFile bytes
  | UpdateFile bytes "bytes option" "chunk_syntax list"

definition terminated :: "bytes list \<Rightarrow> bytes" where
  "terminated ls = concat (map (\<lambda>l. l @ [LF]) ls)"

fun render_chunk :: "chunk_syntax \<Rightarrow> bytes list" where
  "render_chunk (Chunk ctx body eof) =
     (case ctx of None \<Rightarrow> ''@@'' | Some c \<Rightarrow> ''@@ '' @ c) # body @
     (if eof then [''*** End of File''] else [])"

definition render_chunks :: "chunk_syntax list \<Rightarrow> bytes list" where
  "render_chunks cs = concat (map render_chunk cs)"

fun render_hunk :: "hunk_syntax \<Rightarrow> bytes list" where
  "render_hunk (AddFile path ls) = (''*** Add File: '' @ path) # map (\<lambda>l. CHR ''+'' # l) ls"
| "render_hunk (DeleteFile path) = [''*** Delete File: '' @ path]"
| "render_hunk (UpdateFile path mv cs) =
     (''*** Update File: '' @ path) #
     (case mv of None \<Rightarrow> [] | Some m \<Rightarrow> [''*** Move to: '' @ m]) @ render_chunks cs"

definition render_lines :: "bytes option \<Rightarrow> hunk_syntax list \<Rightarrow> bytes list" where
  "render_lines env hs =
     ''*** Begin Patch'' # (case env of None \<Rightarrow> [] | Some e \<Rightarrow> [''*** Environment ID: '' @ e]) @
     concat (map render_hunk hs) @ [''*** End Patch'']"

definition render_patch :: "bytes option \<Rightarrow> hunk_syntax list \<Rightarrow> bytes" where
  "render_patch env hs = join_with [LF] (render_lines env hs)"

text \<open>What the syntax means: the changes the action is expected to hold.\<close>

fun change_of :: "hunk_syntax \<Rightarrow> change" where
  "change_of (AddFile path ls) = (fresh_change ChangeAdd path)\<lparr>content := terminated ls\<rparr>"
| "change_of (DeleteFile path) = fresh_change ChangeDelete path"
| "change_of (UpdateFile path mv cs) = (fresh_change ChangeUpdate path)
     \<lparr>move_path := (case mv of None \<Rightarrow> '''' | Some m \<Rightarrow> m),
      unified_diff := terminated (render_chunks cs)\<rparr>"

text \<open>Well-formed syntax: lines without line breaks, trimmed names, chunks that say something.\<close>

definition one_line :: "bytes \<Rightarrow> bool" where
  "one_line l \<longleftrightarrow> list_all (\<lambda>c. c \<noteq> LF \<and> c \<noteq> CR) l"

definition name_ok :: "bytes \<Rightarrow> bool" where
  "name_ok s \<longleftrightarrow> s \<noteq> '''' \<and> trim_space s = s \<and> one_line s"

definition path_ok :: "bytes \<Rightarrow> bool" where
  "path_ok s \<longleftrightarrow> name_ok s \<and> validate_path s = None"

definition diff_line_ok :: "bytes \<Rightarrow> bool" where
  "diff_line_ok l \<longleftrightarrow> one_line l \<and>
     (case l of [] \<Rightarrow> False | c # r \<Rightarrow> c = CHR '' '' \<or> c = CHR ''+'' \<or> c = CHR ''-'')"

fun chunk_ok :: "chunk_syntax \<Rightarrow> bool" where
  "chunk_ok (Chunk ctx body eof) \<longleftrightarrow>
     (case ctx of None \<Rightarrow> True | Some c \<Rightarrow> one_line c) \<and> body \<noteq> [] \<and> list_all diff_line_ok body"

fun syntax_ok :: "hunk_syntax \<Rightarrow> bool" where
  "syntax_ok (AddFile path ls) \<longleftrightarrow> path_ok path \<and> list_all one_line ls"
| "syntax_ok (DeleteFile path) \<longleftrightarrow> path_ok path"
| "syntax_ok (UpdateFile path mv cs) \<longleftrightarrow> path_ok path \<and>
     (case mv of None \<Rightarrow> True | Some m \<Rightarrow> path_ok m) \<and> cs \<noteq> [] \<and> list_all chunk_ok cs"

section \<open>Triples over the line loop\<close>

definition triple :: "(patch_parser \<Rightarrow> bool) \<Rightarrow> bytes list \<Rightarrow> (patch_parser \<Rightarrow> bool) \<Rightarrow> bool" where
  "triple P ls Q \<longleftrightarrow> (\<forall>p n rest. P p \<longrightarrow> rest \<noteq> [] \<longrightarrow>
     (\<exists>m q. Q q \<and> parse_lines n (ls @ rest) p = parse_lines m rest q))"

definition ignores_line :: "(patch_parser \<Rightarrow> bool) \<Rightarrow> bool" where
  "ignores_line P \<longleftrightarrow> (\<forall>p n. P p \<longrightarrow> P (p\<lparr>line_number := n\<rparr>))"

lemma triple_Nil: "(\<And>p. P p \<Longrightarrow> Q p) \<Longrightarrow> triple P [] Q"
  by (auto simp: triple_def)

lemma triple_append:
  assumes "triple P xs Q" and "triple Q ys R" shows "triple P (xs @ ys) R"
proof -
  have "\<exists>m q. R q \<and> parse_lines n ((xs @ ys) @ rest) p = parse_lines m rest q"
    if "P p" "rest \<noteq> []" for p n rest
  proof -
    from that have "ys @ rest \<noteq> []" by simp
    with assms(1) that(1) obtain m q where "Q q"
      and 1: "parse_lines n (xs @ ys @ rest) p = parse_lines m (ys @ rest) q"
      unfolding triple_def by blast
    from assms(2) \<open>Q q\<close> that(2) show ?thesis unfolding triple_def append_assoc 1 by blast
  qed
  then show ?thesis by (simp only: triple_def) blast
qed

lemma triple_one:
  assumes "ignores_line P" and "\<And>p. P p \<Longrightarrow> \<exists>q. process_line l False p = Inr q \<and> Q q"
  shows "triple P [l] Q"
proof -
  have "\<exists>m q. Q q \<and> parse_lines n ([l] @ rest) p = parse_lines m rest q"
    if "P p" "rest \<noteq> []" for p n rest
  proof -
    from assms that have "P (p\<lparr>line_number := n + 1\<rparr>)" by (simp add: ignores_line_def)
    from assms(2) [OF this] obtain q
      where "process_line l False (p\<lparr>line_number := n + 1\<rparr>) = Inr q" "Q q" by blast
    with that(2) have "Q q \<and> parse_lines n ([l] @ rest) p = parse_lines (n + 1) rest q" by simp
    then show ?thesis by blast
  qed
  then show ?thesis by (simp only: triple_def) blast
qed

lemma triple_Cons:
  assumes "triple P [l] Q" and "triple Q ls R" shows "triple P (l # ls) R"
  using triple_append [OF assms] by simp

lemma triple_post: "triple P ls Q \<Longrightarrow> (\<And>p. Q p \<Longrightarrow> R p) \<Longrightarrow> triple P ls R"
  using triple_append [OF _ triple_Nil, of P ls Q R] by simp

section \<open>Lines and their trimmed forms\<close>

lemma trim_right_blanks_Cons:
  "trim_right_blanks (c # s) =
     (if trim_right_blanks s = [] \<and> (c = CHR '' '' \<or> c = TAB) then [] else c # trim_right_blanks s)"
  by (auto simp: trim_right_blanks_def dropWhile_append)

lemma trim_right_blanks_Nil [simp]: "trim_right_blanks [] = []"
  by (simp add: trim_right_blanks_def)

lemma trim_right_blanks_cases: "trim_right_blanks (c # s) = [] \<or> (\<exists>r. trim_right_blanks (c # s) = c # r)"
  by (simp add: trim_right_blanks_Cons)

lemma trim_space_fixed: "trim_space s = s \<Longrightarrow> trailing_space s = None"
  by (metis trailing_space_trim_right trim_space_def)

lemma trim_right_blanks_fixed:
  assumes "trailing_space s = None" shows "trim_right_blanks s = s"
proof (cases s rule: rev_cases)
  case (snoc r c)
  have "[CHR '' ''] \<in> set space_runes" "[TAB] \<in> set space_runes" by (simp_all add: space_runes_def)
  with assms snoc have "c \<noteq> CHR '' '' \<and> c \<noteq> TAB"
    unfolding trailing_space_def find_None_iff by (metis has_suffix_append)
  with snoc show ?thesis by (simp add: trim_right_blanks_def)
qed simp

lemma wide_space_rune: "w \<in> set space_runes \<Longrightarrow> length w = 1 \<or> CHR '' '' \<notin> set w \<and> LF \<notin> set w"
  unfolding space_runes_def by auto

lemma trailing_space_after:
  assumes sep: "c = CHR '' '' \<or> c = LF" and "trailing_space s = None" and "s \<noteq> []"
  shows "trailing_space (h @ c # s) = None"
proof (rule ccontr)
  assume "trailing_space (h @ c # s) \<noteq> None"
  then obtain w where w: "trailing_space (h @ c # s) = Some w" by blast
  then have rune: "w \<in> set space_runes" by (rule trailing_space_rune)
  from trailing_space_Some [OF w] obtain r where "h @ c # s = r @ w" and "w \<noteq> []"
    by (auto simp: has_suffix_iff)
  then have "\<exists>u. u @ w = c # s \<or> w = u @ c # s"
    by (auto simp: append_eq_append_conv2)
  then obtain u where "u @ w = c # s \<or> w = u @ c # s" by blast
  then show False
  proof
    assume "u @ w = c # s"
    then consider "u = []" "w = c # s" | u' where "s = u' @ w" by (cases u) auto
    then show False
    proof cases
      case 1
      with wide_space_rune [OF rune] assms(3) sep show False by auto
    next
      case 2
      with assms(2) rune show False by (auto simp: trailing_space_def find_None_iff)
    qed
  next
    assume "w = u @ c # s"
    with wide_space_rune [OF rune] assms(3) sep show False by auto
  qed
qed

text \<open>A header followed by a trimmed name is unchanged by both kinds of trimming.\<close>

lemma trim_header:
  assumes "name_ok s" and "ascii_graphic c"
  shows "trim_space (c # h @ CHR '' '' # s) = c # h @ CHR '' '' # s"
    and "trim_right_blanks (c # h @ CHR '' '' # s) = c # h @ CHR '' '' # s"
proof -
  have "trailing_space ((c # h) @ CHR '' '' # s) = None"
    using assms by (intro trailing_space_after) (auto simp: name_ok_def dest: trim_space_fixed)
  then have t: "trailing_space (c # h @ CHR '' '' # s) = None" by simp
  then show "trim_right_blanks (c # h @ CHR '' '' # s) = c # h @ CHR '' '' # s"
    by (rule trim_right_blanks_fixed)
  show "trim_space (c # h @ CHR '' '' # s) = c # h @ CHR '' '' # s"
    using t assms(2) by (simp add: trim_space_id)
qed

lemma graphic_star [simp]: "ascii_graphic (CHR ''*'')" "ascii_graphic (CHR ''+'')" "ascii_graphic (CHR ''h'')"
  by (simp_all add: ascii_graphic_def)

section \<open>States between hunks\<close>

definition ready :: "action \<Rightarrow> patch_parser \<Rightarrow> bool" where
  "ready a p \<longleftrightarrow> pp_mode p \<in> {PatchStarted, PatchAddFile, PatchDeleteFile, PatchUpdateFile} \<and>
     pp_action (finish_hunk p) = a \<and>
     (pp_mode p = PatchUpdateFile \<longrightarrow> last_chunk_is (\<lambda>c. \<not> chunk_empty c) p)"

definition in_add :: "action \<Rightarrow> bytes \<Rightarrow> bytes \<Rightarrow> patch_parser \<Rightarrow> bool" where
  "in_add a path cont p \<longleftrightarrow> pp_mode p = PatchAddFile \<and> pp_action p = a \<and>
     pending p = fresh_change ChangeAdd path \<and> add_content p = cont"

definition in_update :: "action \<Rightarrow> bytes \<Rightarrow> bytes \<Rightarrow> bytes \<Rightarrow> patch_parser \<Rightarrow> bool" where
  "in_update a path mv d p \<longleftrightarrow> pp_mode p = PatchUpdateFile \<and> pp_action p = a \<and>
     pending p = fresh_change ChangeUpdate path \<and> update_move_path p = mv \<and> update_diff p = d"

definition no_chunks :: "patch_parser \<Rightarrow> bool" where
  "no_chunks p \<longleftrightarrow> chunks p = []"

lemma ready_ignores_line: "ignores_line (ready a)"
proof -
  have "pp_action (finish_hunk (p\<lparr>line_number := n\<rparr>)) = pp_action (finish_hunk p)" for p n
    by (cases "pp_mode p") (simp_all add: finish_hunk_def Let_def)
  then show ?thesis by (simp add: ignores_line_def ready_def last_chunk_is_def last_chunk_def)
qed

lemma in_add_ready:
  "in_add a path cont p \<Longrightarrow> ready (add_change ((fresh_change ChangeAdd path)\<lparr>content := cont\<rparr>) a) p"
  by (simp add: in_add_def ready_def finish_hunk_def Let_def)

lemma in_update_ready:
  "in_update a path mv d p \<Longrightarrow> last_chunk_is (\<lambda>c. \<not> chunk_empty c) p \<Longrightarrow>
   ready (add_change ((fresh_change ChangeUpdate path)\<lparr>move_path := mv, unified_diff := d\<rparr>) a) p"
  by (simp add: in_update_def ready_def finish_hunk_def Let_def)

lemma ready_ensure: "ready a p \<Longrightarrow> ensure_update_hunk_not_empty line p = None"
  by (auto simp: ready_def ensure_update_hunk_not_empty_def last_chunk_is_def split: option.splits)

lemma ready_start: "ready a p \<Longrightarrow> start_hunk line None p = Inr (finish_hunk p)"
  by (simp add: start_hunk_def ready_ensure)

lemma ready_finish: "ready a p \<Longrightarrow> pp_action (finish_hunk p) = a"
  by (simp add: ready_def)

text \<open>A line that does not open with a star is no header.\<close>

lemma no_star_no_header:
  assumes "h = [] \<or> hd h \<noteq> CHR ''*''"
  shows "handle_file_header h p = Inr (False, p)"
    and "\<not> has_prefix h ''*** Environment ID:''"
  using assms by (cases h; simp add: handle_file_header_def cut_prefix_def)+

lemma no_star_handle:
  "h = [] \<or> hd h \<noteq> CHR ''*'' \<Longrightarrow> handle_hunk_header_or_end h p = Inr (False, p)"
  using no_star_no_header [of h] by (auto simp: handle_hunk_header_or_end_def cut_prefix_def)

lemma process_header_line:
  assumes "handle_file_header h p = Inr (True, q)" and "ready a p"
    and "trim_space h = h" and "trim_right_blanks h = h" and "\<not> has_prefix h ''*** Environment ID:''"
  shows "process_line h False p = Inr q"
proof -
  have "handle_hunk_header_or_end h p = Inr (True, q)"
    using assms by (simp add: handle_hunk_header_or_end_def cut_prefix_def)
  with assms show ?thesis
    by (auto simp: ready_def process_line_modes process_plain_line_def process_update_line_def Let_def)
qed

lemma header_add:
  assumes "ready a p" and "validate_path path = None"
  shows "\<exists>q. handle_file_header (''*** Add File: '' @ path) p = Inr (True, q) \<and> in_add a path '''' q"
  using assms ready_start [OF assms(1)] ready_finish [OF assms(1)]
  by (simp add: handle_file_header_def cut_prefix_def in_add_def)

lemma header_delete:
  assumes "ready a p" and "validate_path path = None"
  shows "\<exists>q. handle_file_header (''*** Delete File: '' @ path) p = Inr (True, q) \<and>
     ready (add_change (fresh_change ChangeDelete path) a) q"
  using assms ready_start [OF assms(1)] ready_finish [OF assms(1)]
  by (simp add: handle_file_header_def cut_prefix_def ready_def finish_hunk_def)

lemma header_update:
  assumes "ready a p" and "validate_path path = None"
  shows "\<exists>q. handle_file_header (''*** Update File: '' @ path) p = Inr (True, q) \<and>
     in_update a path '''' '''' q \<and> no_chunks q"
  using assms ready_start [OF assms(1)] ready_finish [OF assms(1)]
  by (simp add: handle_file_header_def cut_prefix_def in_update_def no_chunks_def)

lemma triple_header:
  assumes h: "h = CHR ''*'' # h' @ CHR '' '' # path" and name: "name_ok path"
    and env: "\<not> has_prefix h ''*** Environment ID:''"
    and step: "\<And>p. ready a p \<Longrightarrow> \<exists>q. handle_file_header h p = Inr (True, q) \<and> Q q"
  shows "triple (ready a) [h] Q"
proof (rule triple_one [OF ready_ignores_line])
  fix p assume p: "ready a p"
  from step [OF p] obtain q where "handle_file_header h p = Inr (True, q)" and "Q q" by blast
  with process_header_line [OF _ p _ _ env] trim_header [OF name, of "CHR ''*''" h'] h
  show "\<exists>q. process_line h False p = Inr q \<and> Q q" by auto
qed

lemma triple_add_header:
  assumes "path_ok path" shows "triple (ready a) [''*** Add File: '' @ path] (in_add a path '''')"
  using assms by (intro triple_header [where h' = "''** Add File:''" and path = path] header_add)
    (simp_all add: path_ok_def)

lemma triple_delete:
  assumes "path_ok path"
  shows "triple (ready a) [''*** Delete File: '' @ path] (ready (add_change (fresh_change ChangeDelete path) a))"
  using assms by (intro triple_header [where h' = "''** Delete File:''" and path = path] header_delete)
    (simp_all add: path_ok_def)

lemma triple_update_header:
  assumes "path_ok path"
  shows "triple (ready a) [''*** Update File: '' @ path]
    (\<lambda>q. in_update a path '''' '''' q \<and> no_chunks q)"
  using assms by (intro triple_header [where h' = "''** Update File:''" and path = path] header_update)
    (simp_all add: path_ok_def)

section \<open>The lines of an added file\<close>

lemma in_add_ignores_line: "ignores_line (in_add a path cont)"
  by (simp add: ignores_line_def in_add_def)

lemma triple_add_line: "triple (in_add a path cont) [CHR ''+'' # l] (in_add a path (cont @ l @ [LF]))"
proof (rule triple_one [OF in_add_ignores_line])
  fix p assume p: "in_add a path cont p"
  obtain r where "trim_space (CHR ''+'' # l) = CHR ''+'' # r"
    using trim_space_graphic_Cons [of "CHR ''+''" l] by auto
  then have "handle_hunk_header_or_end (trim_space (CHR ''+'' # l)) p = Inr (False, p)"
    by (intro no_star_handle) simp
  with p show "\<exists>q. process_line (CHR ''+'' # l) False p = Inr q \<and> in_add a path (cont @ l @ [LF]) q"
    by (simp add: process_line_modes process_plain_line_def in_add_def cut_prefix_def)
qed

lemma triple_add_lines:
  "triple (in_add a path cont) (map (\<lambda>l. CHR ''+'' # l) ls) (in_add a path (cont @ terminated ls))"
proof (induction ls arbitrary: cont)
  case Nil
  then show ?case by (simp add: triple_Nil terminated_def)
next
  case (Cons l ls)
  show ?case
    using triple_Cons [OF triple_add_line Cons.IH [of "cont @ l @ [LF]"]] by (simp add: terminated_def)
qed

section \<open>The lines of an updated file\<close>

lemma in_update_ignores_line: "ignores_line (in_update a path mv d)"
  by (simp add: ignores_line_def in_update_def)

lemma in_update_last_ignores: "ignores_line (\<lambda>p. in_update a path mv d p \<and> last_chunk_is C p)"
  by (simp add: ignores_line_def in_update_def last_chunk_is_def last_chunk_def)

lemma triple_move:
  assumes "path_ok m"
  shows "triple (\<lambda>p. in_update a path '''' d p \<and> no_chunks p) [''*** Move to: '' @ m]
     (\<lambda>p. in_update a path m d p \<and> no_chunks p)"
proof (rule triple_one)
  show "ignores_line (\<lambda>p. in_update a path '''' d p \<and> no_chunks p)"
    by (simp add: ignores_line_def in_update_def no_chunks_def)
  fix p assume p: "in_update a path '''' d p \<and> no_chunks p"
  let ?l = "''*** Move to: '' @ m"
  have blanks: "trim_right_blanks ?l = ?l"
    using trim_header(2) [of m "CHR ''*''" "''** Move to:''"] assms by (simp add: path_ok_def)
  have "handle_hunk_header_or_end ?l p = Inr (False, p)"
    using p by (simp add: handle_hunk_header_or_end_def handle_file_header_def cut_prefix_def in_update_def)
  moreover have "last_chunk_is C p = False" for C
    using p by (simp add: last_chunk_is_def last_chunk_def no_chunks_def)
  ultimately have "process_line ?l False p = Inr (p\<lparr>update_move_path := m\<rparr>)"
    using p assms blanks by (simp add: process_line_modes process_update_line_def Let_def
        process_move_or_body_def in_update_def no_chunks_def path_ok_def cut_prefix_def)
  with p show "\<exists>q. process_line ?l False p = Inr q \<and> in_update a path m d q \<and> no_chunks q"
    by (simp add: in_update_def no_chunks_def)
qed

text \<open>A body line as the parser sees it: no header, no move line, no marker.\<close>

lemma body_line:
  assumes upd: "in_update a path mv d p" and l: "l = c # r" "c \<noteq> CHR ''*''"
    and blank: "c = CHR '' '' \<or> trim_right_blanks l \<noteq> ''''"
    and eof: "is_chunk_header (trim_right_blanks l) \<or> \<not> last_chunk_is is_end_of_file p"
  shows "process_line l False p =
     (if last_chunk_is is_end_of_file p \<and> trim_right_blanks l = '''' then Inr p
      else process_update_body l (trim_right_blanks l) p)"
proof -
  let ?u = "trim_right_blanks l"
  have u: "?u = [] \<or> hd ?u \<noteq> CHR ''*''"
    using trim_right_blanks_cases [of c r] l by auto
  have "cut_prefix ?u ''*** Move to: '' = None" using u by (cases ?u) (simp_all add: cut_prefix_def)
  moreover have "handle_hunk_header_or_end ?u p = Inr (False, p)" by (rule no_star_handle [OF u])
  ultimately show ?thesis
    using upd eof by (auto simp: process_line_modes process_update_line_def Let_def in_update_def
        process_move_or_body_def)
qed

lemma chunk_header_line:
  assumes "l = ''@@'' \<or> (\<exists>c. l = ''@@ '' @ c)"
  shows "is_chunk_header (trim_right_blanks l)"
  using assms by (auto simp: is_chunk_header_def trim_right_blanks_Cons split: if_splits)

definition open_chunk :: "patch_chunk \<Rightarrow> bool" where
  "open_chunk c \<longleftrightarrow> \<not> is_end_of_file c \<and> 0 \<le> old_lines c \<and> 0 \<le> new_lines c"

lemma triple_chunk_header:
  assumes l: "l = ''@@'' \<or> (\<exists>c. l = ''@@ '' @ c)"
  shows "triple (\<lambda>p. in_update a path mv d p \<and> \<not> last_chunk_is chunk_empty p) [l]
     (\<lambda>p. in_update a path mv (d @ l @ [LF]) p \<and> last_chunk_is open_chunk p)"
proof (rule triple_one)
  show "ignores_line (\<lambda>p. in_update a path mv d p \<and> \<not> last_chunk_is chunk_empty p)"
    by (simp add: ignores_line_def in_update_def last_chunk_is_def last_chunk_def)
  fix p assume p: "in_update a path mv d p \<and> \<not> last_chunk_is chunk_empty p"
  obtain r where r: "l = CHR ''@'' # r" using l by auto
  have h: "is_chunk_header (trim_right_blanks l)" by (rule chunk_header_line [OF l])
  then have "trim_right_blanks l \<noteq> ''''" by (auto simp: is_chunk_header_def)
  with body_line [of a path mv d p l "CHR ''@''" r] p r h
  have "process_line l False p = process_update_body l (trim_right_blanks l) p" by auto
  with p h show "\<exists>q. process_line l False p = Inr q \<and> in_update a path mv (d @ l @ [LF]) q \<and>
      last_chunk_is open_chunk q"
    by (simp add: open_chunk_def process_update_body_def in_update_def append_update_diff_line_def last_chunk_is_def
        last_chunk_def)
qed

lemma count_line_last:
  assumes "last_chunk_is open_chunk p"
    and "\<And>c. open_chunk c \<Longrightarrow> open_chunk (f c) \<and> \<not> chunk_empty (f c)"
  shows "last_chunk_is (\<lambda>c. open_chunk c \<and> \<not> chunk_empty c) (count_line f l p)"
  using assms
  by (auto simp: last_chunk_is_def last_chunk_def count_line_def append_update_diff_line_def
      update_last_chunk_def ensure_chunk_for_content_def split: if_splits)

lemma count_line_update:
  "in_update a path mv d p \<Longrightarrow> in_update a path mv (d @ l @ [LF]) (count_line f l p)"
  by (simp add: in_update_def count_line_def append_update_diff_line_def update_last_chunk_def
      ensure_chunk_for_content_def)

lemma triple_body_line:
  assumes "diff_line_ok l"
  shows "triple (\<lambda>p. in_update a path mv d p \<and> last_chunk_is open_chunk p) [l]
     (\<lambda>p. in_update a path mv (d @ l @ [LF]) p \<and> last_chunk_is (\<lambda>c. open_chunk c \<and> \<not> chunk_empty c) p)"
proof (rule triple_one [OF in_update_last_ignores])
  fix p assume p: "in_update a path mv d p \<and> last_chunk_is open_chunk p"
  from assms obtain c r where l: "l = c # r" and c: "c = CHR '' '' \<or> c = CHR ''+'' \<or> c = CHR ''-''"
    by (cases l) (auto simp: diff_line_ok_def)
  let ?u = "trim_right_blanks l"
  have u: "?u = [] \<or> (\<exists>s. ?u = c # s)" using trim_right_blanks_cases [of c r] l by simp
  have noeof: "\<not> last_chunk_is is_end_of_file p"
    using p by (auto simp: last_chunk_is_def open_chunk_def split: option.splits)
  have "c = CHR '' '' \<or> ?u \<noteq> ''''" using c l by (auto simp: trim_right_blanks_Cons)
  with body_line [of a path mv d p l c r] p l c noeof
  have "process_line l False p = process_update_body l ?u p" by auto
  moreover have "\<not> is_chunk_header ?u" "?u \<noteq> ''*** End of File''"
    using u c by (auto simp: is_chunk_header_def)
  ultimately have line: "process_line l False p = process_content_line l p"
    by (simp add: process_update_body_def)
  obtain f where f: "process_content_line l p = Inr (count_line f l p)"
    and good: "\<And>ch. open_chunk ch \<Longrightarrow> open_chunk (f ch) \<and> \<not> chunk_empty (f ch)"
  proof -
    consider "c = CHR '' ''" | "c = CHR ''+''" | "c = CHR ''-''" using c by blast
    then show thesis
    proof cases
      case 1
      then show thesis using l by (intro that [of count_both])
        (auto simp: process_content_line_def count_both_def open_chunk_def chunk_empty_def)
    next
      case 2
      then show thesis using l by (intro that [of "\<lambda>c. c\<lparr>new_lines := new_lines c + 1\<rparr>"])
        (auto simp: process_content_line_def open_chunk_def chunk_empty_def)
    next
      case 3
      then show thesis using l by (intro that [of "\<lambda>c. c\<lparr>old_lines := old_lines c + 1\<rparr>"])
        (auto simp: process_content_line_def open_chunk_def chunk_empty_def)
    qed
  qed
  with line p show "\<exists>q. process_line l False p = Inr q \<and> in_update a path mv (d @ l @ [LF]) q \<and>
      last_chunk_is (\<lambda>c. open_chunk c \<and> \<not> chunk_empty c) q"
    using count_line_update [of a path mv d p l f] count_line_last [of p f l] by simp
qed

lemma last_chunk_is_mono: "last_chunk_is P p \<Longrightarrow> (\<And>c. P c \<Longrightarrow> Q c) \<Longrightarrow> last_chunk_is Q p"
  by (auto simp: last_chunk_is_def split: option.splits)

lemma triple_body:
  assumes "list_all diff_line_ok ls" and "ls \<noteq> []"
  shows "triple (\<lambda>p. in_update a path mv d p \<and> last_chunk_is open_chunk p) ls
     (\<lambda>p. in_update a path mv (d @ terminated ls) p \<and>
        last_chunk_is (\<lambda>c. open_chunk c \<and> \<not> chunk_empty c) p)"
  using assms
proof (induction ls arbitrary: d)
  case (Cons l ls)
  show ?case
  proof (cases "ls = []")
    case True
    with Cons.prems triple_body_line [of l a path mv d] show ?thesis by (simp add: terminated_def)
  next
    case False
    have "triple (\<lambda>p. in_update a path mv d p \<and> last_chunk_is open_chunk p) [l]
       (\<lambda>p. in_update a path mv (d @ l @ [LF]) p \<and> last_chunk_is open_chunk p)"
      using Cons.prems
      by (intro triple_post [OF triple_body_line]) (auto elim: last_chunk_is_mono)
    from triple_Cons [OF this Cons.IH] False Cons.prems show ?thesis by (simp add: terminated_def)
  qed
qed simp

lemma end_of_file_line:
  assumes "in_update a path mv d p" and "last_chunk_is (\<lambda>c. open_chunk c \<and> \<not> chunk_empty c) p"
  shows "\<exists>q. process_end_of_file l p = Inr q \<and> in_update a path mv (d @ l @ [LF]) q \<and>
    last_chunk_is (\<lambda>c. \<not> chunk_empty c) q"
proof -
  from assms(2) have "chunks p \<noteq> []" "\<not> chunk_empty (last (chunks p))"
    by (auto simp: last_chunk_is_def last_chunk_def split: if_splits)
  moreover have "chunk_empty (c\<lparr>is_end_of_file := x\<rparr>) = chunk_empty c" for c x by (simp add: chunk_empty_def)
  ultimately show ?thesis
    using assms(1) by (simp add: process_end_of_file_def in_update_def append_update_diff_line_def
        update_last_chunk_def last_chunk_is_def last_chunk_def)
qed

lemma end_of_file_header:
  assumes "l = ''*** End of File''"
  shows "trim_right_blanks l = l" and "cut_prefix l ''*** Move to: '' = None" and "\<not> is_chunk_header l"
    and "pp_mode p = PatchUpdateFile \<Longrightarrow> handle_hunk_header_or_end l p = Inr (False, p)"
  unfolding assms
  by (simp_all add: trim_right_blanks_def cut_prefix_def is_chunk_header_def
      handle_hunk_header_or_end_def handle_file_header_def)

lemma triple_eof:
  "triple (\<lambda>p. in_update a path mv d p \<and> last_chunk_is (\<lambda>c. open_chunk c \<and> \<not> chunk_empty c) p)
     [''*** End of File'']
     (\<lambda>p. in_update a path mv (d @ ''*** End of File'' @ [LF]) p \<and> last_chunk_is (\<lambda>c. \<not> chunk_empty c) p)"
proof (rule triple_one [OF in_update_last_ignores])
  fix p assume p: "in_update a path mv d p \<and> last_chunk_is (\<lambda>c. open_chunk c \<and> \<not> chunk_empty c) p"
  obtain l where l: "l = ''*** End of File''" by simp
  note h = end_of_file_header [OF l]
  have mode: "pp_mode p = PatchUpdateFile" using p by (simp add: in_update_def)
  have "\<not> last_chunk_is is_end_of_file p"
    using p by (auto simp: last_chunk_is_def open_chunk_def split: option.splits)
  moreover have "process_move_or_body l l p = process_end_of_file l p"
    using h l by (simp add: process_move_or_body_def process_update_body_def)
  ultimately have "process_line l False p = process_end_of_file l p"
    using h(1) h(4) [OF mode] mode by (simp add: process_line_modes process_update_line_def Let_def)
  with end_of_file_line [of a path mv d p l] p
  show "\<exists>q. process_line ''*** End of File'' False p = Inr q \<and>
      in_update a path mv (d @ ''*** End of File'' @ [LF]) q \<and> last_chunk_is (\<lambda>c. \<not> chunk_empty c) q"
    unfolding l [symmetric] by metis
qed

lemma terminated_append [simp]: "terminated (xs @ ys) = terminated xs @ terminated ys"
  by (simp add: terminated_def)

lemma terminated_Cons [simp]: "terminated (x # xs) = x @ LF # terminated xs"
  by (simp add: terminated_def)

lemma terminated_Nil [simp]: "terminated [] = []"
  by (simp add: terminated_def)

lemma triple_chunk:
  assumes "chunk_ok c"
  shows "triple (\<lambda>p. in_update a path mv d p \<and> \<not> last_chunk_is chunk_empty p) (render_chunk c)
     (\<lambda>p. in_update a path mv (d @ terminated (render_chunk c)) p \<and> last_chunk_is (\<lambda>c. \<not> chunk_empty c) p)"
proof (cases c)
  case (Chunk ctx body eof)
  define hd where "hd = (case ctx of None \<Rightarrow> ''@@'' | Some c \<Rightarrow> ''@@ '' @ c)"
  have h: "hd = ''@@'' \<or> (\<exists>c. hd = ''@@ '' @ c)" by (cases ctx) (simp_all add: hd_def)
  have body: "list_all diff_line_ok body" "body \<noteq> []" using assms Chunk by simp_all
  from triple_Cons [OF triple_chunk_header [OF h] triple_body [OF body]]
  have 1: "triple (\<lambda>p. in_update a path mv d p \<and> \<not> last_chunk_is chunk_empty p) (hd # body)
     (\<lambda>p. in_update a path mv (d @ terminated (hd # body)) p \<and>
        last_chunk_is (\<lambda>c. open_chunk c \<and> \<not> chunk_empty c) p)" by simp
  show ?thesis
  proof (cases eof)
    case True
    with triple_append [OF 1 triple_eof] Chunk show ?thesis by (simp add: hd_def)
  next
    case False
    have "triple (\<lambda>p. in_update a path mv d p \<and> \<not> last_chunk_is chunk_empty p) (hd # body)
     (\<lambda>p. in_update a path mv (d @ terminated (hd # body)) p \<and> last_chunk_is (\<lambda>c. \<not> chunk_empty c) p)"
      by (rule triple_post [OF 1]) (auto elim: last_chunk_is_mono)
    with False Chunk show ?thesis by (simp add: hd_def)
  qed
qed

lemma last_not_empty: "last_chunk_is (\<lambda>c. \<not> P c) p \<Longrightarrow> \<not> last_chunk_is P p"
  by (auto simp: last_chunk_is_def split: option.splits)

lemma triple_chunks:
  assumes "list_all chunk_ok cs" and "cs \<noteq> []"
  shows "triple (\<lambda>p. in_update a path mv d p \<and> \<not> last_chunk_is chunk_empty p) (render_chunks cs)
     (\<lambda>p. in_update a path mv (d @ terminated (render_chunks cs)) p \<and> last_chunk_is (\<lambda>c. \<not> chunk_empty c) p)"
  using assms
proof (induction cs arbitrary: d)
  case (Cons c cs)
  show ?case
  proof (cases "cs = []")
    case True
    with Cons.prems triple_chunk [of c a path mv d] show ?thesis by (simp add: render_chunks_def)
  next
    case False
    have "triple (\<lambda>p. in_update a path mv d p \<and> \<not> last_chunk_is chunk_empty p) (render_chunk c)
       (\<lambda>p. in_update a path mv (d @ terminated (render_chunk c)) p \<and> \<not> last_chunk_is chunk_empty p)"
      using Cons.prems by (intro triple_post [OF triple_chunk]) (auto dest: last_not_empty)
    from triple_append [OF this Cons.IH] False Cons.prems show ?thesis by (simp add: render_chunks_def)
  qed
qed simp

section \<open>Whole patches\<close>

lemma triple_hunk:
  assumes "syntax_ok h"
  shows "triple (ready a) (render_hunk h) (ready (add_change (change_of h) a))"
proof (cases h)
  case (AddFile path ls)
  with assms have "path_ok path" by simp
  from triple_Cons [OF triple_add_header [OF this] triple_add_lines]
  have "triple (ready a) (render_hunk h) (in_add a path (terminated ls))" using AddFile by simp
  from triple_post [OF this in_add_ready] AddFile show ?thesis by simp
next
  case (DeleteFile path)
  with assms triple_delete show ?thesis by simp
next
  case (UpdateFile path mv cs)
  with assms have ok: "path_ok path" "list_all chunk_ok cs" "cs \<noteq> []" by simp_all
  define m where "m = (case mv of None \<Rightarrow> '''' | Some m \<Rightarrow> m)"
  have fresh: "in_update a path x '''' p \<and> no_chunks p \<Longrightarrow>
      in_update a path x '''' p \<and> \<not> last_chunk_is chunk_empty p" for x p
    by (simp add: last_chunk_is_def last_chunk_def no_chunks_def)
  have "triple (ready a) ((''*** Update File: '' @ path) #
      (case mv of None \<Rightarrow> [] | Some m \<Rightarrow> [''*** Move to: '' @ m]))
      (\<lambda>p. in_update a path m '''' p \<and> \<not> last_chunk_is chunk_empty p)"
  proof (cases mv)
    case None
    with triple_post [OF triple_update_header [OF ok(1)] fresh] show ?thesis by (simp add: m_def)
  next
    case (Some x)
    with assms UpdateFile have "path_ok x" by simp
    from triple_post [OF triple_Cons [OF triple_update_header [OF ok(1)] triple_move [OF this]] fresh] Some
    show ?thesis by (simp add: m_def)
  qed
  from triple_append [OF this triple_chunks [OF ok(2,3)]] UpdateFile
  have "triple (ready a) (render_hunk h)
     (\<lambda>p. in_update a path m (terminated (render_chunks cs)) p \<and> last_chunk_is (\<lambda>c. \<not> chunk_empty c) p)"
    by simp
  from triple_post [OF this] UpdateFile show ?thesis
    by (simp add: m_def [symmetric] in_update_ready)
qed

lemma triple_hunks:
  "list_all syntax_ok hs \<Longrightarrow>
   triple (ready a) (concat (map render_hunk hs)) (ready (fold add_change (map change_of hs) a))"
proof (induction hs arbitrary: a)
  case Nil
  then show ?case by (simp add: triple_Nil)
next
  case (Cons h hs)
  then show ?case by (auto intro: triple_append triple_hunk)
qed

definition env_text :: "bytes option \<Rightarrow> bytes" where
  "env_text env = (case env of None \<Rightarrow> '''' | Some e \<Rightarrow> e)"

definition expected_action :: "bytes option \<Rightarrow> hunk_syntax list \<Rightarrow> action" where
  "expected_action env hs = \<lparr>environment_id = env_text env, action_cwd = '''',
     hunks = map change_of hs, changes = changes_of (map change_of hs)\<rparr>"

lemma fold_add_change:
  "fold add_change cs a =
     a\<lparr>changes := foldl (\<lambda>m c. m(change_path c \<mapsto> c)) (changes a) cs, hunks := hunks a @ cs\<rparr>"
  by (induction cs arbitrary: a) (simp_all add: add_change_def)

definition started :: "patch_parser \<Rightarrow> bool" where
  "started p \<longleftrightarrow> pp_mode p = PatchStarted \<and> pp_action p = empty_action"

lemma started_ready: "started p \<Longrightarrow> ready empty_action p"
  by (simp add: started_def ready_def finish_hunk_def)

lemma trim_space_marker [simp]:
  "trim_space ''*** Begin Patch'' = ''*** Begin Patch''"
  "trim_space ''*** End Patch'' = ''*** End Patch''"
proof -
  have h: "trailing_space (''*** Begin Patc'' @ [CHR ''h'']) = None"
    "trailing_space (''*** End Patc'' @ [CHR ''h'']) = None" by (simp_all only: trailing_space_graphic graphic_star)
  then show "trim_space ''*** Begin Patch'' = ''*** Begin Patch''"
    "trim_space ''*** End Patch'' = ''*** End Patch''" by (simp_all add: trim_space_id)
qed

lemma triple_begin: "triple (\<lambda>p. p\<lparr>line_number := 0\<rparr> = new_parser) [''*** Begin Patch''] started"
proof (rule triple_one)
  show "ignores_line (\<lambda>p. p\<lparr>line_number := 0\<rparr> = new_parser)" by (simp add: ignores_line_def)
  fix p assume "p\<lparr>line_number := 0\<rparr> = new_parser"
  then have "pp_mode p = PatchNotStarted" "pp_action p = empty_action"
    by (cases p; simp add: new_parser_def)+
  then show "\<exists>q. process_line ''*** Begin Patch'' False p = Inr q \<and> started q"
    by (simp add: process_line_modes started_def)
qed

lemma trim_space_blank: "trim_space (CHR '' '' # s) = trim_space s"
proof -
  have "leading_space (CHR '' '' # s) = Some '' ''"
    by (simp add: leading_space_def space_runes_def)
  then show ?thesis by (simp add: trim_space_def trim_left.simps [of "CHR '' '' # s"])
qed

lemma triple_env:
  assumes "name_ok e"
  shows "triple started [''*** Environment ID: '' @ e] (ready (empty_action\<lparr>environment_id := e\<rparr>))"
proof (rule triple_one)
  show "ignores_line started" by (simp add: ignores_line_def started_def)
  fix p assume p: "started p"
  let ?l = "''*** Environment ID: '' @ e"
  have t: "trim_space ?l = ?l"
    using trim_header(1) [OF assms, of "CHR ''*''" "''** Environment ID:''"] by simp
  have "process_line ?l False p = Inr (p\<lparr>pp_action := (pp_action p)\<lparr>environment_id := e\<rparr>\<rparr>)"
    using p assms t
    by (simp add: process_line_modes process_plain_line_def started_def handle_hunk_header_or_end_def
        cut_prefix_def handle_environment_id_def empty_action_def trim_space_blank name_ok_def)
  with p show "\<exists>q. process_line ?l False p = Inr q \<and> ready (empty_action\<lparr>environment_id := e\<rparr>) q"
    by (simp add: started_def ready_def finish_hunk_def)
qed

lemma process_end:
  assumes "ready a p"
  shows "\<exists>q. process_line ''*** End Patch'' is_last p = Inr q \<and> pp_mode q = PatchEnded \<and> pp_action q = a"
proof -
  have "handle_hunk_header_or_end ''*** End Patch'' p = Inr (True, (finish_hunk p)\<lparr>pp_mode := PatchEnded\<rparr>)"
    using ready_ensure [OF assms]
    by (simp add: handle_hunk_header_or_end_def handle_file_header_def cut_prefix_def)
  moreover have "trim_right_blanks ''*** End Patch'' = ''*** End Patch''"
    by (simp add: trim_right_blanks_def)
  ultimately show ?thesis
    using assms by (auto simp: ready_def process_line_modes process_plain_line_def
        process_update_line_def Let_def)
qed

lemma parse_rendered_lines:
  assumes "list_all syntax_ok hs" and "case env of None \<Rightarrow> True | Some e \<Rightarrow> name_ok e"
  shows "\<exists>p. parse_lines 0 (render_lines env hs) new_parser = Inr p \<and> pp_mode p = PatchEnded \<and>
     pp_action p = expected_action env hs"
proof -
  let ?P = "\<lambda>p. p\<lparr>line_number := 0\<rparr> = new_parser"
  have "triple ?P (''*** Begin Patch'' # (case env of None \<Rightarrow> [] | Some e \<Rightarrow> [''*** Environment ID: '' @ e]))
      (ready (empty_action\<lparr>environment_id := env_text env\<rparr>))"
  proof (cases env)
    case None
    with triple_post [OF triple_begin started_ready] show ?thesis
      by (simp add: env_text_def empty_action_def)
  next
    case (Some e)
    with assms have "name_ok e" by simp
    from triple_Cons [OF triple_begin triple_env [OF this]] Some show ?thesis by (simp add: env_text_def)
  qed
  from triple_append [OF this triple_hunks [OF assms(1)]]
  have all: "triple ?P ((''*** Begin Patch'' # (case env of None \<Rightarrow> [] | Some e \<Rightarrow> [''*** Environment ID: '' @ e])) @
      concat (map render_hunk hs))
      (ready (fold add_change (map change_of hs) (empty_action\<lparr>environment_id := env_text env\<rparr>)))" .
  have "?P new_parser" by (simp add: new_parser_def)
  with all obtain m q
    where q: "ready (fold add_change (map change_of hs) (empty_action\<lparr>environment_id := env_text env\<rparr>)) q"
      and "parse_lines 0 (((''*** Begin Patch'' # (case env of None \<Rightarrow> [] | Some e \<Rightarrow> [''*** Environment ID: '' @ e])) @
      concat (map render_hunk hs)) @ [''*** End Patch'']) new_parser = parse_lines m [''*** End Patch''] q"
    unfolding triple_def by blast
  then have "parse_lines 0 (render_lines env hs) new_parser = parse_lines m [''*** End Patch''] q"
    by (simp add: render_lines_def)
  moreover have "ready a q \<Longrightarrow> ready a (q\<lparr>line_number := m + 1\<rparr>)" for a
    using ready_ignores_line by (simp add: ignores_line_def)
  moreover have "fold add_change (map change_of hs) (empty_action\<lparr>environment_id := env_text env\<rparr>) =
      expected_action env hs"
    by (simp add: fold_add_change expected_action_def empty_action_def changes_of_def)
  ultimately have r: "ready (expected_action env hs) (q\<lparr>line_number := m + 1\<rparr>)"
    and l: "parse_lines 0 (render_lines env hs) new_parser = parse_lines m [''*** End Patch''] q"
    using q by simp_all
  from process_end [OF r, of True] l show ?thesis by auto
qed

lemma one_line_simps [simp]:
  "one_line []" "one_line (c # r) \<longleftrightarrow> c \<noteq> LF \<and> c \<noteq> CR \<and> one_line r"
  "one_line (x @ y) \<longleftrightarrow> one_line x \<and> one_line y"
  by (simp_all add: one_line_def)

lemma diff_lines_one_line: "list_all diff_line_ok ls \<Longrightarrow> list_all one_line ls"
  by (induction ls) (simp_all add: diff_line_ok_def)

lemma render_chunk_one_line:
  assumes "chunk_ok c" shows "list_all one_line (render_chunk c)"
proof (cases c)
  case (Chunk ctx body eof)
  with assms have "list_all one_line body" by (simp add: diff_lines_one_line)
  with Chunk assms show ?thesis by (cases ctx) simp_all
qed

lemma join_one_line: "list_all one_line ls \<Longrightarrow> CR \<notin> set (join_with [LF] ls)"
  by (induction "[LF]" ls rule: join_with.induct) (auto simp: one_line_def list_all_iff)

lemma split_join_one_line: "ls \<noteq> [] \<Longrightarrow> list_all one_line ls \<Longrightarrow> split_on LF (join_with [LF] ls) = ls"
  by (intro split_on_join) (auto simp: one_line_def list_all_iff)

lemma list_all_concat_map: "list_all P xs \<Longrightarrow> (\<And>x. P x \<Longrightarrow> list_all Q (f x)) \<Longrightarrow> list_all Q (concat (map f xs))"
  by (induction xs) simp_all

lemma plus_lines_one_line: "list_all one_line (map (\<lambda>l. CHR ''+'' # l) ls) = list_all one_line ls"
  by (induction ls) simp_all

lemma render_hunk_one_line:
  assumes "syntax_ok h" shows "list_all one_line (render_hunk h)"
proof (cases h)
  case (UpdateFile path mv cs)
  with assms have "list_all one_line (render_chunks cs)"
    by (auto simp: render_chunks_def intro!: list_all_concat_map render_chunk_one_line)
  with UpdateFile assms show ?thesis by (cases mv) (simp_all add: path_ok_def name_ok_def)
qed (use assms in \<open>simp_all add: path_ok_def name_ok_def plus_lines_one_line\<close>)

lemma render_lines_one_line:
  assumes "list_all syntax_ok hs" and "case env of None \<Rightarrow> True | Some e \<Rightarrow> name_ok e"
  shows "list_all one_line (render_lines env hs)"
proof -
  have "list_all one_line (concat (map render_hunk hs))"
    by (rule list_all_concat_map [OF assms(1) render_hunk_one_line])
  with assms(2) show ?thesis by (cases env) (simp_all add: render_lines_def name_ok_def)
qed

text \<open>Splitting a text between its two markers gives back its lines.\<close>

lemma split_lines_marked:
  assumes lines: "list_all one_line (''*** Begin Patch'' # ls @ [''*** End Patch''])"
  shows "split_lines (join_with [LF] (''*** Begin Patch'' # ls @ [''*** End Patch''])) =
    ''*** Begin Patch'' # ls @ [''*** End Patch'']"
proof -
  let ?ls = "''*** Begin Patch'' # ls @ [''*** End Patch'']"
  let ?s = "join_with [LF] ?ls"
  have last: "?s = join_with [LF] (''*** Begin Patch'' # ls) @ [LF] @ ''*** End Patch''"
    using join_with_snoc [of "''*** Begin Patch'' # ls" "[LF]" "''*** End Patch''"] by simp
  obtain u where u: "?s = u @ [CHR ''h'']" using last by simp
  obtain v where v: "?s = CHR ''*'' # v" by (cases ls) simp_all
  have "trailing_space ?s = None" by (simp only: u trailing_space_graphic graphic_star)
  moreover have "leading_space ?s = None" by (simp only: v leading_space_graphic graphic_star)
  ultimately have t: "trim_space ?s = ?s" by (intro trim_space_id)
  have cr: "CR \<notin> set ?s" by (rule join_one_line [OF lines])
  have "\<not> has_suffix ?s [LF]" unfolding u by (simp add: has_suffix_def)
  then have "trim_suffix ?s [LF] = ?s" by (simp add: trim_suffix_def)
  moreover have "?s \<noteq> ''''" using v by simp
  moreover have "split_on LF ?s = ?ls" by (rule split_join_one_line [OF _ lines]) simp
  ultimately show ?thesis
    using t cr by (simp only: split_lines_def Let_def replace_crlf_id replace_cr_id not_False_eq_True if_False)
qed

text \<open>C2: parsing the rendering of a well-formed patch gives back exactly the action it describes:
  the environment, every hunk in order with its content, move target and diff text, and the map of
  changes by path.\<close>

theorem parse_render_roundtrip:
  assumes "list_all syntax_ok hs" and "hs \<noteq> []" and "case env of None \<Rightarrow> True | Some e \<Rightarrow> name_ok e"
  shows "parse_patch (render_patch env hs) = Inr (expected_action env hs)"
proof -
  obtain p where p: "parse_lines 0 (render_lines env hs) new_parser = Inr p" "pp_mode p = PatchEnded"
    "pp_action p = expected_action env hs"
    using parse_rendered_lines [OF assms(1,3)] by blast
  define inner where "inner = (case env of None \<Rightarrow> [] | Some e \<Rightarrow> [''*** Environment ID: '' @ e]) @
     concat (map render_hunk hs)"
  have ls: "render_lines env hs = ''*** Begin Patch'' # inner @ [''*** End Patch'']"
    by (simp add: render_lines_def inner_def)
  have "split_lines (render_patch env hs) = render_lines env hs"
    using split_lines_marked [of inner] render_lines_one_line [OF assms(1,3)]
    by (simp only: render_patch_def ls)
  moreover have "check_patch_boundaries (render_lines env hs) = Inr (render_lines env hs)"
    by (simp add: check_patch_boundaries_def check_strict_patch_boundaries_def ls)
  moreover have "hunks (expected_action env hs) \<noteq> []" using assms(2) by (simp add: expected_action_def)
  ultimately show ?thesis using p by (simp add: parse_patch_def)
qed

text \<open>A move, an addition and a deletion in one patch.\<close>

abbreviation "example_hunks \<equiv>
  [UpdateFile ''src/a.go'' (Some ''src/b.go'') [Chunk (Some ''func main'') ['' x'', ''-y'', ''+z''] True],
   AddFile ''new.txt'' [''one'', ''''], DeleteFile ''old.txt'']"

lemma parse_render_roundtrip_witness:
  "parse_patch (render_patch (Some ''local'') example_hunks) =
     Inr (expected_action (Some ''local'') example_hunks)"
proof (rule parse_render_roundtrip)
  show "list_all syntax_ok example_hunks" by code_simp
  show "case Some ''local'' of None \<Rightarrow> True | Some e \<Rightarrow> name_ok e" by code_simp
qed simp

end
