(* ===== verification/Source_File.thy ===== *)
theory Source_File
  imports Patch_Parser
begin

text \<open>
  Applying the diff of an update hunk to a file, \<open>applypatch/line_endings.go\<close> and
  \<open>parseUpdateChunks\<close> of \<open>applypatch/applypatch.go\<close>: the file is split into lines that keep
  their line endings, every chunk of the diff is located with a search of decreasing strictness,
  and what it changes becomes replacements of line ranges, applied in one pass.  Line indices are
  \<open>nat\<close>; the search result \<open>-1\<close> is \<open>None\<close>.
\<close>

section \<open>Files as lines with their endings\<close>

datatype line_ending = LineEndingLF | LineEndingCRLF | LineEndingCR

definition ending_text :: "line_ending \<Rightarrow> bytes" where
  "ending_text e = (case e of LineEndingCRLF \<Rightarrow> [CR, LF] | LineEndingCR \<Rightarrow> [CR] | LineEndingLF \<Rightarrow> [LF])"

record source_line =
  line_text :: bytes
  ending :: "line_ending option"

record source_file =
  file_lines :: "source_line list"
  preferred_ending :: line_ending

definition first_ending :: "line_ending option \<Rightarrow> line_ending \<Rightarrow> line_ending option" where
  "first_ending preferred e = (case preferred of None \<Rightarrow> Some e | Some p \<Rightarrow> Some p)"

text \<open>The scan: \<open>cur\<close> is \<open>contents[lineStart:cursor]\<close>, the last argument \<open>contents[cursor:]\<close>.\<close>

fun scan_lines ::
  "source_line list \<Rightarrow> line_ending option \<Rightarrow> bytes \<Rightarrow> bytes \<Rightarrow> source_line list \<times> line_ending option \<times> bytes"
where
  "scan_lines lines preferred cur [] = (lines, preferred, cur)"
| "scan_lines lines preferred cur (c # rest) =
     (if c = CR \<and> has_prefix rest [LF] then
        scan_lines (lines @ [\<lparr>line_text = cur, ending = Some LineEndingCRLF\<rparr>])
          (first_ending preferred LineEndingCRLF) '''' (drop 1 rest)
      else if c = CR then
        scan_lines (lines @ [\<lparr>line_text = cur, ending = Some LineEndingCR\<rparr>])
          (first_ending preferred LineEndingCR) '''' rest
      else if c = LF then
        scan_lines (lines @ [\<lparr>line_text = cur, ending = Some LineEndingLF\<rparr>])
          (first_ending preferred LineEndingLF) '''' rest
      else scan_lines lines preferred (cur @ [c]) rest)"

definition parse_source_file :: "bytes \<Rightarrow> source_file" where
  "parse_source_file contents =
     (case scan_lines [] None '''' contents of (lines, preferred, cur) \<Rightarrow>
        \<lparr>file_lines = (if cur \<noteq> '''' then lines @ [\<lparr>line_text = cur, ending = None\<rparr>] else lines),
         preferred_ending = (case preferred of None \<Rightarrow> LineEndingLF | Some e \<Rightarrow> e)\<rparr>)"

definition line_texts :: "source_file \<Rightarrow> bytes list" where
  "line_texts f = map line_text (file_lines f)"

definition into_contents :: "source_file \<Rightarrow> bytes" where
  "into_contents f =
     concat (map (\<lambda>l. line_text l @ (case ending l of None \<Rightarrow> '''' | Some e \<Rightarrow> ending_text e)) (file_lines f))"

section \<open>Replacements\<close>

record replacement =
  rep_start :: nat
  rep_old_len :: nat
  rep_new_lines :: "bytes list"

definition preferred_line :: "source_file \<Rightarrow> bytes \<Rightarrow> source_line" where
  "preferred_line f s = \<lparr>line_text = s, ending = Some (preferred_ending f)\<rparr>"

text \<open>The loop over the replacements; the slice \<open>original[sourceIndex:rep.start]\<close> panics when
  its bounds are out of range, which is \<open>None\<close>.\<close>

fun replace_loop ::
  "source_file \<Rightarrow> source_line list \<Rightarrow> nat \<Rightarrow> replacement list \<Rightarrow> (source_line list \<times> nat) option"
where
  "replace_loop f acc source_index [] = Some (acc, source_index)"
| "replace_loop f acc source_index (rep # reps) =
     (if rep_start rep < source_index then replace_loop f acc source_index reps
      else if length (file_lines f) < rep_start rep then None
      else replace_loop f
        (acc @ take (rep_start rep - source_index) (drop source_index (file_lines f)) @
           map (preferred_line f) (rep_new_lines rep))
        (rep_start rep + rep_old_len rep) reps)"

definition fill_ending :: "source_file \<Rightarrow> source_line \<Rightarrow> source_line" where
  "fill_ending f l = (case ending l of None \<Rightarrow> l\<lparr>ending := Some (preferred_ending f)\<rparr> | Some _ \<Rightarrow> l)"

definition apply_replacements :: "replacement list \<Rightarrow> source_file \<Rightarrow> source_file option" where
  "apply_replacements reps f =
     (case replace_loop f [] 0 reps of
        None \<Rightarrow> None
      | Some (acc, source_index) \<Rightarrow>
          if length (file_lines f) < source_index then None
          else Some (f\<lparr>file_lines := map (fill_ending f) (acc @ drop source_index (file_lines f))\<rparr>))"

section \<open>Searching\<close>

text \<open>One comparison of the search: the lines from a position on against the pattern.\<close>

fun match_here :: "(bytes \<Rightarrow> bytes) \<Rightarrow> bytes list \<Rightarrow> bytes list \<Rightarrow> bool" where
  "match_here f ls [] = True"
| "match_here f [] (p # ps) = False"
| "match_here f (l # ls) (p # ps) = (if f l \<noteq> f p then False else match_here f ls ps)"

definition seek_pass :: "(bytes \<Rightarrow> bytes) \<Rightarrow> bytes list \<Rightarrow> bytes list \<Rightarrow> nat \<Rightarrow> nat option" where
  "seek_pass f ls pattern search_start =
     find (\<lambda>i. match_here f (drop i ls) pattern) [search_start ..< Suc (length ls - length pattern)]"

definition normalize_rune :: "nat \<Rightarrow> nat" where
  "normalize_rune r =
     (if r \<in> {0x2010, 0x2011, 0x2012, 0x2013, 0x2014, 0x2015, 0x2212} then 0x2D
      else if r \<in> {0x2018, 0x2019, 0x201A, 0x201B} then 0x27
      else if r \<in> {0x201C, 0x201D, 0x201E, 0x201F} then 0x22
      else if r \<in> {0x00A0, 0x2002, 0x2003, 0x2004, 0x2005, 0x2006, 0x2007, 0x2008, 0x2009, 0x200A,
                   0x202F, 0x205F, 0x3000} then 0x20
      else r)"

text \<open>An equation that evaluates with comparisons only.\<close>

lemma normalize_rune_code [code]:
  "normalize_rune r =
     (if r < 0xA0 then r
      else if 0x2010 \<le> r \<and> r \<le> 0x2015 \<or> 0x2212 \<le> r \<and> r \<le> 0x2212 then 0x2D
      else if 0x2018 \<le> r \<and> r \<le> 0x201B then 0x27
      else if 0x201C \<le> r \<and> r \<le> 0x201F then 0x22
      else if 0x00A0 \<le> r \<and> r \<le> 0x00A0 \<or> 0x2002 \<le> r \<and> r \<le> 0x200A \<or>
        0x202F \<le> r \<and> r \<le> 0x202F \<or> 0x205F \<le> r \<and> r \<le> 0x205F \<or> 0x3000 \<le> r \<and> r \<le> 0x3000
        then 0x20
      else r)"
proof -
  have "(r \<in> {0x2010, 0x2011, 0x2012, 0x2013, 0x2014, 0x2015, 0x2212}) =
      (0x2010 \<le> r \<and> r \<le> 0x2015 \<or> 0x2212 \<le> r \<and> r \<le> (0x2212::nat))" by auto
  moreover have "(r \<in> {0x2018, 0x2019, 0x201A, 0x201B}) = (0x2018 \<le> r \<and> r \<le> (0x201B::nat))" by auto
  moreover have "(r \<in> {0x201C, 0x201D, 0x201E, 0x201F}) = (0x201C \<le> r \<and> r \<le> (0x201F::nat))" by auto
  moreover have "(r \<in> {0x00A0, 0x2002, 0x2003, 0x2004, 0x2005, 0x2006, 0x2007, 0x2008, 0x2009, 0x200A,
        0x202F, 0x205F, 0x3000}) = (0x00A0 \<le> r \<and> r \<le> 0x00A0 \<or> 0x2002 \<le> r \<and> r \<le> 0x200A \<or>
        0x202F \<le> r \<and> r \<le> 0x202F \<or> 0x205F \<le> r \<and> r \<le> 0x205F \<or> 0x3000 \<le> r \<and> r \<le> (0x3000::nat))"
  proof -
    have "(r \<in> {0x2002, 0x2003, 0x2004, 0x2005, 0x2006, 0x2007, 0x2008, 0x2009, 0x200A}) =
      (0x2002 \<le> r \<and> r \<le> (0x200A::nat))" by auto
    moreover have "r = k \<longleftrightarrow> k \<le> r \<and> r \<le> k" for k by auto
    ultimately show ?thesis by (metis insert_iff empty_iff)
  qed
  ultimately have eq: "normalize_rune r =
     (if 0x2010 \<le> r \<and> r \<le> 0x2015 \<or> 0x2212 \<le> r \<and> r \<le> 0x2212 then 0x2D
      else if 0x2018 \<le> r \<and> r \<le> 0x201B then 0x27
      else if 0x201C \<le> r \<and> r \<le> 0x201F then 0x22
      else if 0x00A0 \<le> r \<and> r \<le> 0x00A0 \<or> 0x2002 \<le> r \<and> r \<le> 0x200A \<or>
        0x202F \<le> r \<and> r \<le> 0x202F \<or> 0x205F \<le> r \<and> r \<le> 0x205F \<or> 0x3000 \<le> r \<and> r \<le> 0x3000
        then 0x20
      else r)" by (simp only: normalize_rune_def)
  show ?thesis
  proof (cases "r < 0xA0")
    case True
    then show ?thesis unfolding eq by simp
  next
    case False
    then show ?thesis by (simp only: eq if_False)
  qed
qed

definition normalize_search_line :: "bytes \<Rightarrow> bytes" where
  "normalize_search_line v = string_of_runes (map normalize_rune (string_runes (trim_space v)))"

definition seek_sequence :: "bytes list \<Rightarrow> bytes list \<Rightarrow> nat \<Rightarrow> bool \<Rightarrow> nat option" where
  "seek_sequence ls pattern start eof =
     (if pattern = [] then Some start
      else if length ls < length pattern then None
      else let eof_start = length ls - length pattern;
               search_start = (if eof \<and> start < eof_start then eof_start else start) in
        (case seek_pass (\<lambda>s. s) ls pattern search_start of Some i \<Rightarrow> Some i
         | None \<Rightarrow> (case seek_pass trim_right ls pattern search_start of Some i \<Rightarrow> Some i
         | None \<Rightarrow> (case seek_pass trim_space ls pattern search_start of Some i \<Rightarrow> Some i
         | None \<Rightarrow> seek_pass normalize_search_line ls pattern search_start))))"

section \<open>Chunks of a diff\<close>

record update_chunk =
  chunk_old :: bytes
  chunk_new :: bytes
  old_text_lines :: "bytes list"
  new_text_lines :: "bytes list"
  context_indices :: "(nat \<times> nat) list"
  change_context :: bytes
  chunk_at_eof :: bool

definition empty_chunk :: update_chunk where
  "empty_chunk = \<lparr>chunk_old = '''', chunk_new = '''', old_text_lines = [], new_text_lines = [],
     context_indices = [], change_context = '''', chunk_at_eof = False\<rparr>"

definition flush_chunk :: "update_chunk option \<Rightarrow> update_chunk list \<Rightarrow> update_chunk list" where
  "flush_chunk current cs = (case current of None \<Rightarrow> cs | Some c \<Rightarrow> cs @ [c])"

definition ensure_chunk :: "update_chunk option \<Rightarrow> update_chunk" where
  "ensure_chunk current = (case current of None \<Rightarrow> empty_chunk | Some c \<Rightarrow> c)"

definition old_line :: "bytes \<Rightarrow> update_chunk \<Rightarrow> update_chunk" where
  "old_line v c = c\<lparr>chunk_old := chunk_old c @ v @ [LF], old_text_lines := old_text_lines c @ [v]\<rparr>"

definition new_line :: "bytes \<Rightarrow> update_chunk \<Rightarrow> update_chunk" where
  "new_line v c = c\<lparr>chunk_new := chunk_new c @ v @ [LF], new_text_lines := new_text_lines c @ [v]\<rparr>"

definition context_line :: "bytes \<Rightarrow> update_chunk \<Rightarrow> update_chunk" where
  "context_line v c = c\<lparr>chunk_old := chunk_old c @ v @ [LF], chunk_new := chunk_new c @ v @ [LF],
     context_indices := context_indices c @ [(length (old_text_lines c), length (new_text_lines c))],
     old_text_lines := old_text_lines c @ [v], new_text_lines := new_text_lines c @ [v]\<rparr>"

fun chunk_loop ::
  "bytes list \<Rightarrow> update_chunk list \<Rightarrow> update_chunk option \<Rightarrow> patch_error + update_chunk list"
where
  "chunk_loop [] cs current = Inr (flush_chunk current cs)"
| "chunk_loop (line # rest) cs current =
     (let trim_end = trim_right_blanks line in
      if trim_end = ''*** End of File'' then
        chunk_loop rest cs (map_option (\<lambda>c. c\<lparr>chunk_at_eof := True\<rparr>) current)
      else if trim_end = ''@@'' then chunk_loop rest (flush_chunk current cs) (Some empty_chunk)
      else if has_prefix trim_end ''@@ '' then
        (let context = trim_space (trim_prefix trim_end ''@@ '') in
         chunk_loop rest (flush_chunk current cs)
           (Some (if context \<noteq> '''' then empty_chunk\<lparr>change_context := context\<rparr> else empty_chunk)))
      else if has_prefix line ''-'' then
        chunk_loop rest cs (Some (old_line (trim_prefix line ''-'') (ensure_chunk current)))
      else if has_prefix line ''+'' then
        chunk_loop rest cs (Some (new_line (trim_prefix line ''+'') (ensure_chunk current)))
      else if has_prefix line '' '' then
        chunk_loop rest cs (Some (context_line (trim_prefix line '' '') (ensure_chunk current)))
      else if trim_space line = '''' then chunk_loop rest cs current
      else Inl (InvalidUpdateLine line))"

definition parse_update_chunks :: "bytes \<Rightarrow> patch_error + update_chunk list" where
  "parse_update_chunks diff =
     bind_res (chunk_loop (split_lines diff) [] None) (\<lambda>cs.
       Inr (filter (\<lambda>c. \<not> (chunk_old c = '''' \<and> chunk_new c = '''')) cs))"

section \<open>Replacements of a diff\<close>

definition slice :: "nat \<Rightarrow> nat \<Rightarrow> 'a list \<Rightarrow> 'a list" where
  "slice i j xs = take (j - i) (drop i xs)"

text \<open>The loop over the context pairs of a chunk, with the position in the old and new lines.\<close>

fun context_loop ::
  "nat \<Rightarrow> bytes list \<Rightarrow> bytes list \<Rightarrow> (nat \<times> nat) list \<Rightarrow> nat \<Rightarrow> nat \<Rightarrow> replacement list \<times> nat \<times> nat"
where
  "context_loop found pattern new_slice [] old_start new_start = ([], old_start, new_start)"
| "context_loop found pattern new_slice ((old_ctx, new_ctx) # pairs) old_start new_start =
     (if length pattern \<le> old_ctx \<or> length new_slice \<le> new_ctx then ([], old_start, new_start)
      else (case context_loop found pattern new_slice pairs (old_ctx + 1) (new_ctx + 1) of
        (reps, os, ns) \<Rightarrow>
          (if old_start \<noteq> old_ctx \<or> new_start \<noteq> new_ctx
           then \<lparr>rep_start = found + old_start, rep_old_len = old_ctx - old_start,
                 rep_new_lines = slice new_start new_ctx new_slice\<rparr> # reps
           else reps, os, ns)))"

definition chunk_replacements ::
  "nat \<Rightarrow> bytes list \<Rightarrow> bytes list \<Rightarrow> (nat \<times> nat) list \<Rightarrow> replacement list" where
  "chunk_replacements found pattern new_slice pairs =
     (case context_loop found pattern new_slice pairs 0 0 of (reps, old_start, new_start) \<Rightarrow>
        if old_start \<noteq> length pattern \<or> new_start \<noteq> length new_slice
        then reps @ [\<lparr>rep_start = found + old_start, rep_old_len = length pattern - old_start,
                      rep_new_lines = drop new_start new_slice\<rparr>]
        else reps)"

definition context_error :: "bytes \<Rightarrow> bytes \<Rightarrow> patch_error" where
  "context_error context label =
     PlainError (''Failed to find context '' @ squoted context @ '' in '' @ label)"

definition lines_error :: "bytes list \<Rightarrow> bytes \<Rightarrow> patch_error" where
  "lines_error ls label =
     PlainError (''Failed to find expected lines in '' @ label @ '':'' @ [LF] @ join_with [LF] ls)"

definition drop_final_blank :: "bytes list \<Rightarrow> bytes list" where
  "drop_final_blank ls = (if ls \<noteq> [] \<and> last ls = '''' then butlast ls else ls)"

text \<open>Where the old lines of a chunk are, with the lines that were matched and their successors.\<close>

definition locate_chunk ::
  "bytes list \<Rightarrow> update_chunk \<Rightarrow> nat \<Rightarrow> (nat \<times> bytes list \<times> bytes list) option" where
  "locate_chunk originals c line_index =
     (let pattern = old_text_lines c; new_slice = new_text_lines c in
      case seek_sequence originals pattern line_index (chunk_at_eof c) of
        Some found \<Rightarrow> Some (found, pattern, new_slice)
      | None \<Rightarrow>
          if pattern \<noteq> [] \<and> last pattern = '''' then
            (case seek_sequence originals (butlast pattern) line_index (chunk_at_eof c) of
               Some found \<Rightarrow> Some (found, butlast pattern, drop_final_blank new_slice)
             | None \<Rightarrow> None)
          else None)"

definition seek_context :: "bytes list \<Rightarrow> update_chunk \<Rightarrow> bytes \<Rightarrow> nat \<Rightarrow> patch_error + nat" where
  "seek_context originals c label line_index =
     (if trim_space (change_context c) \<noteq> '''' then
        (case seek_sequence originals [change_context c] line_index False of
           None \<Rightarrow> Inl (context_error (change_context c) label)
         | Some idx \<Rightarrow> Inr (idx + 1))
      else Inr line_index)"

fun replacements_loop ::
  "bytes list \<Rightarrow> bytes \<Rightarrow> update_chunk list \<Rightarrow> nat \<Rightarrow> patch_error + replacement list"
where
  "replacements_loop originals label [] line_index = Inr []"
| "replacements_loop originals label (c # cs) line_index0 =
     bind_res (seek_context originals c label line_index0) (\<lambda>line_index.
       if old_text_lines c = [] then
         bind_res (replacements_loop originals label cs line_index) (\<lambda>reps.
           Inr (\<lparr>rep_start = length originals, rep_old_len = 0, rep_new_lines = new_text_lines c\<rparr> # reps))
       else (case locate_chunk originals c line_index of
           None \<Rightarrow> Inl (lines_error (old_text_lines c) label)
         | Some (found, pattern, new_slice) \<Rightarrow>
             bind_res (replacements_loop originals label cs (found + length pattern)) (\<lambda>reps.
               Inr (chunk_replacements found pattern new_slice (context_indices c) @ reps))))"

definition compute_replacements_preserving ::
  "bytes list \<Rightarrow> update_chunk list \<Rightarrow> bytes \<Rightarrow> patch_error + replacement list" where
  "compute_replacements_preserving originals cs label =
     bind_res (replacements_loop originals label cs 0) (\<lambda>reps. Inr (sort_key rep_start reps))"

text \<open>A panic of \<open>applyReplacements\<close> would be the inner \<open>None\<close>; \<open>update_never_panics\<close> below shows
  that there is none.\<close>

definition apply_unified_diff_to_content :: "bytes \<Rightarrow> bytes \<Rightarrow> bytes \<Rightarrow> patch_error + bytes option" where
  "apply_unified_diff_to_content contents diff label =
     bind_res (parse_update_chunks diff) (\<lambda>cs.
       if cs = [] then Inl (WrapsInvalidPatch ''empty update hunk'')
       else let file = parse_source_file contents in
         bind_res (compute_replacements_preserving (line_texts file) cs label) (\<lambda>reps.
           Inr (map_option into_contents (apply_replacements reps file))))"

definition apply_update_diff_to_content :: "bytes \<Rightarrow> change \<Rightarrow> bytes \<Rightarrow> patch_error + bytes option" where
  "apply_update_diff_to_content contents c label =
     (if move_path c \<noteq> '''' \<and> trim_space (unified_diff c) = '''' then Inr (Some contents)
      else apply_unified_diff_to_content contents (unified_diff c) label)"

section \<open>Splitting loses nothing\<close>

definition line_bytes :: "source_line \<Rightarrow> bytes" where
  "line_bytes l = line_text l @ (case ending l of None \<Rightarrow> '''' | Some e \<Rightarrow> ending_text e)"

lemma into_contents_alt: "into_contents f = concat (map line_bytes (file_lines f))"
  by (simp add: into_contents_def line_bytes_def [abs_def])

lemma scan_lines_bytes:
  "scan_lines ls pr cur s = (ls', pr', cur') \<Longrightarrow>
   concat (map line_bytes ls') @ cur' = concat (map line_bytes ls) @ cur @ s"
proof (induction ls pr cur s rule: scan_lines.induct)
  case (2 ls pr cur c rest)
  consider (crlf) s where "c = CR" "rest = LF # s" | (cr) "c = CR" "\<not> has_prefix rest [LF]"
    | (lf) "c = LF" | (other) "c \<noteq> CR" "c \<noteq> LF"
    by (cases rest) auto
  then show ?case
  proof cases
    case crlf
    with 2 show ?thesis by (simp add: line_bytes_def ending_text_def)
  next
    case cr
    with 2 show ?thesis by (simp add: line_bytes_def ending_text_def)
  next
    case lf
    with 2 show ?thesis by (simp add: line_bytes_def ending_text_def)
  next
    case other
    with 2 show ?thesis by simp
  qed
qed simp

lemma scan_lines_clean:
  assumes "scan_lines ls pr cur s = (ls', pr', cur')"
    and "list_all (\<lambda>l. LF \<notin> set (line_text l) \<and> CR \<notin> set (line_text l) \<and> ending l \<noteq> None) ls"
    and "LF \<notin> set cur" "CR \<notin> set cur"
  shows "list_all (\<lambda>l. LF \<notin> set (line_text l) \<and> CR \<notin> set (line_text l) \<and> ending l \<noteq> None) ls' \<and>
    LF \<notin> set cur' \<and> CR \<notin> set cur'"
  using assms by (induction ls pr cur s rule: scan_lines.induct) (auto split: if_splits)

text \<open>Splitting a file into lines and writing them back is the identity on every content, mixed
  endings and an unterminated last line included, and no line text holds a line break.\<close>

theorem source_file_roundtrip:
  "into_contents (parse_source_file contents) = contents \<and>
   list_all (\<lambda>t. LF \<notin> set t \<and> CR \<notin> set t) (line_texts (parse_source_file contents))"
proof -
  obtain ls pr cur where s: "scan_lines [] None '''' contents = (ls, pr, cur)" by (metis prod_cases3)
  from scan_lines_bytes [OF s] scan_lines_clean [OF s] show ?thesis
    by (auto simp: into_contents_alt parse_source_file_def s line_texts_def line_bytes_def list_all_iff)
qed

section \<open>The search\<close>

text \<open>The reference: the lines at position \<open>i\<close> equal the pattern up to \<open>f\<close>.\<close>

definition matches_at :: "(bytes \<Rightarrow> bytes) \<Rightarrow> bytes list \<Rightarrow> bytes list \<Rightarrow> nat \<Rightarrow> bool" where
  "matches_at f ls pattern i \<longleftrightarrow>
     i + length pattern \<le> length ls \<and> map f (slice i (i + length pattern) ls) = map f pattern"

definition search_levels :: "(bytes \<Rightarrow> bytes) list" where
  "search_levels = [\<lambda>s. s, trim_right, trim_space, normalize_search_line]"

definition search_from :: "bytes list \<Rightarrow> bytes list \<Rightarrow> nat \<Rightarrow> bool \<Rightarrow> nat" where
  "search_from ls pattern start eof = (if eof then max start (length ls - length pattern) else start)"

lemma match_here_iff:
  "match_here f ls ps \<longleftrightarrow> length ps \<le> length ls \<and> map f (take (length ps) ls) = map f ps"
  by (induction f ls ps rule: match_here.induct) auto

lemma match_here_at:
  "match_here f (drop i ls) pattern \<and> i + length pattern \<le> length ls \<longleftrightarrow> matches_at f ls pattern i"
  by (auto simp: match_here_iff matches_at_def slice_def)

lemma seek_pass_Some:
  assumes "seek_pass f ls pattern s = Some i" and "length pattern \<le> length ls"
  shows "s \<le> i \<and> matches_at f ls pattern i \<and> list_all (\<lambda>j. \<not> matches_at f ls pattern j) [s ..< i]"
proof -
  obtain k where k: "k < Suc (length ls - length pattern) - s" "match_here f (drop (s + k) ls) pattern"
    "i = s + k" "\<forall>j < k. \<not> match_here f (drop (s + j) ls) pattern"
    using assms(1) by (force simp: seek_pass_def find_Some_iff nth_append simp del: upt_Suc)
  then have "matches_at f ls pattern i" using assms(2) by (simp flip: match_here_at)
  moreover have "\<not> matches_at f ls pattern j" if "s \<le> j" "j < i" for j
  proof -
    from that k(3) have "j - s < k" by simp
    with k(4) that(1) have "\<not> match_here f (drop j ls) pattern"
      using le_add_diff_inverse by fastforce
    then show ?thesis by (auto simp flip: match_here_at)
  qed
  ultimately show ?thesis using k(3) by (simp add: list_all_iff)
qed

lemma seek_pass_None:
  assumes "seek_pass f ls pattern s = None" and "length pattern \<le> length ls"
  shows "list_all (\<lambda>j. \<not> matches_at f ls pattern j) [s ..< Suc (length ls)]"
proof -
  have "\<not> matches_at f ls pattern j" if "s \<le> j" for j
    using assms that
    by (auto simp: seek_pass_def find_None_iff matches_at_def match_here_iff slice_def simp del: upt_Suc)
  then show ?thesis by (simp add: list_all_iff del: upt_Suc)
qed

text \<open>The search is the best match it promises.  A hit is the leftmost match, from the start
  bound on, of the strictest level that has one there (exact, trailing space ignored, surrounding
  space ignored, typographic punctuation folded); no hit means that no level matches anywhere from
  the bound on.  With the end-of-file flag the bound is the last place the pattern fits.\<close>

theorem seek_sequence_best:
  "case seek_sequence ls pattern start eof of
     None \<Rightarrow> pattern \<noteq> [] \<and>
       list_all (\<lambda>f. list_all (\<lambda>j. \<not> matches_at f ls pattern j)
         [search_from ls pattern start eof ..< Suc (length ls)]) search_levels
   | Some i \<Rightarrow>
       if pattern = [] then i = start
       else search_from ls pattern start eof \<le> i \<and>
         list_ex (\<lambda>k. matches_at (search_levels ! k) ls pattern i \<and>
           list_all (\<lambda>j. \<not> matches_at (search_levels ! k) ls pattern j)
             [search_from ls pattern start eof ..< i] \<and>
           list_all (\<lambda>f. list_all (\<lambda>j. \<not> matches_at f ls pattern j)
             [search_from ls pattern start eof ..< Suc (length ls)]) (take k search_levels)) [0 ..< 4]"
proof (cases "pattern = []")
  case True
  then show ?thesis by (simp add: seek_sequence_def)
next
  case nonempty: False
  show ?thesis
  proof (cases "length ls < length pattern")
    case True
    with nonempty show ?thesis
      by (simp add: seek_sequence_def list_all_iff matches_at_def search_levels_def del: upt_Suc)
  next
    case False
    then have len: "length pattern \<le> length ls" by simp
    define s where "s = search_from ls pattern start eof"
    have seek: "seek_sequence ls pattern start eof =
      (case seek_pass (\<lambda>s. s) ls pattern s of Some i \<Rightarrow> Some i
       | None \<Rightarrow> (case seek_pass trim_right ls pattern s of Some i \<Rightarrow> Some i
       | None \<Rightarrow> (case seek_pass trim_space ls pattern s of Some i \<Rightarrow> Some i
       | None \<Rightarrow> seek_pass normalize_search_line ls pattern s)))"
    proof -
      have "(if eof \<and> start < length ls - length pattern then length ls - length pattern else start) = s"
        by (simp add: s_def search_from_def max_def)
      then show ?thesis using nonempty False by (simp only: seek_sequence_def Let_def if_False)
    qed
    have levels: "[0 ..< 4] = [0, 1, 2, 3::nat]" by (simp add: upt_rec)
    have level: "search_levels ! 0 = (\<lambda>s. s)" "search_levels ! 1 = trim_right"
      "search_levels ! 2 = trim_space" "search_levels ! 3 = normalize_search_line"
      "take 0 search_levels = []" "take 1 search_levels = [\<lambda>s. s]"
      "take 2 search_levels = [\<lambda>s. s, trim_right]"
      "take 3 search_levels = [\<lambda>s. s, trim_right, trim_space]"
      by (simp_all add: search_levels_def numeral_3_eq_3 numeral_2_eq_2)
    note some = seek_pass_Some [OF _ len] and none = seek_pass_None [OF _ len]
    show ?thesis
      unfolding s_def [symmetric] seek levels using nonempty
      by (auto split: option.split simp: level search_levels_def simp del: upt_Suc dest!: some none)
  qed
qed

section \<open>Replacements in order\<close>

text \<open>Ordered, disjoint ranges between \<open>s\<close> and \<open>n\<close>, and what applying them means.\<close>

fun reps_ok :: "nat \<Rightarrow> nat \<Rightarrow> replacement list \<Rightarrow> bool" where
  "reps_ok n s [] \<longleftrightarrow> s \<le> n"
| "reps_ok n s (r # rs) \<longleftrightarrow>
     s \<le> rep_start r \<and> rep_start r + rep_old_len r \<le> n \<and> reps_ok n (rep_start r + rep_old_len r) rs"

fun spliced :: "source_file \<Rightarrow> nat \<Rightarrow> replacement list \<Rightarrow> source_line list" where
  "spliced f s [] = drop s (file_lines f)"
| "spliced f s (r # rs) = slice s (rep_start r) (file_lines f) @ map (preferred_line f) (rep_new_lines r) @
     spliced f (rep_start r + rep_old_len r) rs"

lemma reps_ok_bound: "reps_ok n s rs \<Longrightarrow> s \<le> n"
  by (induction rs arbitrary: s) fastforce+

lemma reps_ok_mono: "reps_ok n s rs \<Longrightarrow> n \<le> m \<Longrightarrow> reps_ok m s rs"
  by (induction rs arbitrary: s) auto

lemma reps_ok_start: "reps_ok n s rs \<Longrightarrow> s' \<le> s \<Longrightarrow> reps_ok n s' rs"
  by (cases rs) auto

lemma reps_ok_append: "reps_ok e s xs \<Longrightarrow> reps_ok n e ys \<Longrightarrow> reps_ok n s (xs @ ys)"
proof (induction xs arbitrary: s)
  case Nil
  then show ?case by (auto intro: reps_ok_start)
next
  case (Cons x xs)
  then show ?case using reps_ok_bound by fastforce
qed

lemma replace_loop_ok:
  assumes "reps_ok (length (file_lines f)) s reps"
  shows "\<exists>ls i. replace_loop f acc s reps = Some (ls, i) \<and> i \<le> length (file_lines f) \<and>
    ls @ drop i (file_lines f) = acc @ spliced f s reps"
  using assms
proof (induction reps arbitrary: acc s)
  case (Cons r rs)
  define acc' where "acc' = acc @ take (rep_start r - s) (drop s (file_lines f)) @
    map (preferred_line f) (rep_new_lines r)"
  from Cons.prems have "replace_loop f acc s (r # rs) = replace_loop f acc' (rep_start r + rep_old_len r) rs"
    by (simp add: acc'_def)
  with Cons.IH [of "rep_start r + rep_old_len r" acc'] Cons.prems show ?case
    by (simp add: acc'_def slice_def)
qed simp

lemma apply_replacements_ok:
  assumes "reps_ok (length (file_lines f)) 0 reps"
  shows "apply_replacements reps f = Some (f\<lparr>file_lines := map (fill_ending f) (spliced f 0 reps)\<rparr>)"
proof -
  obtain ls i where "replace_loop f [] 0 reps = Some (ls, i)" "i \<le> length (file_lines f)"
    "ls @ drop i (file_lines f) = spliced f 0 reps" using replace_loop_ok [OF assms, of "[]"] by auto
  then show ?thesis by (simp add: apply_replacements_def flip: map_append)
qed

section \<open>Chunks are well formed\<close>

fun pairs_ok :: "nat \<Rightarrow> nat \<Rightarrow> (nat \<times> nat) list \<Rightarrow> bool" where
  "pairs_ok os ns [] \<longleftrightarrow> True"
| "pairs_ok os ns ((o1, n1) # ps) \<longleftrightarrow> os \<le> o1 \<and> ns \<le> n1 \<and> pairs_ok (o1 + 1) (n1 + 1) ps"

lemma pairs_ok_snoc:
  "pairs_ok os ns ps \<Longrightarrow> list_all (\<lambda>(x, y). x < o1 \<and> y < n1) ps \<Longrightarrow> os \<le> o1 \<Longrightarrow> ns \<le> n1 \<Longrightarrow>
   pairs_ok os ns (ps @ [(o1, n1)])"
  by (induction os ns ps rule: pairs_ok.induct) auto

definition chunk_wf :: "update_chunk \<Rightarrow> bool" where
  "chunk_wf c \<longleftrightarrow> pairs_ok 0 0 (context_indices c) \<and>
     list_all (\<lambda>(x, y). x < length (old_text_lines c) \<and> y < length (new_text_lines c)) (context_indices c)"

lemma chunk_wf_steps:
  "chunk_wf c \<Longrightarrow> chunk_wf (old_line v c)"
  "chunk_wf c \<Longrightarrow> chunk_wf (new_line v c)"
  "chunk_wf c \<Longrightarrow> chunk_wf (context_line v c)"
  "chunk_wf c \<Longrightarrow> chunk_wf (c\<lparr>chunk_at_eof := True\<rparr>)"
  "chunk_wf empty_chunk" "chunk_wf (empty_chunk\<lparr>change_context := x\<rparr>)"
  by (auto simp: chunk_wf_def old_line_def new_line_def context_line_def empty_chunk_def
      intro: pairs_ok_snoc elim: list.pred_mono_strong)

lemma chunk_loop_wf:
  "chunk_loop ls cs cur = Inr out \<Longrightarrow> list_all chunk_wf cs \<Longrightarrow> pred_option chunk_wf cur \<Longrightarrow>
   list_all chunk_wf out"
proof (induction ls cs cur rule: chunk_loop.induct)
  case (1 cs current)
  then show ?case by (auto simp: flush_chunk_def split: option.splits)
next
  case (2 line rest cs cur)
  have wf: "chunk_wf (ensure_chunk cur)" "list_all chunk_wf (flush_chunk cur cs)"
    using 2(9,10) by (auto simp: ensure_chunk_def flush_chunk_def chunk_wf_steps split: option.splits)
  have eof: "pred_option chunk_wf (map_option (\<lambda>c. c\<lparr>chunk_at_eof := True\<rparr>) cur)"
    using 2(10) by (cases cur) (simp_all add: chunk_wf_steps)
  show ?case
    using 2 wf eof by (simp add: Let_def chunk_wf_steps split: if_splits)
qed

lemma parse_update_chunks_wf: "parse_update_chunks diff = Inr cs \<Longrightarrow> list_all chunk_wf cs"
  by (auto simp: parse_update_chunks_def bind_res_eq_Inr list_all_iff
      dest!: chunk_loop_wf)

section \<open>The replacements of a chunk are in order\<close>

lemma context_loop_ok:
  assumes "context_loop found pattern new_slice pairs os ns = (reps, os', ns')"
    and "pairs_ok os ns pairs" and "os \<le> length pattern"
  shows "reps_ok (found + os') (found + os) reps \<and> os' \<le> length pattern"
  using assms
proof (induction found pattern new_slice pairs os ns arbitrary: reps os' ns' rule: context_loop.induct)
  case (2 found pattern new_slice oc nc pairs os ns)
  show ?case
  proof (cases "length pattern \<le> oc \<or> length new_slice \<le> nc")
    case True
    with 2(2-) show ?thesis by auto
  next
    case False
    obtain reps1 os1 ns1 where rec:
      "context_loop found pattern new_slice pairs (oc + 1) (nc + 1) = (reps1, os1, ns1)"
      by (metis prod_cases3)
    with 2(1) [OF False rec] 2(3) False
    have ih: "reps_ok (found + os1) (found + (oc + 1)) reps1" "os1 \<le> length pattern" by auto
    from 2(2) False rec have out: "os' = os1" "reps = (if os \<noteq> oc \<or> ns \<noteq> nc
        then \<lparr>rep_start = found + os, rep_old_len = oc - os,
              rep_new_lines = slice ns nc new_slice\<rparr> # reps1 else reps1)" by auto
    have "os \<le> oc" using 2(3) by simp
    then show ?thesis using ih out reps_ok_bound [OF ih(1)]
      by (auto intro: reps_ok_start [OF ih(1)])
  qed
qed auto

lemma chunk_replacements_ok:
  assumes "pairs_ok 0 0 pairs"
  shows "reps_ok (found + length pattern) found (chunk_replacements found pattern new_slice pairs)"
proof -
  obtain reps os ns where loop: "context_loop found pattern new_slice pairs 0 0 = (reps, os, ns)"
    by (metis prod_cases3)
  from context_loop_ok [OF loop assms] have "reps_ok (found + os) found reps" "os \<le> length pattern" by auto
  then show ?thesis
    by (auto simp: chunk_replacements_def loop intro!: reps_ok_append [of "found + os"]
        intro: reps_ok_mono)
qed

lemma seek_sequence_range:
  assumes "seek_sequence ls pattern start eof = Some i" and "start \<le> length ls"
  shows "start \<le> i \<and> i + length pattern \<le> length ls"
proof (cases "pattern = []")
  case True
  with assms show ?thesis by (simp add: seek_sequence_def)
next
  case nonempty: False
  define s where "s = (if eof \<and> start < length ls - length pattern then length ls - length pattern else start)"
  have "start \<le> s" by (simp add: s_def)
  from assms nonempty have len: "length pattern \<le> length ls"
    by (simp add: seek_sequence_def split: if_splits)
  with assms nonempty have "(case seek_pass (\<lambda>s. s) ls pattern s of Some i \<Rightarrow> Some i
       | None \<Rightarrow> (case seek_pass trim_right ls pattern s of Some i \<Rightarrow> Some i
       | None \<Rightarrow> (case seek_pass trim_space ls pattern s of Some i \<Rightarrow> Some i
       | None \<Rightarrow> seek_pass normalize_search_line ls pattern s))) = Some i"
    unfolding s_def seek_sequence_def Let_def by (simp only: if_False not_less [symmetric] split: if_splits)
  then obtain f where "seek_pass f ls pattern s = Some i" by (auto split: option.splits)
  from seek_pass_Some [OF this len] \<open>start \<le> s\<close> show ?thesis by (simp add: matches_at_def)
qed

lemma locate_chunk_range:
  assumes "locate_chunk ls c i = Some (found, pattern, new_slice)" and "i \<le> length ls"
  shows "i \<le> found \<and> found + length pattern \<le> length ls"
  using assms seek_sequence_range
  by (auto simp: locate_chunk_def Let_def split: option.splits if_splits)

lemma seek_context_range:
  assumes "seek_context ls c label i = Inr j" and "i \<le> length ls"
  shows "i \<le> j \<and> j \<le> length ls"
proof (cases "trim_space (change_context c) = ''''")
  case False
  with assms obtain k where "seek_sequence ls [change_context c] i False = Some k" "j = k + 1"
    by (auto simp: seek_context_def split: option.splits)
  with seek_sequence_range [OF this(1) assms(2)] show ?thesis by simp
qed (use assms in \<open>simp add: seek_context_def\<close>)

text \<open>Additions without old lines go to the end of the file; the rest is in order already.\<close>

definition loosely_ok :: "nat \<Rightarrow> nat \<Rightarrow> replacement list \<Rightarrow> bool" where
  "loosely_ok n s reps \<longleftrightarrow> reps_ok n s (filter (\<lambda>r. rep_start r < n) reps) \<and>
     list_all (\<lambda>r. rep_start r < n \<or> rep_start r = n \<and> rep_old_len r = 0) reps"

lemma reps_ok_loosely: "reps_ok n s reps \<Longrightarrow> loosely_ok n s reps"
proof (induction reps arbitrary: s)
  case Nil
  then show ?case by (simp add: loosely_ok_def)
next
  case (Cons r rs)
  then have "loosely_ok n (rep_start r + rep_old_len r) rs" by simp
  with Cons.prems show ?case
    by (auto simp: loosely_ok_def intro: reps_ok_start reps_ok_bound)
qed

lemma loosely_ok_append:
  assumes "reps_ok e s xs" and "e \<le> n" and "loosely_ok n e ys" shows "loosely_ok n s (xs @ ys)"
proof -
  from reps_ok_loosely [OF reps_ok_mono [OF assms(1,2)]]
  have x: "loosely_ok n s xs" .
  have "reps_ok n s (filter (\<lambda>r. rep_start r < n) xs @ filter (\<lambda>r. rep_start r < n) ys)"
  proof (rule reps_ok_append)
    show "reps_ok e s (filter (\<lambda>r. rep_start r < n) xs)"
      using assms(1)
    proof (induction xs arbitrary: s)
      case (Cons a as)
      then have "reps_ok e (rep_start a + rep_old_len a) (filter (\<lambda>r. rep_start r < n) as)" by simp
      with Cons.prems show ?case by (auto intro: reps_ok_start)
    qed simp
  qed (use assms(3) in \<open>simp add: loosely_ok_def\<close>)
  with x assms(3) show ?thesis by (simp add: loosely_ok_def)
qed

lemma replacements_loop_ok:
  assumes "replacements_loop ls label cs i = Inr reps" and "list_all chunk_wf cs" and "i \<le> length ls"
  shows "loosely_ok (length ls) i reps"
  using assms
proof (induction ls label cs i arbitrary: reps rule: replacements_loop.induct)
  case (1 ls label i)
  then show ?case by (simp add: loosely_ok_def)
next
  case (2 ls label c cs i)
  from "2.prems"(1) obtain j where j: "seek_context ls c label i = Inr j" by (auto simp: bind_res_eq_Inr)
  from seek_context_range [OF j "2.prems"(3)] have ij: "i \<le> j" "j \<le> length ls" by simp_all
  show ?case
  proof (cases "old_text_lines c = []")
    case True
    with "2.prems"(1) j obtain rs where "replacements_loop ls label cs j = Inr rs"
      "reps = \<lparr>rep_start = length ls, rep_old_len = 0, rep_new_lines = new_text_lines c\<rparr> # rs"
      by (auto simp: bind_res_eq_Inr)
    with "2.IH"(1) [OF True] "2.prems"(2) ij have "loosely_ok (length ls) j rs" by simp
    with ij \<open>reps = _\<close> show ?thesis by (auto simp: loosely_ok_def intro: reps_ok_start)
  next
    case False
    from "2.prems"(1) j False obtain found pattern ns rs
      where loc: "locate_chunk ls c j = Some (found, pattern, ns)"
      and rec: "replacements_loop ls label cs (found + length pattern) = Inr rs"
      and reps: "reps = chunk_replacements found pattern ns (context_indices c) @ rs"
      by (auto simp: bind_res_eq_Inr split: option.splits prod.splits)
    from locate_chunk_range [OF loc ij(2)] have r: "j \<le> found" "found + length pattern \<le> length ls"
      by simp_all
    from "2.IH"(2) [OF False loc refl refl rec] "2.prems"(2) r
    have "loosely_ok (length ls) (found + length pattern) rs" by simp
    moreover have "reps_ok (found + length pattern) i
        (chunk_replacements found pattern ns (context_indices c))"
      using "2.prems"(2) r ij by (intro reps_ok_start [OF chunk_replacements_ok]) (auto simp: chunk_wf_def)
    ultimately show ?thesis using r unfolding reps by (intro loosely_ok_append)
  qed
qed

lemma insort_key_append:
  "list_all (\<lambda>y. k y < k x) as \<Longrightarrow> insort_key k x (as @ bs) = as @ insort_key k x bs"
  by (induction as) auto

lemma insort_key_before:
  "list_all (\<lambda>y. k x < k y) bs \<Longrightarrow> insort_key k x (as @ bs) = insort_key k x as @ bs"
  by (induction as) (cases bs; auto)+

lemma insort_key_front: "list_all (\<lambda>y. k x \<le> k y) ys \<Longrightarrow> insort_key k x ys = x # ys"
  by (cases ys) auto

lemma sort_key_last_group:
  fixes k :: "'a \<Rightarrow> nat"
  assumes "list_all (\<lambda>x. k x \<le> n) xs"
  shows "sort_key k xs = sort_key k (filter (\<lambda>x. k x < n) xs) @ filter (\<lambda>x. k x = n) xs"
  using assms
proof (induction xs)
  case (Cons x xs)
  then have ih: "sort_key k xs = sort_key k (filter (\<lambda>x. k x < n) xs) @ filter (\<lambda>x. k x = n) xs" by simp
  show ?case
  proof (cases "k x = n")
    case True
    have "insort_key k x (filter (\<lambda>x. k x = n) xs) = x # filter (\<lambda>x. k x = n) xs"
      using True by (intro insort_key_front) (simp add: list_all_iff)
    with True ih show ?thesis by (simp add: insort_key_append list_all_iff)
  next
    case False
    with Cons.prems have "k x < n" by simp
    with ih show ?thesis by (simp add: insort_key_before list_all_iff)
  qed
qed simp

lemma reps_ok_sorted: "reps_ok n s reps \<Longrightarrow> sorted (map rep_start reps) \<and> list_all (\<lambda>r. s \<le> rep_start r) reps"
proof (induction reps arbitrary: s)
  case (Cons r rs)
  then have "sorted (map rep_start rs)" "list_all (\<lambda>x. rep_start r + rep_old_len r \<le> rep_start x) rs"
    by auto
  then show ?case using Cons.prems by (auto simp: list_all_iff)
qed simp

lemma reps_ok_end: "list_all (\<lambda>r. rep_start r = n \<and> rep_old_len r = 0) rs \<Longrightarrow> reps_ok n n rs"
  by (induction rs) auto

lemma sort_loosely_ok:
  assumes "loosely_ok n s reps" shows "reps_ok n s (sort_key rep_start reps)"
proof -
  have ok: "reps_ok n s (filter (\<lambda>r. rep_start r < n) reps)" using assms by (simp add: loosely_ok_def)
  have "sort_key rep_start reps = filter (\<lambda>r. rep_start r < n) reps @ filter (\<lambda>r. rep_start r = n) reps"
    using assms reps_ok_sorted [OF ok]
    by (subst sort_key_last_group [of _ n]) (auto simp: loosely_ok_def list_all_iff sort_key_id_if_sorted)
  moreover have "reps_ok n n (filter (\<lambda>r. rep_start r = n) reps)"
    using assms by (intro reps_ok_end) (auto simp: loosely_ok_def list_all_iff)
  ultimately show ?thesis using reps_ok_append [OF ok] by simp
qed

lemma compute_replacements_ok:
  assumes "compute_replacements_preserving ls cs label = Inr reps" and "list_all chunk_wf cs"
  shows "reps_ok (length ls) 0 reps"
  using assms replacements_loop_ok sort_loosely_ok
  by (fastforce simp: compute_replacements_preserving_def bind_res_eq_Inr)

text \<open>A content whose every line ends in a line break.\<close>

definition all_terminated :: "bytes \<Rightarrow> bool" where
  "all_terminated s \<longleftrightarrow> s = '''' \<or> last s = LF \<or> last s = CR"

lemma terminated_lines: "list_all (\<lambda>l. ending l \<noteq> None) ls \<Longrightarrow> all_terminated (concat (map line_bytes ls))"
proof (induction ls rule: rev_induct)
  case (snoc l ls)
  then obtain e where "ending l = Some e" by auto
  then show ?case by (cases e) (simp_all add: all_terminated_def line_bytes_def ending_text_def)
qed (simp add: all_terminated_def)

lemma lines_spliced_terminated:
  "all_terminated (into_contents (f\<lparr>file_lines := map (fill_ending f) ls\<rparr>))"
proof -
  have "list_all (\<lambda>l. ending l \<noteq> None) (map (fill_ending f) ls)"
    by (auto simp: list_all_iff fill_ending_def split: option.split)
  from terminated_lines [OF this] show ?thesis by (simp add: into_contents_alt)
qed

text \<open>Applying an update diff never indexes out of range: for every file content and every diff
  the result is an error or a new content (the slices the replacement loop takes always exist), and
  every line of the new content ends in a line break.\<close>

theorem update_never_panics:
  "case apply_unified_diff_to_content contents diff label of
     Inl e \<Rightarrow> True
   | Inr None \<Rightarrow> False
   | Inr (Some out) \<Rightarrow> all_terminated out"
proof (cases "apply_unified_diff_to_content contents diff label")
  case (Inr res)
  define f where "f = parse_source_file contents"
  from Inr obtain cs reps where cs: "parse_update_chunks diff = Inr cs"
    and reps: "compute_replacements_preserving (line_texts f) cs label = Inr reps"
    and res: "res = map_option into_contents (apply_replacements reps f)"
    by (auto simp: apply_unified_diff_to_content_def bind_res_eq_Inr f_def Let_def split: if_splits)
  from compute_replacements_ok [OF reps parse_update_chunks_wf [OF cs]]
  have "reps_ok (length (file_lines f)) 0 reps" by (simp add: line_texts_def)
  from apply_replacements_ok [OF this] Inr res show ?thesis by (simp add: lines_spliced_terminated)
qed simp

end
