(* ===== verification/Update_Semantics.thy ===== *)
theory Update_Semantics
  imports Source_File Patch_Roundtrip
begin

text \<open>
  What an update hunk means, and that \<open>applypatch\<close> does it.  An update is a list of edits per
  chunk: keep a line, remove a line, insert a line.  Replaying the edits on the lines where the
  chunk was found keeps the original bytes and ending of every kept line.  \<open>patched\<close> replays all
  chunks in order; the code (parsing the diff, computing, sorting and applying replacements)
  refines it.
\<close>

section \<open>Edits\<close>

datatype edit = Keep bytes | Remove bytes | Insert bytes

fun old_of :: "edit list \<Rightarrow> bytes list" where
  "old_of [] = []"
| "old_of (Keep s # es) = s # old_of es"
| "old_of (Remove s # es) = s # old_of es"
| "old_of (Insert s # es) = old_of es"

fun new_of :: "edit list \<Rightarrow> bytes list" where
  "new_of [] = []"
| "new_of (Keep s # es) = s # new_of es"
| "new_of (Remove s # es) = new_of es"
| "new_of (Insert s # es) = s # new_of es"

fun keeps_of :: "nat \<Rightarrow> nat \<Rightarrow> edit list \<Rightarrow> (nat \<times> nat) list" where
  "keeps_of i j [] = []"
| "keeps_of i j (Keep s # es) = (i, j) # keeps_of (i + 1) (j + 1) es"
| "keeps_of i j (Remove s # es) = keeps_of (i + 1) j es"
| "keeps_of i j (Insert s # es) = keeps_of i (j + 1) es"

text \<open>Replaying edits on the lines from the position the chunk was found at.\<close>

fun replay :: "source_file \<Rightarrow> edit list \<Rightarrow> source_line list \<Rightarrow> source_line list" where
  "replay f [] ls = []"
| "replay f (Keep s # es) ls = hd ls # replay f es (tl ls)"
| "replay f (Remove s # es) ls = replay f es (tl ls)"
| "replay f (Insert s # es) ls = preferred_line f s # replay f es ls"

fun no_keeps :: "edit list \<Rightarrow> bool" where
  "no_keeps [] = True"
| "no_keeps (Keep s # es) = False"
| "no_keeps (e # es) = no_keeps es"

lemma of_append [simp]:
  "old_of (xs @ ys) = old_of xs @ old_of ys" "new_of (xs @ ys) = new_of xs @ new_of ys"
  "no_keeps (xs @ ys) \<longleftrightarrow> no_keeps xs \<and> no_keeps ys"
proof -
  show "old_of (xs @ ys) = old_of xs @ old_of ys" by (induction xs rule: old_of.induct) simp_all
  show "new_of (xs @ ys) = new_of xs @ new_of ys" by (induction xs rule: new_of.induct) simp_all
  show "no_keeps (xs @ ys) \<longleftrightarrow> no_keeps xs \<and> no_keeps ys" by (induction xs rule: no_keeps.induct) simp_all
qed

lemma replay_append:
  "replay f (xs @ ys) ls = replay f xs ls @ replay f ys (drop (length (old_of xs)) ls)"
  by (induction f xs ls rule: replay.induct) (simp_all add: drop_Suc)

lemma replay_no_keeps: "no_keeps es \<Longrightarrow> replay f es ls = map (preferred_line f) (new_of es)"
  by (induction f es ls rule: replay.induct) simp_all

lemma no_keeps_Nil: "no_keeps es \<Longrightarrow> old_of es = [] \<Longrightarrow> new_of es = [] \<Longrightarrow> es = []"
  by (cases es rule: no_keeps.cases) auto

lemma keeps_of_ok: "pairs_ok i j (keeps_of i j es)"
proof -
  have "pairs_ok a b (keeps_of i j es)" if "a \<le> i" "b \<le> j" for a b
    using that by (induction i j es arbitrary: a b rule: keeps_of.induct) auto
  then show ?thesis by simp
qed

section \<open>The replacements of a chunk replay its edits\<close>

definition tail_replacements :: "nat \<Rightarrow> bytes list \<Rightarrow> bytes list \<Rightarrow> replacement list \<times> nat \<times> nat \<Rightarrow> replacement list" where
  "tail_replacements found pattern new_slice res =
     (case res of (reps, os, ns) \<Rightarrow>
        if os \<noteq> length pattern \<or> ns \<noteq> length new_slice
        then reps @ [\<lparr>rep_start = found + os, rep_old_len = length pattern - os,
                      rep_new_lines = drop ns new_slice\<rparr>]
        else reps)"

definition all_replacements ::
  "nat \<Rightarrow> bytes list \<Rightarrow> bytes list \<Rightarrow> (nat \<times> nat) list \<Rightarrow> nat \<Rightarrow> nat \<Rightarrow> replacement list" where
  "all_replacements found pattern new_slice pairs os ns =
     tail_replacements found pattern new_slice (context_loop found pattern new_slice pairs os ns)"

lemma chunk_replacements_alt:
  "chunk_replacements found pattern new_slice pairs = all_replacements found pattern new_slice pairs 0 0"
  by (simp add: chunk_replacements_def all_replacements_def tail_replacements_def)

lemma all_replacements_Cons:
  assumes "oc < length pattern" and "nc < length new_slice"
  shows "all_replacements found pattern new_slice ((oc, nc) # pairs) os ns =
    (if os \<noteq> oc \<or> ns \<noteq> nc
     then [\<lparr>rep_start = found + os, rep_old_len = oc - os, rep_new_lines = slice ns nc new_slice\<rparr>] else []) @
    all_replacements found pattern new_slice pairs (oc + 1) (nc + 1)"
  using assms by (auto simp: all_replacements_def tail_replacements_def split: prod.splits)

lemma all_replacements_ok:
  assumes "pairs_ok os ns pairs" and "os \<le> length pattern"
  shows "reps_ok (found + length pattern) (found + os) (all_replacements found pattern new_slice pairs os ns)"
proof -
  obtain reps os' ns' where loop: "context_loop found pattern new_slice pairs os ns = (reps, os', ns')"
    by (metis prod_cases3)
  from context_loop_ok [OF loop assms] have "reps_ok (found + os') (found + os) reps" "os' \<le> length pattern"
    by auto
  then show ?thesis
    by (auto simp: all_replacements_def tail_replacements_def loop
        intro!: reps_ok_append [of "found + os'"] intro: reps_ok_mono)
qed

lemma spliced_step:
  assumes "reps_ok n (Suc s) reps" and "n \<le> length (file_lines f)"
  shows "spliced f s reps = file_lines f ! s # spliced f (Suc s) reps"
proof (cases reps)
  case Nil
  with assms show ?thesis by (simp add: Cons_nth_drop_Suc)
next
  case (Cons r rs)
  with assms(1) have "Suc s \<le> rep_start r" "rep_start r \<le> n" using reps_ok_bound by fastforce+
  moreover from this assms have "drop s (file_lines f) = file_lines f ! s # drop (Suc s) (file_lines f)"
    by (simp add: Cons_nth_drop_Suc)
  ultimately have "slice s (rep_start r) (file_lines f) =
      file_lines f ! s # slice (Suc s) (rep_start r) (file_lines f)"
    by (simp add: slice_def Suc_diff_Suc [symmetric])
  with Cons show ?thesis by simp
qed

lemma spliced_skip:
  assumes "reps_ok n t reps" and "n \<le> length (file_lines f)" and "s \<le> t"
  shows "spliced f s reps = slice s t (file_lines f) @ spliced f t reps"
  using assms(3)
proof (induction "t - s" arbitrary: s)
  case 0
  then show ?case by (simp add: slice_def)
next
  case (Suc d)
  then have "Suc s \<le> t" by simp
  with assms(1) have "reps_ok n (Suc s) reps" by (rule reps_ok_start)
  from spliced_step [OF this assms(2)] Suc have "spliced f s reps =
      file_lines f ! s # slice (Suc s) t (file_lines f) @ spliced f t reps" by simp
  moreover from \<open>Suc s \<le> t\<close> reps_ok_bound [OF assms(1)] assms(2)
  have "slice s t (file_lines f) = file_lines f ! s # slice (Suc s) t (file_lines f)"
    by (simp add: slice_def Suc_diff_Suc [symmetric] Cons_nth_drop_Suc [symmetric])
  ultimately show ?case by simp
qed

lemma slice_self [simp]: "slice i i xs = []"
  by (simp add: slice_def)

lemma slice_mid: "length xs = i \<Longrightarrow> slice i (i + length ys) (xs @ ys @ zs) = ys"
  by (simp add: slice_def)

lemma all_replacements_replay:
  assumes "pattern = done_old @ old_of pend @ old_of todo" and "new_slice = done_new @ new_of pend @ new_of todo"
    and "no_keeps pend" and "found + length pattern \<le> length (file_lines f)"
    and "reps_ok (length (file_lines f)) (found + length pattern) rest"
  shows "spliced f (found + length done_old)
      (all_replacements found pattern new_slice
         (keeps_of (length done_old + length (old_of pend)) (length done_new + length (new_of pend)) todo)
         (length done_old) (length done_new) @ rest) =
    replay f (pend @ todo) (drop (found + length done_old) (file_lines f)) @
    spliced f (found + length pattern) rest"
  using assms
proof (induction todo arbitrary: done_old done_new pend)
  case Nil
  show ?case
  proof (cases "pend = []")
    case True
    with Nil.prems show ?thesis by (simp add: all_replacements_def tail_replacements_def)
  next
    case False
    with Nil.prems(3) have "old_of pend \<noteq> [] \<or> new_of pend \<noteq> []" using no_keeps_Nil by blast
    then have "all_replacements found pattern new_slice [] (length done_old) (length done_new) =
        [\<lparr>rep_start = found + length done_old, rep_old_len = length (old_of pend), rep_new_lines = new_of pend\<rparr>]"
      using Nil.prems(1,2) by (auto simp: all_replacements_def tail_replacements_def)
    with Nil.prems show ?thesis by (simp add: replay_no_keeps add.assoc)
  qed
next
  case (Cons e todo)
  show ?case
  proof (cases e)
    case (Remove s)
    with Cons.prems Cons.IH [of done_old "pend @ [Remove s]" done_new] show ?thesis by simp
  next
    case (Insert s)
    with Cons.prems Cons.IH [of done_old "pend @ [Insert s]" done_new] show ?thesis by simp
  next
    case (Keep s)
    let ?oc = "length done_old + length (old_of pend)" and ?nc = "length done_new + length (new_of pend)"
    let ?lines = "file_lines f"
    define X where "X = all_replacements found pattern new_slice (keeps_of (?oc + 1) (?nc + 1) todo) (?oc + 1) (?nc + 1)"
    have bounds: "?oc < length pattern" "?nc < length new_slice" using Cons.prems(1,2) Keep by simp_all
    have sl: "slice (length done_new) ?nc new_slice = new_of pend"
      using Cons.prems(2) by (simp add: slice_mid)
    have eq: "all_replacements found pattern new_slice ((?oc, ?nc) # keeps_of (?oc + 1) (?nc + 1) todo)
        (length done_old) (length done_new) =
      (if pend \<noteq> [] then [\<lparr>rep_start = found + length done_old, rep_old_len = length (old_of pend),
          rep_new_lines = new_of pend\<rparr>] else []) @ X"
      using all_replacements_Cons [OF bounds, of found "keeps_of (?oc + 1) (?nc + 1) todo"
          "length done_old" "length done_new"] no_keeps_Nil [OF Cons.prems(3)]
      by (auto simp: X_def sl)
    have Xok: "reps_ok (length ?lines) (found + (?oc + 1)) (X @ rest)"
      unfolding X_def using bounds Cons.prems(5)
      by (intro reps_ok_append [OF all_replacements_ok [OF keeps_of_ok]]) simp_all
    have ih: "spliced f (found + (?oc + 1)) (X @ rest) =
        replay f todo (drop (found + (?oc + 1)) ?lines) @ spliced f (found + length pattern) rest"
      using Cons.prems Keep Cons.IH [of "done_old @ old_of pend @ [s]" "[]" "done_new @ new_of pend @ [s]"]
      by (simp add: X_def add.assoc)
    have "spliced f (found + ?oc) (X @ rest) = ?lines ! (found + ?oc) # spliced f (found + (?oc + 1)) (X @ rest)"
      using spliced_step [of "length ?lines" "found + ?oc" "X @ rest" f] Xok by simp
    also have "\<dots> = replay f (Keep s # todo) (drop (found + ?oc) ?lines) @ spliced f (found + length pattern) rest"
    proof -
      have "drop (found + ?oc) ?lines = ?lines ! (found + ?oc) # drop (found + (?oc + 1)) ?lines"
        using bounds Cons.prems(4) by (simp add: Cons_nth_drop_Suc)
      then show ?thesis using ih by simp
    qed
    finally have step: "spliced f (found + ?oc) (X @ rest) = \<dots>" .
    have comm: "length (old_of pend) + (found + length done_old) = found + ?oc" by simp
    note eq' = eq [unfolded Suc_eq_plus1 [symmetric]]
    show ?thesis
    proof (cases "pend = []")
      case True
      with Keep step eq' show ?thesis by simp
    next
      case False
      with Keep Cons.prems(3) step eq' show ?thesis
        by (simp add: replay_append replay_no_keeps comm add.assoc)
    qed
  qed
qed

section \<open>The chunks of a rendered diff\<close>

definition edit_of :: "bytes \<Rightarrow> edit" where
  "edit_of l = (if has_prefix l ''-'' then Remove (drop 1 l)
                else if has_prefix l ''+'' then Insert (drop 1 l) else Keep (drop 1 l))"

fun edits_of :: "chunk_syntax \<Rightarrow> edit list" where
  "edits_of (Chunk ctx body eof) = map edit_of body"

definition context_text :: "bytes option \<Rightarrow> bytes" where
  "context_text ctx = (case ctx of None \<Rightarrow> '''' | Some c \<Rightarrow> trim_space (trim_right_blanks c))"

fun meaning :: "chunk_syntax \<Rightarrow> update_chunk" where
  "meaning (Chunk ctx body eof) =
     (let es = map edit_of body in
      \<lparr>chunk_old = terminated (old_of es), chunk_new = terminated (new_of es), old_text_lines = old_of es,
       new_text_lines = new_of es, context_indices = keeps_of 0 0 es, change_context = context_text ctx,
       chunk_at_eof = eof\<rparr>)"

definition apply_edit :: "edit \<Rightarrow> update_chunk \<Rightarrow> update_chunk" where
  "apply_edit e c = (case e of Keep s \<Rightarrow> context_line s c | Remove s \<Rightarrow> old_line s c | Insert s \<Rightarrow> new_line s c)"

lemma apply_edit_simps:
  "apply_edit (Keep s) c = context_line s c"
  "apply_edit (Remove s) c = old_line s c"
  "apply_edit (Insert s) c = new_line s c"
  by (simp_all add: apply_edit_def)

lemma fold_apply_edit:
  "fold apply_edit es c = c\<lparr>chunk_old := chunk_old c @ terminated (old_of es),
     chunk_new := chunk_new c @ terminated (new_of es),
     context_indices := context_indices c @
       keeps_of (length (old_text_lines c)) (length (new_text_lines c)) es,
     old_text_lines := old_text_lines c @ old_of es, new_text_lines := new_text_lines c @ new_of es\<rparr>"
proof (induction es arbitrary: c)
  case (Cons e es)
  show ?case
    by (cases e) (simp_all add: Cons.IH apply_edit_simps context_line_def old_line_def new_line_def)
qed simp

lemma chunk_loop_body_line:
  assumes "diff_line_ok l"
  shows "chunk_loop (l # rest) cs (Some c) = chunk_loop rest cs (Some (apply_edit (edit_of l) c))"
proof -
  from assms obtain d r where l: "l = d # r" and d: "d = CHR '' '' \<or> d = CHR ''+'' \<or> d = CHR ''-''"
    by (cases l) (auto simp: diff_line_ok_def)
  let ?u = "trim_right_blanks l"
  have u: "?u = [] \<or> (\<exists>s. ?u = d # s)" using trim_right_blanks_cases [of d r] l by simp
  have "?u \<noteq> ''*** End of File''" "?u \<noteq> ''@@''" "\<not> has_prefix ?u ''@@ ''" using u d by auto
  then show ?thesis
    using l d by (auto simp: Let_def edit_of_def apply_edit_def ensure_chunk_def trim_prefix_def)
qed

lemma chunk_loop_body:
  "list_all diff_line_ok body \<Longrightarrow>
   chunk_loop (body @ rest) cs (Some c) = chunk_loop rest cs (Some (fold apply_edit (map edit_of body) c))"
  by (induction body arbitrary: c) (simp_all add: chunk_loop_body_line del: chunk_loop.simps)

lemma chunk_loop_header:
  assumes "l = (case ctx of None \<Rightarrow> ''@@'' | Some c \<Rightarrow> ''@@ '' @ c)"
  shows "chunk_loop (l # rest) cs cur =
    chunk_loop rest (flush_chunk cur cs) (Some (empty_chunk\<lparr>change_context := context_text ctx\<rparr>))"
proof -
  have same: "empty_chunk\<lparr>change_context := ''''\<rparr> = empty_chunk" by (simp add: empty_chunk_def)
  show ?thesis
  proof (cases "ctx = None \<or> (\<exists>c. ctx = Some c \<and> trim_right_blanks c = '''')")
    case True
    then have "trim_right_blanks l = ''@@''" "context_text ctx = ''''"
      using assms by (auto simp: trim_right_blanks_Cons context_text_def)
    with same show ?thesis by (simp add: Let_def)
  next
    case False
    then obtain c where c: "ctx = Some c" "trim_right_blanks c \<noteq> ''''" by (cases ctx) auto
    then have "trim_right_blanks l = ''@@ '' @ trim_right_blanks c"
      using assms by (simp add: trim_right_blanks_Cons)
    with c same show ?thesis by (simp add: Let_def context_text_def trim_prefix_def)
  qed
qed

lemma chunk_loop_eof:
  "chunk_loop (''*** End of File'' # rest) cs (Some c) = chunk_loop rest cs (Some (c\<lparr>chunk_at_eof := True\<rparr>))"
  by (simp add: Let_def end_of_file_header(1))

lemma chunk_loop_chunk:
  assumes "chunk_ok c"
  shows "chunk_loop (render_chunk c @ rest) cs cur = chunk_loop rest (flush_chunk cur cs) (Some (meaning c))"
proof (cases c)
  case (Chunk ctx body eof)
  define m where "m = empty_chunk\<lparr>change_context := context_text ctx\<rparr>"
  have body: "list_all diff_line_ok body" using assms Chunk by simp
  have "chunk_loop (render_chunk c @ rest) cs cur =
      chunk_loop (body @ (if eof then [''*** End of File''] else []) @ rest) (flush_chunk cur cs) (Some m)"
    using chunk_loop_header [OF refl] Chunk by (simp add: m_def del: chunk_loop.simps)
  also have "\<dots> = chunk_loop ((if eof then [''*** End of File''] else []) @ rest) (flush_chunk cur cs)
      (Some (fold apply_edit (map edit_of body) m))" by (rule chunk_loop_body [OF body])
  also have "\<dots> = chunk_loop rest (flush_chunk cur cs)
      (Some ((fold apply_edit (map edit_of body) m)\<lparr>chunk_at_eof := eof\<rparr>))"
    by (cases eof) (simp_all add: chunk_loop_eof fold_apply_edit m_def empty_chunk_def del: chunk_loop.simps)
  also have "(fold apply_edit (map edit_of body) m)\<lparr>chunk_at_eof := eof\<rparr> = meaning c"
    using Chunk by (simp add: fold_apply_edit m_def empty_chunk_def Let_def)
  finally show ?thesis .
qed

lemma chunk_loop_chunks:
  "list_all chunk_ok cs \<Longrightarrow>
   chunk_loop (render_chunks cs) done cur = Inr (flush_chunk cur done @ map meaning cs)"
proof (induction cs arbitrary: "done" cur)
  case Nil
  then show ?case by (simp add: render_chunks_def)
next
  case (Cons c cs)
  then show ?case
    by (simp add: render_chunks_def chunk_loop_chunk del: chunk_loop.simps) (simp add: flush_chunk_def)
qed

lemma terminated_join: "ls \<noteq> [] \<Longrightarrow> terminated ls = join_with [LF] ls @ [LF]"
  by (induction "[LF]" ls rule: join_with.induct) auto

lemma trailing_space_LF: "trailing_space (s @ [LF]) = Some [LF]"
proof -
  have "\<not> has_suffix (s @ [LF]) [TAB]" "has_suffix (s @ [LF]) [LF]" by (simp_all add: has_suffix_def)
  then show ?thesis by (simp add: trailing_space_def space_runes_def)
qed

lemma trim_right_LF: "trim_right (s @ [LF]) = trim_right s"
  by (simp add: trim_right.simps [of "s @ [LF]"] trailing_space_LF)

lemma trailing_space_join:
  assumes "ls \<noteq> []" and "trailing_space (last ls) = None" and "last ls \<noteq> ''''"
  shows "trailing_space (join_with [LF] ls) = None"
proof (cases ls rule: rev_cases)
  case (snoc xs x)
  show ?thesis
  proof (cases "xs = []")
    case False
    with snoc have "join_with [LF] ls = join_with [LF] xs @ LF # x" by (simp add: join_with_snoc)
    with assms snoc show ?thesis by (simp add: trailing_space_after)
  qed (use snoc assms in simp)
qed (use assms in simp)

text \<open>Splitting terminated lines gives them back when the first opens with a graphic character and
  the last does not end in white space.\<close>

lemma split_terminated:
  assumes "ls = (c # l) # rest" and "ascii_graphic c" and lines: "list_all one_line ls"
    and "trailing_space (last ls) = None" and "last ls \<noteq> ''''"
  shows "split_lines (terminated ls) = ls"
proof -
  let ?s = "join_with [LF] ls"
  have ne: "ls \<noteq> []" using assms(1) by simp
  obtain v where v: "?s = c # v" using assms(1) by (cases rest) simp_all
  have tr: "trailing_space ?s = None" by (rule trailing_space_join [OF ne assms(4,5)])
  have "trim_space (terminated ls) = trim_right (trim_left (c # v @ [LF]))"
    by (simp add: terminated_join [OF ne] v trim_space_def)
  also have "\<dots> = trim_right (?s @ [LF])" using assms(2) v by simp
  also have "\<dots> = ?s" by (simp add: trim_right_LF trim_right_id tr)
  finally have t: "trim_space (terminated ls) = ?s" .
  have cr: "replace_cr (replace_crlf ?s) = ?s"
    using join_one_line [OF lines] by (simp add: replace_crlf_id replace_cr_id)
  have "\<not> has_suffix ?s [LF]" using tr trailing_space_LF by (metis has_suffix_iff option.distinct(1))
  then have "trim_suffix ?s [LF] = ?s" by (simp add: trim_suffix_def)
  with t cr v split_join_one_line [OF ne lines] show ?thesis
    by (simp add: split_lines_def Let_def)
qed

definition ends_clean :: "chunk_syntax list \<Rightarrow> bool" where
  "ends_clean cs \<longleftrightarrow> trailing_space (last (render_chunks cs)) = None"

lemma chunk_ok_nonempty:
  assumes "chunk_ok c"
  shows "chunk_old (meaning c) \<noteq> '''' \<or> chunk_new (meaning c) \<noteq> ''''"
proof (cases c)
  case (Chunk ctx body eof)
  with assms obtain l ls where "body = l # ls" by (cases body) auto
  with Chunk show ?thesis by (cases "edit_of l") (simp_all add: Let_def)
qed

lemma render_chunk_lines: "chunk_ok c \<Longrightarrow> list_all (\<lambda>l. l \<noteq> '''') (render_chunk c) \<and> render_chunk c \<noteq> []"
  by (cases c) (auto simp: list_all_iff diff_line_ok_def split: option.splits)

lemma render_chunks_lines:
  assumes "list_all chunk_ok cs" and "cs \<noteq> []"
  shows "list_all (\<lambda>l. l \<noteq> '''') (render_chunks cs)" and "list_all one_line (render_chunks cs)"
    and "\<exists>l rest. render_chunks cs = (CHR ''@'' # l) # rest"
proof -
  show "list_all (\<lambda>l. l \<noteq> '''') (render_chunks cs)" "list_all one_line (render_chunks cs)"
    unfolding render_chunks_def
    by (rule list_all_concat_map [OF assms(1)]; simp add: render_chunk_lines render_chunk_one_line)+
  obtain c cs' where cs: "cs = c # cs'" using assms(2) by (cases cs) auto
  then show "\<exists>l rest. render_chunks cs = (CHR ''@'' # l) # rest"
    by (cases c) (auto simp: render_chunks_def split: option.splits)
qed

lemma parse_rendered_chunks:
  assumes "list_all chunk_ok cs" and "cs \<noteq> []" and "ends_clean cs"
  shows "parse_update_chunks (terminated (render_chunks cs)) = Inr (map meaning cs)"
proof -
  note lines = render_chunks_lines [OF assms(1,2)]
  obtain l rest where hd: "render_chunks cs = (CHR ''@'' # l) # rest" using lines(3) by blast
  have "last (render_chunks cs) \<in> set (render_chunks cs)" using hd by (intro last_in_set) simp
  with lines(1) have "last (render_chunks cs) \<noteq> ''''" by (auto simp: list_all_iff)
  then have split: "split_lines (terminated (render_chunks cs)) = render_chunks cs"
    using assms(3) by (intro split_terminated [OF hd _ lines(2)]) (simp_all add: ends_clean_def ascii_graphic_def)
  have "filter (\<lambda>c. \<not> (chunk_old c = '''' \<and> chunk_new c = '''')) (map meaning cs) = map meaning cs"
    using assms(1) chunk_ok_nonempty by (intro filter_True) (auto simp: list_all_iff)
  with split show ?thesis
    by (simp add: parse_update_chunks_def chunk_loop_chunks [OF assms(1)] flush_chunk_def)
qed

section \<open>Updates replay their edits\<close>

text \<open>The specification: find each chunk from where the previous one ended, keep what lies between,
  replay the edits.\<close>

fun patched :: "source_file \<Rightarrow> bytes \<Rightarrow> chunk_syntax list \<Rightarrow> nat \<Rightarrow> source_line list option" where
  "patched f label [] i = Some (drop i (file_lines f))"
| "patched f label (c # cs) i =
     (case seek_context (line_texts f) (meaning c) label i of
        Inl _ \<Rightarrow> None
      | Inr j \<Rightarrow>
          (case seek_sequence (line_texts f) (old_of (edits_of c)) j (chunk_at_eof (meaning c)) of
             None \<Rightarrow> None
           | Some k \<Rightarrow>
               map_option (\<lambda>rest. slice i k (file_lines f) @ replay f (edits_of c) (drop k (file_lines f)) @ rest)
                 (patched f label cs (k + length (old_of (edits_of c))))))"

text \<open>A chunk that has old lines, the last of them not empty, is searched for as it is.\<close>

definition anchored :: "chunk_syntax \<Rightarrow> bool" where
  "anchored c \<longleftrightarrow> old_of (edits_of c) \<noteq> [] \<and> last (old_of (edits_of c)) \<noteq> ''''"

lemma meaning_fields [simp]:
  "old_text_lines (meaning c) = old_of (edits_of c)"
  "new_text_lines (meaning c) = new_of (edits_of c)"
  "context_indices (meaning c) = keeps_of 0 0 (edits_of c)"
  by (cases c; simp add: Let_def)+

lemma locate_anchored:
  "anchored c \<Longrightarrow> locate_chunk ls (meaning c) j =
     map_option (\<lambda>k. (k, old_of (edits_of c), new_of (edits_of c)))
       (seek_sequence ls (old_of (edits_of c)) j (chunk_at_eof (meaning c)))"
  by (simp add: locate_chunk_def Let_def anchored_def split: option.split)

lemma loop_replays:
  assumes "list_all anchored cs" and "i \<le> length (file_lines f)"
  shows "case replacements_loop (line_texts f) label (map meaning cs) i of
     Inl e \<Rightarrow> patched f label cs i = None
   | Inr reps \<Rightarrow> reps_ok (length (file_lines f)) i reps \<and> patched f label cs i = Some (spliced f i reps)"
  using assms
proof (induction cs arbitrary: i)
  case Nil
  then show ?case by simp
next
  case (Cons c cs)
  have len: "length (line_texts f) = length (file_lines f)" by (simp add: line_texts_def)
  from Cons.prems have anch: "anchored c" "old_of (edits_of c) \<noteq> []" by (simp_all add: anchored_def)
  show ?case
  proof (cases "seek_context (line_texts f) (meaning c) label i")
    case (Inl e)
    then show ?thesis by simp
  next
    case ctx: (Inr j)
    from seek_context_range [OF ctx] Cons.prems len have ij: "i \<le> j" "j \<le> length (file_lines f)" by simp_all
    show ?thesis
    proof (cases "seek_sequence (line_texts f) (old_of (edits_of c)) j (chunk_at_eof (meaning c))")
      case None
      with ctx anch show ?thesis by (simp add: locate_anchored)
    next
      case (Some k)
      let ?e = "k + length (old_of (edits_of c))"
      from seek_sequence_range [OF Some] ij len have k: "j \<le> k" "?e \<le> length (file_lines f)" by simp_all
      define mine where "mine = chunk_replacements k (old_of (edits_of c)) (new_of (edits_of c)) (keeps_of 0 0 (edits_of c))"
      have mine_ok: "reps_ok ?e k mine" unfolding mine_def by (rule chunk_replacements_ok [OF keeps_of_ok])
      have ih: "case replacements_loop (line_texts f) label (map meaning cs) ?e of
          Inl e \<Rightarrow> patched f label cs ?e = None
        | Inr reps \<Rightarrow> reps_ok (length (file_lines f)) ?e reps \<and> patched f label cs ?e = Some (spliced f ?e reps)"
        using Cons.IH [of ?e] Cons.prems k by simp
      show ?thesis
      proof (cases "replacements_loop (line_texts f) label (map meaning cs) ?e")
        case (Inl e)
        with ih ctx anch Some show ?thesis by (simp add: locate_anchored)
      next
        case (Inr rest)
        with ih have rest: "reps_ok (length (file_lines f)) ?e rest"
          and patched: "patched f label cs ?e = Some (spliced f ?e rest)" by simp_all
        have "spliced f k (mine @ rest) =
            replay f (edits_of c) (drop k (file_lines f)) @ spliced f ?e rest"
          using all_replacements_replay [of "old_of (edits_of c)" "[]" "[]" "edits_of c" "new_of (edits_of c)"
              "[]" k f rest] k rest
          by (simp add: mine_def chunk_replacements_alt)
        moreover have ok: "reps_ok (length (file_lines f)) k (mine @ rest)"
          by (rule reps_ok_append [OF mine_ok rest])
        moreover have "i \<le> k" using ij k by simp
        ultimately have "spliced f i (mine @ rest) = slice i k (file_lines f) @
            replay f (edits_of c) (drop k (file_lines f)) @ spliced f ?e rest"
          using spliced_skip [OF ok, of f i] by simp
        moreover have "reps_ok (length (file_lines f)) i (mine @ rest)"
          using reps_ok_start [OF ok \<open>i \<le> k\<close>] .
        ultimately show ?thesis
          using ctx anch Some Inr patched by (simp add: locate_anchored mine_def)
      qed
    qed
  qed
qed

lemma sorted_already: "reps_ok n s reps \<Longrightarrow> sort_key rep_start reps = reps"
  using reps_ok_sorted by (intro sort_key_id_if_sorted) blast


text \<open>A two-chunk update with a context header, on a file with mixed endings.\<close>

abbreviation "example_chunks \<equiv>
  [Chunk None ['' a'', ''-b'', ''+c''] False, Chunk (Some ''f'') ['' g'', ''+h''] True]"

abbreviation "example_file \<equiv>
  ''a'' @ [CR, LF] @ ''b'' @ [LF] @ ''f'' @ [LF] @ ''g'' :: bytes"


section \<open>Where the parser and the diff reader disagree\<close>

text \<open>An update hunk without a chunk header whose first line is context is accepted by the parser,
  but its diff is trimmed before it is read: the leading space that marks the context line is gone,
  so the hunk can never be applied.\<close>

theorem leading_context_lost:
  "map_sum (\<lambda>_. ()) (\<lambda>a. map unified_diff (hunks a))
     (parse_patch (join_with [LF] [''*** Begin Patch'', ''*** Update File: a'', '' x'', ''-y'', ''*** End Patch''])) =
     Inr ['' x'' @ [LF] @ ''-y'' @ [LF]] \<and>
   parse_update_chunks ('' x'' @ [LF] @ ''-y'' @ [LF]) = Inl (InvalidUpdateLine ''x'')"
  by code_simp

text \<open>White space at the end of the last line of a diff is lost: the file gets another line than
  the patch says.\<close>

theorem trailing_space_lost:
  "apply_unified_diff_to_content (''x'' @ [LF]) (terminated [''@@'', ''-x'', ''+y  '']) ''a'' =
     Inr (Some (''y'' @ [LF]))"
  by code_simp

text \<open>The parser counts an empty line of an update hunk as context, the diff reader skips it: a
  hunk whose old lines span an empty line of the file is not found there.\<close>

theorem empty_context_skipped:
  "map_option old_text_lines (case parse_update_chunks (terminated [''@@'', ''-x'', '''', ''-y'']) of
       Inl _ \<Rightarrow> None | Inr cs \<Rightarrow> find (\<lambda>_. True) cs) = Some [''x'', ''y''] \<and>
   map_sum (\<lambda>_. ()) id (apply_unified_diff_to_content (''x'' @ [LF] @ [LF] @ ''y'' @ [LF])
     (terminated [''@@'', ''-x'', '''', ''-y'']) ''a'') = Inl () \<and>
   map_sum (\<lambda>_. ()) (\<lambda>a. map unified_diff (hunks a))
     (parse_patch (join_with [LF] [''*** Begin Patch'', ''*** Update File: a'', ''@@'', ''-x'', '''', ''-y'',
        ''*** End Patch''])) = Inr [terminated [''@@'', ''-x'', '''', ''-y'']]"
  by code_simp

end
