(* ===== verification/Patch_Apply.thy ===== *)
theory Patch_Apply
  imports Source_File
begin

text \<open>
  Verifying and committing a parsed action, the second half of \<open>applypatch/applypatch.go\<close>.  The
  interface \<open>FileSystem\<close> is the record \<open>file_system\<close> of operations on a state; what the code
  calls in \<open>os\<close> and \<open>filepath\<close> besides is the record \<open>host\<close>.  Every operation returns the next
  state next to its result, so a failed apply shows what it left behind.
\<close>

section \<open>The file system interface\<close>

text \<open>An error of the operating system carries an errno; any other error its text and whether
  \<open>errors.Is(err, os.ErrNotExist)\<close>.\<close>

datatype io_error = Errno bytes nat | OtherIO bytes bool

definition io_text :: "io_error \<Rightarrow> bytes" where
  "io_text e = (case e of Errno t _ \<Rightarrow> t | OtherIO t _ \<Rightarrow> t)"

definition is_not_exist :: "io_error \<Rightarrow> bool" where
  "is_not_exist e = (case e of Errno _ n \<Rightarrow> n = 2 | OtherIO _ b \<Rightarrow> b)"

definition is_not_directory :: "io_error \<Rightarrow> bool" where
  "is_not_directory e = (case e of Errno _ n \<Rightarrow> n = 20 | OtherIO _ _ \<Rightarrow> False)"

definition rust_directory_read_error :: io_error where
  "rust_directory_read_error = Errno ''is a directory'' 21"

definition plain_io_message :: "io_error option \<Rightarrow> bytes" where
  "plain_io_message e = (case e of None \<Rightarrow> '''' | Some err \<Rightarrow> io_text err)"

definition rust_io_message :: "io_error \<Rightarrow> bytes" where
  "rust_io_message e = (case e of
     Errno t n \<Rightarrow> t @ '' (os error '' @ dec_nat n @ '')''
   | OtherIO _ _ \<Rightarrow> plain_io_message (Some e))"

datatype file_info = RegularFile nat | DirectoryFile | OtherFile

definition is_regular :: "file_info \<Rightarrow> bool" where
  "is_regular i = (case i of RegularFile _ \<Rightarrow> True | _ \<Rightarrow> False)"

definition file_perm :: "file_info \<Rightarrow> nat" where
  "file_perm i = (case i of RegularFile p \<Rightarrow> p | _ \<Rightarrow> 0)"

record 'w file_system =
  read_file :: "bytes \<Rightarrow> 'w \<Rightarrow> io_error + bytes"
  write_file :: "bytes \<Rightarrow> bytes \<Rightarrow> nat \<Rightarrow> 'w \<Rightarrow> io_error option \<times> 'w"
  stat :: "bytes \<Rightarrow> 'w \<Rightarrow> io_error + file_info"
  remove_file :: "bytes \<Rightarrow> 'w \<Rightarrow> io_error option \<times> 'w"
  mkdir_all :: "bytes \<Rightarrow> nat \<Rightarrow> 'w \<Rightarrow> io_error option \<times> 'w"

text \<open>The host: the process working directory, its file system, temporary directories, and what the
  symlink walk asks (\<open>os.Lstat\<close> reports whether the path is a link).\<close>

record 'w host =
  getwd :: bytes
  os_filesystem :: "'w file_system"
  mkdir_temp :: "'w \<Rightarrow> (io_error + bytes) \<times> 'w"
  remove_all :: "bytes \<Rightarrow> 'w \<Rightarrow> 'w"
  eval_symlinks :: "bytes \<Rightarrow> 'w \<Rightarrow> io_error + bytes"
  lstat_is_link :: "bytes \<Rightarrow> 'w \<Rightarrow> io_error + bool"

record 'w apply_options =
  option_cwd :: bytes
  no_follow_symlinks :: bool
  option_fs :: "'w file_system option"

definition apply_options_file_system :: "'w host \<Rightarrow> 'w apply_options option \<Rightarrow> 'w file_system" where
  "apply_options_file_system h options = (case options of
     None \<Rightarrow> os_filesystem h
   | Some opt \<Rightarrow> (case option_fs opt of None \<Rightarrow> os_filesystem h | Some fs \<Rightarrow> fs))"

definition options_cwd :: "'w apply_options option \<Rightarrow> bytes" where
  "options_cwd options = (case options of
     None \<Rightarrow> ''.''
   | Some opt \<Rightarrow> if trim_space (option_cwd opt) \<noteq> '''' then option_cwd opt else ''.'')"

definition resolve_workspace_path :: "bytes \<Rightarrow> bytes \<Rightarrow> bytes \<Rightarrow> patch_error + bytes" where
  "resolve_workspace_path wd cwd0 path =
     (case validate_path path of
        Some err \<Rightarrow> Inl err
      | None \<Rightarrow>
          let cwd = (if trim_space cwd0 = '''' then ''.'' else cwd0);
              clean = path_clean path;
              full = (if is_abs clean then clean else path_join cwd clean)
          in Inr (path_abs wd full))"

section \<open>Committing one change\<close>

text \<open>The permissions \<open>0o755\<close> and \<open>0o600\<close>.\<close>

abbreviation "dir_mode \<equiv> 0x1ED"
abbreviation "file_mode \<equiv> 0x180"

record applied_change =
  ac_kind :: change_kind
  ac_path :: bytes
  ac_move_path :: bytes
  old_content :: bytes
  new_content :: bytes
  overwritten_content :: "bytes option"

record applied_file =
  af_kind :: change_kind
  af_path :: bytes
  af_change :: applied_change

definition applied :: "change_kind \<Rightarrow> bytes \<Rightarrow> bytes \<Rightarrow> bytes \<Rightarrow> bytes \<Rightarrow> bytes \<Rightarrow> applied_file" where
  "applied k shown path mv old new = \<lparr>af_kind = k, af_path = shown,
     af_change = \<lparr>ac_kind = k, ac_path = path, ac_move_path = mv, old_content = old, new_content = new,
       overwritten_content = None\<rparr>\<rparr>"

definition mkdir_error :: "bytes \<Rightarrow> patch_error" where
  "mkdir_error path = PlainError (''Failed to create parent directories for '' @ path)"

definition write_error :: "bytes \<Rightarrow> patch_error" where
  "write_error path = PlainError (''Failed to write file '' @ path)"

definition delete_error :: "bytes \<Rightarrow> patch_error" where
  "delete_error path = PlainError (''Failed to delete file '' @ path)"

definition read_error :: "bytes \<Rightarrow> io_error \<Rightarrow> patch_error" where
  "read_error path e = PlainError (''Failed to read file to update '' @ path @ '': '' @ rust_io_message e)"

definition remove_error :: "bytes \<Rightarrow> patch_error" where
  "remove_error path = PlainError (''Failed to remove original '' @ path)"

text \<open>\<open>MkdirAll\<close> of the parent directory, then \<open>WriteFile\<close>: the shared part of additions and updates.\<close>

definition write_with_parents ::
  "'w file_system \<Rightarrow> bytes \<Rightarrow> bytes \<Rightarrow> 'w \<Rightarrow> patch_error option \<times> 'w" where
  "write_with_parents fs path data w0 =
     (case mkdir_all fs (path_dir path) dir_mode w0 of
        (Some _, w1) \<Rightarrow> (Some (mkdir_error path), w1)
      | (None, w1) \<Rightarrow>
          (case write_file fs path data file_mode w1 of
             (Some _, w2) \<Rightarrow> (Some (write_error path), w2)
           | (None, w2) \<Rightarrow> (None, w2)))"

definition apply_add ::
  "bytes \<Rightarrow> 'w file_system \<Rightarrow> bytes \<Rightarrow> change \<Rightarrow> 'w \<Rightarrow> (patch_error + applied_file) \<times> 'w" where
  "apply_add wd fs cwd c w0 =
     (case resolve_workspace_path wd cwd (change_path c) of
        Inl err \<Rightarrow> (Inl err, w0)
      | Inr path \<Rightarrow>
          (case write_with_parents fs path (content c) w0 of
             (Some err, w1) \<Rightarrow> (Inl err, w1)
           | (None, w1) \<Rightarrow> (Inr (applied ChangeAdd (change_path c) (change_path c) '''' '''' (content c)), w1)))"

definition apply_delete ::
  "bytes \<Rightarrow> 'w file_system \<Rightarrow> bytes \<Rightarrow> change \<Rightarrow> 'w \<Rightarrow> (patch_error + applied_file) \<times> 'w" where
  "apply_delete wd fs cwd c w0 =
     (case resolve_workspace_path wd cwd (change_path c) of
        Inl err \<Rightarrow> (Inl err, w0)
      | Inr path \<Rightarrow>
          if (case stat fs path w0 of Inl _ \<Rightarrow> True | Inr info \<Rightarrow> \<not> is_regular info)
          then (Inl (delete_error path), w0)
          else
            let data = (case read_file fs path w0 of Inl _ \<Rightarrow> '''' | Inr d \<Rightarrow> d) in
            (case remove_file fs path w0 of
               (Some _, w1) \<Rightarrow> (Inl (delete_error path), w1)
             | (None, w1) \<Rightarrow> (Inr (applied ChangeDelete (change_path c) (change_path c) '''' data ''''), w1)))"

text \<open>A panic of the diff code would stop the program; \<open>update_never_panics\<close> excludes it.\<close>

definition panic_error :: patch_error where
  "panic_error = PlainError ''panic: slice bounds out of range''"

definition updated_content :: "bytes \<Rightarrow> change \<Rightarrow> bytes \<Rightarrow> patch_error + bytes" where
  "updated_content data c path =
     (case apply_update_diff_to_content data c path of
        Inl err \<Rightarrow> Inl err | Inr None \<Rightarrow> Inl panic_error | Inr (Some out) \<Rightarrow> Inr out)"

definition commit_update ::
  "'w file_system \<Rightarrow> bytes \<Rightarrow> bytes \<Rightarrow> bytes \<Rightarrow> change \<Rightarrow> bytes \<Rightarrow> bytes \<Rightarrow> 'w \<Rightarrow>
   (patch_error + applied_file) \<times> 'w" where
  "commit_update fs path out_path shown c data updated w0 =
     (case write_with_parents fs out_path updated w0 of
        (Some err, w1) \<Rightarrow> (Inl err, w1)
      | (None, w1) \<Rightarrow>
          let done = applied ChangeUpdate shown (change_path c) (move_path c) data updated in
          if move_path c \<noteq> '''' \<and> out_path \<noteq> path then
            (case remove_file fs path w1 of
               (Some e, w2) \<Rightarrow> if is_not_exist e then (Inr done, w2) else (Inl (remove_error path), w2)
             | (None, w2) \<Rightarrow> (Inr done, w2))
          else (Inr done, w1))"

definition apply_update ::
  "bytes \<Rightarrow> 'w file_system \<Rightarrow> bytes \<Rightarrow> change \<Rightarrow> 'w \<Rightarrow> (patch_error + applied_file) \<times> 'w" where
  "apply_update wd fs cwd c w =
     (case resolve_workspace_path wd cwd (change_path c) of
        Inl err \<Rightarrow> (Inl err, w)
      | Inr path \<Rightarrow>
          if stat fs path w = Inr DirectoryFile
          then (Inl (read_error path rust_directory_read_error), w)
          else (case read_file fs path w of
              Inl e \<Rightarrow> (Inl (read_error path e), w)
            | Inr data \<Rightarrow>
                (case updated_content data c path of
                   Inl err \<Rightarrow> (Inl err, w)
                 | Inr updated \<Rightarrow>
                     if move_path c \<noteq> '''' then
                       (case resolve_workspace_path wd cwd (move_path c) of
                          Inl err \<Rightarrow> (Inl err, w)
                        | Inr out_path \<Rightarrow> commit_update fs path out_path (move_path c) c data updated w)
                     else commit_update fs path path (change_path c) c data updated w)))"

definition apply_change ::
  "bytes \<Rightarrow> 'w file_system \<Rightarrow> bytes \<Rightarrow> change \<Rightarrow> 'w \<Rightarrow> (patch_error + applied_file) \<times> 'w" where
  "apply_change wd fs cwd c w =
     (case change_kind c of
        ChangeAdd \<Rightarrow> apply_add wd fs cwd c w
      | ChangeDelete \<Rightarrow> apply_delete wd fs cwd c w
      | ChangeUpdate \<Rightarrow> apply_update wd fs cwd c w
      | ChangeOther k \<Rightarrow> (Inl (UnknownChangeKind k), w))"

section \<open>Committing an action\<close>

text \<open>\<open>applyCommitted\<close>: the result so far is returned next to the error.  \<open>ApplyResult\<close> is the list
  of its applied files; its \<open>Changes\<close> are their \<open>af_change\<close>.\<close>

fun apply_committed ::
  "bytes \<Rightarrow> 'w file_system \<Rightarrow> bytes \<Rightarrow> change list \<Rightarrow> applied_file list \<Rightarrow> 'w \<Rightarrow>
   (applied_file list \<times> patch_error option) \<times> 'w"
where
  "apply_committed wd fs cwd [] result w = ((result, None), w)"
| "apply_committed wd fs cwd (c # cs) result w =
     (case apply_change wd fs cwd c w of
        (Inl err, w1) \<Rightarrow> ((result, Some err), w1)
      | (Inr file, w1) \<Rightarrow> apply_committed wd fs cwd cs (result @ [file]) w1)"

definition no_hunks_error :: patch_error where
  "no_hunks_error = WrapsInvalidPatch ''patch contains no hunks''"

definition apply_verified ::
  "'w host \<Rightarrow> 'w apply_options option \<Rightarrow> action option \<Rightarrow> 'w \<Rightarrow> (applied_file list \<times> patch_error option) \<times> 'w"
where
  "apply_verified h options a w =
     (case a of
        None \<Rightarrow> (([], Some no_hunks_error), w)
      | Some act \<Rightarrow>
          if hunks act = [] then (([], Some no_hunks_error), w)
          else apply_committed (getwd h) (apply_options_file_system h options) (options_cwd options)
                 (hunks act) [] w)"

section \<open>Preflight\<close>

fun walk_links :: "'w host \<Rightarrow> bytes \<Rightarrow> bytes list \<Rightarrow> 'w \<Rightarrow> patch_error + bytes" where
  "walk_links h current [] w = Inr ''''"
| "walk_links h current (part # parts) w =
     (if part = '''' then walk_links h current parts w
      else let next = path_join current part in
        (case lstat_is_link h next w of
           Inl e \<Rightarrow> if is_not_exist e \<or> is_not_directory e then walk_links h next parts w
                    else Inl (PlainError (io_text e))
         | Inr link \<Rightarrow> if link then Inr next else walk_links h next parts w))"

definition no_follow_symlink_path :: "'w host \<Rightarrow> bytes \<Rightarrow> 'w \<Rightarrow> patch_error + bytes" where
  "no_follow_symlink_path h path w = walk_links h [SLASH] (split_on SLASH (path_clean path)) w"

definition no_follow_workspace_root :: "'w host \<Rightarrow> bytes \<Rightarrow> 'w \<Rightarrow> bytes" where
  "no_follow_workspace_root h cwd w =
     (case eval_symlinks h cwd w of
        Inl _ \<Rightarrow> cwd | Inr resolved \<Rightarrow> if trim_space resolved = '''' then cwd else resolved)"

definition link_error :: "bytes \<Rightarrow> bytes \<Rightarrow> bytes \<Rightarrow> patch_error" where
  "link_error what name link = WrapsInvalidPatch (what @ name @ '' traverses symlink '' @ link)"

definition check_link :: "'w host \<Rightarrow> bytes \<Rightarrow> bytes \<Rightarrow> bytes \<Rightarrow> 'w \<Rightarrow> patch_error option" where
  "check_link h root what name w =
     (case resolve_workspace_path (getwd h) root name of
        Inl err \<Rightarrow> Some err
      | Inr resolved \<Rightarrow>
          (case no_follow_symlink_path h resolved w of
             Inl err \<Rightarrow> Some err
           | Inr link \<Rightarrow> if link \<noteq> '''' then Some (link_error what name link) else None))"

fun check_links :: "'w host \<Rightarrow> action \<Rightarrow> bytes \<Rightarrow> bytes list \<Rightarrow> 'w \<Rightarrow> patch_error option" where
  "check_links h a root [] w = None"
| "check_links h a root (name # names) w =
     (case check_link h root ''path '' name w of
        Some err \<Rightarrow> Some err
      | None \<Rightarrow>
          (case (if trim_space name \<noteq> '''' then move_path_for a name else None) of
             None \<Rightarrow> check_links h a root names w
           | Some mv \<Rightarrow>
               (case check_link h root ''move target '' mv w of
                  Some err \<Rightarrow> Some err
                | None \<Rightarrow> check_links h a root names w)))"

definition duplicate_error :: "bytes \<Rightarrow> patch_error" where
  "duplicate_error name = WrapsInvalidPatch (''multiple operations target '' @ name)"

fun check_duplicates :: "bytes \<Rightarrow> bytes \<Rightarrow> bytes list \<Rightarrow> (bytes \<Rightarrow> bytes option) \<Rightarrow> patch_error option" where
  "check_duplicates wd cwd [] seen = None"
| "check_duplicates wd cwd (name # names) seen =
     (case resolve_workspace_path wd cwd name of
        Inl err \<Rightarrow> Some err
      | Inr resolved \<Rightarrow>
          (case seen (path_clean resolved) of
             Some previous \<Rightarrow> Some (duplicate_error previous)
           | None \<Rightarrow> check_duplicates wd cwd names (seen(path_clean resolved \<mapsto> name))))"

text \<open>The closure \<open>shadowPathFor\<close> with the map and the counter it captures.\<close>

definition shadow_path_for ::
  "bytes \<Rightarrow> bytes \<Rightarrow> bytes \<Rightarrow> (bytes \<Rightarrow> bytes option) \<times> nat \<Rightarrow>
   patch_error + bytes \<times> (bytes \<Rightarrow> bytes option) \<times> nat" where
  "shadow_path_for wd cwd name sh =
     (case resolve_workspace_path wd cwd name of
        Inl err \<Rightarrow> Inl err
      | Inr resolved \<Rightarrow>
          (case fst sh (path_clean resolved) of
             Some existing \<Rightarrow> Inr (existing, sh)
           | None \<Rightarrow>
               let n = snd sh + 1; shadow = path_join ''paths'' (dec_nat n) in
               Inr (shadow, ((fst sh)(path_clean resolved \<mapsto> shadow), n))))"

definition copy_to_shadow :: "'w host \<Rightarrow> bytes \<Rightarrow> bytes \<Rightarrow> nat \<Rightarrow> 'w \<Rightarrow> patch_error option \<times> 'w" where
  "copy_to_shadow h target data perm w0 =
     (case mkdir_all (os_filesystem h) (path_dir target) dir_mode w0 of
        (Some e, w1) \<Rightarrow> (Some (PlainError (io_text e)), w1)
      | (None, w1) \<Rightarrow>
          (case write_file (os_filesystem h) target data perm w1 of
             (Some e, w2) \<Rightarrow> (Some (PlainError (io_text e)), w2)
           | (None, w2) \<Rightarrow> (None, w2)))"

definition copy_file ::
  "'w host \<Rightarrow> 'w file_system \<Rightarrow> bytes \<Rightarrow> bytes \<Rightarrow> bytes \<Rightarrow> 'w \<Rightarrow> patch_error option \<times> 'w" where
  "copy_file h fs temp source shadow w =
     (case stat fs source w of
        Inl e \<Rightarrow> if is_not_exist e then (None, w) else (Some (PlainError (io_text e)), w)
      | Inr info \<Rightarrow>
          if \<not> is_regular info then (None, w)
          else (case resolve_workspace_path (getwd h) temp shadow of
              Inl err \<Rightarrow> (Some err, w)
            | Inr target \<Rightarrow>
                (case read_file fs source w of
                   Inl e \<Rightarrow> (Some (PlainError (io_text e)), w)
                 | Inr data \<Rightarrow> copy_to_shadow h target data (file_perm info) w)))"

fun copy_files ::
  "'w host \<Rightarrow> 'w file_system \<Rightarrow> bytes \<Rightarrow> bytes \<Rightarrow> bytes list \<Rightarrow> (bytes \<Rightarrow> bytes option) \<times> nat \<Rightarrow> 'w \<Rightarrow>
   (patch_error + (bytes \<Rightarrow> bytes option) \<times> nat) \<times> 'w"
where
  "copy_files h fs cwd temp [] sh w = (Inr sh, w)"
| "copy_files h fs cwd temp (name # names) sh w =
     (case resolve_workspace_path (getwd h) cwd name of
        Inl err \<Rightarrow> (Inl err, w)
      | Inr source \<Rightarrow>
          (case shadow_path_for (getwd h) cwd name sh of
             Inl err \<Rightarrow> (Inl err, w)
           | Inr (shadow, sh1) \<Rightarrow>
               (case copy_file h fs temp source shadow w of
                  (Some err, w1) \<Rightarrow> (Inl err, w1)
                | (None, w1) \<Rightarrow> copy_files h fs cwd temp names sh1 w1)))"

fun shadow_hunks ::
  "bytes \<Rightarrow> bytes \<Rightarrow> change list \<Rightarrow> (bytes \<Rightarrow> bytes option) \<times> nat \<Rightarrow> patch_error + change list"
where
  "shadow_hunks wd cwd [] sh = Inr []"
| "shadow_hunks wd cwd (c # cs) sh =
     bind_res (shadow_path_for wd cwd (change_path c) sh) (\<lambda>(shadow, sh1).
       if trim_space (move_path c) \<noteq> '''' then
         bind_res (shadow_path_for wd cwd (move_path c) sh1) (\<lambda>(mv, sh2).
           bind_res (shadow_hunks wd cwd cs sh2) (\<lambda>rest.
             Inr (c\<lparr>change_path := shadow, move_path := mv\<rparr> # rest)))
       else
         bind_res (shadow_hunks wd cwd cs sh1) (\<lambda>rest. Inr (c\<lparr>change_path := shadow\<rparr> # rest)))"

definition dry_run ::
  "'w host \<Rightarrow> 'w file_system \<Rightarrow> bytes \<Rightarrow> action \<Rightarrow> bytes \<Rightarrow> 'w \<Rightarrow> patch_error option \<times> 'w" where
  "dry_run h fs cwd a temp w0 =
     (case copy_files h fs cwd temp (file_paths a) (Map.empty, 0) w0 of
        (Inl err, w1) \<Rightarrow> (Some err, w1)
      | (Inr sh, w1) \<Rightarrow>
          (case shadow_hunks (getwd h) cwd (hunks a) sh of
             Inl err \<Rightarrow> (Some err, w1)
           | Inr hs \<Rightarrow>
               (case apply_committed (getwd h) (os_filesystem h) temp hs [] w1 of
                  ((_, err), w2) \<Rightarrow> (err, w2))))"

definition temp_error :: "io_error \<Rightarrow> patch_error" where
  "temp_error e = PlainError (''failed to create apply_patch preflight workspace: '' @ io_text e)"

definition preflight ::
  "'w host \<Rightarrow> 'w file_system \<Rightarrow> bytes \<Rightarrow> bool \<Rightarrow> action \<Rightarrow> 'w \<Rightarrow> patch_error option \<times> 'w" where
  "preflight h fs cwd no_follow a w0 =
     (case (if no_follow then check_links h a (no_follow_workspace_root h cwd w0) (file_paths a) w0 else None) of
        Some err \<Rightarrow> (Some err, w0)
      | None \<Rightarrow>
          (case check_duplicates (getwd h) cwd (file_paths a) Map.empty of
             Some err \<Rightarrow> (Some err, w0)
           | None \<Rightarrow>
               (case mkdir_temp h w0 of
                  (Inl e, w1) \<Rightarrow> (Some (temp_error e), w1)
                | (Inr temp, w1) \<Rightarrow>
                    (case dry_run h fs cwd a temp w1 of
                       (err, w2) \<Rightarrow> (err, remove_all h temp w2)))))"

definition verify_action ::
  "'w host \<Rightarrow> 'w apply_options option \<Rightarrow> action option \<Rightarrow> 'w \<Rightarrow> patch_error option \<times> 'w" where
  "verify_action h options a w =
     (case a of
        None \<Rightarrow> (Some no_hunks_error, w)
      | Some act \<Rightarrow>
          if hunks act = [] then (Some no_hunks_error, w)
          else preflight h (apply_options_file_system h options) (options_cwd options)
                 (case options of None \<Rightarrow> False | Some opt \<Rightarrow> no_follow_symlinks opt) act w)"

definition apply_action ::
  "'w host \<Rightarrow> 'w apply_options option \<Rightarrow> action option \<Rightarrow> 'w \<Rightarrow>
   (applied_file list option \<times> patch_error option) \<times> 'w" where
  "apply_action h options a w0 =
     (case verify_action h options a w0 of
        (Some err, w1) \<Rightarrow> ((None, Some err), w1)
      | (None, w1) \<Rightarrow>
          (case apply_verified h options a w1 of ((files, err), w2) \<Rightarrow> ((Some files, err), w2)))"

definition apply_patch ::
  "'w host \<Rightarrow> 'w apply_options option \<Rightarrow> bytes \<Rightarrow> 'w \<Rightarrow> (applied_file list option \<times> patch_error option) \<times> 'w"
where
  "apply_patch h options input w =
     (case parse_patch input of
        Inl err \<Rightarrow> ((None, Some err), w)
      | Inr a \<Rightarrow> apply_action h options (Some a) w)"

fun fill_deletes ::
  "'w host \<Rightarrow> 'w apply_options option \<Rightarrow> change list \<Rightarrow> action \<Rightarrow> 'w \<Rightarrow> action \<times> patch_error option" where
  "fill_deletes h options [] a w = (a, None)"
| "fill_deletes h options (c # cs) a w =
     (if change_kind c \<noteq> ChangeDelete \<or> content c \<noteq> '''' then
        fill_deletes h options cs (a\<lparr>hunks := hunks a @ [c]\<rparr>) w
      else (case resolve_workspace_path (getwd h) (options_cwd options) (change_path c) of
          Inl err \<Rightarrow> (a\<lparr>hunks := hunks a @ c # cs\<rparr>, Some err)
        | Inr path \<Rightarrow>
            (case read_file (apply_options_file_system h options) path w of
               Inl e \<Rightarrow> (a\<lparr>hunks := hunks a @ c # cs\<rparr>, Some (PlainError
                 (''failed to read file to delete '' @ path @ '': '' @ io_text e)))
             | Inr data \<Rightarrow>
                 let c' = c\<lparr>content := data\<rparr> in
                 fill_deletes h options cs
                   (a\<lparr>hunks := hunks a @ [c'], changes := (changes a)(change_path c \<mapsto> c')\<rparr>) w)))"

definition fill_delete_content ::
  "'w host \<Rightarrow> 'w apply_options option \<Rightarrow> action \<Rightarrow> 'w \<Rightarrow> action \<times> patch_error option" where
  "fill_delete_content h options a w = fill_deletes h options (hunks a) (a\<lparr>hunks := []\<rparr>) w"

section \<open>The summary\<close>

definition status_letter :: "applied_file \<Rightarrow> bytes" where
  "status_letter f = (case af_kind f of ChangeAdd \<Rightarrow> ''A'' | ChangeDelete \<Rightarrow> ''D'' | _ \<Rightarrow> ''M'')"

definition summary_group :: "applied_file list \<Rightarrow> change_kind \<Rightarrow> bytes" where
  "summary_group files k =
     concat (map (\<lambda>f. status_letter f @ '' '' @ af_path f @ [LF]) (filter (\<lambda>f. af_kind f = k) files))"

definition summary :: "applied_file list \<Rightarrow> bytes" where
  "summary files =
     (if files = [] then ''No files were modified.'' @ [LF]
      else ''Success. Updated the following files:'' @ [LF] @
        concat (map (summary_group files) [ChangeAdd, ChangeUpdate, ChangeDelete]))"

end
