(* ===== verification/Os_Disk.thy ===== *)
theory Os_Disk
  imports Patch_Apply
begin

text \<open>
  The default file system of \<open>apply_patch\<close>, \<open>osFilesystem\<close> in \<open>applypatch/applypatch.go\<close>, over a
  model of the host disk: regular files and directories under absolute clean paths, with the error
  numbers Unix reports.  Links, permissions and a full disk are outside of the model.

  The locale \<open>patch_store\<close> states what committing a patch relies on; the disk provides it, and the
  effect of a commit on file contents is proved once against the locale.
\<close>

section \<open>The disk\<close>

datatype node = FileNode bytes nat | DirNode

type_synonym disk = "(bytes \<times> node) list"

definition path_parents :: "bytes \<Rightarrow> bytes list" where
  "path_parents p =
     (let cs = filter (\<lambda>c. c \<noteq> '''') (split_on SLASH p) in
      map (\<lambda>k. SLASH # join_with [SLASH] (take k cs)) [1 ..< length cs])"

definition missing_error :: "bytes \<Rightarrow> disk \<Rightarrow> io_error" where
  "missing_error p d =
     (if list_ex (\<lambda>q. case map_of d q of Some (FileNode _ _) \<Rightarrow> True | _ \<Rightarrow> False) (path_parents p)
      then Errno ''not a directory'' 20 else Errno ''no such file or directory'' 2)"

definition is_dir :: "disk \<Rightarrow> bytes \<Rightarrow> bool" where
  "is_dir d p \<longleftrightarrow> p = [SLASH] \<or> map_of d p = Some DirNode"

definition os_read_file :: "bytes \<Rightarrow> disk \<Rightarrow> io_error + bytes" where
  "os_read_file p d = (case map_of d p of
     Some (FileNode c _) \<Rightarrow> Inr c
   | Some DirNode \<Rightarrow> Inl (Errno ''is a directory'' 21)
   | None \<Rightarrow> Inl (missing_error p d))"

definition os_write_file :: "bytes \<Rightarrow> bytes \<Rightarrow> nat \<Rightarrow> disk \<Rightarrow> io_error option \<times> disk" where
  "os_write_file p data perm d = (case map_of d p of
     Some DirNode \<Rightarrow> (Some (Errno ''is a directory'' 21), d)
   | Some (FileNode _ old) \<Rightarrow> (None, AList.update p (FileNode data old) d)
   | None \<Rightarrow> if is_dir d (path_dir p) then (None, AList.update p (FileNode data perm) d)
             else (Some (missing_error p d), d))"

definition os_stat :: "bytes \<Rightarrow> disk \<Rightarrow> io_error + file_info" where
  "os_stat p d = (case map_of d p of
     Some (FileNode _ perm) \<Rightarrow> Inr (RegularFile perm)
   | Some DirNode \<Rightarrow> Inr DirectoryFile
   | None \<Rightarrow> if p = [SLASH] then Inr DirectoryFile else Inl (missing_error p d))"

definition os_remove :: "bytes \<Rightarrow> disk \<Rightarrow> io_error option \<times> disk" where
  "os_remove p d = (case map_of d p of
     Some (FileNode _ _) \<Rightarrow> (None, AList.delete p d)
   | Some DirNode \<Rightarrow>
       if list_ex (\<lambda>(q, _). has_prefix q (p @ [SLASH])) d then (Some (Errno ''directory not empty'' 39), d)
       else (None, AList.delete p d)
   | None \<Rightarrow> (Some (missing_error p d), d))"

fun os_mkdirs :: "bytes list \<Rightarrow> disk \<Rightarrow> io_error option \<times> disk" where
  "os_mkdirs [] d = (None, d)"
| "os_mkdirs (p # ps) d = (case map_of d p of
     Some (FileNode _ _) \<Rightarrow> (Some (Errno ''not a directory'' 20), d)
   | Some DirNode \<Rightarrow> os_mkdirs ps d
   | None \<Rightarrow> if p = [SLASH] then os_mkdirs ps d else os_mkdirs ps (AList.update p DirNode d))"

definition os_mkdir_all :: "bytes \<Rightarrow> nat \<Rightarrow> disk \<Rightarrow> io_error option \<times> disk" where
  "os_mkdir_all p perm d = os_mkdirs (path_parents p @ [p]) d"

definition os_disk :: "disk file_system" where
  "os_disk = \<lparr>read_file = os_read_file, write_file = os_write_file, stat = os_stat,
     remove_file = os_remove, mkdir_all = os_mkdir_all\<rparr>"

section \<open>What a commit relies on\<close>

text \<open>The contents of the regular files of a state.\<close>

definition disk_files :: "disk \<Rightarrow> bytes \<Rightarrow> bytes option" where
  "disk_files d p = (case map_of d p of Some (FileNode c _) \<Rightarrow> Some c | _ \<Rightarrow> None)"

locale patch_store =
  fixes fs :: "'w file_system" and files :: "'w \<Rightarrow> bytes \<Rightarrow> bytes option"
  assumes read_files: "read_file fs p w = Inr data \<Longrightarrow> files w p = Some data"
    and write_done: "write_file fs p data m w = (None, w') \<Longrightarrow> files w' = (files w)(p \<mapsto> data)"
    and write_failed: "write_file fs p data m w = (Some e, w') \<Longrightarrow> files w' = files w"
    and mkdir_files: "mkdir_all fs p m w = (r, w') \<Longrightarrow> files w' = files w"
    and remove_done: "remove_file fs p w = (None, w') \<Longrightarrow> files w' = (files w)(p := None)"
    and remove_failed: "remove_file fs p w = (Some e, w') \<Longrightarrow> files w' = files w"
    and remove_readable: "files w p = Some data \<Longrightarrow> fst (remove_file fs p w) = None"
begin

lemma write_with_parents_files:
  assumes "write_with_parents fs p data w = (r, w')"
  shows "files w' = (case r of None \<Rightarrow> (files w)(p \<mapsto> data) | Some _ \<Rightarrow> files w)"
proof -
  obtain r1 w1 where mk: "mkdir_all fs (path_dir p) dir_mode w = (r1, w1)" by fastforce
  obtain r2 w2 where wr: "write_file fs p data file_mode w1 = (r2, w2)" by fastforce
  from mkdir_files [OF mk] wr assms mk show ?thesis
    by (auto simp: write_with_parents_def split: option.splits dest: write_done write_failed)
qed

end

text \<open>The specification: what a change does to file contents, \<open>None\<close> when it cannot apply.\<close>

definition change_effect ::
  "bytes \<Rightarrow> bytes \<Rightarrow> change \<Rightarrow> (bytes \<Rightarrow> bytes option) \<Rightarrow> (bytes \<Rightarrow> bytes option) option" where
  "change_effect wd cwd c m =
     (case resolve_workspace_path wd cwd (change_path c) of
        Inl _ \<Rightarrow> None
      | Inr path \<Rightarrow>
          (case change_kind c of
             ChangeAdd \<Rightarrow> Some (m(path \<mapsto> content c))
           | ChangeDelete \<Rightarrow> Some (m(path := None))
           | ChangeUpdate \<Rightarrow>
               (case m path of
                  None \<Rightarrow> None
                | Some data \<Rightarrow>
                    (case (updated_content data c path,
                           if move_path c \<noteq> '''' then resolve_workspace_path wd cwd (move_path c) else Inr path) of
                       (Inr updated, Inr out) \<Rightarrow>
                         Some (if out \<noteq> path then (m(out \<mapsto> updated))(path := None) else m(path \<mapsto> updated))
                     | _ \<Rightarrow> None))
           | ChangeOther _ \<Rightarrow> None))"

fun changes_effect ::
  "bytes \<Rightarrow> bytes \<Rightarrow> change list \<Rightarrow> (bytes \<Rightarrow> bytes option) \<Rightarrow> (bytes \<Rightarrow> bytes option) option" where
  "changes_effect wd cwd [] m = Some m"
| "changes_effect wd cwd (c # cs) m =
     (case change_effect wd cwd c m of None \<Rightarrow> None | Some m' \<Rightarrow> changes_effect wd cwd cs m')"

context patch_store
begin

lemma apply_add_effect:
  assumes "apply_add wd fs cwd c w = (r, w')" and "change_kind c = ChangeAdd"
  shows "case r of Inl _ \<Rightarrow> files w' = files w
    | Inr _ \<Rightarrow> change_effect wd cwd c (files w) = Some (files w')"
proof (cases "resolve_workspace_path wd cwd (change_path c)")
  case (Inr path)
  obtain r1 w1 where wr: "write_with_parents fs path (content c) w = (r1, w1)" by fastforce
  from write_with_parents_files [OF wr] Inr wr assms show ?thesis
    by (auto simp: apply_add_def change_effect_def split: option.splits)
qed (use assms in \<open>auto simp: apply_add_def\<close>)

lemma apply_delete_effect:
  assumes "apply_delete wd fs cwd c w = (r, w')" and "change_kind c = ChangeDelete"
  shows "case r of Inl _ \<Rightarrow> files w' = files w
    | Inr _ \<Rightarrow> change_effect wd cwd c (files w) = Some (files w')"
proof (cases "resolve_workspace_path wd cwd (change_path c)")
  case (Inr path)
  obtain r1 w1 where rm: "remove_file fs path w = (r1, w1)" by fastforce
  from Inr rm assms show ?thesis
    by (auto simp: apply_delete_def change_effect_def Let_def split: option.splits sum.splits if_splits
        dest: remove_done remove_failed)
qed (use assms in \<open>auto simp: apply_delete_def\<close>)

lemma commit_update_effect:
  assumes "commit_update fs path out shown c data updated w = (r, w')" and old: "files w path = Some data"
    and move: "move_path c = '''' \<longrightarrow> out = path"
  shows "case r of Inl _ \<Rightarrow> files w' = files w
    | Inr _ \<Rightarrow> files w' =
        (if out \<noteq> path then ((files w)(out \<mapsto> updated))(path := None) else (files w)(path \<mapsto> updated))"
proof -
  obtain r1 w1 where wr: "write_with_parents fs out updated w = (r1, w1)" by fastforce
  show ?thesis
  proof (cases r1)
    case (Some e)
    with write_with_parents_files [OF wr] wr assms(1) show ?thesis by (auto simp: commit_update_def)
  next
    case None
    with write_with_parents_files [OF wr] have w1: "files w1 = (files w)(out \<mapsto> updated)" by simp
    show ?thesis
    proof (cases "move_path c \<noteq> '''' \<and> out \<noteq> path")
      case True
      with w1 old have "files w1 path = Some data" by auto
      then have "fst (remove_file fs path w1) = None" by (rule remove_readable)
      then obtain w2 where rm: "remove_file fs path w1 = (None, w2)" by (cases "remove_file fs path w1") simp
      from remove_done [OF rm] rm w1 wr None True assms(1) show ?thesis
        by (auto simp: commit_update_def Let_def)
    next
      case False
      with w1 wr None assms(1) move show ?thesis by (auto simp: commit_update_def Let_def)
    qed
  qed
qed

lemma apply_update_effect:
  assumes "apply_update wd fs cwd c w = (r, w')" and kind: "change_kind c = ChangeUpdate"
  shows "case r of Inl _ \<Rightarrow> files w' = files w
    | Inr _ \<Rightarrow> change_effect wd cwd c (files w) = Some (files w')"
proof (cases "resolve_workspace_path wd cwd (change_path c)")
  case (Inr path)
  show ?thesis
  proof (cases "stat fs path w = Inr DirectoryFile \<or> (\<exists>e. read_file fs path w = Inl e)")
    case True
    with Inr assms(1) show ?thesis by (auto simp: apply_update_def split: if_splits)
  next
    case False
    then obtain data where read: "read_file fs path w = Inr data" by (cases "read_file fs path w") auto
    from read_files [OF read] have old: "files w path = Some data" .
    show ?thesis
    proof (cases "updated_content data c path")
      case (Inl e)
      with Inr False read assms(1) show ?thesis by (auto simp: apply_update_def)
    next
      case upd: (Inr updated)
      define res where "res = (if move_path c \<noteq> '''' then resolve_workspace_path wd cwd (move_path c) else Inr path)"
      show ?thesis
      proof (cases res)
        case (Inl e)
        with Inr False read upd assms(1) show ?thesis
          by (auto simp: apply_update_def res_def split: if_splits)
      next
        case out: (Inr out)
        define shown where "shown = (if move_path c \<noteq> '''' then move_path c else change_path c)"
        have com: "commit_update fs path out shown c data updated w = (r, w')"
          using Inr False read upd out assms(1) by (auto simp: apply_update_def res_def shown_def split: if_splits)
        have "move_path c = '''' \<longrightarrow> out = path" using out by (auto simp: res_def)
        from commit_update_effect [OF com old this] Inr kind old upd out show ?thesis
          by (auto simp: change_effect_def res_def split: sum.splits)
      qed
    qed
  qed
qed (use assms in \<open>auto simp: apply_update_def\<close>)

lemma apply_change_effect:
  assumes "apply_change wd fs cwd c w = (r, w')"
  shows "case r of Inl _ \<Rightarrow> files w' = files w
    | Inr _ \<Rightarrow> change_effect wd cwd c (files w) = Some (files w')"
proof (cases "change_kind c")
  case ChangeAdd
  with assms show ?thesis by (intro apply_add_effect) (simp_all add: apply_change_def)
next
  case ChangeDelete
  with assms show ?thesis by (intro apply_delete_effect) (simp_all add: apply_change_def)
next
  case ChangeUpdate
  with assms show ?thesis by (intro apply_update_effect) (simp_all add: apply_change_def)
next
  case (ChangeOther k)
  with assms show ?thesis by (auto simp: apply_change_def)
qed

lemma apply_committed_effect:
  assumes "apply_committed wd fs cwd cs result w = ((res, err), w')"
  shows "\<exists>n. length res = length result + n \<and> n \<le> length cs \<and> (err = None \<longleftrightarrow> n = length cs) \<and>
    changes_effect wd cwd (take n cs) (files w) = Some (files w')"
  using assms
proof (induction cs arbitrary: result w)
  case Nil
  then show ?case by simp
next
  case (Cons c cs)
  obtain r w1 where step: "apply_change wd fs cwd c w = (r, w1)" by fastforce
  note eff = apply_change_effect [OF step]
  show ?case
  proof (cases r)
    case (Inl e)
    with step eff Cons.prems show ?thesis by (intro exI [of _ 0]) auto
  next
    case (Inr fl)
    with step Cons.prems have "apply_committed wd fs cwd cs (result @ [fl]) w1 = ((res, err), w')" by simp
    from Cons.IH [OF this] obtain n where n: "length res = length (result @ [fl]) + n" "n \<le> length cs"
      "err = None \<longleftrightarrow> n = length cs" "changes_effect wd cwd (take n cs) (files w1) = Some (files w')" by blast
    with eff Inr show ?thesis by (intro exI [of _ "Suc n"]) simp
  qed
qed

end

section \<open>The disk provides it\<close>

lemma disk_files_update: "disk_files (AList.update p n d) =
   (disk_files d)(p := (case n of FileNode c _ \<Rightarrow> Some c | DirNode \<Rightarrow> None))"
  by (rule ext) (simp add: disk_files_def)

lemma disk_files_delete: "disk_files (AList.delete p d) = (disk_files d)(p := None)"
  by (rule ext) (simp add: disk_files_def)

lemma os_mkdirs_files: "os_mkdirs ps d = (r, d') \<Longrightarrow> disk_files d' = disk_files d"
proof (induction ps arbitrary: d)
  case (Cons p ps)
  have "disk_files (AList.update p DirNode d) = disk_files d" if "map_of d p = None"
    using that by (auto simp: disk_files_update disk_files_def)
  with Cons show ?case by (auto split: option.splits node.splits if_splits)
qed simp

interpretation disk: patch_store os_disk disk_files
proof
  show "disk_files w p = Some data" if "read_file os_disk p w = Inr data" for p w data
    using that by (simp add: os_disk_def os_read_file_def disk_files_def split: option.splits node.splits)
  show "disk_files w' = (disk_files w)(p \<mapsto> data)" if "write_file os_disk p data m w = (None, w')" for p data m w w'
    using that by (auto simp: os_disk_def os_write_file_def disk_files_update split: option.splits node.splits if_splits)
  show "disk_files w' = disk_files w" if "write_file os_disk p data m w = (Some e, w')" for p data m w e w'
    using that by (auto simp: os_disk_def os_write_file_def split: option.splits node.splits if_splits)
  show "disk_files w' = disk_files w" if "mkdir_all os_disk p m w = (r, w')" for p m w r w'
    using that by (simp add: os_disk_def os_mkdir_all_def os_mkdirs_files)
  show "disk_files w' = (disk_files w)(p := None)" if "remove_file os_disk p w = (None, w')" for p w w'
    using that by (auto simp: os_disk_def os_remove_def disk_files_delete split: option.splits node.splits if_splits)
  show "disk_files w' = disk_files w" if "remove_file os_disk p w = (Some e, w')" for p w e w'
    using that by (auto simp: os_disk_def os_remove_def split: option.splits node.splits if_splits)
  show "fst (remove_file os_disk p w) = None" if "disk_files w p = Some data" for p w data
    using that by (auto simp: os_disk_def os_remove_def disk_files_def split: option.splits node.splits)
qed


text \<open>The entry of the result for a hunk.\<close>

definition shown_path :: "change \<Rightarrow> bytes" where
  "shown_path c = (if change_kind c = ChangeUpdate \<and> move_path c \<noteq> '''' then move_path c else change_path c)"

lemma apply_change_entry:
  "apply_change wd fs cwd c w = (Inr fl, w') \<Longrightarrow> af_kind fl = change_kind c \<and> af_path fl = shown_path c \<and>
     ac_path (af_change fl) = change_path c"
  by (auto simp: apply_change_def apply_add_def apply_delete_def apply_update_def commit_update_def
      applied_def shown_path_def Let_def split: change_kind.splits sum.splits prod.splits option.splits if_splits)

text \<open>On any file system, a commit reports the hunks it committed in order, each with its kind and
  the path that now holds the content (the move target of a moved file); a failed commit keeps them
  next to its error.\<close>

theorem commit_reports_prefix:
  "case apply_committed wd fs cwd cs [] w of ((res, err), w') \<Rightarrow>
     map af_kind res = map change_kind (take (length res) cs) \<and>
     map af_path res = map shown_path (take (length res) cs) \<and>
     (if err = None then length res = length cs else length res < length cs)"
proof -
  have gen: "apply_committed wd fs cwd cs result w = ((res, err), w') \<Longrightarrow>
     \<exists>new. res = result @ new \<and> map af_kind new = map change_kind (take (length new) cs) \<and>
       map af_path new = map shown_path (take (length new) cs) \<and> length new \<le> length cs \<and>
       (if err = None then length new = length cs else length new < length cs)" for result res err w'
  proof (induction cs arbitrary: result w)
    case (Cons c cs)
    show ?case
    proof (cases "apply_change wd fs cwd c w")
      case (Pair r w1)
      show ?thesis
      proof (cases r)
        case (Inl e)
        with Pair Cons.prems show ?thesis by auto
      next
        case (Inr fl)
        with Pair Cons.prems have "apply_committed wd fs cwd cs (result @ [fl]) w1 = ((res, err), w')" by simp
        from Cons.IH [OF this] obtain new where "res = (result @ [fl]) @ new"
          "map af_kind new = map change_kind (take (length new) cs)"
          "map af_path new = map shown_path (take (length new) cs)" "length new \<le> length cs"
          "if err = None then length new = length cs else length new < length cs" by blast
        moreover have "apply_change wd fs cwd c w = (Inr fl, w1)" using Pair Inr by simp
        note apply_change_entry [OF this]
        ultimately show ?thesis
          by (intro exI [of _ "fl # new"]) (auto split: if_splits)
      qed
    qed
  qed simp
  obtain res err w' where run: "apply_committed wd fs cwd cs [] w = ((res, err), w')" by (metis surj_pair)
  from gen [OF run] run show ?thesis by auto
qed

text \<open>A host over the disk, with a fresh temporary directory.\<close>

definition disk_host :: "disk host" where
  "disk_host = \<lparr>getwd = ''/w'', os_filesystem = os_disk,
     mkdir_temp = (\<lambda>d. (Inr ''/tmp/p'', AList.update ''/tmp/p'' DirNode d)),
     remove_all = (\<lambda>p d. filter (\<lambda>(q, _). q \<noteq> p \<and> \<not> has_prefix q (p @ [SLASH])) d),
     eval_symlinks = (\<lambda>p d. Inr p), lstat_is_link = (\<lambda>p d. Inr False)\<rparr>"

abbreviation "nested_patch \<equiv> join_with [LF]
  [''*** Begin Patch'', ''*** Add File: a'', ''+x'', ''*** Add File: a/b'', ''+y'', ''*** End Patch'']"

text \<open>A patch that adds a file and another file below it passes verification, because the dry run
  numbers the paths in one flat directory; committing it then fails half way, with the first file
  written.\<close>

theorem nested_add_passes_verification:
  "case parse_patch nested_patch of
     Inl _ \<Rightarrow> False
   | Inr a \<Rightarrow>
       fst (verify_action disk_host None (Some a) [(''/tmp'', DirNode), (''/w'', DirNode)]) = None \<and>
       (case apply_verified disk_host None (Some a) [(''/tmp'', DirNode), (''/w'', DirNode)] of
          ((res, err), d) \<Rightarrow> map af_path res = [''a''] \<and> err = Some (mkdir_error ''/w/a/b'') \<and>
            disk_files d ''/w/a'' = Some (''x'' @ [LF]))"
  by code_simp

text \<open>A hunk before and after its content was filled in.\<close>

definition filled :: "change \<Rightarrow> change \<Rightarrow> bool" where
  "filled c c' \<longleftrightarrow> c' = (if change_kind c = ChangeDelete \<and> content c = '''' then c\<lparr>content := content c'\<rparr> else c)"

lemma filled_refl: "filled c c"
  by (simp add: filled_def)

lemma filled_content: "change_kind c = ChangeDelete \<Longrightarrow> content c = '''' \<Longrightarrow> filled c (c\<lparr>content := data\<rparr>)"
  by (simp add: filled_def)

lemma fill_deletes_filled:
  "fill_deletes h options cs a w = (a', err) \<Longrightarrow>
   \<exists>new. hunks a' = hunks a @ new \<and> environment_id a' = environment_id a \<and> list_all2 filled cs new"
proof (induction cs arbitrary: a)
  case (Cons c cs)
  have same: "list_all2 filled (c # cs) (c # cs)" by (rule list_all2_refl) (rule filled_refl)
  show ?case
  proof (cases "change_kind c \<noteq> ChangeDelete \<or> content c \<noteq> ''''")
    case True
    with Cons.prems Cons.IH [of "a\<lparr>hunks := hunks a @ [c]\<rparr>"] show ?thesis
      using filled_refl by (auto simp: list_all2_Cons1)
  next
    case False
    show ?thesis
    proof (cases "\<exists>path data. resolve_workspace_path (getwd h) (options_cwd options) (change_path c) = Inr path \<and>
        read_file (apply_options_file_system h options) path w = Inr data")
      case True
      then obtain data where "fill_deletes h options (c # cs) a w = fill_deletes h options cs
          (a\<lparr>hunks := hunks a @ [c\<lparr>content := data\<rparr>], changes := (changes a)(change_path c \<mapsto> c\<lparr>content := data\<rparr>)\<rparr>) w"
        using False by (auto simp: Let_def)
      with Cons.prems Cons.IH [of "a\<lparr>hunks := hunks a @ [c\<lparr>content := data\<rparr>],
          changes := (changes a)(change_path c \<mapsto> c\<lparr>content := data\<rparr>)\<rparr>"] show ?thesis
        using False filled_content by (auto simp: list_all2_Cons1)
    next
      case no_data: False
      with False Cons.prems have "hunks a' = hunks a @ c # cs \<and> environment_id a' = environment_id a"
        by (auto split: sum.splits)
      with same show ?thesis by blast
    qed
  qed
qed simp

text \<open>Filling in the content of deletions changes nothing else: the hunks keep their order, kinds
  and paths, only deletions without content get the text of their file, and an error leaves the
  remaining hunks as they were.\<close>

theorem fill_delete_content_exact:
  "case fill_delete_content h options a w of (a', err) \<Rightarrow>
     list_all2 filled (hunks a) (hunks a') \<and> environment_id a' = environment_id a"
proof -
  obtain a' err where run: "fill_deletes h options (hunks a) (a\<lparr>hunks := []\<rparr>) w = (a', err)" by fastforce
  from fill_deletes_filled [OF run] run show ?thesis by (simp add: fill_delete_content_def)
qed

section \<open>No two operations on one file\<close>

lemma check_duplicates_iff:
  "(check_duplicates wd cwd names seen = None) \<longleftrightarrow>
   (\<exists>rs. map (resolve_workspace_path wd cwd) names = map Inr rs \<and> distinct (map path_clean rs) \<and>
      (\<forall>r \<in> set rs. seen (path_clean r) = None))"
proof (induction names arbitrary: seen)
  case (Cons name names)
  show ?case
  proof (cases "resolve_workspace_path wd cwd name")
    case (Inr r)
    have step: "(check_duplicates wd cwd (name # names) seen = None) \<longleftrightarrow>
        seen (path_clean r) = None \<and> check_duplicates wd cwd names (seen(path_clean r \<mapsto> name)) = None"
      using Inr by (simp split: option.split)
    have equiv: "(\<exists>rs. map (resolve_workspace_path wd cwd) (name # names) = map Inr rs \<and> distinct (map path_clean rs) \<and>
        (\<forall>r \<in> set rs. seen (path_clean r) = None)) \<longleftrightarrow>
      seen (path_clean r) = None \<and> (\<exists>rs. map (resolve_workspace_path wd cwd) names = map Inr rs \<and>
        distinct (map path_clean rs) \<and> (\<forall>x \<in> set rs. (seen(path_clean r \<mapsto> name)) (path_clean x) = None))"
      (is "?L \<longleftrightarrow> ?R")
    proof
      assume ?L
      then obtain rs where rs: "map (resolve_workspace_path wd cwd) (name # names) = map Inr rs"
        "distinct (map path_clean rs)" "\<forall>r \<in> set rs. seen (path_clean r) = None" by blast
      then obtain rs' where "rs = r # rs'" using Inr by (cases rs) auto
      moreover have "path_clean r \<notin> path_clean ` set rs'" using rs(2) \<open>rs = r # rs'\<close> by simp
      then have "path_clean x \<noteq> path_clean r" if "x \<in> set rs'" for x using that by (metis imageI)
      ultimately show ?R using rs Inr by (auto intro!: exI [of _ rs'])
    next
      assume ?R
      then obtain rs where "map (resolve_workspace_path wd cwd) names = map Inr rs"
        "distinct (map path_clean rs)" "\<forall>x \<in> set rs. (seen(path_clean r \<mapsto> name)) (path_clean x) = None"
        "seen (path_clean r) = None" by blast
      with Inr show ?L by (intro exI [of _ "r # rs"]) (auto split: if_splits)
    qed
    show ?thesis unfolding step Cons.IH by (rule equiv [symmetric])
  qed (auto simp: Cons_eq_map_conv)
qed simp

text \<open>Verification refuses a patch exactly when one of its paths does not resolve or two of them
  resolve to the same file, however they are spelt.\<close>

theorem duplicate_check_exact:
  "(check_duplicates wd cwd (file_paths a) Map.empty = None) \<longleftrightarrow>
   (\<exists>rs. map (resolve_workspace_path wd cwd) (file_paths a) = map Inr rs \<and> distinct (map path_clean rs))"
  by (simp add: check_duplicates_iff)

end
