(* ===== verification/Agent_Path.thy ===== *)
theory Agent_Path
  imports Go_Strings
begin

text \<open>
  Paths of agents in the agent tree, \<open>agent/path.go\<close>: validation, accessors and resolution of
  references.  The grammar they accept is \<open>/morpheus\<close>, or \<open>/root\<close> followed by agent names.
\<close>

section \<open>Code\<close>

definition agent_path_root :: bytes where
  "agent_path_root = ''/root''"

definition agent_path_morpheus :: bytes where
  "agent_path_morpheus = ''/morpheus''"

definition agent_path_is_root :: "bytes \<Rightarrow> bool" where
  "agent_path_is_root p \<longleftrightarrow> p = agent_path_root"

definition matches_prefix :: "bytes \<Rightarrow> bytes \<Rightarrow> bool" where
  "matches_prefix p prefix =
     (if agent_path_is_root prefix then True else p = prefix \<or> has_prefix p (prefix @ ''/''))"

text \<open>The last segment, \<open>segment[strings.LastIndex(segment, "/")+1:]\<close>.\<close>

definition last_segment :: "bytes \<Rightarrow> bytes" where
  "last_segment p = rev (takeWhile (\<lambda>c. c \<noteq> CHR ''/'') (rev p))"

definition agent_name :: "bytes \<Rightarrow> bytes" where
  "agent_name p =
     (if p = '''' \<or> agent_path_is_root p then ''root''
      else let segment = last_segment p in if segment = '''' then ''root'' else segment)"

definition name_rune :: "nat \<Rightarrow> bool" where
  "name_rune r \<longleftrightarrow> (0x61 \<le> r \<and> r \<le> 0x7A) \<or> (0x30 \<le> r \<and> r \<le> 0x39) \<or> (0x5F \<le> r \<and> r \<le> 0x5F)"

definition back_quoted :: "bytes \<Rightarrow> bytes" where
  "back_quoted s = CHR 0x60 # s @ [CHR 0x60]"

definition validate_agent_name :: "bytes \<Rightarrow> bytes option" where
  "validate_agent_name name =
     (if name = '''' then Some ''agent_name must not be empty''
      else if name = ''root'' then Some (''agent_name '' @ back_quoted ''root'' @ '' is reserved'')
      else if name = ''.'' \<or> name = ''..'' then Some (''agent_name '' @ back_quoted name @ '' is reserved'')
      else if contains_bytes name ''/'' then Some (''agent_name must not contain '' @ back_quoted ''/'')
      else if list_all name_rune (string_runes name) then None
      else Some ''agent_name must use only lowercase letters, digits, and underscores'')"

definition absolute_path_error :: bytes where
  "absolute_path_error = ''absolute agent paths must start with '' @ back_quoted ''/root'' @ '' or be '' @
     back_quoted ''/morpheus''"

text \<open>The loop over segments returns the first error.\<close>

fun validate_names :: "bytes list \<Rightarrow> bytes option" where
  "validate_names [] = None"
| "validate_names (n # ns) = (case validate_agent_name n of Some e \<Rightarrow> Some e | None \<Rightarrow> validate_names ns)"

definition validate_agent_path :: "bytes \<Rightarrow> bytes option" where
  "validate_agent_path path =
     (if path = agent_path_morpheus then None
      else (case cut_prefix path ''/'' of
          None \<Rightarrow> Some absolute_path_error
        | Some stripped \<Rightarrow>
            let segments = split_on (CHR ''/'') stripped in
            if hd segments \<noteq> ''root'' then Some absolute_path_error
            else if has_suffix stripped ''/''
              then Some (''absolute agent path must not end with '' @ back_quoted ''/'')
            else validate_names (tl segments)))"

definition new_agent_path :: "bytes \<Rightarrow> bytes + bytes" where
  "new_agent_path path = (case validate_agent_path path of Some e \<Rightarrow> Inl e | None \<Rightarrow> Inr path)"

definition agent_path_join :: "bytes \<Rightarrow> bytes \<Rightarrow> bytes + bytes" where
  "agent_path_join p name =
     (case validate_agent_name name of Some e \<Rightarrow> Inl e | None \<Rightarrow> new_agent_path (p @ ''/'' @ name))"

definition validate_relative_reference :: "bytes \<Rightarrow> bytes option" where
  "validate_relative_reference reference =
     (if has_suffix reference ''/'' then Some (''relative agent path must not end with '' @ back_quoted ''/'')
      else validate_names (split_on (CHR ''/'') reference))"

definition resolve_path :: "bytes \<Rightarrow> bytes \<Rightarrow> bytes + bytes" where
  "resolve_path p reference =
     (if reference = '''' then Inl ''agent path must not be empty''
      else if reference = agent_path_root then Inr agent_path_root
      else if has_prefix reference ''/'' then new_agent_path reference
      else (case validate_relative_reference reference of
          Some e \<Rightarrow> Inl e | None \<Rightarrow> new_agent_path (p @ ''/'' @ reference)))"

section \<open>The grammar\<close>

definition name_ok_agent :: "bytes \<Rightarrow> bool" where
  "name_ok_agent n \<longleftrightarrow> validate_agent_name n = None"

text \<open>The path of a list of names below the root.\<close>

definition path_of :: "bytes list \<Rightarrow> bytes" where
  "path_of names = agent_path_root @ concat (map (\<lambda>n. CHR ''/'' # n) names)"

lemma contains_slash: "contains_bytes s ''/'' \<longleftrightarrow> CHR ''/'' \<in> set s"
  by (induction s) auto

lemma name_ok_no_slash: "name_ok_agent n \<Longrightarrow> CHR ''/'' \<notin> set n \<and> n \<noteq> ''''"
  by (auto simp: name_ok_agent_def validate_agent_name_def contains_slash split: if_splits)

lemma validate_names_iff: "validate_names ns = None \<longleftrightarrow> list_all name_ok_agent ns"
  by (induction ns) (auto simp: name_ok_agent_def split: option.split)

lemma join_slash: "join_with ''/'' (x # ns) = x @ concat (map (\<lambda>n. CHR ''/'' # n) ns)"
  by (induction ns arbitrary: x) auto

lemma path_of_join: "path_of ns = CHR ''/'' # join_with ''/'' (''root'' # ns)"
  by (simp add: path_of_def agent_path_root_def join_slash)

lemma split_path_of:
  "list_all name_ok_agent ns \<Longrightarrow> split_on (CHR ''/'') (join_with ''/'' (''root'' # ns)) = ''root'' # ns"
  by (intro split_on_join) (auto simp: list_all_iff dest: name_ok_no_slash)

lemma path_of_no_suffix:
  assumes "list_all name_ok_agent ns"
  shows "\<not> has_suffix (join_with ''/'' (''root'' # ns)) ''/''"
proof (cases ns rule: rev_cases)
  case Nil
  then show ?thesis by (simp add: has_suffix_def)
next
  case (snoc ms n)
  with assms have "CHR ''/'' \<notin> set n" "n \<noteq> ''''" by (auto dest: name_ok_no_slash)
  then obtain m c where n: "n = m @ [c]" "c \<noteq> CHR ''/''" by (cases n rule: rev_cases) auto
  have "join_with ''/'' (''root'' # ns) = join_with ''/'' (''root'' # ms) @ ''/'' @ m @ [c]"
    using snoc n by (simp add: join_slash)
  with n(2) show ?thesis by (simp only: has_suffix_iff) auto
qed

lemma validate_path_of: "list_all name_ok_agent ns \<Longrightarrow> validate_agent_path (path_of ns) = None"
  using split_path_of [of ns] path_of_no_suffix [of ns]
  by (simp add: validate_agent_path_def path_of_join cut_prefix_def Let_def validate_names_iff)

text \<open>The paths that validate are exactly \<open>/morpheus\<close> and the root followed by valid agent
  names.\<close>

theorem agent_path_grammar:
  "validate_agent_path p = None \<longleftrightarrow>
   p = agent_path_morpheus \<or> (\<exists>names. list_all name_ok_agent names \<and> p = path_of names)"
proof
  assume v: "validate_agent_path p = None"
  show "p = agent_path_morpheus \<or> (\<exists>names. list_all name_ok_agent names \<and> p = path_of names)"
  proof (cases "p = agent_path_morpheus")
    case False
    with v obtain stripped where s: "p = CHR ''/'' # stripped"
      "hd (split_on (CHR ''/'') stripped) = ''root''" "validate_names (tl (split_on (CHR ''/'') stripped)) = None"
      by (auto simp: validate_agent_path_def Let_def cut_prefix_eq_Some split: option.splits if_splits)
    then have "split_on (CHR ''/'') stripped = ''root'' # tl (split_on (CHR ''/'') stripped)"
      by (metis list.collapse split_on_nonempty)
    then have "p = path_of (tl (split_on (CHR ''/'') stripped))"
      using join_split_on [of "CHR ''/''" stripped] s(1) by (simp add: path_of_join)
    with s(3) show ?thesis by (auto simp: validate_names_iff)
  qed simp
qed (auto simp: validate_path_of, simp add: validate_agent_path_def)

lemma path_of_inj:
  assumes "list_all name_ok_agent xs" and "list_all name_ok_agent ys" and "path_of xs = path_of ys"
  shows "xs = ys"
proof -
  have eq: "join_with ''/'' (''root'' # xs) = join_with ''/'' (''root'' # ys)"
    using assms(3) unfolding path_of_join by (simp only: list.inject)
  have "''root'' # xs = split_on (CHR ''/'') (join_with ''/'' (''root'' # xs))"
    by (rule split_path_of [OF assms(1), symmetric])
  also have "\<dots> = ''root'' # ys" unfolding eq by (rule split_path_of [OF assms(2)])
  finally show ?thesis by (simp only: list.inject)
qed

lemma last_segment_append: "CHR ''/'' \<notin> set n \<Longrightarrow> last_segment (p @ CHR ''/'' # n) = n"
  by (subst last_segment_def) (subst rev_append, subst rev.simps, subst append_assoc, subst takeWhile_append2, auto)

lemma morpheus_not_path_of: "path_of ns \<noteq> agent_path_morpheus"
  by (simp add: path_of_def agent_path_root_def agent_path_morpheus_def)

lemma path_of_snoc: "path_of (ns @ [n]) = path_of ns @ ''/'' @ n"
  by (simp add: path_of_def)

text \<open>The child of a valid path under a valid name is valid, its last segment is the name, it is
  below its parent in the prefix order, and different children have different paths.\<close>

theorem agent_path_join_child:
  assumes "list_all name_ok_agent ns"
  shows "case agent_path_join (path_of ns) name of
     Inl _ \<Rightarrow> \<not> name_ok_agent name
   | Inr child \<Rightarrow> name_ok_agent name \<and> child = path_of (ns @ [name]) \<and>
       validate_agent_path child = None \<and> agent_name child = name \<and>
       matches_prefix child (path_of ns) \<and> \<not> matches_prefix (path_of ns) child"
proof (cases "validate_agent_name name")
  case None
  then have ok: "name_ok_agent name" by (simp add: name_ok_agent_def)
  with assms have v: "validate_agent_path (path_of (ns @ [name])) = None" by (intro validate_path_of) simp
  have "name \<noteq> ''''" "CHR ''/'' \<notin> set name" using name_ok_no_slash [OF ok] by auto
  then have nm: "agent_name (path_of (ns @ [name])) = name"
    using last_segment_append [of name "path_of ns"] path_of_inj [of "ns @ [name]" "[]"] assms ok
    by (auto simp: agent_name_def path_of_snoc agent_path_is_root_def Let_def)
      (auto simp: path_of_def)
  have "path_of ns \<noteq> path_of (ns @ [name])" by (simp add: path_of_snoc)
  moreover have "\<not> has_prefix (path_of ns) (path_of (ns @ [name]) @ ''/'')"
  proof
    assume "has_prefix (path_of ns) (path_of (ns @ [name]) @ ''/'')"
    then obtain r where "path_of ns = (path_of (ns @ [name]) @ ''/'') @ r" by (auto simp: has_prefix_iff)
    then have "length (path_of ns) = length ((path_of (ns @ [name]) @ ''/'') @ r)" by simp
    then show False by (simp add: path_of_snoc)
  qed
  moreover have "\<not> agent_path_is_root (path_of (ns @ [name]))"
    by (simp add: agent_path_is_root_def path_of_def agent_path_root_def)
  ultimately have "\<not> matches_prefix (path_of ns) (path_of (ns @ [name]))" by (simp add: matches_prefix_def)
  moreover have "matches_prefix (path_of (ns @ [name])) (path_of ns)"
    using has_prefix_append [of "path_of ns @ ''/''" name] by (simp add: matches_prefix_def path_of_snoc)
  ultimately show ?thesis
    using None v nm ok by (simp add: agent_path_join_def new_agent_path_def path_of_snoc)
qed (simp add: agent_path_join_def name_ok_agent_def)

lemma agent_path_join_child_witness:
  "agent_path_join (path_of [''work'']) ''sub_1'' = Inr ''/root/work/sub_1'' \<and>
   matches_prefix ''/root/work/sub_1'' (path_of [''work''])"
proof -
  have ok: "list_all name_ok_agent [''work'']" by code_simp
  have j: "agent_path_join (path_of [''work'']) ''sub_1'' = Inr ''/root/work/sub_1''" by code_simp
  from agent_path_join_child [OF ok, of "''sub_1''"] show ?thesis unfolding j sum.case by blast
qed

text \<open>The prefix test follows the tree: between valid paths below the root it holds exactly when the
  names of the one start with the names of the other, so a sibling that shares a string prefix does
  not match.\<close>

theorem matches_prefix_tree:
  assumes "list_all name_ok_agent xs" and "list_all name_ok_agent ys"
  shows "matches_prefix (path_of xs) (path_of ys) \<longleftrightarrow> take (length ys) xs = ys"
proof
  assume m: "matches_prefix (path_of xs) (path_of ys)"
  show "take (length ys) xs = ys"
  proof (cases "ys = []")
    case False
    then have "\<not> agent_path_is_root (path_of ys)"
      using path_of_inj [OF assms(2), of "[]"] by (auto simp: agent_path_is_root_def path_of_def)
    with m consider "path_of xs = path_of ys" | "has_prefix (path_of xs) (path_of ys @ ''/'')"
      by (auto simp: matches_prefix_def)
    then show ?thesis
    proof cases
      case 1
      then show ?thesis using path_of_inj [OF assms] by simp
    next
      case 2
      then obtain r where r: "path_of xs = path_of ys @ CHR ''/'' # r" by (auto simp: has_prefix_iff)
      have "join_with ''/'' (''root'' # xs) = join_with ''/'' (''root'' # ys) @ CHR ''/'' # r"
        using r by (simp add: path_of_join)
      also have "\<dots> = join_with ''/'' ((''root'' # ys) @ split_on (CHR ''/'') r)"
      proof -
        have app: "us \<noteq> [] \<Longrightarrow> vs \<noteq> [] \<Longrightarrow> join_with ''/'' (us @ vs) = join_with ''/'' us @ CHR ''/'' # join_with ''/'' vs" for us vs
          by (induction "''/''" us rule: join_with.induct) (cases vs; simp)+
        show ?thesis using app [of "''root'' # ys" "split_on (CHR ''/'') r"] join_split_on [of "CHR ''/''" r] by simp
      qed
      finally have j: "join_with ''/'' (''root'' # xs) = join_with ''/'' ((''root'' # ys) @ split_on (CHR ''/'') r)" .
      have "split_on (CHR ''/'') (join_with ''/'' ((''root'' # ys) @ split_on (CHR ''/'') r)) =
          (''root'' # ys) @ split_on (CHR ''/'') r"
        using assms(2) by (intro split_on_join) (auto simp: list_all_iff dest: name_ok_no_slash split_on_no_sep)
      with j split_path_of [OF assms(1)] show ?thesis by simp
    qed
  qed simp
next
  assume "take (length ys) xs = ys"
  then obtain zs where xs: "xs = ys @ zs" by (metis append_take_drop_id)
  show "matches_prefix (path_of xs) (path_of ys)"
  proof (cases zs)
    case (Cons z zs')
    have "path_of xs = (path_of ys @ ''/'') @ z @ concat (map (\<lambda>n. CHR ''/'' # n) zs')"
      using xs Cons by (simp add: path_of_def)
    then show ?thesis by (simp add: matches_prefix_def del: append_assoc)
  qed (simp add: xs matches_prefix_def)
qed

lemma matches_prefix_tree_witness:
  "\<not> matches_prefix (path_of [''worker'']) (path_of [''work'']) \<and> matches_prefix (path_of [''work'', ''a'']) (path_of [''work''])"
proof -
  have "list_all name_ok_agent [''worker'']" "list_all name_ok_agent [''work'']" "list_all name_ok_agent [''work'', ''a'']"
    by code_simp+
  from matches_prefix_tree [OF this(1,2)] matches_prefix_tree [OF this(3,2)] show ?thesis by simp
qed

text \<open>A reference resolves to a valid path or an error, never to an invalid path; a relative
  reference resolves below the path it is resolved against.\<close>

theorem resolve_path_valid:
  "case resolve_path p reference of
     Inl _ \<Rightarrow> True
   | Inr q \<Rightarrow> validate_agent_path q = None \<and>
       (if has_prefix reference ''/'' then q = reference else q = p @ ''/'' @ reference)"
  by (auto simp: resolve_path_def new_agent_path_def agent_path_root_def validate_agent_path_def
      cut_prefix_def has_suffix_def agent_path_morpheus_def split: option.splits)

end
