(* ===== verification/Agent_Registry.thy ===== *)
theory Agent_Registry
  imports Agent_Path "HOL-Library.Word" "HOL-Library.Char_ord" "HOL-Library.List_Lexorder"
begin

text \<open>
  The registry of live agents, \<open>agent/registry.go\<close>: metadata by path, paths by thread, nicknames in
  use, and the number of spawned agents, a \<open>uint64\<close> that reservations increment before an agent
  exists.  A compare-and-swap loop that succeeds is one step here.  \<open>agents_by_path\<close> is ranged over
  by \<open>LiveAgents\<close> and is an association list.

  The interplay of reservations, commits, cancellations and releases is a step relation; its
  invariant is that no slot of the limit is ever leaked or given out twice.
\<close>

declare map_of_eq_Some_iff [simp del]

section \<open>State\<close>

record metadata =
  md_thread :: bytes
  md_path :: bytes
  md_nickname :: bytes
  md_role :: bytes
  md_last_task :: bytes

record registry =
  agents_by_path :: "(bytes \<times> metadata) list"
  path_by_thread :: "bytes \<Rightarrow> bytes option"
  used_nicknames :: "bytes \<Rightarrow> bool"
  nickname_reset_count :: int
  total_count :: "64 word"
  chooser_next :: "64 word"

record reservation =
  res_active :: bool
  res_nickname :: bytes
  res_path :: bytes
  res_counted :: bool

datatype registry_error = AgentLimitReached int | InactiveReservation | NoNicknames | PathExists bytes

definition new_registry :: registry where
  "new_registry = \<lparr>agents_by_path = [], path_by_thread = (\<lambda>_. None), used_nicknames = (\<lambda>_. False),
     nickname_reset_count = 0, total_count = 0, chooser_next = 0\<rparr>"

section \<open>Slots\<close>

definition try_increment_spawned :: "64 word \<Rightarrow> registry \<Rightarrow> bool \<times> registry" where
  "try_increment_spawned max_threads r =
     (if max_threads \<le> total_count r then (False, r)
      else (True, r\<lparr>total_count := total_count r + 1\<rparr>))"

definition decrement_spawned :: "registry \<Rightarrow> registry" where
  "decrement_spawned r = (if total_count r = 0 then r else r\<lparr>total_count := total_count r - 1\<rparr>)"

definition reserve_spawn_slot :: "int \<Rightarrow> registry \<Rightarrow> (registry_error + reservation) \<times> registry" where
  "reserve_spawn_slot max_threads r =
     (let res = \<lparr>res_active = True, res_nickname = '''', res_path = '''', res_counted = True\<rparr> in
      if 0 < max_threads then
        (case try_increment_spawned (word_of_int max_threads) r of
           (False, r1) \<Rightarrow> (Inl (AgentLimitReached max_threads), r1)
         | (True, r1) \<Rightarrow> (Inr res, r1))
      else (Inr res, r\<lparr>total_count := total_count r + 1\<rparr>))"

section \<open>Threads and paths\<close>

definition register_root_thread :: "bytes \<Rightarrow> registry \<Rightarrow> registry" where
  "register_root_thread thread r =
     (case map_of (agents_by_path r) agent_path_root of
        Some existing \<Rightarrow>
          if md_thread existing \<noteq> ''''
          then r\<lparr>path_by_thread := (path_by_thread r)(md_thread existing \<mapsto> agent_path_root)\<rparr> else r
      | None \<Rightarrow>
          (let r1 = r\<lparr>agents_by_path := AList.update agent_path_root
                 \<lparr>md_thread = thread, md_path = agent_path_root, md_nickname = '''', md_role = '''',
                  md_last_task = ''''\<rparr> (agents_by_path r)\<rparr>
           in if thread \<noteq> '''' then r1\<lparr>path_by_thread := (path_by_thread r1)(thread \<mapsto> agent_path_root)\<rparr>
              else r1))"

definition release_spawned_thread :: "bytes \<Rightarrow> registry \<Rightarrow> registry" where
  "release_spawned_thread thread r =
     (case path_by_thread r thread of
        None \<Rightarrow> r
      | Some path \<Rightarrow>
          let r1 = r\<lparr>path_by_thread := (path_by_thread r)(thread := None)\<rparr> in
          (case map_of (agents_by_path r1) path of
             None \<Rightarrow> r1
           | Some m \<Rightarrow>
               if md_thread m \<noteq> thread then r1
               else
                 let r2 = r1\<lparr>agents_by_path := AList.delete path (agents_by_path r1)\<rparr>;
                     r3 = (if md_nickname m \<noteq> ''''
                           then r2\<lparr>used_nicknames := (used_nicknames r2)(md_nickname m := False)\<rparr> else r2)
                 in if path \<noteq> agent_path_root then decrement_spawned r3 else r3))"

definition spawn_key :: "metadata \<Rightarrow> bytes" where
  "spawn_key m = (if md_path m = '''' then ''thread:'' @ md_thread m else md_path m)"

definition register_spawned_thread :: "metadata \<Rightarrow> registry \<Rightarrow> registry" where
  "register_spawned_thread m r =
     (if md_thread m = '''' then r
      else
        let key = spawn_key m;
            r1 = (if md_nickname m \<noteq> ''''
                  then r\<lparr>used_nicknames := (used_nicknames r)(md_nickname m := True)\<rparr> else r);
            r2 = (case path_by_thread r1 (md_thread m) of
                    None \<Rightarrow> r1
                  | Some previous \<Rightarrow>
                      if previous \<noteq> key
                      then r1\<lparr>agents_by_path := AList.delete previous (agents_by_path r1)\<rparr> else r1);
            r3 = (case map_of (agents_by_path r2) key of
                    None \<Rightarrow> r2
                  | Some previous \<Rightarrow>
                      if md_thread previous \<noteq> '''' \<and> md_thread previous \<noteq> md_thread m
                      then r2\<lparr>path_by_thread := (path_by_thread r2)(md_thread previous := None)\<rparr> else r2)
        in r3\<lparr>agents_by_path := AList.update key (m\<lparr>md_path := key\<rparr>) (agents_by_path r3),
              path_by_thread := (path_by_thread r3)(md_thread m \<mapsto> key)\<rparr>)"

definition agent_id_for_path :: "bytes \<Rightarrow> registry \<Rightarrow> bytes \<times> bool" where
  "agent_id_for_path path r = (case map_of (agents_by_path r) path of
     None \<Rightarrow> ('''', False) | Some m \<Rightarrow> (md_thread m, md_thread m \<noteq> ''''))"

definition metadata_for_thread :: "bytes \<Rightarrow> registry \<Rightarrow> metadata option" where
  "metadata_for_thread thread r =
     (case path_by_thread r thread of
        None \<Rightarrow> None
      | Some path \<Rightarrow>
          (case map_of (agents_by_path r) path of
             None \<Rightarrow> None
           | Some m \<Rightarrow> if md_thread m = thread then Some m else None))"

definition live_agents :: "registry \<Rightarrow> metadata list" where
  "live_agents r = sort_key md_path
     (filter (\<lambda>m. \<not> (md_thread m = '''' \<or> md_path m = agent_path_root)) (map snd (agents_by_path r)))"

definition update_last_task_message :: "bytes \<Rightarrow> bytes \<Rightarrow> registry \<Rightarrow> registry" where
  "update_last_task_message thread message r =
     (case path_by_thread r thread of
        None \<Rightarrow> r
      | Some path \<Rightarrow>
          (case map_of (agents_by_path r) path of
             None \<Rightarrow> r
           | Some m \<Rightarrow>
               if md_thread m \<noteq> thread then r
               else r\<lparr>agents_by_path := AList.update path (m\<lparr>md_last_task := message\<rparr>) (agents_by_path r)\<rparr>))"

definition clear_last_task_message :: "bytes \<Rightarrow> registry \<Rightarrow> registry" where
  "clear_last_task_message thread r = update_last_task_message thread '''' r"

section \<open>Nicknames\<close>

definition format_agent_nickname :: "bytes \<Rightarrow> int \<Rightarrow> bytes" where
  "format_agent_nickname name count =
     (if count = 0 then name
      else
        let v = count + 1;
            suffix = (if v mod 100 < 11 \<or> 13 < v mod 100 then
                        (if v mod 10 = 1 then ''st'' else if v mod 10 = 2 then ''nd''
                         else if v mod 10 = 3 then ''rd'' else ''th'')
                      else ''th'')
        in name @ '' the '' @ dec_int v @ suffix)"

definition choose_round_robin :: "bytes list \<Rightarrow> 64 word \<Rightarrow> bytes \<times> 64 word" where
  "choose_round_robin values next =
     (if values = [] then ('''', next)
      else (values ! (unat next mod length values), next + 1))"

definition registry_reserve_nickname :: "bytes list \<Rightarrow> bytes \<Rightarrow> registry \<Rightarrow> bytes option \<times> registry" where
  "registry_reserve_nickname names preferred r =
     (if preferred \<noteq> '''' then
        (Some preferred, r\<lparr>used_nicknames := (used_nicknames r)(preferred := True)\<rparr>)
      else if names = [] then (None, r)
      else
        let unused = filter (\<lambda>n. \<not> used_nicknames r n)
                       (map (\<lambda>n. format_agent_nickname n (nickname_reset_count r)) names);
            r1 = (if unused = []
                  then r\<lparr>used_nicknames := (\<lambda>_. False), nickname_reset_count := nickname_reset_count r + 1\<rparr>
                  else r);
            candidates = (if unused = []
                  then map (\<lambda>n. format_agent_nickname n (nickname_reset_count r1)) names else unused);
            (nickname, next) = choose_round_robin candidates (chooser_next r1)
        in (Some nickname, r1\<lparr>chooser_next := next,
              used_nicknames := (used_nicknames r1)(nickname := True)\<rparr>))"

section \<open>Reservations\<close>

definition registry_reserve_path :: "bytes \<Rightarrow> registry \<Rightarrow> registry_error option \<times> registry" where
  "registry_reserve_path path r =
     (if path = '''' then (None, r)
      else if map_of (agents_by_path r) path \<noteq> None then (Some (PathExists path), r)
      else (None, r\<lparr>agents_by_path := AList.update path
             \<lparr>md_thread = '''', md_path = path, md_nickname = '''', md_role = '''', md_last_task = ''''\<rparr>
             (agents_by_path r)\<rparr>))"

definition release_reserved_path :: "bytes \<Rightarrow> registry \<Rightarrow> registry" where
  "release_reserved_path path r =
     (if path = '''' then r
      else (case map_of (agents_by_path r) path of
          None \<Rightarrow> r
        | Some m \<Rightarrow> if md_thread m = ''''
                    then r\<lparr>agents_by_path := AList.delete path (agents_by_path r)\<rparr> else r))"

definition reserve_nickname ::
  "bytes list \<Rightarrow> bytes \<Rightarrow> reservation \<Rightarrow> registry \<Rightarrow> (registry_error + bytes) \<times> reservation \<times> registry" where
  "reserve_nickname names preferred s r =
     (if \<not> res_active s then (Inl InactiveReservation, s, r)
      else (case registry_reserve_nickname names preferred r of
          (None, r1) \<Rightarrow> (Inl NoNicknames, s, r1)
        | (Some nickname, r1) \<Rightarrow> (Inr nickname, s\<lparr>res_nickname := nickname\<rparr>, r1)))"

definition reserve_path ::
  "bytes \<Rightarrow> reservation \<Rightarrow> registry \<Rightarrow> registry_error option \<times> reservation \<times> registry" where
  "reserve_path path s r =
     (if \<not> res_active s then (Some InactiveReservation, s, r)
      else (case registry_reserve_path path r of
          (Some e, r1) \<Rightarrow> (Some e, s, r1)
        | (None, r1) \<Rightarrow> (None, s\<lparr>res_path := path\<rparr>, r1)))"

definition committed_metadata :: "metadata \<Rightarrow> reservation \<Rightarrow> metadata" where
  "committed_metadata m s =
     m\<lparr>md_nickname := (if md_nickname m = '''' then res_nickname s else md_nickname m),
       md_path := (if md_path m = '''' then res_path s else md_path m)\<rparr>"

definition commit :: "metadata \<Rightarrow> reservation \<Rightarrow> registry \<Rightarrow> reservation \<times> registry" where
  "commit m s r =
     (if \<not> res_active s then (s, r)
      else (s\<lparr>res_active := False, res_path := '''', res_nickname := ''''\<rparr>,
            register_spawned_thread (committed_metadata m s) r))"

definition cancel :: "reservation \<Rightarrow> registry \<Rightarrow> reservation \<times> registry" where
  "cancel s r =
     (if \<not> res_active s then (s, r)
      else
        let r1 = (if res_nickname s \<noteq> ''''
                  then r\<lparr>used_nicknames := (used_nicknames r)(res_nickname s := False)\<rparr> else r);
            r2 = (if res_path s \<noteq> '''' then release_reserved_path (res_path s) r1 else r1);
            r3 = (if res_counted s then decrement_spawned r2 else r2)
        in (s\<lparr>res_active := False\<rparr>, r3))"

section \<open>Depth\<close>

text \<open>\<open>strings.Index\<close>, and \<open>fmt.Sscanf(s, "%d", ...)\<close> as a parameter.\<close>

fun index_of :: "bytes \<Rightarrow> bytes \<Rightarrow> nat \<Rightarrow> nat option" where
  "index_of [] p i = (if p = [] then Some i else None)"
| "index_of (c # s) p i = (if has_prefix (c # s) p then Some i else index_of s p (Suc i))"

definition session_depth :: "(bytes \<Rightarrow> int option) \<Rightarrow> bytes \<Rightarrow> int" where
  "session_depth scan_int source =
     (case index_of source ''depth='' 0 of
        None \<Rightarrow> 0
      | Some i \<Rightarrow> (case scan_int (drop (i + 6) source) of None \<Rightarrow> 0 | Some d \<Rightarrow> d))"

definition next_thread_spawn_depth :: "(bytes \<Rightarrow> int option) \<Rightarrow> bytes \<Rightarrow> int" where
  "next_thread_spawn_depth scan_int source = session_depth scan_int source + 1"

definition exceeds_thread_spawn_depth_limit :: "int \<Rightarrow> int \<Rightarrow> bool" where
  "exceeds_thread_spawn_depth_limit depth max_depth \<longleftrightarrow> max_depth < depth"

section \<open>The invariant of the maps\<close>

text \<open>A thread's path holds that thread's metadata, and every entry knows its own path.\<close>

definition registry_inv :: "registry \<Rightarrow> bool" where
  "registry_inv r \<longleftrightarrow> go_map (agents_by_path r) \<and>
     (\<forall>p m. map_of (agents_by_path r) p = Some m \<longrightarrow> md_path m = p) \<and>
     (\<forall>t p. path_by_thread r t = Some p \<longrightarrow>
        t \<noteq> '''' \<and> (\<exists>m. map_of (agents_by_path r) p = Some m \<and> md_thread m = t))"

lemma registry_inv_new: "registry_inv new_registry"
  by (simp add: registry_inv_def new_registry_def)

lemma registry_inv_cong:
  "agents_by_path r' = agents_by_path r \<Longrightarrow> path_by_thread r' = path_by_thread r \<Longrightarrow>
   registry_inv r' = registry_inv r"
  by (simp add: registry_inv_def)

lemma registry_invD:
  assumes "registry_inv r"
  shows "go_map (agents_by_path r)"
    and "map_of (agents_by_path r) p = Some m \<Longrightarrow> md_path m = p"
    and "path_by_thread r t = Some p \<Longrightarrow> t \<noteq> '''' \<and> (\<exists>m. map_of (agents_by_path r) p = Some m \<and> md_thread m = t)"
  using assms by (auto simp: registry_inv_def)

lemma decrement_maps [simp]:
  "agents_by_path (decrement_spawned r) = agents_by_path r"
  "path_by_thread (decrement_spawned r) = path_by_thread r"
  by (simp_all add: decrement_spawned_def)

lemma register_root_inv: "registry_inv r \<Longrightarrow> registry_inv (register_root_thread t r)"
  by (fastforce simp: register_root_thread_def registry_inv_def Let_def split: option.splits)

lemma release_maps:
  assumes "path_by_thread r t = Some p" and "map_of (agents_by_path r) p = Some m" and "md_thread m = t"
  shows "agents_by_path (release_spawned_thread t r) = AList.delete p (agents_by_path r)"
    and "path_by_thread (release_spawned_thread t r) = (path_by_thread r)(t := None)"
    and "total_count (release_spawned_thread t r) =
      (if p \<noteq> agent_path_root then total_count (decrement_spawned r) else total_count r)"
  using assms by (simp_all add: release_spawned_thread_def Let_def decrement_spawned_def)

lemma release_inv:
  assumes "registry_inv r" shows "registry_inv (release_spawned_thread t r)"
proof (cases "path_by_thread r t")
  case None
  with assms show ?thesis by (simp add: release_spawned_thread_def)
next
  case (Some p)
  from registry_invD(3) [OF assms Some] obtain m where m: "map_of (agents_by_path r) p = Some m" "md_thread m = t"
    by blast
  note maps = release_maps [OF Some m]
  have "u \<noteq> '''' \<and> (\<exists>a. map_of (AList.delete p (agents_by_path r)) q = Some a \<and> md_thread a = u)"
    if "((path_by_thread r)(t := None)) u = Some q" for u q
  proof -
    from that have u: "u \<noteq> t" "path_by_thread r u = Some q" by (auto split: if_splits)
    from registry_invD(3) [OF assms u(2)] m u(1) show ?thesis by (cases "q = p") auto
  qed
  with registry_invD(1,2) [OF assms] show ?thesis
    unfolding registry_inv_def maps by (auto split: if_splits)
qed

text \<open>\<open>RegisterSpawnedThread\<close> as one update of each map.\<close>

definition spawned_paths :: "metadata \<Rightarrow> registry \<Rightarrow> (bytes \<times> metadata) list" where
  "spawned_paths m r = (case path_by_thread r (md_thread m) of
     None \<Rightarrow> agents_by_path r
   | Some previous \<Rightarrow> if previous \<noteq> spawn_key m then AList.delete previous (agents_by_path r) else agents_by_path r)"

definition spawned_threads :: "metadata \<Rightarrow> registry \<Rightarrow> bytes \<Rightarrow> bytes option" where
  "spawned_threads m r = (case map_of (spawned_paths m r) (spawn_key m) of
     None \<Rightarrow> path_by_thread r
   | Some previous \<Rightarrow>
       if md_thread previous \<noteq> '''' \<and> md_thread previous \<noteq> md_thread m
       then (path_by_thread r)(md_thread previous := None) else path_by_thread r)"

lemma register_spawned_maps:
  assumes "md_thread m \<noteq> ''''"
  shows "agents_by_path (register_spawned_thread m r) =
      AList.update (spawn_key m) (m\<lparr>md_path := spawn_key m\<rparr>) (spawned_paths m r)"
    and "path_by_thread (register_spawned_thread m r) = (spawned_threads m r)(md_thread m \<mapsto> spawn_key m)"
    and "total_count (register_spawned_thread m r) = total_count r"
  using assms
  by (auto simp: register_spawned_thread_def spawned_paths_def spawned_threads_def Let_def
      split: option.splits if_splits)

lemma register_spawned_inv:
  assumes inv: "registry_inv r" shows "registry_inv (register_spawned_thread m r)"
proof (cases "md_thread m = ''''")
  case True
  with inv show ?thesis by (simp add: register_spawned_thread_def)
next
  case False
  let ?k = "spawn_key m" and ?t = "md_thread m"
  note maps = register_spawned_maps [OF False, of r]
  have "go_map (spawned_paths m r)"
    using registry_invD(1) [OF inv] by (simp add: spawned_paths_def split: option.split)
  moreover have "md_path a = p" if "map_of (agents_by_path (register_spawned_thread m r)) p = Some a" for p a
    using that registry_invD(2) [OF inv] by (auto simp: maps spawned_paths_def split: option.splits if_splits)
  moreover have "t \<noteq> '''' \<and> (\<exists>a. map_of (agents_by_path (register_spawned_thread m r)) p = Some a \<and> md_thread a = t)"
    if "path_by_thread (register_spawned_thread m r) t = Some p" for t p
  proof (cases "t = ?t")
    case True
    with that False show ?thesis by (auto simp: maps)
  next
    case other: False
    with that have old: "path_by_thread r t = Some p" and keep: "spawned_threads m r t = Some p"
      by (auto simp: maps spawned_threads_def split: option.splits if_splits)
    from registry_invD(3) [OF inv old] obtain a where a: "t \<noteq> ''''" "map_of (agents_by_path r) p = Some a" "md_thread a = t"
      by blast
    have sp: "map_of (spawned_paths m r) p = Some a"
    proof (cases "path_by_thread r ?t")
      case (Some previous)
      from registry_invD(3) [OF inv Some] a other have "previous \<noteq> p" by auto
      with a show ?thesis by (simp add: spawned_paths_def Some)
    qed (simp add: spawned_paths_def a)
    have "p \<noteq> ?k"
    proof
      assume "p = ?k"
      with sp a other have "spawned_threads m r t = None" by (simp add: spawned_threads_def)
      with keep show False by simp
    qed
    with sp a show ?thesis by (simp add: maps)
  qed
  ultimately show ?thesis by (auto simp: registry_inv_def maps)
qed

lemma update_task_inv: "registry_inv r \<Longrightarrow> registry_inv (update_last_task_message t msg r)"
  by (fastforce simp: update_last_task_message_def registry_inv_def split: option.splits)

lemma reserve_path_inv: "registry_inv r \<Longrightarrow> registry_inv (snd (registry_reserve_path p r))"
  by (fastforce simp: registry_reserve_path_def registry_inv_def)

lemma release_path_inv: "registry_inv r \<Longrightarrow> registry_inv (release_reserved_path p r)"
  by (fastforce simp: release_reserved_path_def registry_inv_def split: option.splits)

lemma reserve_nickname_maps:
  "agents_by_path (snd (registry_reserve_nickname names pref r)) = agents_by_path r"
  "path_by_thread (snd (registry_reserve_nickname names pref r)) = path_by_thread r"
  "total_count (snd (registry_reserve_nickname names pref r)) = total_count r"
  by (simp_all add: registry_reserve_nickname_def Let_def split: prod.split)

lemma cancel_inv: "registry_inv r \<Longrightarrow> registry_inv (snd (cancel s r))"
proof -
  assume inv: "registry_inv r"
  define r1 where "r1 = (if res_nickname s \<noteq> '''' then r\<lparr>used_nicknames := (used_nicknames r)(res_nickname s := False)\<rparr> else r)"
  have r1: "registry_inv r1" using inv by (simp add: r1_def registry_inv_def)
  define r2 where "r2 = (if res_path s \<noteq> '''' then release_reserved_path (res_path s) r1 else r1)"
  have r2: "registry_inv r2" using r1 release_path_inv by (simp add: r2_def)
  then have "registry_inv (decrement_spawned r2)" by (simp add: registry_inv_def)
  with r2 inv show ?thesis by (simp add: cancel_def Let_def r1_def [symmetric] r2_def [symmetric])
qed

section \<open>Slots are accounted for\<close>

definition is_live :: "bytes \<Rightarrow> metadata \<Rightarrow> bool" where
  "is_live p a \<longleftrightarrow> md_thread a \<noteq> '''' \<and> p \<noteq> agent_path_root"

definition live_entries :: "(bytes \<times> metadata) list \<Rightarrow> (bytes \<times> metadata) list" where
  "live_entries m = filter (\<lambda>(p, a). is_live p a) m"

definition live_at :: "(bytes \<times> metadata) list \<Rightarrow> bytes \<Rightarrow> nat" where
  "live_at m k = (case map_of m k of None \<Rightarrow> 0 | Some a \<Rightarrow> if is_live k a then 1 else 0)"

definition active_reservations :: "reservation list \<Rightarrow> nat" where
  "active_reservations ss = length (filter res_active ss)"

lemma live_update:
  "length (live_entries (AList.update k v m)) + live_at m k =
   length (live_entries m) + (if is_live k v then 1 else 0)"
  by (induction m) (auto simp: live_entries_def live_at_def)

lemma live_delete:
  "go_map m \<Longrightarrow> length (live_entries (AList.delete k m)) + live_at m k = length (live_entries m)"
proof (induction m)
  case (Cons x m)
  obtain p a where x: "x = (p, a)" by fastforce
  show ?case
  proof (cases "p = k")
    case True
    with Cons.prems x have "map_of m k = None" by (auto simp: map_of_eq_None_iff)
    then have "AList.delete k m = m" by (simp add: delete_idem map_of_eq_None_iff)
    with True x show ?thesis by (simp add: live_entries_def live_at_def)
  next
    case False
    with Cons x show ?thesis by (auto simp: live_entries_def live_at_def)
  qed
qed (simp add: live_entries_def live_at_def)

lemma active_update:
  "i < length ss \<Longrightarrow> active_reservations (ss[i := s]) + (if res_active (ss ! i) then 1 else 0) =
   active_reservations ss + (if res_active s then 1 else 0)"
proof (induction ss arbitrary: i)
  case (Cons x xs)
  then show ?case by (cases i) (auto simp: active_reservations_def)
qed simp

text \<open>When a commit is the protocol's: a new thread, at a path no other thread holds.\<close>

definition commit_allowed :: "metadata \<Rightarrow> reservation \<Rightarrow> registry \<Rightarrow> bool" where
  "commit_allowed m s r \<longleftrightarrow> md_thread m \<noteq> '''' \<and> path_by_thread r (md_thread m) = None \<and>
     spawn_key (committed_metadata m s) \<noteq> agent_path_root \<and>
     live_at (agents_by_path r) (spawn_key (committed_metadata m s)) = 0"

inductive spawn_step ::
  "int \<Rightarrow> registry \<times> reservation list \<Rightarrow> registry \<times> reservation list \<Rightarrow> bool" for limit where
  Reserve: "reserve_spawn_slot limit r = (res, r') \<Longrightarrow>
     spawn_step limit (r, ss) (r', case res of Inl _ \<Rightarrow> ss | Inr s \<Rightarrow> ss @ [s])"
| ReservePath: "i < length ss \<Longrightarrow> reserve_path p (ss ! i) r = (e, s', r') \<Longrightarrow>
     spawn_step limit (r, ss) (r', ss[i := s'])"
| ReserveNickname: "i < length ss \<Longrightarrow> reserve_nickname names pref (ss ! i) r = (e, s', r') \<Longrightarrow>
     spawn_step limit (r, ss) (r', ss[i := s'])"
| Commit: "i < length ss \<Longrightarrow> commit_allowed m (ss ! i) r \<Longrightarrow> commit m (ss ! i) r = (s', r') \<Longrightarrow>
     spawn_step limit (r, ss) (r', ss[i := s'])"
| Cancel: "i < length ss \<Longrightarrow> cancel (ss ! i) r = (s', r') \<Longrightarrow> spawn_step limit (r, ss) (r', ss[i := s'])"
| Release: "spawn_step limit (r, ss) (release_spawned_thread t r, ss)"
| RegisterRoot: "path_by_thread r t = None \<Longrightarrow> spawn_step limit (r, ss) (register_root_thread t r, ss)"
| UpdateTask: "spawn_step limit (r, ss) (update_last_task_message t msg r, ss)"

definition slots_ok :: "int \<Rightarrow> registry \<times> reservation list \<Rightarrow> bool" where
  "slots_ok limit rs \<longleftrightarrow> (case rs of (r, ss) \<Rightarrow> registry_inv r \<and>
     list_all (\<lambda>s. res_counted s) ss \<and>
     unat (total_count r) = active_reservations ss + length (live_entries (agents_by_path r)) \<and>
     unat (total_count r) \<le> nat limit)"

lemma decrement_unat: "0 < unat (total_count r) \<Longrightarrow> unat (total_count (decrement_spawned r)) = unat (total_count r) - 1"
  by (auto simp: decrement_spawned_def unat_minus_one)

lemma unat_increment:
  fixes x y :: "'a::len word"
  assumes "x < y" shows "unat (x + 1) = unat x + 1"
proof -
  have "unat x < unat y" using assms by (simp add: word_less_nat_alt)
  moreover have "unat y < 2 ^ LENGTH('a)" by (rule unsigned_less)
  ultimately have "unat x + 1 < 2 ^ LENGTH('a)" by linarith
  then show ?thesis by (simp add: unat_word_ariths)
qed

lemma slots_reserve:
  assumes ok: "slots_ok limit (r, ss)" and lim: "0 < limit" "limit < 2 ^ 64"
    and step: "reserve_spawn_slot limit r = (res, r')"
  shows "slots_ok limit (r', case res of Inl _ \<Rightarrow> ss | Inr s \<Rightarrow> ss @ [s])"
proof (cases "word_of_int limit \<le> total_count r")
  case True
  with step lim have "r' = r" "\<exists>e. res = Inl e" by (auto simp: reserve_spawn_slot_def try_increment_spawned_def)
  with ok show ?thesis by auto
next
  case False
  then have lt: "total_count r < word_of_int limit" by simp
  have lu: "unat (word_of_int limit :: 64 word) = nat limit"
    using lim by (simp add: unat_eq_nat_uint uint_word_of_int)
  have less: "unat (total_count r) < unat (word_of_int limit :: 64 word)" using lt by (simp add: word_less_nat_alt)
  have inc: "unat (total_count r + 1) = unat (total_count r) + 1" by (rule unat_increment [OF lt])
  from False step lim have r': "r' = r\<lparr>total_count := total_count r + 1\<rparr>"
    and res: "res = Inr \<lparr>res_active = True, res_nickname = '''', res_path = '''', res_counted = True\<rparr>"
    by (auto simp: reserve_spawn_slot_def try_increment_spawned_def)
  from ok less lu inc show ?thesis
    by (auto simp: slots_ok_def r' res registry_inv_def active_reservations_def)
qed

lemma active_pos: "i < length ss \<Longrightarrow> res_active (ss ! i) \<Longrightarrow> 0 < active_reservations ss"
  by (auto simp: active_reservations_def filter_empty_conv)

lemma list_all_update: "list_all P ss \<Longrightarrow> P s \<Longrightarrow> list_all P (ss[i := s])"
  by (auto simp: list_all_iff dest: set_update_subset_insert [THEN subsetD])

lemma slots_commit:
  assumes ok: "slots_ok limit (r, ss)" and i: "i < length ss" and allowed: "commit_allowed m (ss ! i) r"
    and step: "commit m (ss ! i) r = (s', r')"
  shows "slots_ok limit (r', ss[i := s'])"
proof (cases "res_active (ss ! i)")
  case False
  with step have "s' = ss ! i" "r' = r" by (simp_all add: commit_def)
  with ok show ?thesis by (simp only: list_update_id)
next
  case True
  define m' where "m' = committed_metadata m (ss ! i)"
  have thread: "md_thread m' = md_thread m" by (simp add: m'_def committed_metadata_def)
  from step True have r': "r' = register_spawned_thread m' r"
    and s': "\<not> res_active s'" "res_counted s' = res_counted (ss ! i)"
    by (auto simp: commit_def m'_def)
  have ne: "md_thread m' \<noteq> ''''" using allowed thread by (simp add: commit_allowed_def)
  note maps = register_spawned_maps [OF ne, of r]
  have "spawned_paths m' r = agents_by_path r"
    using allowed thread by (simp add: spawned_paths_def commit_allowed_def)
  then have live: "length (live_entries (agents_by_path r')) = length (live_entries (agents_by_path r)) + 1"
    using live_update [of "spawn_key m'" "m'\<lparr>md_path := spawn_key m'\<rparr>" "agents_by_path r"] allowed ne
    by (simp add: r' maps is_live_def commit_allowed_def m'_def [symmetric])
  have act: "active_reservations (ss[i := s']) + 1 = active_reservations ss"
    using active_update [OF i, of s'] True s' by simp
  have "list_all (\<lambda>s. res_counted s) (ss[i := s'])"
    using ok i s' by (intro list_all_update) (auto simp: slots_ok_def list_all_iff)
  with ok live act register_spawned_inv [of r m'] show ?thesis
    by (simp add: slots_ok_def r' maps)
qed

lemma release_reserved_live:
  assumes "registry_inv r"
  shows "length (live_entries (agents_by_path (release_reserved_path p r))) = length (live_entries (agents_by_path r))"
    and "total_count (release_reserved_path p r) = total_count r"
  using live_delete [OF registry_invD(1) [OF assms], of p]
  by (auto simp: release_reserved_path_def live_at_def is_live_def split: option.split)

lemma slots_cancel:
  assumes ok: "slots_ok limit (r, ss)" and i: "i < length ss" and step: "cancel (ss ! i) r = (s', r')"
  shows "slots_ok limit (r', ss[i := s'])"
proof (cases "res_active (ss ! i)")
  case False
  with step have "s' = ss ! i" "r' = r" by (simp_all add: cancel_def)
  with ok show ?thesis by (simp only: list_update_id)
next
  case True
  let ?s = "ss ! i"
  have counted: "res_counted ?s" using ok i by (simp add: slots_ok_def list_all_iff)
  define r1 where "r1 = (if res_nickname ?s \<noteq> '''' then r\<lparr>used_nicknames := (used_nicknames r)(res_nickname ?s := False)\<rparr> else r)"
  define r2 where "r2 = (if res_path ?s \<noteq> '''' then release_reserved_path (res_path ?s) r1 else r1)"
  have inv1: "registry_inv r1" and same1: "agents_by_path r1 = agents_by_path r" "total_count r1 = total_count r"
    using ok by (simp_all add: r1_def slots_ok_def registry_inv_def)
  have live: "length (live_entries (agents_by_path r2)) = length (live_entries (agents_by_path r))"
    and tot: "total_count r2 = total_count r"
    using release_reserved_live [OF inv1, of "res_path ?s"] same1 by (simp_all add: r2_def)
  from step True counted have s': "s' = ?s\<lparr>res_active := False\<rparr>" and r': "r' = decrement_spawned r2"
    by (simp_all add: cancel_def Let_def r1_def [symmetric] r2_def [symmetric])
  have act: "active_reservations (ss[i := s']) + 1 = active_reservations ss"
    using active_update [OF i, of s'] True s' by simp
  have pos: "0 < unat (total_count r2)" using ok active_pos [OF i True] tot by (simp add: slots_ok_def)
  have "list_all (\<lambda>s. res_counted s) (ss[i := s'])"
    using ok counted s' by (intro list_all_update) (auto simp: slots_ok_def)
  with ok live tot decrement_unat [OF pos] cancel_inv [of r ?s] step show ?thesis
    by (simp add: slots_ok_def r' act [symmetric])
qed

lemma slots_release:
  assumes ok: "slots_ok limit (r, ss)" shows "slots_ok limit (release_spawned_thread t r, ss)"
proof (cases "path_by_thread r t")
  case None
  with ok show ?thesis by (simp add: release_spawned_thread_def)
next
  case (Some p)
  have inv: "registry_inv r" using ok by (simp add: slots_ok_def)
  from registry_invD(3) [OF inv Some] obtain a where a: "t \<noteq> ''''" "map_of (agents_by_path r) p = Some a" "md_thread a = t"
    by blast
  note maps = release_maps [OF Some a(2,3)]
  have live: "length (live_entries (AList.delete p (agents_by_path r))) + live_at (agents_by_path r) p =
      length (live_entries (agents_by_path r))" by (rule live_delete [OF registry_invD(1) [OF inv]])
  have at: "live_at (agents_by_path r) p = (if p \<noteq> agent_path_root then 1 else 0)"
    using a by (simp add: live_at_def is_live_def)
  show ?thesis
  proof (cases "p = agent_path_root")
    case True
    with ok live at release_inv [OF inv, of t] show ?thesis by (simp add: slots_ok_def maps)
  next
    case False
    with at have "live_at (agents_by_path r) p = 1" by simp
    with live have "0 < length (live_entries (agents_by_path r))" by linarith
    with ok have "0 < unat (total_count r)" by (simp add: slots_ok_def)
    have less: "length (live_entries (agents_by_path r)) = Suc (length (live_entries (AList.delete p (agents_by_path r))))"
      using live \<open>live_at (agents_by_path r) p = 1\<close> by simp
    with False ok release_inv [OF inv, of t] decrement_unat [of r] show ?thesis
      by (simp add: slots_ok_def maps)
  qed
qed

lemma slots_root:
  assumes ok: "slots_ok limit (r, ss)" shows "slots_ok limit (register_root_thread t r, ss)"
proof -
  have "length (live_entries (agents_by_path (register_root_thread t r))) = length (live_entries (agents_by_path r))"
    using live_update [of agent_path_root _ "agents_by_path r"]
    by (auto simp: register_root_thread_def Let_def is_live_def live_at_def split: option.splits)
  moreover have "total_count (register_root_thread t r) = total_count r"
    by (simp add: register_root_thread_def Let_def split: option.split)
  ultimately show ?thesis using ok register_root_inv [of r t] by (simp add: slots_ok_def)
qed

lemma slots_task:
  assumes ok: "slots_ok limit (r, ss)" shows "slots_ok limit (update_last_task_message t msg r, ss)"
proof -
  have "length (live_entries (AList.update p (a\<lparr>md_last_task := msg\<rparr>) (agents_by_path r))) =
      length (live_entries (agents_by_path r))" if "map_of (agents_by_path r) p = Some a" for p a
    using live_update [of p "a\<lparr>md_last_task := msg\<rparr>" "agents_by_path r"] that
    by (simp add: live_at_def is_live_def)
  then have "length (live_entries (agents_by_path (update_last_task_message t msg r))) =
      length (live_entries (agents_by_path r))"
    by (simp add: update_last_task_message_def split: option.split)
  moreover have "total_count (update_last_task_message t msg r) = total_count r"
    by (simp add: update_last_task_message_def split: option.split)
  ultimately show ?thesis using ok update_task_inv [of r t msg] by (simp add: slots_ok_def)
qed

lemma slots_same:
  assumes ok: "slots_ok limit (r, ss)" and "registry_inv r'"
    and "length (live_entries (agents_by_path r')) = length (live_entries (agents_by_path r))"
    and "total_count r' = total_count r" and i: "i < length ss"
    and "res_active s' = res_active (ss ! i)" and "res_counted s' = res_counted (ss ! i)"
  shows "slots_ok limit (r', ss[i := s'])"
proof -
  have "list_all (\<lambda>s. res_counted s) (ss[i := s'])"
    using ok i assms(7) by (intro list_all_update) (auto simp: slots_ok_def list_all_iff)
  with assms active_update [OF i, of s'] show ?thesis by (simp add: slots_ok_def)
qed

lemma slots_path:
  assumes ok: "slots_ok limit (r, ss)" and i: "i < length ss" and step: "reserve_path p (ss ! i) r = (e, s', r')"
  shows "slots_ok limit (r', ss[i := s'])"
proof -
  have inv: "registry_inv r" using ok by (simp add: slots_ok_def)
  have live: "length (live_entries (agents_by_path (snd (registry_reserve_path p r)))) =
      length (live_entries (agents_by_path r))"
    using live_update [of p _ "agents_by_path r"]
    by (auto simp: registry_reserve_path_def is_live_def live_at_def)
  have tot: "total_count (snd (registry_reserve_path p r)) = total_count r"
    by (simp add: registry_reserve_path_def)
  show ?thesis
    using step reserve_path_inv [OF inv, of p] live tot inv
    by (intro slots_same [OF ok _ _ _ i]) (auto simp: reserve_path_def split: if_splits prod.splits option.splits)
qed

lemma slots_nickname:
  assumes ok: "slots_ok limit (r, ss)" and i: "i < length ss"
    and step: "reserve_nickname names pref (ss ! i) r = (e, s', r')"
  shows "slots_ok limit (r', ss[i := s'])"
proof -
  have inv: "registry_inv r" using ok by (simp add: slots_ok_def)
  let ?r = "snd (registry_reserve_nickname names pref r)"
  have "registry_inv ?r" using inv by (simp add: registry_inv_def reserve_nickname_maps)
  then show ?thesis
    using step reserve_nickname_maps [of names pref r] inv
    by (intro slots_same [OF ok _ _ _ i]) (auto simp: reserve_nickname_def split: if_splits prod.splits option.splits)
qed

lemma slots_step:
  assumes "spawn_step limit a b" and "slots_ok limit a" and "0 < limit" "limit < 2 ^ 64"
  shows "slots_ok limit b"
  using assms
proof (cases rule: spawn_step.cases)
  case (Reserve r res r' ss)
  with assms show ?thesis by (simp add: slots_reserve)
qed (use assms in \<open>auto intro: slots_commit slots_cancel slots_release slots_root slots_task slots_path slots_nickname\<close>)

lemma slots_new: "0 \<le> limit \<Longrightarrow> slots_ok limit (new_registry, [])"
  using registry_inv_new by (simp add: slots_ok_def) (simp add: new_registry_def active_reservations_def live_entries_def)

lemma slots_reachable:
  assumes "(spawn_step limit)\<^sup>*\<^sup>* a b" and "slots_ok limit a" and "0 < limit" "limit < 2 ^ 64"
  shows "slots_ok limit b"
  using assms by (induction rule: rtranclp_induct) (auto intro: slots_step)


definition example_run :: "registry \<times> reservation list" where
  "example_run =
     (let (res, r1) = reserve_spawn_slot 2 new_registry;
          s = (case res of Inl _ \<Rightarrow> \<lparr>res_active = False, res_nickname = '''', res_path = '''', res_counted = True\<rparr> | Inr s \<Rightarrow> s);
          (e, s1, r2) = reserve_path ''/root/a'' s r1;
          (s2, r3) = commit \<lparr>md_thread = ''t1'', md_path = '''', md_nickname = '''', md_role = '''', md_last_task = ''''\<rparr> s1 r2
      in (r3, [s2]))"


section \<open>Lookups and nicknames\<close>

text \<open>Registering a spawned thread makes it the one agent at its path: the thread finds its
  metadata there, the path finds the thread, and a thread it displaced finds nothing; a thread without
  an id changes nothing.\<close>

theorem register_then_lookup:
  "if md_thread m = '''' then register_spawned_thread m r = r
   else metadata_for_thread (md_thread m) (register_spawned_thread m r) = Some (m\<lparr>md_path := spawn_key m\<rparr>) \<and>
     agent_id_for_path (spawn_key m) (register_spawned_thread m r) = (md_thread m, True) \<and>
     (case map_of (spawned_paths m r) (spawn_key m) of
        None \<Rightarrow> True
      | Some old \<Rightarrow> if md_thread old = '''' \<or> md_thread old = md_thread m then True
          else metadata_for_thread (md_thread old) (register_spawned_thread m r) = None)"
proof (cases "md_thread m = ''''")
  case True
  then show ?thesis by (simp add: register_spawned_thread_def)
next
  case False
  note maps = register_spawned_maps [OF False, of r]
  show ?thesis
    using False by (auto simp: metadata_for_thread_def agent_id_for_path_def maps spawned_threads_def
        split: option.splits)
qed

lemma choose_in: "values \<noteq> [] \<Longrightarrow> fst (choose_round_robin values n) \<in> set values"
  by (simp add: choose_round_robin_def)

text \<open>Without a preference an agent gets a name of its role's list that no agent uses; only when all
  of them are in use the pool starts over, and the next round's names carry the next ordinal.\<close>

theorem nickname_choice:
  "case registry_reserve_nickname names '''' r of
     (None, r') \<Rightarrow> names = [] \<and> r' = r
   | (Some n, r') \<Rightarrow> n \<in> set (map (\<lambda>x. format_agent_nickname x (nickname_reset_count r')) names) \<and>
       used_nicknames r' n \<and>
       (if nickname_reset_count r' = nickname_reset_count r then \<not> used_nicknames r n
        else nickname_reset_count r' = nickname_reset_count r + 1 \<and>
          list_all (used_nicknames r) (map (\<lambda>x. format_agent_nickname x (nickname_reset_count r)) names))"
proof (cases "names = []")
  case True
  then show ?thesis by (simp add: registry_reserve_nickname_def)
next
  case False
  define unused where "unused = filter (\<lambda>n. \<not> used_nicknames r n) (map (\<lambda>x. format_agent_nickname x (nickname_reset_count r)) names)"
  show ?thesis
  proof (cases "unused = []")
    case True
    define again where "again = map (\<lambda>x. format_agent_nickname x (nickname_reset_count r + 1)) names"
    have "again \<noteq> []" using False by (simp add: again_def)
    note member = choose_in [OF this, of "chooser_next r"]
    have none: "list_all (used_nicknames r) (map (\<lambda>x. format_agent_nickname x (nickname_reset_count r)) names)"
      using True by (simp add: unused_def filter_empty_conv list_all_iff)
    obtain n k where c: "choose_round_robin again (chooser_next r) = (n, k)" by fastforce
    have "registry_reserve_nickname names '''' r =
        (Some n, r\<lparr>nickname_reset_count := nickname_reset_count r + 1, chooser_next := k,
           used_nicknames := (\<lambda>_. False)(n := True)\<rparr>)"
      using False True c by (simp add: registry_reserve_nickname_def unused_def again_def)
    with member none c show ?thesis by (simp add: again_def)
  next
    case nonempty: False
    obtain n k where c: "choose_round_robin unused (chooser_next r) = (n, k)" by fastforce
    have "registry_reserve_nickname names '''' r =
        (Some n, r\<lparr>chooser_next := k, used_nicknames := (used_nicknames r)(n := True)\<rparr>)"
      using False nonempty c unfolding unused_def
      by (simp only: registry_reserve_nickname_def Let_def if_False if_True simp_thms prod.case)
    with choose_in [OF nonempty, of "chooser_next r"] c show ?thesis by (auto simp: unused_def)
  qed
qed

text \<open>The list of live agents is sorted by path and holds exactly the entries of the registry that
  have a thread and are not the root.\<close>

theorem live_agents_exact:
  "sorted (map md_path (live_agents r)) \<and>
   set (live_agents r) = {m. m \<in> snd ` set (agents_by_path r) \<and> md_thread m \<noteq> '''' \<and> md_path m \<noteq> agent_path_root} \<and>
   length (live_agents r) = length (filter (\<lambda>(p, m). md_thread m \<noteq> '''' \<and> md_path m \<noteq> agent_path_root) (agents_by_path r))"
proof -
  have "length (filter (\<lambda>m. \<not> (md_thread m = '''' \<or> md_path m = agent_path_root)) (map snd xs)) =
      length (filter (\<lambda>(p, m). md_thread m \<noteq> '''' \<and> md_path m \<noteq> agent_path_root) xs)" for xs
    by (induction xs) auto
  then show ?thesis by (auto simp: live_agents_def)
qed

end
