(* ===== verification/Go_Base64.thy ===== *)
theory Go_Base64
  imports Go_Strings
begin

text \<open>
  The base64 encodings of Go's standard library the program uses: \<open>encoding/base64\<close> with an
  alphabet of 64 characters, padded (\<open>StdEncoding\<close>) or raw (\<open>RawURLEncoding\<close>).  Decoding skips
  line breaks and ignores the unused low bits of a short last group, as the library does.
\<close>

definition std_alphabet :: bytes where
  "std_alphabet = ''ABCDEFGHIJKLMNOPQRSTUVWXYZabcdefghijklmnopqrstuvwxyz0123456789+/''"

definition url_alphabet :: bytes where
  "url_alphabet = ''ABCDEFGHIJKLMNOPQRSTUVWXYZabcdefghijklmnopqrstuvwxyz0123456789-_''"

definition b64_pad :: "bool \<Rightarrow> nat \<Rightarrow> bytes" where
  "b64_pad padded n = (if padded then replicate n CHR ''='' else [])"

abbreviation byte_nat :: "char \<Rightarrow> nat" where "byte_nat c \<equiv> of_char c"

definition b64_group :: "nat \<Rightarrow> nat list" where
  "b64_group v = [v div 262144, v div 4096 mod 64, v div 64 mod 64, v mod 64]"

fun b64_encode :: "bytes \<Rightarrow> bool \<Rightarrow> bytes \<Rightarrow> bytes" where
  "b64_encode al p [] = []"
| "b64_encode al p [a] =
     map ((!) al) (take 2 (b64_group (byte_nat a * 65536))) @ b64_pad p 2"
| "b64_encode al p [a, b] =
     map ((!) al) (take 3 (b64_group (byte_nat a * 65536 + byte_nat b * 256))) @ b64_pad p 1"
| "b64_encode al p (a # b # c # s) =
     map ((!) al) (b64_group (byte_nat a * 65536 + byte_nat b * 256 + byte_nat c)) @ b64_encode al p s"

definition b64_index :: "bytes \<Rightarrow> char \<Rightarrow> nat option" where
  "b64_index al c = map_of (zip al [0 ..< 64]) c"

definition b64_bytes :: "nat \<Rightarrow> bytes" where
  "b64_bytes v = [char_of (v div 65536), char_of (v div 256 mod 256), char_of (v mod 256)]"

definition b64_quad :: "nat \<Rightarrow> nat \<Rightarrow> nat \<Rightarrow> nat \<Rightarrow> nat" where
  "b64_quad i j k l = i * 262144 + j * 4096 + k * 64 + l"

text \<open>The last group, of two or three digits.\<close>

definition b64_short :: "bytes \<Rightarrow> bytes \<Rightarrow> bytes option" where
  "b64_short al s = (case s of
     [a, b] \<Rightarrow> (case (b64_index al a, b64_index al b) of
        (Some i, Some j) \<Rightarrow> Some (take 1 (b64_bytes (b64_quad i j 0 0))) | _ \<Rightarrow> None)
   | [a, b, c] \<Rightarrow> (case (b64_index al a, b64_index al b, b64_index al c) of
        (Some i, Some j, Some k) \<Rightarrow> Some (take 2 (b64_bytes (b64_quad i j k 0))) | _ \<Rightarrow> None)
   | _ \<Rightarrow> None)"

fun b64_groups :: "bytes \<Rightarrow> bool \<Rightarrow> bytes \<Rightarrow> bytes option" where
  "b64_groups al p [] = Some []"
| "b64_groups al p (a # b # c # d # s) =
     (case (b64_index al a, b64_index al b, b64_index al c, b64_index al d) of
        (Some i, Some j, Some k, Some l) \<Rightarrow>
          map_option (\<lambda>r. b64_bytes (b64_quad i j k l) @ r) (b64_groups al p s)
      | _ \<Rightarrow>
          if p \<and> s = [] \<and> d = CHR ''='' then
            (if c = CHR ''='' then b64_short al [a, b] else b64_short al [a, b, c])
          else None)"
| "b64_groups al p s = (if p then None else b64_short al s)"

definition b64_decode :: "bytes \<Rightarrow> bool \<Rightarrow> bytes \<Rightarrow> bytes option" where
  "b64_decode al p s = b64_groups al p (filter (\<lambda>c. c \<noteq> CR \<and> c \<noteq> LF) s)"

section \<open>Round trip\<close>

definition alphabet_ok :: "bytes \<Rightarrow> bool" where
  "alphabet_ok al \<longleftrightarrow> length al = 64 \<and> distinct al \<and> CR \<notin> set al \<and> LF \<notin> set al \<and> CHR ''='' \<notin> set al"

lemma std_alphabet_ok: "alphabet_ok std_alphabet" by code_simp

lemma url_alphabet_ok: "alphabet_ok url_alphabet" by code_simp

lemma b64_index_nth: "alphabet_ok al \<Longrightarrow> i < 64 \<Longrightarrow> b64_index al (al ! i) = Some i"
  by (simp add: alphabet_ok_def b64_index_def map_of_zip_nth)

lemma b64_index_pad: "alphabet_ok al \<Longrightarrow> b64_index al (CHR ''='') = None"
  by (auto simp: alphabet_ok_def b64_index_def map_of_eq_None_iff dest: set_zip_leftD)

lemma b64_group_less: "v < 16777216 \<Longrightarrow> i \<in> set (b64_group v) \<Longrightarrow> i < 64"
  by (auto simp: b64_group_def less_mult_imp_div_less)

lemma b64_quad_group: "b64_quad (v div 262144) (v div 4096 mod 64) (v div 64 mod 64) (v mod 64) = v"
proof -
  have e: "v div 4096 = v div 64 div 64" "v div 262144 = v div 64 div 64 div 64"
    by (simp_all add: div_mult2_eq [symmetric])
  have "64 * (v div 64) + v mod 64 = v" "64 * (v div 64 div 64) + v div 64 mod 64 = v div 64"
    "64 * (v div 64 div 64 div 64) + v div 64 div 64 mod 64 = v div 64 div 64"
    by (rule mult_div_mod_eq)+
  then show ?thesis unfolding b64_quad_def e by linarith
qed

lemma byte_nat_less: "byte_nat c < 256"
  using nat_of_char_less_256 [of c] by simp

lemma b64_bytes_of:
  "x < 256 \<Longrightarrow> y < 256 \<Longrightarrow> z < 256 \<Longrightarrow>
   b64_bytes (x * 65536 + y * 256 + z) = [char_of x, char_of y, char_of z]"
proof -
  assume b: "x < 256" "y < 256" "z < (256::nat)"
  have "(x * 65536 + (y * 256 + z)) div 65536 = x"
    using b by (intro div_nat_eqI) simp_all
  moreover have "(z + (x * 256 + y) * 256) div 256 = x * 256 + y" "(z + (x * 256 + y) * 256) mod 256 = z"
    using b by (simp_all only: div_mult_self1 [OF zero_neq_numeral [symmetric]] mod_mult_self1 div_less mod_less add_0)
  moreover have "(y + x * 256) mod 256 = y" using b by (simp only: mod_mult_self1 mod_less)
  moreover have "x * 65536 + y * 256 + z = z + (x * 256 + y) * 256" "x * 256 + y = y + x * 256" by simp_all
  ultimately show ?thesis by (simp only: b64_bytes_def add.assoc)
qed

lemma b64_index_digits:
  assumes "alphabet_ok al" and "v < 16777216"
  shows "b64_index al (al ! (v div 262144)) = Some (v div 262144)"
    "b64_index al (al ! (v div 4096 mod 64)) = Some (v div 4096 mod 64)"
    "b64_index al (al ! (v div 64 mod 64)) = Some (v div 64 mod 64)"
    "b64_index al (al ! (v mod 64)) = Some (v mod 64)"
  using assms by (auto intro!: b64_index_nth simp: less_mult_imp_div_less)

lemma b64_value_less:
  "byte_nat a * 65536 + byte_nat b * 256 + byte_nat c < 16777216"
  "byte_nat a * 65536 + byte_nat b * 256 < 16777216" "byte_nat a * 65536 < 16777216"
  using byte_nat_less [of a] byte_nat_less [of b] byte_nat_less [of c] by linarith+

lemma b64_low_digits:
  "(x * 65536 + y * 256) mod 64 = (0::nat)" "(x * 65536) mod 64 = (0::nat)" "(x * 65536) div 64 mod 64 = (0::nat)"
proof -
  have "x * 65536 + y * 256 = (x * 1024 + y * 4) * 64" "x * 65536 = (x * 1024) * 64" "x * 1024 = (x * 16) * 64" by simp_all
  then show "(x * 65536 + y * 256) mod 64 = 0" "(x * 65536) mod 64 = 0" "(x * 65536) div 64 mod 64 = 0"
    by (metis mod_mult_self2_is_0, metis mod_mult_self2_is_0, metis mod_mult_self2_is_0 nonzero_mult_div_cancel_right zero_neq_numeral)
qed

lemma b64_bytes_chars:
  "b64_bytes (byte_nat a * 65536 + byte_nat b * 256 + byte_nat c) = [a, b, c]"
  "b64_bytes (byte_nat a * 65536 + byte_nat b * 256) = [a, b, char_of (0::nat)]"
  "b64_bytes (byte_nat a * 65536) = [a, char_of (0::nat), char_of (0::nat)]"
  using b64_bytes_of [OF byte_nat_less byte_nat_less byte_nat_less, of a b c]
    b64_bytes_of [OF byte_nat_less byte_nat_less, of 0 a b] b64_bytes_of [OF byte_nat_less, of 0 0 a]
  by simp_all

lemma b64_quad_two: "b64_quad (v div 262144) (v div 4096 mod 64) 0 0 = v"
  if "v mod 64 = 0" "v div 64 mod 64 = 0"
  using b64_quad_group [of v] that by simp

lemma b64_quad_three: "b64_quad (v div 262144) (v div 4096 mod 64) (v div 64 mod 64) 0 = v" if "v mod 64 = 0"
  using b64_quad_group [of v] that by simp

lemma b64_groups_encode: "alphabet_ok al \<Longrightarrow> b64_groups al p (b64_encode al p s) = Some s"
proof (induction al p s rule: b64_encode.induct)
  case (2 al p a)
  define v where "v = byte_nat a * 65536"
  have v: "v < 16777216" "v mod 64 = 0" "v div 64 mod 64 = 0" "b64_bytes v = [a, char_of (0::nat), char_of (0::nat)]"
    using b64_value_less(3) b64_low_digits(2,3) b64_bytes_chars(3) by (simp_all only: v_def)
  note idx = b64_index_digits [OF 2 v(1)] b64_index_pad [OF 2]
  show ?case unfolding b64_encode.simps v_def [symmetric]
    by (cases p) (simp_all add: b64_group_def b64_pad_def idx b64_short_def b64_quad_two [OF v(2,3)] v(4)
        numeral_2_eq_2)
next
  case (3 al p a b)
  define v where "v = byte_nat a * 65536 + byte_nat b * 256"
  have v: "v < 16777216" "v mod 64 = 0" "b64_bytes v = [a, b, char_of (0::nat)]"
    using b64_value_less(2) b64_low_digits(1) b64_bytes_chars(2) by (simp_all only: v_def)
  note idx = b64_index_digits [OF 3 v(1)] b64_index_pad [OF 3]
  have "al ! (v div 64 mod 64) \<noteq> CHR ''=''" using idx(3) idx(5) by auto
  then show ?case unfolding b64_encode.simps v_def [symmetric]
    by (cases p) (simp_all add: b64_group_def b64_pad_def idx b64_short_def b64_quad_three [OF v(2)] v(3)
        numeral_3_eq_3 numeral_2_eq_2)
next
  case (4 al p a b c s)
  define v where "v = byte_nat a * 65536 + byte_nat b * 256 + byte_nat c"
  have v: "v < 16777216" "b64_bytes v = [a, b, c]"
    using b64_value_less(1) b64_bytes_chars(1) by (simp_all only: v_def)
  from 4 show ?case unfolding b64_encode.simps v_def [symmetric]
    by (simp add: b64_group_def b64_index_digits [OF 4(2) v(1)] b64_quad_group v(2))
qed simp

lemma set_b64_digits:
  "alphabet_ok al \<Longrightarrow> v < 16777216 \<Longrightarrow> set (map ((!) al) (take k (b64_group v))) \<subseteq> set al"
  "alphabet_ok al \<Longrightarrow> v < 16777216 \<Longrightarrow> set (map ((!) al) (b64_group v)) \<subseteq> set al"
  by (auto simp: alphabet_ok_def dest!: in_set_takeD b64_group_less)

lemma set_b64_encode: "alphabet_ok al \<Longrightarrow> set (b64_encode al p s) \<subseteq> insert (CHR ''='') (set al)"
proof (induction al p s rule: b64_encode.induct)
  case (2 al p a)
  have "set (b64_pad p 2) \<subseteq> {CHR ''=''}" by (cases p) (simp_all add: b64_pad_def)
  with set_b64_digits(1) [OF 2 b64_value_less(3) [of a], of 2] show ?case
    unfolding b64_encode.simps set_append by blast
next
  case (3 al p a b)
  have "set (b64_pad p 1) \<subseteq> {CHR ''=''}" by (cases p) (simp_all add: b64_pad_def)
  with set_b64_digits(1) [OF 3 b64_value_less(2) [of a b], of 3] show ?case
    unfolding b64_encode.simps set_append by blast
next
  case (4 al p a b c s)
  then show ?case using set_b64_digits(2) [OF 4(2) b64_value_less(1) [of a b c]]
    unfolding b64_encode.simps set_append by blast
qed simp

lemma b64_decode_encode: "alphabet_ok al \<Longrightarrow> b64_decode al p (b64_encode al p s) = Some s"
proof -
  assume al: "alphabet_ok al"
  have "CR \<notin> insert (CHR ''='') (set al)" "LF \<notin> insert (CHR ''='') (set al)"
    using al by (simp_all add: alphabet_ok_def)
  then have "filter (\<lambda>c. c \<noteq> CR \<and> c \<noteq> LF) (b64_encode al p s) = b64_encode al p s"
    using set_b64_encode [OF al, of p s] by (intro filter_True ballI conjI) blast+
  then show ?thesis using b64_groups_encode [OF al] by (simp only: b64_decode_def)
qed

lemmas std_base64 = b64_decode_encode [OF std_alphabet_ok]
lemmas url_base64 = b64_decode_encode [OF url_alphabet_ok]

lemma b64_encode_empty_iff [simp]: "b64_encode al p s = [] \<longleftrightarrow> s = []"
  by (cases "(al, p, s)" rule: b64_encode.cases) (simp_all add: b64_group_def)

end
