(* ===== verification/Go_Json.thy ===== *)
theory Go_Json
  imports Go_Strings
begin

text \<open>
  What the program uses of Go's \<open>encoding/json\<close>: the validity test \<open>json.Valid\<close>, the quoting of
  strings and the compaction of a raw message in \<open>json.Marshal\<close>.  Validity is the byte-by-byte
  scanner of the library: a state, and the stack of the objects and arrays that are open.
\<close>

section \<open>The scanner\<close>

datatype json_container = InObjectKey | InObjectValue | InArray

text \<open>The literals \<open>true\<close>, \<open>false\<close> and \<open>null\<close> are one state with the bytes still to come.\<close>

datatype json_state =
    BeginValue | BeginValueOrEmpty | BeginString | BeginStringOrEmpty | EndValue | EndTop
  | InString | InStringEsc | InStringHex nat
  | NumNeg | NumInt | NumZero | NumDot | NumFrac | NumE | NumESign | NumExp
  | InLiteral bytes

definition json_space :: "char \<Rightarrow> bool" where
  "json_space c \<longleftrightarrow> c = CHR '' '' \<or> c = CHR 0x09 \<or> c = CR \<or> c = LF"

definition digit :: "char \<Rightarrow> bool" where
  "digit c \<longleftrightarrow> 48 \<le> (of_char c :: nat) \<and> (of_char c :: nat) \<le> 57"

definition hex_digit :: "char \<Rightarrow> bool" where
  "hex_digit c \<longleftrightarrow> digit c \<or> 97 \<le> (of_char c :: nat) \<and> (of_char c :: nat) \<le> 102
     \<or> 65 \<le> (of_char c :: nat) \<and> (of_char c :: nat) \<le> 70"

abbreviation max_nesting_depth :: nat where "max_nesting_depth \<equiv> 10000"

definition push_container :: "json_container \<Rightarrow> json_state \<Rightarrow> json_container list \<Rightarrow> (json_state \<times> json_container list) option" where
  "push_container k st stack =
     (if length stack < max_nesting_depth then Some (st, k # stack) else None)"

definition popped :: "json_container list \<Rightarrow> json_state \<times> json_container list" where
  "popped stack = (if stack = [] then (EndTop, []) else (EndValue, stack))"

definition begin_value :: "json_container list \<Rightarrow> char \<Rightarrow> (json_state \<times> json_container list) option" where
  "begin_value stack c =
     (if json_space c then Some (BeginValue, stack)
      else if c = CHR ''{'' then push_container InObjectKey BeginStringOrEmpty stack
      else if c = CHR ''['' then push_container InArray BeginValueOrEmpty stack
      else if c = CHR 0x22 then Some (InString, stack)
      else if c = CHR ''-'' then Some (NumNeg, stack)
      else if c = CHR ''0'' then Some (NumZero, stack)
      else if c = CHR ''t'' then Some (InLiteral ''rue'', stack)
      else if c = CHR ''f'' then Some (InLiteral ''alse'', stack)
      else if c = CHR ''n'' then Some (InLiteral ''ull'', stack)
      else if digit c then Some (NumInt, stack)
      else None)"

definition end_value :: "json_container list \<Rightarrow> char \<Rightarrow> (json_state \<times> json_container list) option" where
  "end_value stack c =
     (if stack = [] then (if json_space c then Some (EndTop, []) else None)
      else if json_space c then Some (EndValue, stack)
      else (case stack of
        InObjectKey # rest \<Rightarrow> if c = CHR '':'' then Some (BeginValue, InObjectValue # rest) else None
      | InObjectValue # rest \<Rightarrow>
          if c = CHR '','' then Some (BeginString, InObjectKey # rest)
          else if c = CHR ''}'' then Some (popped rest) else None
      | InArray # rest \<Rightarrow>
          if c = CHR '','' then Some (BeginValue, stack)
          else if c = CHR '']'' then Some (popped rest) else None
      | [] \<Rightarrow> None))"

definition begin_string :: "json_container list \<Rightarrow> char \<Rightarrow> (json_state \<times> json_container list) option" where
  "begin_string stack c =
     (if json_space c then Some (BeginString, stack)
      else if c = CHR 0x22 then Some (InString, stack) else None)"

text \<open>A number ends at the first byte that does not continue it, which is then read as the byte
  after a value.\<close>

definition json_step :: "json_state \<Rightarrow> json_container list \<Rightarrow> char \<Rightarrow> (json_state \<times> json_container list) option" where
  "json_step st stack c = (case st of
     BeginValue \<Rightarrow> begin_value stack c
   | BeginValueOrEmpty \<Rightarrow>
       if json_space c then Some (BeginValueOrEmpty, stack)
       else if c = CHR '']'' then end_value stack c else begin_value stack c
   | BeginString \<Rightarrow> begin_string stack c
   | BeginStringOrEmpty \<Rightarrow>
       if json_space c then Some (BeginStringOrEmpty, stack)
       else if c = CHR ''}'' then end_value (InObjectValue # tl stack) c else begin_string stack c
   | EndValue \<Rightarrow> end_value stack c
   | EndTop \<Rightarrow> if json_space c then Some (EndTop, stack) else None
   | InString \<Rightarrow>
       if c = CHR 0x22 then Some (EndValue, stack)
       else if c = CHR 0x5C then Some (InStringEsc, stack)
       else if (of_char c :: nat) < 32 then None else Some (InString, stack)
   | InStringEsc \<Rightarrow>
       if c = CHR ''u'' then Some (InStringHex 4, stack)
       else if c \<in> set [CHR ''b'', CHR ''f'', CHR ''n'', CHR ''r'', CHR ''t'', CHR 0x5C, CHR ''/'', CHR 0x22]
       then Some (InString, stack) else None
   | InStringHex k \<Rightarrow>
       if hex_digit c then Some (if k \<le> 1 then InString else InStringHex (k - 1), stack) else None
   | NumNeg \<Rightarrow>
       if c = CHR ''0'' then Some (NumZero, stack) else if digit c then Some (NumInt, stack) else None
   | NumInt \<Rightarrow>
       if digit c then Some (NumInt, stack)
       else if c = CHR ''.'' then Some (NumDot, stack)
       else if c = CHR ''e'' \<or> c = CHR ''E'' then Some (NumE, stack) else end_value stack c
   | NumZero \<Rightarrow>
       if c = CHR ''.'' then Some (NumDot, stack)
       else if c = CHR ''e'' \<or> c = CHR ''E'' then Some (NumE, stack) else end_value stack c
   | NumDot \<Rightarrow> if digit c then Some (NumFrac, stack) else None
   | NumFrac \<Rightarrow>
       if digit c then Some (NumFrac, stack)
       else if c = CHR ''e'' \<or> c = CHR ''E'' then Some (NumE, stack) else end_value stack c
   | NumE \<Rightarrow>
       if c = CHR ''+'' \<or> c = CHR ''-'' then Some (NumESign, stack)
       else if digit c then Some (NumExp, stack) else None
   | NumESign \<Rightarrow> if digit c then Some (NumExp, stack) else None
   | NumExp \<Rightarrow> if digit c then Some (NumExp, stack) else end_value stack c
   | InLiteral rest \<Rightarrow>
       (case rest of
          [] \<Rightarrow> end_value stack c
        | d # ds \<Rightarrow> if c = d then Some (if ds = [] then EndValue else InLiteral ds, stack) else None))"

fun json_scan :: "json_state \<Rightarrow> json_container list \<Rightarrow> bytes \<Rightarrow> (json_state \<times> json_container list) option" where
  "json_scan st stack [] = Some (st, stack)"
| "json_scan st stack (c # s) =
     (case json_step st stack c of None \<Rightarrow> None | Some (st', stack') \<Rightarrow> json_scan st' stack' s)"

text \<open>At the end of the input the library feeds one space and asks for the end of the top value.\<close>

definition json_valid :: "bytes \<Rightarrow> bool" where
  "json_valid s \<longleftrightarrow>
     (case json_scan BeginValue [] (s @ '' '') of Some (EndTop, _) \<Rightarrow> True | _ \<Rightarrow> False)"

section \<open>Strings and raw messages\<close>

definition hex_char :: "nat \<Rightarrow> char" where
  "hex_char n = ''0123456789abcdef'' ! n"

definition json_escape_byte :: "char \<Rightarrow> bytes" where
  "json_escape_byte c =
     (if c = CHR 0x22 \<or> c = CHR 0x5C then [CHR 0x5C, c]
      else if c = CHR 0x08 then [CHR 0x5C, CHR ''b''] else if c = CHR 0x0C then [CHR 0x5C, CHR ''f'']
      else if c = LF then [CHR 0x5C, CHR ''n''] else if c = CR then [CHR 0x5C, CHR ''r'']
      else if c = CHR 0x09 then [CHR 0x5C, CHR ''t'']
      else if (of_char c :: nat) < 32 \<or> c = CHR ''<'' \<or> c = CHR ''>'' \<or> c = CHR ''&''
      then [CHR 0x5C] @ ''u00'' @ [hex_char (of_char c div 16), hex_char (of_char c mod 16)]
      else [c])"

text \<open>Quoting a string: text outside ASCII is kept, a byte that is no UTF-8 becomes the replacement
  character, and the line separators U+2028 and U+2029 are escaped.\<close>

function json_quote_body :: "bytes \<Rightarrow> bytes" where
  "json_quote_body s =
     (case s of
        [] \<Rightarrow> []
      | c # t \<Rightarrow>
          if (of_char c :: nat) < 128 then json_escape_byte c @ json_quote_body t
          else let (r, w) = decode_rune (map of_char s) in
            if r = rune_error \<and> w \<le> 1 then [CHR 0x5C] @ ''ufffd'' @ json_quote_body t
            else (if r = 0x2028 \<or> r = 0x2029 then [CHR 0x5C] @ ''u202'' @ [hex_char (r mod 16)] else take w s)
              @ json_quote_body (drop (max 1 w) s))"
  by pat_completeness auto

termination by (relation "measure length") auto

declare json_quote_body.simps [simp del]

definition json_string :: "bytes \<Rightarrow> bytes" where
  "json_string s = CHR 0x22 # json_quote_body s @ [CHR 0x22]"

text \<open>Compaction drops white space outside strings and escapes \<open><\<close>, \<open>>\<close>, \<open>&\<close> and the line
  separators; it is only applied to valid text.\<close>

fun json_compact_from :: "bool \<Rightarrow> bytes \<Rightarrow> bytes" where
  "json_compact_from quoted [] = []"
| "json_compact_from quoted (c # s) =
     (if c = CHR ''<'' \<or> c = CHR ''>'' \<or> c = CHR ''&'' then json_escape_byte c @ json_compact_from quoted s
      else if c = CHR 0xE2 \<and> length s \<ge> 2 \<and> s ! 0 = CHR 0x80 \<and> (s ! 1 = CHR 0xA8 \<or> s ! 1 = CHR 0xA9)
      then [CHR 0x5C] @ ''u202'' @ [hex_char (of_char (s ! 1) mod 16)] @ json_compact_from quoted (drop 2 s)
      else if quoted \<and> c = CHR 0x5C \<and> s \<noteq> [] then c # hd s # json_compact_from quoted (tl s)
      else if c = CHR 0x22 then c # json_compact_from (\<not> quoted) s
      else if \<not> quoted \<and> json_space c then json_compact_from quoted s
      else c # json_compact_from quoted s)"

definition json_compact :: "bytes \<Rightarrow> bytes" where
  "json_compact s = json_compact_from False s"

lemma json_valid_examples:
  "json_valid ''{}''" "json_valid '' [1, -2.5e3, true, null] ''" "\<not> json_valid ''[1,]''" "\<not> json_valid ''''"
  "json_valid [CHR 0x22, CHR ''a'', CHR 0x22]" "\<not> json_valid ''01''"
  by code_simp+

section \<open>Text that needs no escapes\<close>

definition json_plain :: "char \<Rightarrow> bool" where
  "json_plain c \<longleftrightarrow> 32 \<le> (of_char c :: nat) \<and> (of_char c :: nat) < 128 \<and> c \<notin> set [CHR 0x22, CHR 0x5C, CHR ''<'', CHR ''>'', CHR ''&'']"

lemma json_quote_body_Nil [simp]: "json_quote_body [] = []"
  by (simp add: json_quote_body.simps)

lemma json_escape_plain: "json_plain c \<Longrightarrow> json_escape_byte c = [c]"
proof -
  assume plain: "json_plain c"
  then have ge: "32 \<le> (of_char c :: nat)" by (simp add: json_plain_def)
  have ne: "c \<noteq> CHR 0x08" "c \<noteq> CHR 0x0C" "c \<noteq> LF" "c \<noteq> CR" "c \<noteq> CHR 0x09"
    using ge by (rule_tac notI; simp)+
  have "c \<noteq> CHR 0x22" "c \<noteq> CHR 0x5C" "c \<noteq> CHR ''<''" "c \<noteq> CHR ''>''" "c \<noteq> CHR ''&''" "\<not> (of_char c :: nat) < 32"
    using plain by (simp_all only: json_plain_def list.set insert_iff de_Morgan_disj simp_thms not_less)
  with ne show ?thesis by (simp only: json_escape_byte_def if_False simp_thms)
qed

lemma json_quote_plain: "list_all json_plain s \<Longrightarrow> json_quote_body s = s"
proof (induction s)
  case (Cons c s)
  then have "(of_char c :: nat) < 128" "json_escape_byte c = [c]" by (simp_all add: json_plain_def json_escape_plain)
  with Cons show ?case by (subst json_quote_body.simps) simp
qed simp

lemma json_string_plain_length: "list_all json_plain s \<Longrightarrow> length (json_string s) = length s + 2"
  by (simp add: json_string_def json_quote_plain)

end
