(* ===== verification/Remote_Segments.thy ===== *)
theory Remote_Segments
  imports Go_Base64 Go_Json "HOL-Library.Word"
begin

text \<open>
  Messages of the remote-control websocket, \<open>remotecontrol/segment.go\<close> with the envelopes of
  \<open>remotecontrol/protocol.go\<close>: splitting a large server message into chunks that fit a frame, and
  putting the chunks of a client message together again.  A sequence id is a \<open>64 word\<close>, a time a
  number of nanoseconds; the clock is read by the caller.
\<close>

declare map_of_eq_Some_iff [simp del]

section \<open>Envelopes\<close>

datatype client_event =
  ClientMessage | ClientMessageChunk | ClientAck | ClientPing | ClientClosed | ClientOther bytes

record client_envelope =
  ce_type :: client_event
  ce_message :: bytes
  ce_segment_id :: "int option"
  ce_segment_count :: "int option"
  ce_message_size :: "int option"
  ce_chunk :: "bytes option"
  ce_client :: bytes
  ce_stream :: "bytes option"
  ce_seq :: "64 word option"
  ce_cursor :: "bytes option"
  ce_reassembled :: bool

datatype server_event = ServerMessage | ServerMessageChunk | ServerAck | ServerPong | ServerOther bytes

record server_envelope =
  se_type :: server_event
  se_message :: bytes
  se_segment_id :: "int option"
  se_segment_count :: "int option"
  se_message_size :: "int option"
  se_chunk :: "bytes option"
  se_status :: "bytes option"
  se_client :: bytes
  se_stream :: bytes
  se_seq :: "64 word"

definition server_event_text :: "server_event \<Rightarrow> bytes" where
  "server_event_text t = (case t of
     ServerMessage \<Rightarrow> ''server_message'' | ServerMessageChunk \<Rightarrow> ''server_message_chunk''
   | ServerAck \<Rightarrow> ''ack'' | ServerPong \<Rightarrow> ''pong'' | ServerOther s \<Rightarrow> s)"

section \<open>Serialised size\<close>

datatype envelope_error = MarshalError | SegmentCountExceeded

definition json_field :: "bytes \<Rightarrow> bytes \<Rightarrow> bytes" where
  "json_field name v = json_string name @ '':'' @ v"

definition json_optional :: "bytes \<Rightarrow> ('a \<Rightarrow> bytes) \<Rightarrow> 'a option \<Rightarrow> bytes list" where
  "json_optional name enc v = (case v of None \<Rightarrow> [] | Some x \<Rightarrow> [json_field name (enc x)])"

definition marshal_server_envelope :: "server_envelope \<Rightarrow> envelope_error + bytes" where
  "marshal_server_envelope e =
     (if se_message e \<noteq> [] \<and> \<not> json_valid (se_message e) then Inl MarshalError
      else Inr (''{'' @ join_with '',''
        ([json_field ''type'' (json_string (server_event_text (se_type e)))] @
         (if se_message e = [] then [] else [json_field ''message'' (json_compact (se_message e))]) @
         json_optional ''segment_id'' dec_int (se_segment_id e) @
         json_optional ''segment_count'' dec_int (se_segment_count e) @
         json_optional ''message_size_bytes'' dec_int (se_message_size e) @
         json_optional ''message_chunk_base64'' json_string (se_chunk e) @
         json_optional ''status'' json_string (se_status e) @
         [json_field ''client_id'' (json_string (se_client e)),
          json_field ''stream_id'' (json_string (se_stream e)),
          json_field ''seq_id'' (dec_nat (unat (se_seq e)))]) @ ''}''))"

definition serialized_json_len :: "server_envelope \<Rightarrow> envelope_error + int" where
  "serialized_json_len e = bind_res (marshal_server_envelope e) (\<lambda>data. Inr (int (length data)))"

section \<open>Splitting a server message\<close>

abbreviation "segment_target_bytes \<equiv> (102400 :: int)"
abbreviation "segment_max_bytes \<equiv> (153600 :: int)"
abbreviation "reassembled_max_bytes \<equiv> (104857600 :: int)"
abbreviation "segment_count_max \<equiv> (1024 :: int)"
abbreviation "assembly_max_count \<equiv> (128 :: nat)"

definition ceil_div :: "int \<Rightarrow> int \<Rightarrow> int" where
  "ceil_div v d = (if d \<le> 0 then 0 else (v + d - 1) div d)"

definition build_server_chunk ::
  "server_envelope \<Rightarrow> int \<Rightarrow> int \<Rightarrow> int \<Rightarrow> bytes \<Rightarrow> envelope_error + server_envelope" where
  "build_server_chunk e seg count nbytes chunk =
     (if count > segment_count_max then Inl SegmentCountExceeded
      else Inr \<lparr>se_type = ServerMessageChunk, se_message = [], se_segment_id = Some seg,
        se_segment_count = Some count, se_message_size = Some nbytes,
        se_chunk = Some (b64_encode std_alphabet True chunk), se_status = None,
        se_client = se_client e, se_stream = se_stream e, se_seq = se_seq e\<rparr>)"

definition serialized_chunk_len ::
  "server_envelope \<Rightarrow> int \<Rightarrow> int \<Rightarrow> int \<Rightarrow> bytes \<Rightarrow> envelope_error + int" where
  "serialized_chunk_len e seg count nbytes chunk =
     bind_res (build_server_chunk e seg count nbytes chunk) serialized_json_len"

text \<open>The slices \<open>raw[offset:min(len(raw), offset+chunkSize)]\<close> of the loops; the chunk size is
  positive.\<close>

function slices :: "nat \<Rightarrow> bytes \<Rightarrow> bytes list" where
  "slices k s = (if s = [] then [] else take (max 1 k) s # slices k (drop (max 1 k) s))"
  by pat_completeness auto
termination by (relation "measure (length \<circ> snd)") auto

declare slices.simps [simp del]

fun segments_fit :: "server_envelope \<Rightarrow> int \<Rightarrow> int \<Rightarrow> int \<Rightarrow> bytes list \<Rightarrow> envelope_error + bool" where
  "segments_fit e seg count nbytes [] = Inr True"
| "segments_fit e seg count nbytes (c # cs) =
     bind_res (serialized_chunk_len e seg count nbytes c)
       (\<lambda>n. if n > segment_max_bytes then Inr False else segments_fit e (seg + 1) count nbytes cs)"

fun build_segments :: "server_envelope \<Rightarrow> int \<Rightarrow> int \<Rightarrow> int \<Rightarrow> bytes list \<Rightarrow> envelope_error + server_envelope list" where
  "build_segments e seg count nbytes [] = Inr []"
| "build_segments e seg count nbytes (c # cs) =
     bind_res (build_server_chunk e seg count nbytes c)
       (\<lambda>x. bind_res (build_segments e (seg + 1) count nbytes cs) (\<lambda>xs. Inr (x # xs)))"

lemma ceil_div_ge: "0 < d \<Longrightarrow> v \<le> ceil_div v d * d"
proof -
  assume d: "0 < d"
  have "(v + d - 1) mod d < d" using d by (rule pos_mod_bound)
  moreover have "(v + d - 1) div d * d + (v + d - 1) mod d = v + d - 1" by (rule div_mult_mod_eq)
  ultimately have "v \<le> (v + d - 1) div d * d" by linarith
  then show ?thesis using d by (simp only: ceil_div_def not_le [symmetric] if_False)
qed

lemma ceil_div_le: "0 < d \<Longrightarrow> v \<le> k * d \<Longrightarrow> ceil_div v d \<le> k"
proof (rule ccontr)
  assume d: "0 < d" and v: "v \<le> k * d" and "\<not> ceil_div v d \<le> k"
  then have "k + 1 \<le> (v + d - 1) div d" by (simp add: ceil_div_def)
  then have "(k + 1) * d \<le> (v + d - 1) div d * d" using d by (intro mult_right_mono) simp_all
  moreover have "(v + d - 1) div d * d + (v + d - 1) mod d = v + d - 1" by (rule div_mult_mod_eq)
  moreover have "0 \<le> (v + d - 1) mod d" using d by (rule pos_mod_sign)
  moreover have "(k + 1) * d = k * d + d" by (simp add: algebra_simps)
  ultimately show False using v by linarith
qed

lemma ceil_div_pos: "0 < d \<Longrightarrow> 0 < v \<Longrightarrow> 0 < ceil_div v d"
  by (simp add: ceil_div_def pos_imp_zdiv_pos_iff)

lemma ceil_div_nonpos: "v \<le> 0 \<Longrightarrow> ceil_div v d \<le> 0"
  using ceil_div_le [of d v 0] by (cases "0 < d") (simp_all add: ceil_div_def [of v d])

text \<open>One round of the loop over the number of segments: the chunks fit and are built, or chunks of
  one byte do not fit either, or a further round tries more segments.\<close>

definition chunk_size_for :: "int \<Rightarrow> int \<Rightarrow> int" where
  "chunk_size_for nbytes segments = max 1 (ceil_div nbytes segments)"

definition segment_count_for :: "int \<Rightarrow> int \<Rightarrow> int" where
  "segment_count_for nbytes segments = ceil_div nbytes (chunk_size_for nbytes segments)"

definition next_segments :: "int \<Rightarrow> int \<Rightarrow> int" where
  "next_segments nbytes segments =
     (let count = segment_count_for nbytes segments in
      if chunk_size_for nbytes (count + 1) = chunk_size_for nbytes segments then nbytes else count + 1)"

definition split_round ::
  "server_envelope \<Rightarrow> bytes \<Rightarrow> int \<Rightarrow> envelope_error + server_envelope list option" where
  "split_round e raw segments =
     (let nbytes = int (length raw);
          chunk_size = chunk_size_for nbytes segments;
          count = segment_count_for nbytes segments;
          chunks = slices (nat chunk_size) raw
      in bind_res (segments_fit e 0 count nbytes chunks) (\<lambda>fit.
           if fit then bind_res (build_segments e 0 count nbytes chunks) (\<lambda>segs. Inr (Some segs))
           else if chunk_size = 1 then Inr (Some []) else Inr None))"

text \<open>Each round makes the chunks smaller, so the loop ends.\<close>

lemma next_chunk_less:
  assumes "chunk_size_for v segments \<noteq> 1"
  shows "chunk_size_for v (next_segments v segments) < chunk_size_for v segments"
proof -
  define chunk where "chunk = chunk_size_for v segments"
  define count where "count = segment_count_for v segments"
  have chunk: "1 < chunk" using assms by (simp add: chunk_def chunk_size_for_def)
  have v: "0 < v" using chunk ceil_div_nonpos [of v segments]
    by (cases "0 < v") (auto simp: chunk_def chunk_size_for_def)
  then have "ceil_div v v \<le> 1" by (intro ceil_div_le) simp_all
  with chunk have one: "chunk_size_for v v < chunk" by (simp add: chunk_size_for_def)
  have count: "0 < count" using chunk v
    unfolding count_def segment_count_for_def chunk_def [symmetric] by (intro ceil_div_pos) simp_all
  have "v \<le> count * chunk" unfolding count_def segment_count_for_def chunk_def [symmetric]
    using chunk by (intro ceil_div_ge) simp
  also have "count * chunk \<le> chunk * (count + 1)" using chunk by (simp add: algebra_simps)
  finally have "ceil_div v (count + 1) \<le> chunk" using count by (intro ceil_div_le) simp_all
  with chunk have "chunk_size_for v (count + 1) \<le> chunk" by (simp add: chunk_size_for_def)
  with one show ?thesis
    by (simp add: next_segments_def Let_def chunk_def [symmetric] count_def [symmetric])
qed

lemma split_round_again: "split_round e raw segments = Inr None \<Longrightarrow> chunk_size_for (int (length raw)) segments \<noteq> 1"
  by (auto simp: split_round_def Let_def bind_res_eq_Inr split: if_splits)

function split_loop :: "server_envelope \<Rightarrow> bytes \<Rightarrow> int \<Rightarrow> envelope_error + server_envelope list" where
  "split_loop e raw segments =
     (case split_round e raw segments of
        Inl err \<Rightarrow> Inl err
      | Inr (Some segs) \<Rightarrow> Inr segs
      | Inr None \<Rightarrow> split_loop e raw (next_segments (int (length raw)) segments))"
  by pat_completeness auto

termination
proof (relation "measure (\<lambda>(e, raw, segments). nat (chunk_size_for (int (length raw)) segments))", goal_cases)
  case 1
  then show ?case by simp
next
  case (2 e raw segments r)
  then have "split_round e raw segments = Inr None" by simp
  from next_chunk_less [OF split_round_again [OF this]] show ?case
    by (simp add: chunk_size_for_def)
qed

declare split_loop.simps [simp del]

definition split_server_envelope :: "server_envelope option \<Rightarrow> envelope_error + server_envelope list" where
  "split_server_envelope envelope = (case envelope of
     None \<Rightarrow> Inr []
   | Some e \<Rightarrow>
       if se_type e \<noteq> ServerMessage then Inr [e]
       else bind_res (serialized_json_len e) (\<lambda>n.
         if n \<le> segment_max_bytes then Inr [e]
         else
           let raw = (if se_message e = [] then ''null'' else se_message e);
               nbytes = int (length raw)
           in if nbytes > reassembled_max_bytes then Inr []
              else bind_res (serialized_chunk_len e 0 (min (max nbytes 1) segment_count_max) nbytes
                               (take (min (length raw) 1) raw)) (\<lambda>minimal.
                if minimal > segment_max_bytes then Inr []
                else split_loop e raw (max 2 (ceil_div nbytes segment_target_bytes)))))"

section \<open>What a split produces\<close>

lemma slices_Nil [simp]: "slices k [] = []"
  by (simp add: slices.simps)

lemma slices_step: "s \<noteq> [] \<Longrightarrow> slices k s = take (max 1 k) s # slices k (drop (max 1 k) s)"
  by (subst slices.simps) simp

lemma slices_nonempty [simp]: "slices k s = [] \<longleftrightarrow> s = []"
  by (subst slices.simps) simp

lemma concat_slices [simp]: "concat (slices k s) = s"
proof (induction k s rule: slices.induct)
  case (1 k s)
  then show ?case by (cases "s = []") (simp_all add: slices_step)
qed

lemma slices_bounds: "c \<in> set (slices k s) \<Longrightarrow> c \<noteq> [] \<and> length c \<le> max 1 k"
proof (induction k s rule: slices.induct)
  case (1 k s)
  then show ?case by (cases "s = []") (auto simp: slices_step)
qed

lemma length_slices: "1 \<le> k \<Longrightarrow> int (length (slices k s)) = ceil_div (int (length s)) (int k)"
proof (induction k s rule: slices.induct)
  case (1 k s)
  show ?case
  proof (cases "s = []")
    case True
    with 1 show ?thesis by (simp add: ceil_div_def)
  next
    case False
    then have pos: "0 < int (length s)" by simp
    define v where "v = int (length s)"
    have k: "0 < int k" using 1 by simp
    have "ceil_div v (int k) = 1 + ceil_div (int (length (drop k s))) (int k)"
    proof (cases "length s \<le> k")
      case True
      then have "ceil_div v (int k) = 1"
        using ceil_div_le [OF k, of v 1] ceil_div_pos [OF k, of v] pos by (simp add: v_def)
      moreover have "ceil_div 0 (int k) = 0" using k by (simp add: ceil_div_def)
      ultimately show ?thesis using True by simp
    next
      case False
      then have "int (length (drop k s)) = v - int k" by (simp add: v_def)
      moreover have "(v + int k - 1) div int k = (v - 1) div int k + 1"
        using k div_add_self2 [of "int k" "v - 1"] by (simp add: algebra_simps)
      ultimately show ?thesis using k by (simp add: ceil_div_def)
    qed
    with 1 False show ?thesis by (simp add: slices_step v_def max_def)
  qed
qed

definition frame_fits :: "server_envelope \<Rightarrow> bool" where
  "frame_fits e \<longleftrightarrow> (case serialized_json_len e of Inr n \<Rightarrow> n \<le> segment_max_bytes | Inl _ \<Rightarrow> False)"

definition chunk_envelope :: "server_envelope \<Rightarrow> int \<Rightarrow> int \<Rightarrow> int \<Rightarrow> bytes \<Rightarrow> server_envelope" where
  "chunk_envelope e seg count nbytes chunk =
     \<lparr>se_type = ServerMessageChunk, se_message = [], se_segment_id = Some seg,
      se_segment_count = Some count, se_message_size = Some nbytes,
      se_chunk = Some (b64_encode std_alphabet True chunk), se_status = None,
      se_client = se_client e, se_stream = se_stream e, se_seq = se_seq e\<rparr>"

fun chunk_envelopes :: "server_envelope \<Rightarrow> int \<Rightarrow> int \<Rightarrow> int \<Rightarrow> bytes list \<Rightarrow> server_envelope list" where
  "chunk_envelopes e seg count nbytes [] = []"
| "chunk_envelopes e seg count nbytes (c # cs) =
     chunk_envelope e seg count nbytes c # chunk_envelopes e (seg + 1) count nbytes cs"

lemma build_server_chunk_eq:
  "build_server_chunk e seg count nbytes c =
     (if count > segment_count_max then Inl SegmentCountExceeded else Inr (chunk_envelope e seg count nbytes c))"
  by (simp add: build_server_chunk_def chunk_envelope_def)

lemma serialized_chunk_envelope: "\<exists>n. serialized_json_len (chunk_envelope e seg count nbytes c) = Inr n"
  by (simp add: serialized_json_len_def marshal_server_envelope_def chunk_envelope_def)

lemma segments_fit_eq:
  "cs \<noteq> [] \<Longrightarrow> segments_fit e seg count nbytes cs =
     (if count > segment_count_max then Inl SegmentCountExceeded
      else Inr (list_all frame_fits (chunk_envelopes e seg count nbytes cs)))"
proof (induction cs arbitrary: seg)
  case (Cons c cs)
  obtain n where n: "serialized_json_len (chunk_envelope e seg count nbytes c) = Inr n"
    using serialized_chunk_envelope by blast
  with Cons show ?case
    by (cases cs) (auto simp: serialized_chunk_len_def build_server_chunk_eq frame_fits_def)
qed simp

lemma build_segments_eq:
  "count \<le> segment_count_max \<Longrightarrow> build_segments e seg count nbytes cs = Inr (chunk_envelopes e seg count nbytes cs)"
  by (induction cs arbitrary: seg) (simp_all add: build_server_chunk_eq)

text \<open>The chunks of a message: numbered, each within a frame, carrying the message's identity, and
  decoding to consecutive pieces of it.\<close>

definition segments_of :: "server_envelope \<Rightarrow> bytes \<Rightarrow> server_envelope list \<Rightarrow> bool" where
  "segments_of e raw segs \<longleftrightarrow>
     segs \<noteq> [] \<and> int (length segs) \<le> segment_count_max \<and>
     map se_segment_id segs = map (\<lambda>k. Some (int k)) [0 ..< length segs] \<and>
     list_all frame_fits segs \<and>
     list_all (\<lambda>x. se_type x = ServerMessageChunk \<and> se_segment_count x = Some (int (length segs)) \<and>
       se_message_size x = Some (int (length raw)) \<and> se_client x = se_client e \<and>
       se_stream x = se_stream e \<and> se_seq x = se_seq e) segs \<and>
     map_option concat (those (map (\<lambda>x. Option.bind (se_chunk x) (b64_decode std_alphabet True)) segs)) = Some raw"

lemma length_chunk_envelopes [simp]: "length (chunk_envelopes e seg count nbytes cs) = length cs"
  by (induction cs arbitrary: seg) simp_all

lemma chunk_envelopes_ids:
  "map se_segment_id (chunk_envelopes e (int s) count nbytes cs) = map (\<lambda>k. Some (int k)) [s ..< s + length cs]"
proof (induction cs arbitrary: s)
  case (Cons c cs)
  have "[s ..< s + length (c # cs)] = s # [Suc s ..< Suc s + length cs]" by (simp add: upt_rec)
  with Cons [of "Suc s"] show ?case by (simp add: chunk_envelope_def add.commute)
qed simp

lemma chunk_envelopes_fields:
  "list_all (\<lambda>x. se_type x = ServerMessageChunk \<and> se_segment_count x = Some count \<and>
     se_message_size x = Some nbytes \<and> se_client x = se_client e \<and>
     se_stream x = se_stream e \<and> se_seq x = se_seq e) (chunk_envelopes e seg count nbytes cs)"
  by (induction cs arbitrary: seg) (simp_all add: chunk_envelope_def)

lemma chunk_envelopes_decode:
  "those (map (\<lambda>x. Option.bind (se_chunk x) (b64_decode std_alphabet True)) (chunk_envelopes e seg count nbytes cs)) = Some cs"
  by (induction cs arbitrary: seg) (simp_all add: chunk_envelope_def std_base64)

text \<open>The pieces of a round, and what the round returns.\<close>

definition round_envelopes :: "server_envelope \<Rightarrow> bytes \<Rightarrow> int \<Rightarrow> server_envelope list" where
  "round_envelopes e raw segments =
     chunk_envelopes e 0 (segment_count_for (int (length raw)) segments) (int (length raw))
       (slices (nat (chunk_size_for (int (length raw)) segments)) raw)"

lemma split_round_eq:
  assumes "raw \<noteq> []"
  shows "split_round e raw segments =
    (if segment_count_for (int (length raw)) segments > segment_count_max then Inl SegmentCountExceeded
     else if list_all frame_fits (round_envelopes e raw segments) then Inr (Some (round_envelopes e raw segments))
     else if chunk_size_for (int (length raw)) segments = 1 then Inr (Some []) else Inr None)"
proof -
  have cs: "slices (nat (chunk_size_for (int (length raw)) segments)) raw \<noteq> []" using assms by simp
  show ?thesis
    by (simp add: split_round_def Let_def segments_fit_eq [OF cs] build_segments_eq round_envelopes_def)
qed

lemma round_envelopes_ok:
  assumes "raw \<noteq> []" and "segment_count_for (int (length raw)) segments \<le> segment_count_max"
    and "list_all frame_fits (round_envelopes e raw segments)"
  shows "segments_of e raw (round_envelopes e raw segments)"
proof -
  define chunk where "chunk = chunk_size_for (int (length raw)) segments"
  define count where "count = segment_count_for (int (length raw)) segments"
  define cs where "cs = slices (nat chunk) raw"
  have chunk: "1 \<le> chunk" by (simp add: chunk_def chunk_size_for_def)
  have len: "int (length cs) = count"
    using length_slices [of "nat chunk" raw] chunk by (simp add: cs_def count_def segment_count_for_def chunk_def)
  define segs where "segs = chunk_envelopes e 0 count (int (length raw)) cs"
  have segs: "round_envelopes e raw segments = segs"
    by (simp add: round_envelopes_def segs_def chunk_def count_def cs_def)
  have len': "length segs = length cs" by (simp add: segs_def)
  have "segs \<noteq> []" using assms(1) len' by (metis cs_def length_0_conv slices_nonempty)
  moreover have "int (length segs) \<le> segment_count_max" using assms(2) len len' by (simp add: count_def)
  moreover have "map se_segment_id segs = map (\<lambda>k. Some (int k)) [0 ..< length segs]"
    using chunk_envelopes_ids [of e 0 count "int (length raw)" cs] by (simp add: segs_def)
  moreover have "map_option concat (those (map (\<lambda>x. Option.bind (se_chunk x) (b64_decode std_alphabet True)) segs)) = Some raw"
    by (simp add: segs_def chunk_envelopes_decode cs_def)
  moreover note assms(3) [unfolded segs] chunk_envelopes_fields [of count "int (length raw)" e 0 cs, folded segs_def]
  ultimately show ?thesis unfolding segs segments_of_def len' len [symmetric] by simp
qed

lemma split_loop_result:
  "raw \<noteq> [] \<Longrightarrow> case split_loop e raw segments of
     Inl err \<Rightarrow> err = SegmentCountExceeded | Inr segs \<Rightarrow> segs = [] \<or> segments_of e raw segs"
proof (induction e raw segments rule: split_loop.induct)
  case (1 e raw segments)
  have step: "split_loop e raw segments = (case split_round e raw segments of
      Inl err \<Rightarrow> Inl err | Inr (Some segs) \<Rightarrow> Inr segs
    | Inr None \<Rightarrow> split_loop e raw (next_segments (int (length raw)) segments))"
    by (subst split_loop.simps) (rule refl)
  consider (exceeded) "split_round e raw segments = Inl SegmentCountExceeded"
    | (fit) "split_round e raw segments = Inr (Some (round_envelopes e raw segments))"
        "segments_of e raw (round_envelopes e raw segments)"
    | (single) "split_round e raw segments = Inr (Some [])"
    | (again) "split_round e raw segments = Inr None"
    using round_envelopes_ok [OF 1(2), of segments e] unfolding split_round_eq [OF 1(2)]
    by (cases "segment_count_for (int (length raw)) segments > segment_count_max";
        cases "list_all frame_fits (round_envelopes e raw segments)";
        cases "chunk_size_for (int (length raw)) segments = 1") simp_all
  then show ?case
  proof cases
    case again
    then show ?thesis using 1(1) [OF again refl 1(2)] unfolding step by simp
  qed (simp_all add: step)
qed

section \<open>Properties of the split\<close>

definition message_bytes :: "server_envelope \<Rightarrow> bytes" where
  "message_bytes e = (if se_message e = [] then ''null'' else se_message e)"

lemma message_bytes_nonempty [simp]: "message_bytes e \<noteq> []"
  by (simp add: message_bytes_def)

lemma serialized_json_len_cases:
  "serialized_json_len e =
     (if se_message e \<noteq> [] \<and> \<not> json_valid (se_message e) then Inl MarshalError
      else Inr (int (length (projr (marshal_server_envelope e)))))"
  by (simp add: serialized_json_len_def marshal_server_envelope_def)

lemma frame_fits_valid: "frame_fits e \<Longrightarrow> serialized_json_len e = Inr n \<Longrightarrow> n \<le> segment_max_bytes"
  by (simp add: frame_fits_def)

lemma split_server_envelope_eq:
  assumes "se_type e = ServerMessage" and "se_message e = [] \<or> json_valid (se_message e)"
  shows "split_server_envelope (Some e) =
    (if frame_fits e then Inr [e]
     else if int (length (message_bytes e)) > reassembled_max_bytes then Inr []
     else if \<not> frame_fits (chunk_envelope e 0 (min (max (int (length (message_bytes e))) 1) segment_count_max)
         (int (length (message_bytes e))) (take (Suc 0) (message_bytes e))) then Inr []
     else split_loop e (message_bytes e) (max 2 (ceil_div (int (length (message_bytes e))) segment_target_bytes)))"
proof -
  obtain n where n: "serialized_json_len e = Inr n" using assms(2) by (auto simp: serialized_json_len_cases)
  have one: "min (length (message_bytes e)) (Suc 0) = Suc 0"
    using message_bytes_nonempty [of e] by (cases "message_bytes e") auto
  define c where "c = chunk_envelope e 0 (min (max (int (length (message_bytes e))) 1) segment_count_max)
         (int (length (message_bytes e))) (take (Suc 0) (message_bytes e))"
  obtain m where m: "serialized_json_len c = Inr m" using serialized_chunk_envelope unfolding c_def by blast
  have len: "serialized_chunk_len e 0 (min (max (int (length (message_bytes e))) 1) segment_count_max)
      (int (length (message_bytes e))) (take (Suc 0) (message_bytes e)) = Inr m"
    unfolding serialized_chunk_len_def build_server_chunk_eq c_def [symmetric] by (simp add: m)
  have "frame_fits e \<longleftrightarrow> n \<le> segment_max_bytes" "frame_fits c \<longleftrightarrow> m \<le> segment_max_bytes"
    by (simp_all add: frame_fits_def n m)
  then show ?thesis using assms(1)
    by (simp add: split_server_envelope_def Let_def n message_bytes_def [symmetric] one len c_def [symmetric])
qed

text \<open>An envelope that fits a frame, or is no message, is sent as it is; a larger message is cut
  into at most 1024 numbered chunks that each fit a frame, carry its client, stream and sequence id,
  and decode to consecutive pieces of exactly its bytes, or nothing is sent; the only errors are a
  message that is not JSON and one that needs too many chunks.\<close>

theorem split_segments_exact:
  "case split_server_envelope (Some e) of
     Inl MarshalError \<Rightarrow> se_type e = ServerMessage \<and> se_message e \<noteq> [] \<and> \<not> json_valid (se_message e)
   | Inl SegmentCountExceeded \<Rightarrow> se_type e = ServerMessage \<and> \<not> frame_fits e
   | Inr segs \<Rightarrow>
       if se_type e = ServerMessage \<and> \<not> frame_fits e then segs = [] \<or> segments_of e (message_bytes e) segs
       else segs = [e]"
proof (cases "se_type e = ServerMessage \<and> (se_message e = [] \<or> json_valid (se_message e))")
  case True
  have "case split_loop e (message_bytes e) k of
     Inl err \<Rightarrow> err = SegmentCountExceeded | Inr segs \<Rightarrow> segs = [] \<or> segments_of e (message_bytes e) segs" for k
    by (rule split_loop_result) simp
  note this [of "max 2 (ceil_div (int (length (message_bytes e))) segment_target_bytes)"]
  with True show ?thesis
    by (simp add: split_server_envelope_eq split: sum.splits)
next
  case False
  then show ?thesis
    by (auto simp: split_server_envelope_def serialized_json_len_cases)
qed

section \<open>Sizes\<close>

lemma length_b64_encode: "length (b64_encode al True s) = 4 * ((length s + 2) div 3)"
proof (induction al True s rule: b64_encode.induct)
  case (4 al a b c s)
  have "(length s + 2 + 3) div 3 = (length s + 2) div 3 + 1" by (rule div_add_self2) simp
  with 4 show ?case by (simp add: b64_group_def)
qed (simp_all add: b64_group_def b64_pad_def)

lemma length_dec_nat: "n < 10 ^ Suc k \<Longrightarrow> length (dec_nat n) \<le> Suc k"
proof (induction k arbitrary: n)
  case 0
  then show ?case by (simp add: dec_nat.simps)
next
  case (Suc k)
  show ?case
  proof (cases "n < 10")
    case True
    then show ?thesis by (subst dec_nat.simps) simp
  next
    case False
    have "n div 10 < 10 ^ Suc k" using Suc.prems by (simp add: less_mult_imp_div_less)
    from Suc.IH [OF this] False show ?thesis by (subst dec_nat.simps) simp
  qed
qed

lemma length_dec_int: "0 \<le> i \<Longrightarrow> i < 10 ^ Suc k \<Longrightarrow> length (dec_int i) \<le> Suc k"
  using length_dec_nat [of "nat i" k] by (simp add: dec_int_def nat_less_iff)

lemma base64_plain: "list_all json_plain (b64_encode std_alphabet True s)"
proof -
  have plain: "list_all json_plain (CHR ''='' # std_alphabet)" by code_simp
  have "set (b64_encode std_alphabet True s) \<subseteq> set (CHR ''='' # std_alphabet)"
    using set_b64_encode [OF std_alphabet_ok] by simp
  with plain show ?thesis unfolding list_all_iff by blast
qed

lemma json_name_lengths:
  "length (json_string ''type'') = 6" "length (json_string ''server_message_chunk'') = 22"
  "length (json_string ''segment_id'') = 12" "length (json_string ''segment_count'') = 15"
  "length (json_string ''message_size_bytes'') = 20" "length (json_string ''message_chunk_base64'') = 22"
  "length (json_string ''client_id'') = 11" "length (json_string ''stream_id'') = 11"
  "length (json_string ''seq_id'') = 8"
  by code_simp+

lemma chunk_frame_length:
  "length (projr (marshal_server_envelope (chunk_envelope e seg count nbytes c))) =
     146 + length (dec_int seg) + length (dec_int count) + length (dec_int nbytes) +
     4 * ((length c + 2) div 3) + length (json_string (se_client e)) + length (json_string (se_stream e)) +
     length (dec_nat (unat (se_seq e)))"
  by (simp add: marshal_server_envelope_def chunk_envelope_def json_optional_def json_field_def
      server_event_text_def json_name_lengths json_string_plain_length [OF base64_plain] length_b64_encode)

definition ids_length :: "server_envelope \<Rightarrow> nat" where
  "ids_length e = length (json_string (se_client e)) + length (json_string (se_stream e))"

lemma chunk_frame_fits:
  assumes "ids_length e \<le> 16384" and "0 \<le> seg" "seg \<le> 1024" and "0 \<le> count" "count \<le> 1024"
    and "0 \<le> nbytes" "nbytes \<le> reassembled_max_bytes" and "length c \<le> 102400"
  shows "frame_fits (chunk_envelope e seg count nbytes c)"
proof -
  have "length (dec_int seg) \<le> 4" "length (dec_int count) \<le> 4" "length (dec_int nbytes) \<le> 9"
    using assms length_dec_int [of seg 3] length_dec_int [of count 3] length_dec_int [of nbytes 8] by simp_all
  moreover have "length (dec_nat (unat (se_seq e))) \<le> 20"
  proof -
    have "unat (se_seq e) < 2 ^ 64" using unsigned_less [of "se_seq e"] by simp
    also have "(2::nat) ^ 64 < 10 ^ Suc 19" by simp
    finally show ?thesis using length_dec_nat [of "unat (se_seq e)" 19] by simp
  qed
  moreover have "(length c + 2) div 3 \<le> 34134" using assms(8) by simp
  ultimately have "length (projr (marshal_server_envelope (chunk_envelope e seg count nbytes c))) \<le> 153600"
    using assms(1) unfolding chunk_frame_length ids_length_def by linarith
  then show ?thesis by (simp add: frame_fits_def serialized_json_len_cases chunk_envelope_def)
qed

lemma chunk_envelopes_fit:
  assumes "ids_length e \<le> 16384" and "0 \<le> count" "count \<le> 1024"
    and "0 \<le> nbytes" "nbytes \<le> reassembled_max_bytes"
  shows "0 \<le> seg \<Longrightarrow> seg + int (length cs) \<le> 1024 \<Longrightarrow> list_all (\<lambda>c. length c \<le> 102400) cs \<Longrightarrow>
    list_all frame_fits (chunk_envelopes e seg count nbytes cs)"
  by (induction cs arbitrary: seg) (simp_all add: chunk_frame_fits assms)

text \<open>A message of valid JSON up to 100 MiB, under client and stream ids of an ordinary size, is
  always sent: the first number of segments tried already fits, so the loop runs once.\<close>

theorem split_succeeds:
  assumes "se_type e = ServerMessage" and "json_valid (se_message e)"
    and "int (length (se_message e)) \<le> reassembled_max_bytes" and "ids_length e \<le> 16384"
  shows "\<exists>segs. split_server_envelope (Some e) = Inr segs \<and>
    (if frame_fits e then segs = [e] else segments_of e (se_message e) segs)"
proof (cases "frame_fits e")
  case True
  then show ?thesis using assms(1,2) by (simp add: split_server_envelope_eq)
next
  case False
  have "\<not> json_valid []" by code_simp
  then have ne: "se_message e \<noteq> []" using assms(2) by auto
  then have raw: "message_bytes e = se_message e" by (simp add: message_bytes_def)
  define v where "v = int (length (se_message e))"
  have v: "0 < v" "v \<le> reassembled_max_bytes" using ne assms(3) by (simp_all add: v_def)
  define segments where "segments = max 2 (ceil_div v segment_target_bytes)"
  have "ceil_div v segment_target_bytes \<le> 1024" using v by (intro ceil_div_le) simp_all
  then have segs: "2 \<le> segments" "segments \<le> 1024" by (simp_all add: segments_def)
  have "v \<le> ceil_div v segment_target_bytes * segment_target_bytes" by (rule ceil_div_ge) simp
  also have "\<dots> \<le> segments * segment_target_bytes" by (simp add: segments_def)
  finally have "ceil_div v segments \<le> segment_target_bytes" using segs by (intro ceil_div_le) (simp_all add: mult.commute)
  then have chunk: "1 \<le> chunk_size_for v segments" "chunk_size_for v segments \<le> segment_target_bytes"
    by (simp_all add: chunk_size_for_def)
  have "v \<le> ceil_div v segments * segments" using segs by (intro ceil_div_ge) simp
  also have "\<dots> \<le> chunk_size_for v segments * segments" using segs by (intro mult_right_mono) (simp_all add: chunk_size_for_def)
  finally have "segment_count_for v segments \<le> segments"
    unfolding segment_count_for_def using chunk by (intro ceil_div_le) (simp_all add: mult.commute)
  moreover have "0 \<le> segment_count_for v segments"
    unfolding segment_count_for_def using chunk v ceil_div_pos [of "chunk_size_for v segments" v] by simp
  ultimately have count: "0 \<le> segment_count_for v segments" "segment_count_for v segments \<le> 1024" using segs by simp_all
  define cs where "cs = slices (nat (chunk_size_for v segments)) (se_message e)"
  have len: "int (length cs) = segment_count_for v segments"
    using length_slices [of "nat (chunk_size_for v segments)" "se_message e"] chunk
    by (simp add: cs_def segment_count_for_def v_def)
  have small: "list_all (\<lambda>c. length c \<le> 102400) cs"
    using slices_bounds [of _ "nat (chunk_size_for v segments)" "se_message e"] chunk
    by (fastforce simp: cs_def list_all_iff)
  have fits: "list_all frame_fits (round_envelopes e (se_message e) segments)"
    unfolding round_envelopes_def v_def [symmetric] cs_def [symmetric]
    using assms(4) count v len small by (intro chunk_envelopes_fit) simp_all
  have finished: "split_loop e (se_message e) segments = Inr (round_envelopes e (se_message e) segments)"
    using fits count(2) by (subst split_loop.simps) (simp add: split_round_eq [OF ne] v_def)
  have minimal: "frame_fits (chunk_envelope e 0 (min (max v 1) segment_count_max) v (take (Suc 0) (se_message e)))"
    using assms(4) v by (intro chunk_frame_fits) simp_all
  have "split_server_envelope (Some e) = Inr (round_envelopes e (se_message e) segments)"
    using False assms(1,2) v(2) minimal finished
    by (simp add: split_server_envelope_eq raw v_def [symmetric] segments_def [symmetric])
  moreover have "segments_of e (se_message e) (round_envelopes e (se_message e) segments)"
    using fits count(2) by (intro round_envelopes_ok [OF ne]) (simp_all add: v_def)
  ultimately show ?thesis using False by simp
qed

lemma json_scan_plain: "list_all json_plain s \<Longrightarrow> json_scan InString stack (s @ t) = json_scan InString stack t"
proof (induction s)
  case (Cons c s)
  then have "json_step InString stack c = Some (InString, stack)" by (auto simp: json_plain_def json_step_def)
  with Cons show ?case by simp
qed simp

lemma json_valid_plain: "list_all json_plain s \<Longrightarrow> json_valid (json_string s)"
proof -
  assume plain: "list_all json_plain s"
  have "json_step BeginValue [] (CHR 0x22) = Some (InString, [])" by code_simp
  moreover have "json_scan InString [] [CHR 0x22, CHR '' ''] = Some (EndTop, [])" by code_simp
  ultimately show ?thesis
    using json_scan_plain [OF plain, of "[]" "[CHR 0x22, CHR '' '']"]
    by (simp add: json_valid_def json_string_def json_quote_plain [OF plain])
qed

definition large_message :: server_envelope where
  "large_message = \<lparr>se_type = ServerMessage, se_message = json_string (replicate 200000 (CHR ''a'')),
     se_segment_id = None, se_segment_count = None, se_message_size = None, se_chunk = None, se_status = None,
     se_client = ''client'', se_stream = ''stream'', se_seq = 7\<rparr>"

lemma split_succeeds_witness:
  "\<exists>segs. split_server_envelope (Some large_message) = Inr segs \<and>
    (if frame_fits large_message then segs = [large_message]
     else segments_of large_message (se_message large_message) segs)"
proof (rule split_succeeds)
  have a: "json_plain (CHR ''a'')" by code_simp
  then have plain: "list_all json_plain (replicate 200000 (CHR ''a''))" by (simp add: list_all_iff)
  show "json_valid (se_message large_message)" using json_valid_plain [OF plain] by (simp add: large_message_def)
  show "int (length (se_message large_message)) \<le> reassembled_max_bytes"
    by (simp add: large_message_def json_string_plain_length [OF plain])
  show "ids_length large_message \<le> 16384" by (simp add: large_message_def ids_length_def) code_simp
qed (simp add: large_message_def)

end
