(* ===== verification/Remote_Reassembly.thy ===== *)
theory Remote_Reassembly
  imports Remote_Segments "HOL-Library.List_Lexorder" "HOL-Library.Char_ord" "HOL-Library.Product_Lexorder"
begin

text \<open>
  Receiving and acknowledging on the remote-control websocket: the reassembly of chunked client
  messages in \<open>remotecontrol/segment.go\<close>, and the per-connection state of
  \<open>remotecontrol/websocket_state.go\<close> with its outbound buffer and sequence numbers.  The clock is an
  argument; the assemblies are an association list, whose order stands for Go's iteration order.
\<close>

declare map_of_eq_Some_iff [simp del]

section \<open>Assemblies\<close>

record segment_metadata =
  sm_seq :: "64 word"
  sm_count :: int
  sm_bytes :: int

record assembly =
  as_stream :: bytes
  as_meta :: segment_metadata
  as_raw :: bytes
  as_next :: int
  as_seen :: int

type_synonym reassembler = "(bytes \<times> assembly) list"

datatype observation = Forward client_envelope | Pending | Dropped

definition segment_metadata_of :: "client_envelope \<Rightarrow> segment_metadata option" where
  "segment_metadata_of e =
     (if ce_type e \<noteq> ClientMessageChunk \<or> ce_segment_id e = None then None
      else (case (ce_seq e, ce_segment_count e, ce_message_size e) of
        (Some q, Some n, Some b) \<Rightarrow> Some \<lparr>sm_seq = q, sm_count = n, sm_bytes = b\<rparr>
      | _ \<Rightarrow> None))"

definition should_ignore_chunk :: "bytes \<Rightarrow> bytes \<Rightarrow> 64 word \<Rightarrow> int \<Rightarrow> reassembler \<Rightarrow> bool" where
  "should_ignore_chunk client stream q seg r =
     (case map_of r client of
        None \<Rightarrow> False
      | Some a \<Rightarrow>
          if as_stream a \<noteq> stream then False
          else q < sm_seq (as_meta a) \<or> (q = sm_seq (as_meta a) \<and> seg < as_next a))"

definition remove_assembly :: "bytes \<Rightarrow> bytes \<Rightarrow> reassembler \<Rightarrow> reassembler" where
  "remove_assembly client stream r =
     (case map_of r client of
        None \<Rightarrow> r
      | Some a \<Rightarrow> if as_stream a = stream then AList.delete client r else r)"

definition invalidate_stream :: "bytes \<Rightarrow> bytes \<Rightarrow> reassembler \<Rightarrow> reassembler" where
  "invalidate_stream client stream r = remove_assembly client stream r"

definition invalidate_client :: "bytes \<Rightarrow> reassembler \<Rightarrow> reassembler" where
  "invalidate_client client r = AList.delete client r"

fun oldest_from :: "bytes \<Rightarrow> int \<Rightarrow> reassembler \<Rightarrow> bytes" where
  "oldest_from client at [] = client"
| "oldest_from client at ((c, a) # rest) =
     (if as_seen a < at then oldest_from c (as_seen a) rest else oldest_from client at rest)"

lemma oldest_from_key: "oldest_from client at r \<in> insert client (fst ` set r)"
  by (induction client at r rule: oldest_from.induct) auto

lemma oldest_found: "\<exists>a. map_of ((c, x) # r) (oldest_from c t r) = Some a"
proof (cases "oldest_from c t r = c")
  case False
  with oldest_from_key [of c t r] have "oldest_from c t r \<in> set (keys_of r)" by auto
  then show ?thesis using False by (simp only: in_keys_iff map_of.simps fun_upd_apply fst_conv if_False)
qed simp

function evict_if_full :: "reassembler \<Rightarrow> reassembler" where
  "evict_if_full r =
     (if length r < assembly_max_count then r
      else (case r of
        [] \<Rightarrow> r
      | (c, a) # rest \<Rightarrow> evict_if_full (AList.delete (oldest_from c (as_seen a) rest) r)))"
  by pat_completeness auto

termination
proof (relation "measure length", goal_cases)
  case (2 r p rest c a)
  obtain b where "map_of r (oldest_from c (as_seen a) rest) = Some b"
    using oldest_found [of c a rest "as_seen a"] 2(2,3) by auto
  from length_delete_less [OF this] show ?case by simp
qed simp

declare evict_if_full.simps [simp del]

definition fresh_assembly :: "int \<Rightarrow> bytes \<Rightarrow> segment_metadata \<Rightarrow> assembly" where
  "fresh_assembly now stream meta =
     \<lparr>as_stream = stream, as_meta = meta, as_raw = [], as_next = 0, as_seen = now\<rparr>"

definition open_assembly :: "int \<Rightarrow> bytes \<Rightarrow> bytes \<Rightarrow> segment_metadata \<Rightarrow> reassembler \<Rightarrow> assembly \<times> reassembler" where
  "open_assembly now client stream meta r =
     (case map_of r client of
        None \<Rightarrow> (fresh_assembly now stream meta,
                 AList.update client (fresh_assembly now stream meta) (evict_if_full r))
      | Some a \<Rightarrow>
          if as_stream a \<noteq> stream
          then (fresh_assembly now stream meta, AList.update client (fresh_assembly now stream meta) r)
          else (a, r))"

definition segment_acceptable :: "segment_metadata \<Rightarrow> int \<Rightarrow> bytes option \<Rightarrow> bool" where
  "segment_acceptable meta seg chunk \<longleftrightarrow>
     \<not> (sm_count meta \<le> 0 \<or> sm_count meta > segment_count_max \<or> seg < 0 \<or> seg \<ge> sm_count meta \<or>
        sm_bytes meta \<le> 0 \<or> sm_bytes meta > reassembled_max_bytes \<or> chunk = None \<or> chunk = Some '''')"

definition reassembled :: "client_envelope \<Rightarrow> bytes \<Rightarrow> client_envelope" where
  "reassembled e raw = e\<lparr>ce_type := ClientMessage, ce_message := raw, ce_segment_id := None,
     ce_segment_count := None, ce_message_size := None, ce_chunk := None, ce_reassembled := True\<rparr>"

text \<open>The part of \<open>Observe\<close> after the assembly of the client was found or opened.\<close>

definition accept_chunk ::
  "int \<Rightarrow> client_envelope \<Rightarrow> bytes \<Rightarrow> segment_metadata \<Rightarrow> int \<Rightarrow> bytes \<Rightarrow> assembly \<Rightarrow> reassembler \<Rightarrow>
   observation \<times> reassembler" where
  "accept_chunk now e stream meta seg chunk a r =
     (let dropped = (Dropped, remove_assembly (ce_client e) stream r) in
      if sm_seq meta < sm_seq (as_meta a) then (Dropped, r)
      else if as_meta a \<noteq> meta then dropped
      else if seg < as_next a then (Pending, r)
      else if seg \<noteq> as_next a then dropped
      else (case b64_decode std_alphabet True chunk of
          None \<Rightarrow> dropped
        | Some decoded \<Rightarrow>
            if int (length (as_raw a)) + int (length decoded) > sm_bytes meta then dropped
            else
              let raw = as_raw a @ decoded;
                  r1 = AList.update (ce_client e) (a\<lparr>as_raw := raw, as_next := as_next a + 1, as_seen := now\<rparr>) r
              in if as_next a + 1 < sm_count meta then (Pending, r1)
                 else if int (length raw) \<noteq> sm_bytes meta \<or> \<not> json_valid raw
                 then (Dropped, remove_assembly (ce_client e) stream r1)
                 else (Forward (reassembled e raw), remove_assembly (ce_client e) stream r1)))"

definition observe :: "int \<Rightarrow> client_envelope option \<Rightarrow> reassembler \<Rightarrow> observation \<times> reassembler" where
  "observe now envelope r = (case envelope of
     None \<Rightarrow> (Dropped, r)
   | Some e \<Rightarrow>
       if ce_type e \<noteq> ClientMessageChunk then (Forward e, r)
       else (case (segment_metadata_of e, ce_stream e, ce_segment_id e) of
           (Some meta, Some stream, Some seg) \<Rightarrow>
             if stream = '''' then (Dropped, r)
             else if should_ignore_chunk (ce_client e) stream (sm_seq meta) seg r then (Dropped, r)
             else (case ce_chunk e of
                 Some chunk \<Rightarrow>
                   if segment_acceptable meta seg (Some chunk)
                   then (case open_assembly now (ce_client e) stream meta r of
                       (a, r1) \<Rightarrow> accept_chunk now e stream meta seg chunk a r1)
                   else (Dropped, remove_assembly (ce_client e) stream r)
               | None \<Rightarrow> (Dropped, remove_assembly (ce_client e) stream r))
         | _ \<Rightarrow> (Dropped, r)))"

section \<open>The connection state\<close>

type_synonym stream_key = "bytes \<times> bytes"

record message_key =
  mk_client :: bytes
  mk_stream :: bytes
  mk_has_stream :: bool

record websocket_state =
  ws_outbound :: "(stream_key \<times> server_envelope list) list"
  ws_sequencer :: "stream_key \<rightharpoonup> 64 word"
  ws_cursor :: "bytes option"
  ws_completed :: "message_key \<rightharpoonup> 64 word"
  ws_reassembler :: reassembler

definition new_websocket_state :: websocket_state where
  "new_websocket_state = \<lparr>ws_outbound = [], ws_sequencer = Map.empty, ws_cursor = None,
     ws_completed = Map.empty, ws_reassembler = []\<rparr>"

definition client_message_key :: "client_envelope \<Rightarrow> (message_key \<times> 64 word) option" where
  "client_message_key e = (case ce_seq e of
     None \<Rightarrow> None
   | Some q \<Rightarrow>
       if ce_type e \<noteq> ClientMessageChunk \<and> \<not> (ce_type e = ClientMessage \<and> ce_reassembled e) then None
       else Some (case ce_stream e of
           None \<Rightarrow> \<lparr>mk_client = ce_client e, mk_stream = '''', mk_has_stream = False\<rparr>
         | Some s \<Rightarrow> \<lparr>mk_client = ce_client e, mk_stream = s, mk_has_stream = True\<rparr>, q))"

definition already_completed :: "client_envelope \<Rightarrow> websocket_state \<Rightarrow> bool" where
  "already_completed e ws = (case client_message_key e of
     None \<Rightarrow> False
   | Some (key, q) \<Rightarrow> (case ws_completed ws key of None \<Rightarrow> False | Some seen \<Rightarrow> q \<le> seen))"

definition stale_chunk :: "client_envelope \<Rightarrow> reassembler \<Rightarrow> bool" where
  "stale_chunk e r = (ce_type e = ClientMessageChunk \<and>
     (case (ce_seq e, ce_segment_id e, ce_stream e) of
        (Some q, Some seg, Some stream) \<Rightarrow> should_ignore_chunk (ce_client e) stream q seg r
      | _ \<Rightarrow> False))"

definition observe_client_message ::
  "int \<Rightarrow> client_envelope option \<Rightarrow> int \<Rightarrow> websocket_state \<Rightarrow> observation \<times> websocket_state" where
  "observe_client_message now envelope wire_size ws = (case envelope of
     None \<Rightarrow> (Dropped, ws)
   | Some e \<Rightarrow>
       if already_completed e ws then (Dropped, ws)
       else if stale_chunk e (ws_reassembler ws) then (Dropped, ws)
       else if client_message_key e \<noteq> None \<and> wire_size > segment_max_bytes then
         (Dropped, (case ce_stream e of
            None \<Rightarrow> ws
          | Some s \<Rightarrow> ws\<lparr>ws_reassembler := invalidate_stream (ce_client e) s (ws_reassembler ws)\<rparr>))
       else (case observe now (Some e) (ws_reassembler ws) of
           (obs, r) \<Rightarrow> (obs, ws\<lparr>ws_reassembler := r\<rparr>)))"

text \<open>Acknowledgements: a cursor without a segment covers every segment of its sequence number.\<close>

definition max_int :: int where
  "max_int = 9223372036854775807"

definition server_segment_cursor :: "server_envelope \<Rightarrow> int" where
  "server_segment_cursor e =
     (if se_type e \<noteq> ServerMessageChunk then max_int
      else (case se_segment_id e of None \<Rightarrow> max_int | Some s \<Rightarrow> s))"

definition ack_segment_cursor :: "int option \<Rightarrow> int" where
  "ack_segment_cursor seg = (case seg of None \<Rightarrow> max_int | Some s \<Rightarrow> s)"

definition cursor_after :: "64 word \<times> int \<Rightarrow> 64 word \<times> int \<Rightarrow> bool" where
  "cursor_after c d = (if fst c \<noteq> fst d then fst c > fst d else snd c > snd d)"

definition envelope_cursor :: "server_envelope \<Rightarrow> 64 word \<times> int" where
  "envelope_cursor e = (se_seq e, server_segment_cursor e)"

definition buffer_insert ::
  "server_envelope option \<Rightarrow> (stream_key \<times> server_envelope list) list \<Rightarrow> (stream_key \<times> server_envelope list) list" where
  "buffer_insert envelope b = (case envelope of
     None \<Rightarrow> b
   | Some e \<Rightarrow>
       let key = (se_client e, se_stream e);
           old = (case map_of b key of None \<Rightarrow> [] | Some es \<Rightarrow> es)
       in AList.update key (old @ [e]) b)"

definition buffer_ack ::
  "bytes \<Rightarrow> bytes \<Rightarrow> 64 word \<Rightarrow> int option \<Rightarrow> (stream_key \<times> server_envelope list) list \<Rightarrow>
   (stream_key \<times> server_envelope list) list" where
  "buffer_ack client stream q seg b = (case map_of b (client, stream) of
     None \<Rightarrow> b
   | Some es \<Rightarrow>
       if es = [] then b
       else
         let rest = filter (\<lambda>e. cursor_after (envelope_cursor e) (q, ack_segment_cursor seg)) es
         in if rest = [] then AList.delete (client, stream) b else AList.update (client, stream) rest b)"

definition for_stream :: "bytes \<Rightarrow> bytes \<Rightarrow> (stream_key \<times> server_envelope list) list \<Rightarrow> server_envelope list" where
  "for_stream client stream b = (case map_of b (client, stream) of None \<Rightarrow> [] | Some es \<Rightarrow> es)"

definition buffered_envelopes :: "(stream_key \<times> server_envelope list) list \<Rightarrow> server_envelope list" where
  "buffered_envelopes b = concat (map (\<lambda>(c, s). for_stream c s b) (sort (keys_of b)))"

definition next_seq_id :: "bytes \<Rightarrow> bytes \<Rightarrow> (stream_key \<rightharpoonup> 64 word) \<Rightarrow> 64 word \<times> (stream_key \<rightharpoonup> 64 word)" where
  "next_seq_id client stream m =
     (let stored = (case m (client, stream) of None \<Rightarrow> 0 | Some n \<Rightarrow> n);
          next = (if stored = 0 then 1 else stored)
      in (next, m((client, stream) \<mapsto> next + 1)))"

definition record_client_message_delivery :: "client_envelope option \<Rightarrow> websocket_state \<Rightarrow> websocket_state" where
  "record_client_message_delivery envelope ws = (case envelope of
     None \<Rightarrow> ws
   | Some e \<Rightarrow>
       let ws1 = (case ce_cursor e of
                    None \<Rightarrow> ws | Some c \<Rightarrow> if c \<noteq> '''' then ws\<lparr>ws_cursor := Some c\<rparr> else ws);
           ws2 = (case client_message_key e of
                    None \<Rightarrow> ws1
                  | Some (key, q) \<Rightarrow> ws1\<lparr>ws_completed := (ws_completed ws1)(key \<mapsto> q)\<rparr>)
       in if ce_type e = ClientAck then
            (case (ce_seq e, ce_stream e) of
               (Some q, Some s) \<Rightarrow>
                 ws2\<lparr>ws_outbound := buffer_ack (ce_client e) s q (ce_segment_id e) (ws_outbound ws2)\<rparr>
             | _ \<Rightarrow> ws2)
          else ws2)"

definition invalidate_client_message_stream :: "bytes \<Rightarrow> bytes \<Rightarrow> websocket_state \<Rightarrow> websocket_state" where
  "invalidate_client_message_stream client stream ws =
     ws\<lparr>ws_completed := (ws_completed ws)(\<lparr>mk_client = client, mk_stream = stream, mk_has_stream = True\<rparr> := None),
        ws_reassembler := invalidate_stream client stream (ws_reassembler ws)\<rparr>"

definition invalidate_client_message_client :: "bytes \<Rightarrow> websocket_state \<Rightarrow> websocket_state" where
  "invalidate_client_message_client client ws =
     ws\<lparr>ws_completed := (\<lambda>k. if mk_client k = client then None else ws_completed ws k),
        ws_reassembler := invalidate_client client (ws_reassembler ws)\<rparr>"

definition next_server_envelope_seq_id :: "bytes \<Rightarrow> bytes \<Rightarrow> websocket_state \<Rightarrow> 64 word \<times> websocket_state" where
  "next_server_envelope_seq_id client stream ws =
     (case next_seq_id client stream (ws_sequencer ws) of (q, m) \<Rightarrow> (q, ws\<lparr>ws_sequencer := m\<rparr>))"

definition queue_server_envelope :: "server_envelope option \<Rightarrow> websocket_state \<Rightarrow> websocket_state" where
  "queue_server_envelope envelope ws = ws\<lparr>ws_outbound := buffer_insert envelope (ws_outbound ws)\<rparr>"

section \<open>Bounded assemblies\<close>

definition assembly_ok :: "assembly \<Rightarrow> bool" where
  "assembly_ok a \<longleftrightarrow>
     as_stream a \<noteq> '''' \<and> 0 \<le> as_next a \<and> as_next a < sm_count (as_meta a) \<and>
     sm_count (as_meta a) \<le> segment_count_max \<and> sm_bytes (as_meta a) \<le> reassembled_max_bytes \<and>
     int (length (as_raw a)) \<le> sm_bytes (as_meta a)"

definition reassembler_ok :: "reassembler \<Rightarrow> bool" where
  "reassembler_ok r \<longleftrightarrow> go_map r \<and> length r \<le> assembly_max_count \<and> (\<forall>c a. map_of r c = Some a \<longrightarrow> assembly_ok a)"

lemma map_of_delete_subset: "map_of (AList.delete k r) c = Some a \<Longrightarrow> map_of r c = Some a"
  by (simp split: if_splits)

lemma reassembler_ok_delete: "reassembler_ok r \<Longrightarrow> reassembler_ok (AList.delete c r)"
  using length_delete_le [of c r] unfolding reassembler_ok_def by (auto split: if_splits)

lemma reassembler_ok_remove: "reassembler_ok r \<Longrightarrow> reassembler_ok (remove_assembly c s r)"
  by (simp add: remove_assembly_def reassembler_ok_delete split: option.split)

lemma evict_if_full_ok:
  "reassembler_ok r \<Longrightarrow> reassembler_ok (evict_if_full r) \<and> length (evict_if_full r) < assembly_max_count"
proof (induction r rule: evict_if_full.induct)
  case (1 r)
  show ?case
  proof (cases "length r < assembly_max_count")
    case True
    with 1(2) show ?thesis by (subst (1 2) evict_if_full.simps) simp
  next
    case False
    then obtain c a rest where r: "r = (c, a) # rest" by (cases r) auto
    have "evict_if_full r = evict_if_full (AList.delete (oldest_from c (as_seen a) rest) r)"
      using False by (subst evict_if_full.simps) (simp only: r list.case prod.case if_False)
    with 1(1) [OF False r refl reassembler_ok_delete [OF 1(2)]] show ?thesis by simp
  qed
qed

lemma evict_if_full_other: "map_of (evict_if_full r) c = Some a \<Longrightarrow> map_of r c = Some a"
proof (induction r rule: evict_if_full.induct)
  case (1 r)
  show ?case
  proof (cases "length r < assembly_max_count")
    case True
    with 1(2) show ?thesis by (subst (asm) evict_if_full.simps) simp
  next
    case False
    then obtain d b rest where r: "r = (d, b) # rest" by (cases r) auto
    have "evict_if_full r = evict_if_full (AList.delete (oldest_from d (as_seen b) rest) r)"
      using False by (subst evict_if_full.simps) (simp only: r list.case prod.case if_False)
    with 1(1) [OF False r refl] 1(2) show ?thesis by (metis map_of_delete_subset)
  qed
qed

lemma reassembler_ok_update:
  "reassembler_ok r \<Longrightarrow> assembly_ok a \<Longrightarrow> map_of r c \<noteq> None \<or> length r < assembly_max_count \<Longrightarrow>
   reassembler_ok (AList.update c a r)"
  by (cases "map_of r c") (auto simp: reassembler_ok_def length_update_fresh length_update_old)

lemma open_assembly_ok:
  assumes "open_assembly now c s meta r = (a, r1)" and "reassembler_ok r" and "s \<noteq> ''''"
    and "segment_acceptable meta seg chunk"
  shows "reassembler_ok r1 \<and> map_of r1 c = Some a \<and> assembly_ok a \<and> as_stream a = s"
proof -
  have fresh: "assembly_ok (fresh_assembly now s meta)" "as_stream (fresh_assembly now s meta) = s"
    using assms(3,4) by (auto simp: assembly_ok_def fresh_assembly_def segment_acceptable_def)
  show ?thesis
  proof (cases "map_of r c")
    case None
    with assms(1) fresh show ?thesis using evict_if_full_ok [OF assms(2)]
      by (auto simp: open_assembly_def intro!: reassembler_ok_update)
  next
    case (Some b)
    then have "assembly_ok b" using assms(2) by (simp add: reassembler_ok_def)
    with Some assms fresh show ?thesis
      by (auto simp: open_assembly_def split: if_splits intro!: reassembler_ok_update)
  qed
qed

lemma reassembler_ok_delete_update:
  assumes "reassembler_ok r" and "map_of r c \<noteq> None"
  shows "reassembler_ok (AList.delete c (AList.update c b r))"
  using assms length_delete_le [of c "AList.update c b r"] length_update_old [OF assms(2), of b]
  unfolding reassembler_ok_def by (auto split: if_splits)

lemma accept_chunk_ok:
  assumes "accept_chunk now e s meta seg chunk a r = (obs, r')" and "reassembler_ok r"
    and "map_of r (ce_client e) = Some a" and "assembly_ok a" and "as_stream a = s"
  shows "reassembler_ok r'"
proof -
  have step: "reassembler_ok (AList.update (ce_client e) (a\<lparr>as_raw := raw, as_next := as_next a + 1, as_seen := now\<rparr>) r)"
    if "as_next a + 1 < sm_count (as_meta a)" "int (length raw) \<le> sm_bytes (as_meta a)" for raw
    using that assms(2,3,4) by (intro reassembler_ok_update) (auto simp: assembly_ok_def)
  have gone: "reassembler_ok (remove_assembly (ce_client e) s
      (AList.update (ce_client e) (a\<lparr>as_raw := raw, as_next := as_next a + 1, as_seen := now\<rparr>) r))" for raw
    using assms(2,3,5) by (simp add: remove_assembly_def reassembler_ok_delete_update)
  from assms(1) reassembler_ok_remove [OF assms(2)] assms(2) step gone show ?thesis
    unfolding accept_chunk_def Let_def by (auto split: if_splits option.splits)
qed

lemma observe_ok: "reassembler_ok r \<Longrightarrow> reassembler_ok (snd (observe now envelope r))"
proof (cases envelope)
  case (Some e)
  assume r: "reassembler_ok r"
  have accept: "reassembler_ok (snd (accept_chunk now e s meta seg chunk a r1))"
    if "open_assembly now (ce_client e) s meta r = (a, r1)" "s \<noteq> ''''" "segment_acceptable meta seg (Some chunk)"
    for s meta seg chunk a r1
    using open_assembly_ok [OF that(1) r that(2,3)]
    by (cases "accept_chunk now e s meta seg chunk a r1") (auto dest: accept_chunk_ok)
  show ?thesis using r accept reassembler_ok_remove [OF r]
    unfolding observe_def Some by (auto split: option.splits prod.splits)
qed (simp add: observe_def)

datatype reassembler_op = Observe int "client_envelope option" | InvalidateStream bytes bytes | InvalidateClient bytes

fun reassembler_step :: "reassembler_op \<Rightarrow> reassembler \<Rightarrow> reassembler" where
  "reassembler_step (Observe now e) r = snd (observe now e r)"
| "reassembler_step (InvalidateStream c s) r = invalidate_stream c s r"
| "reassembler_step (InvalidateClient c) r = invalidate_client c r"

lemma reassembler_step_ok: "reassembler_ok r \<Longrightarrow> reassembler_ok (reassembler_step op r)"
  by (cases op) (simp_all add: observe_ok invalidate_stream_def invalidate_client_def reassembler_ok_remove reassembler_ok_delete)

text \<open>Whatever a client sends, in any order, the reassembler holds at most 128 unfinished messages,
  one per client, none above its announced size, none above 100 MiB or 1024 segments, and none that is
  complete.\<close>

theorem reassembler_bounded:
  "reassembler_ok (fold reassembler_step ops [])"
proof -
  have "reassembler_ok r \<Longrightarrow> reassembler_ok (fold reassembler_step ops r)" for r
    by (induction ops arbitrary: r) (simp_all add: reassembler_step_ok)
  moreover have "reassembler_ok []" by (simp add: reassembler_ok_def)
  ultimately show ?thesis .
qed

section \<open>Reassembly is the inverse of chunking\<close>

text \<open>The chunk envelopes of a message, and the orders of arrival that complete it: in sequence, with
  any number of repetitions of chunks that came before.\<close>

definition client_chunk :: "client_envelope \<Rightarrow> bytes list \<Rightarrow> nat \<Rightarrow> client_envelope" where
  "client_chunk e cs i = e\<lparr>ce_type := ClientMessageChunk, ce_segment_id := Some (int i),
     ce_segment_count := Some (int (length cs)), ce_message_size := Some (int (length (concat cs))),
     ce_chunk := Some (b64_encode std_alphabet True (cs ! i))\<rparr>"

definition chunked_message :: "client_envelope \<Rightarrow> bytes list \<Rightarrow> bool" where
  "chunked_message e cs \<longleftrightarrow>
     ce_stream e \<noteq> None \<and> ce_stream e \<noteq> Some '''' \<and> ce_seq e \<noteq> None \<and> cs \<noteq> [] \<and> [] \<notin> set cs \<and>
     int (length cs) \<le> segment_count_max \<and> int (length (concat cs)) \<le> reassembled_max_bytes \<and> json_valid (concat cs)"

fun in_order :: "nat \<Rightarrow> nat list \<Rightarrow> nat \<Rightarrow> bool" where
  "in_order n [] m \<longleftrightarrow> n = m"
| "in_order n (i # is) m \<longleftrightarrow> i \<le> n \<and> in_order (if i = n then Suc n else n) is m"

fun observe_all :: "(int \<times> client_envelope) list \<Rightarrow> reassembler \<Rightarrow> observation list \<times> reassembler" where
  "observe_all [] r = ([], r)"
| "observe_all ((now, e) # es) r =
     (case observe now (Some e) r of (obs, r1) \<Rightarrow> (case observe_all es r1 of (rest, r2) \<Rightarrow> (obs # rest, r2)))"

definition chunk_meta :: "client_envelope \<Rightarrow> bytes list \<Rightarrow> segment_metadata" where
  "chunk_meta e cs = \<lparr>sm_seq = the (ce_seq e), sm_count = int (length cs), sm_bytes = int (length (concat cs))\<rparr>"

text \<open>The reassembler after the first \<open>n\<close> chunks.\<close>

definition received :: "client_envelope \<Rightarrow> bytes list \<Rightarrow> nat \<Rightarrow> reassembler \<Rightarrow> bool" where
  "received e cs n r \<longleftrightarrow> (case map_of r (ce_client e) of
     None \<Rightarrow> n = 0
   | Some a \<Rightarrow> 0 < n \<and> as_stream a = the (ce_stream e) \<and> as_meta a = chunk_meta e cs \<and>
       as_raw a = concat (take n cs) \<and> as_next a = int n)"

definition others_kept :: "bool \<Rightarrow> client_envelope \<Rightarrow> reassembler \<Rightarrow> reassembler \<Rightarrow> bool" where
  "others_kept full e r r' \<longleftrightarrow>
     (\<forall>c. c = ce_client e \<or> map_of r' c = map_of r c \<or> full \<and> map_of r' c = None)"

lemma take_chunk_length:
  "n < length cs \<Longrightarrow> length (concat (take n cs)) + length (cs ! n) \<le> length (concat cs)"
proof -
  assume "n < length cs"
  then have "concat cs = concat (take n cs) @ cs ! n @ concat (drop (Suc n) cs)"
    by (metis concat.simps(2) concat_append id_take_nth_drop)
  then show ?thesis by (metis add.assoc le_add1 length_append)
qed

lemma observe_client_chunk:
  assumes "chunked_message e cs" and "i < length cs"
  shows "observe now (Some (client_chunk e cs i)) r =
    (if should_ignore_chunk (ce_client e) (the (ce_stream e)) (the (ce_seq e)) (int i) r then (Dropped, r)
     else case open_assembly now (ce_client e) (the (ce_stream e)) (chunk_meta e cs) r of
       (a, r1) \<Rightarrow> accept_chunk now (client_chunk e cs i) (the (ce_stream e)) (chunk_meta e cs) (int i)
                   (b64_encode std_alphabet True (cs ! i)) a r1)"
proof -
  obtain s q where s: "ce_stream e = Some s" "s \<noteq> ''''" and q: "ce_seq e = Some q"
    using assms(1) by (auto simp: chunked_message_def)
  have "cs ! i \<in> set cs" using assms(2) by simp
  then have "cs ! i \<noteq> []" using assms(1) by (metis chunked_message_def)
  moreover from this have "0 < length (concat cs)"
    using take_chunk_length [OF assms(2)] length_greater_0_conv [of "cs ! i"] by linarith
  ultimately have "segment_acceptable (chunk_meta e cs) (int i) (Some (b64_encode std_alphabet True (cs ! i)))"
    using assms by (auto simp: segment_acceptable_def chunk_meta_def chunked_message_def)
  then show ?thesis
    by (simp add: observe_def client_chunk_def segment_metadata_of_def s q chunk_meta_def [symmetric])
      (simp add: chunk_meta_def q)
qed

lemma reassembled_client_chunk [simp]: "reassembled (client_chunk e cs i) raw = reassembled e raw"
  by (simp add: reassembled_def client_chunk_def)

lemma client_chunk_client [simp]: "ce_client (client_chunk e cs i) = ce_client e"
  by (simp add: client_chunk_def)

lemma repeated_chunk:
  assumes "chunked_message e cs" and "received e cs n r" and "i < n" "n \<le> length cs"
  shows "observe now (Some (client_chunk e cs i)) r = (Dropped, r)"
  using assms by (simp add: observe_client_chunk) (simp add: received_def should_ignore_chunk_def chunk_meta_def
      split: option.splits)

lemma evict_if_full_id: "length r < assembly_max_count \<Longrightarrow> evict_if_full r = r"
  by (subst evict_if_full.simps) (simp only: if_True)

lemma others_kept_open: "others_kept (assembly_max_count \<le> length r) e r (AList.update (ce_client e) a (evict_if_full r))"
proof (cases "length r < assembly_max_count")
  case True
  then show ?thesis by (simp add: others_kept_def evict_if_full_id)
next
  case False
  have "map_of (evict_if_full r) c = None \<or> map_of (evict_if_full r) c = map_of r c" for c
    using evict_if_full_other [of r c] by (cases "map_of (evict_if_full r) c") auto
  with False show ?thesis unfolding others_kept_def by (metis fun_upd_apply map_of_update not_less)
qed

text \<open>The assembly that the next chunk finds, opened when it is the first.\<close>

lemma open_received:
  assumes "received e cs n r"
  obtains a r1 where "open_assembly now (ce_client e) (the (ce_stream e)) (chunk_meta e cs) r = (a, r1)"
    "as_stream a = the (ce_stream e)" "as_meta a = chunk_meta e cs" "as_raw a = concat (take n cs)"
    "as_next a = int n" "map_of r1 (ce_client e) = Some a" "others_kept (n = 0 \<and> assembly_max_count \<le> length r) e r r1"
proof (cases "map_of r (ce_client e)")
  case None
  let ?a = "fresh_assembly now (the (ce_stream e)) (chunk_meta e cs)"
  from None assms have "n = 0" by (simp add: received_def)
  with None that [of ?a "AList.update (ce_client e) ?a (evict_if_full r)"] others_kept_open show ?thesis
    by (simp add: open_assembly_def fresh_assembly_def)
next
  case (Some a)
  with assms that [of a r] show ?thesis by (simp add: open_assembly_def received_def others_kept_def)
qed

lemma others_kept_refl: "others_kept full e r r"
  by (simp add: others_kept_def)

lemma others_kept_trans: "others_kept full e r r1 \<Longrightarrow> others_kept False e r1 r2 \<Longrightarrow> others_kept full e r r2"
  unfolding others_kept_def by metis

lemma others_kept_update: "others_kept full e r r1 \<Longrightarrow> others_kept full e r (AList.update (ce_client e) b r1)"
  by (auto simp: others_kept_def)

lemma others_kept_delete: "others_kept full e r r1 \<Longrightarrow> others_kept full e r (AList.delete (ce_client e) r1)"
  by (auto simp: others_kept_def)

text \<open>The next chunk of the message is stored, and the last one completes it.\<close>

lemma next_chunk:
  assumes msg: "chunked_message e cs" and rec: "received e cs n r" and n: "n < length cs"
  obtains obs r' where "observe now (Some (client_chunk e cs n)) r = (obs, r')"
    "others_kept (n = 0 \<and> assembly_max_count \<le> length r) e r r'"
    "if Suc n = length cs then obs = Forward (reassembled e (concat cs)) \<and> map_of r' (ce_client e) = None
     else obs = Pending \<and> received e cs (Suc n) r'"
proof -
  obtain a r1 where o: "open_assembly now (ce_client e) (the (ce_stream e)) (chunk_meta e cs) r = (a, r1)"
    and a: "as_stream a = the (ce_stream e)" "as_meta a = chunk_meta e cs" "as_raw a = concat (take n cs)"
      "as_next a = int n" and r1: "map_of r1 (ce_client e) = Some a" "others_kept (n = 0 \<and> assembly_max_count \<le> length r) e r r1"
    using open_received [OF rec, of now] by metis
  have fresh: "\<not> should_ignore_chunk (ce_client e) (the (ce_stream e)) (the (ce_seq e)) (int n) r"
    using rec by (simp add: received_def should_ignore_chunk_def chunk_meta_def split: option.splits)
  define b where "b = a\<lparr>as_raw := concat (take (Suc n) cs), as_next := int (Suc n), as_seen := now\<rparr>"
  define r2 where "r2 = AList.update (ce_client e) b r1"
  have raw: "as_raw a @ cs ! n = concat (take (Suc n) cs)" using n by (simp add: a take_Suc_conv_app_nth)
  have len: "int (length (as_raw a)) + int (length (cs ! n)) \<le> sm_bytes (chunk_meta e cs)"
    using take_chunk_length [OF n] by (simp add: a chunk_meta_def)
  have obs: "observe now (Some (client_chunk e cs n)) r =
      (if Suc n = length cs then (Forward (reassembled e (concat cs)), AList.delete (ce_client e) r2) else (Pending, r2))"
  proof -
    have gone: "remove_assembly (ce_client e) (the (ce_stream e)) r2 = AList.delete (ce_client e) r2"
      by (simp add: remove_assembly_def r2_def b_def a)
    have upd: "AList.update (ce_client e) (a\<lparr>as_raw := as_raw a @ cs ! n, as_next := as_next a + 1, as_seen := now\<rparr>) r1 = r2"
      by (simp only: r2_def b_def raw a(4) of_nat_Suc add.commute)
    have valid: "json_valid (concat cs)" using msg by (simp add: chunked_message_def)
    have accept: "accept_chunk now (client_chunk e cs n) (the (ce_stream e)) (chunk_meta e cs) (int n)
        (b64_encode std_alphabet True (cs ! n)) a r1 =
      (if Suc n = length cs then (Forward (reassembled e (concat cs)), AList.delete (ce_client e) r2) else (Pending, r2))"
    proof (cases "Suc n = length cs")
      case True
      then have all: "as_raw a @ cs ! n = concat cs" using raw by simp
      have "sm_count (chunk_meta e cs) = int n + 1" "sm_bytes (chunk_meta e cs) = int (length (concat cs))"
        using True by (simp_all add: chunk_meta_def)
      with True len valid all gone upd show ?thesis
        by (simp add: accept_chunk_def a(2,4) std_base64)
    next
      case False
      then have "int n + 1 < sm_count (chunk_meta e cs)" using n by (simp add: chunk_meta_def)
      with False len upd show ?thesis by (simp add: accept_chunk_def a(2,4) std_base64)
    qed
    show ?thesis using observe_client_chunk [OF msg n, of now r] fresh accept by (simp add: o)
  qed
  have kept: "others_kept (n = 0 \<and> assembly_max_count \<le> length r) e r r2"
    using others_kept_update [OF r1(2)] by (simp add: r2_def)
  have recd: "received e cs (Suc n) r2" by (simp add: received_def r2_def b_def a)
  show thesis
  proof (cases "Suc n = length cs")
    case True
    with that [OF obs [unfolded if_P [OF True]]] others_kept_delete [OF kept] show thesis by simp
  next
    case False
    with that [OF obs [unfolded if_not_P [OF False]]] kept recd show thesis by simp
  qed
qed

lemma observe_all_append:
  "observe_all (xs @ ys) r =
     (case observe_all xs r of (o1, r1) \<Rightarrow> (case observe_all ys r1 of (o2, r2) \<Rightarrow> (o1 @ o2, r2)))"
  by (induction xs arbitrary: r) (auto split: prod.splits)

definition arrivals :: "client_envelope \<Rightarrow> bytes list \<Rightarrow> (int \<times> nat) list \<Rightarrow> (int \<times> client_envelope) list" where
  "arrivals e cs steps = map (\<lambda>(now, i). (now, client_chunk e cs i)) steps"

lemma unfinished_run:
  assumes "chunked_message e cs"
  shows "received e cs n r \<Longrightarrow> in_order n (map snd steps) m \<Longrightarrow> m < length cs \<Longrightarrow>
    \<exists>obs r'. observe_all (arrivals e cs steps) r = (obs, r') \<and> list_all (\<lambda>x. x = Pending \<or> x = Dropped) obs \<and>
      received e cs m r' \<and> others_kept (n = 0 \<and> assembly_max_count \<le> length r) e r r' \<and> (steps = [] \<longrightarrow> r' = r)
      \<and> (m = 0 \<longrightarrow> steps = [])"
proof (induction steps arbitrary: n r)
  case Nil
  then show ?case by (simp add: arrivals_def others_kept_refl)
next
  case (Cons step steps)
  obtain now i where step: "step = (now, i)" by fastforce
  have le: "n' \<le> m" if "in_order n' is m" for n' "is"
    using that by (induction n' "is" m rule: in_order.induct) (auto split: if_splits)
  have i: "i \<le> n" and rest: "in_order (if i = n then Suc n else n) (map snd steps) m" using Cons.prems(2) step by simp_all
  show ?case
  proof (cases "i = n")
    case True
    then have sm: "Suc n \<le> m" using le [OF rest] by simp
    then have inside: "n < length cs" using Cons.prems(3) by simp
    obtain obs r1 where one: "observe now (Some (client_chunk e cs n)) r = (obs, r1)"
      "others_kept (n = 0 \<and> assembly_max_count \<le> length r) e r r1"
      "if Suc n = length cs then obs = Forward (reassembled e (concat cs)) \<and> map_of r1 (ce_client e) = None
       else obs = Pending \<and> received e cs (Suc n) r1"
      by (rule next_chunk [OF assms Cons.prems(1) inside, of now])
    then have unfinished: "obs = Pending" "received e cs (Suc n) r1" using sm Cons.prems(3) by simp_all
    from rest True have rest1: "in_order (Suc n) (map snd steps) m" by simp
    from Cons.IH [OF unfinished(2) rest1 Cons.prems(3)] obtain os r2 where run:
      "observe_all (arrivals e cs steps) r1 = (os, r2)" "list_all (\<lambda>x. x = Pending \<or> x = Dropped) os"
      "received e cs m r2" "others_kept (Suc n = 0 \<and> assembly_max_count \<le> length r1) e r1 r2" by blast
    then have kept: "others_kept False e r1 r2" by simp
    have all_kept: "others_kept (n = 0 \<and> assembly_max_count \<le> length r) e r r2" by (rule others_kept_trans [OF one(2) kept])
    have "observe_all (arrivals e cs (step # steps)) r = (obs # os, r2)"
      using one(1) run(1) True by (simp add: arrivals_def step)
    then show ?thesis using unfinished(1) run(2,3) all_kept sm by fastforce
  next
    case False
    then have "i < n" "n \<le> length cs" using i le [OF rest] Cons.prems(3) by simp_all
    from repeated_chunk [OF assms Cons.prems(1) this]
    have one: "observe now (Some (client_chunk e cs i)) r = (Dropped, r)" .
    from Cons.IH [OF Cons.prems(1) _ Cons.prems(3)] rest False obtain os r2 where
      "observe_all (arrivals e cs steps) r = (os, r2)" "list_all (\<lambda>x. x = Pending \<or> x = Dropped) os"
      "received e cs m r2" "others_kept (n = 0 \<and> assembly_max_count \<le> length r) e r r2" by auto
    with one \<open>i < n\<close> le [OF rest] False show ?thesis by (simp add: arrivals_def step)
  qed
qed


definition example_client :: client_envelope where
  "example_client = \<lparr>ce_type = ClientMessageChunk, ce_message = '''', ce_segment_id = None, ce_segment_count = None,
     ce_message_size = None, ce_chunk = None, ce_client = ''c'', ce_stream = Some ''s'', ce_seq = Some 5,
     ce_cursor = None, ce_reassembled = False\<rparr>"


section \<open>Delivery and acknowledgement\<close>

text \<open>A message is delivered once: after the reassembled message was recorded as delivered, every
  chunk of it that is sent again, whatever its size on the wire, is dropped without any change.\<close>

theorem delivered_once:
  "case ce_seq e of
     None \<Rightarrow> client_message_key (client_chunk e cs i) = None
   | Some q \<Rightarrow>
       observe_client_message now (Some (client_chunk e cs i)) n (record_client_message_delivery (Some (reassembled e raw)) ws) =
         (Dropped, record_client_message_delivery (Some (reassembled e raw)) ws)"
  by (auto simp: client_message_key_def client_chunk_def observe_client_message_def already_completed_def
      record_client_message_delivery_def reassembled_def Let_def split: option.splits)

datatype outbound_op = Queue server_envelope | Ack bytes bytes "64 word" "int option"

fun outbound_step :: "outbound_op \<Rightarrow> (stream_key \<times> server_envelope list) list \<Rightarrow> (stream_key \<times> server_envelope list) list" where
  "outbound_step (Queue e) b = buffer_insert (Some e) b"
| "outbound_step (Ack c s q seg) b = buffer_ack c s q seg b"

text \<open>The specification of one stream: its unacknowledged envelopes in the order they were queued.\<close>

fun stream_step :: "stream_key \<Rightarrow> outbound_op \<Rightarrow> server_envelope list \<Rightarrow> server_envelope list" where
  "stream_step k (Queue e) es = (if (se_client e, se_stream e) = k then es @ [e] else es)"
| "stream_step k (Ack c s q seg) es =
     (if (c, s) = k then filter (\<lambda>e. cursor_after (envelope_cursor e) (q, ack_segment_cursor seg)) es else es)"

definition outbound_ok :: "(stream_key \<times> server_envelope list) list \<Rightarrow> bool" where
  "outbound_ok b \<longleftrightarrow> go_map b \<and> (\<forall>k. map_of b k \<noteq> Some [])"

lemma for_stream_step: "for_stream c s (outbound_step op b) = stream_step (c, s) op (for_stream c s b)"
  by (cases op) (auto simp: for_stream_def buffer_insert_def buffer_ack_def Let_def split: option.splits)

lemma outbound_ok_step: "outbound_ok b \<Longrightarrow> outbound_ok (outbound_step op b)"
  by (cases op) (auto simp: outbound_ok_def buffer_insert_def buffer_ack_def Let_def split: option.splits if_splits)

lemma outbound_keys: "outbound_ok b \<Longrightarrow> k \<in> set (keys_of b) \<longleftrightarrow> for_stream (fst k) (snd k) b \<noteq> []"
  unfolding in_keys_iff outbound_ok_def for_stream_def prod.collapse by (cases k; cases "map_of b k") auto


fun issue_ids :: "stream_key list \<Rightarrow> (stream_key \<rightharpoonup> 64 word) \<Rightarrow> (stream_key \<times> 64 word) list" where
  "issue_ids [] m = []"
| "issue_ids (k # ks) m = (case next_seq_id (fst k) (snd k) m of (q, m') \<Rightarrow> (k, q) # issue_ids ks m')"

text \<open>The sequence ids of a stream are 1, 2, 3, and so on, without gap or repetition, whatever ids
  other streams take in between, until 2^64 ids were issued on it.\<close>

theorem sequence_ids_consecutive:
  "if length (filter ((=) k) ks) < 2 ^ 64 then
     map snd (filter (\<lambda>(j, q). j = k) (issue_ids ks Map.empty)) = map of_nat [1 ..< Suc (length (filter ((=) k) ks))]
   else True"
proof -
  have run: "map snd (filter (\<lambda>(j, q). j = k) (issue_ids ks m)) =
      map of_nat [Suc n ..< Suc (n + length (filter ((=) k) ks))]"
    if "n + length (filter ((=) k) ks) < 2 ^ 64" "m k = (if n = 0 then None else Some (of_nat (Suc n)))" for m n
    using that
  proof (induction ks arbitrary: m n)
    case Nil
    then show ?case by simp
  next
    case (Cons j ks)
    show ?case
    proof (cases "j = k")
      case False
      obtain q m' where q: "next_seq_id (fst j) (snd j) m = (q, m')" by fastforce
      then have "m' k = m k" using False by (auto simp: next_seq_id_def Let_def)
      with False q Cons.IH [of n m'] Cons.prems show ?thesis by (simp del: upt_Suc of_nat_Suc)
    next
      case True
      have lt: "Suc n < 2 ^ 64" using Cons.prems(1) True by simp
      then have "unat (of_nat (Suc n) :: 64 word) = Suc n" by (simp add: unsigned_of_nat take_bit_nat_eq_self del: of_nat_Suc)
      then have nz: "(of_nat (Suc n) :: 64 word) \<noteq> 0" by (metis nat.distinct(1) unat_0)
      have q: "next_seq_id (fst k) (snd k) m = (of_nat (Suc n), m(k \<mapsto> of_nat (Suc (Suc n))))"
        using Cons.prems(2) nz by (auto simp: next_seq_id_def Let_def add.commute)
      have "map snd (filter (\<lambda>(j, q). j = k) (issue_ids ks (m(k \<mapsto> of_nat (Suc (Suc n)))))) =
          map of_nat [Suc (Suc n) ..< Suc (Suc n + length (filter ((=) k) ks))]"
        using Cons.prems(1) True by (intro Cons.IH) (simp_all del: of_nat_Suc)
      with True q show ?thesis by (simp add: upt_rec del: of_nat_Suc)
    qed
  qed
  from run [of 0 Map.empty] show ?thesis by simp
qed

end
