(* ===== verification/Message_Board.thy ===== *)
theory Message_Board
  imports Go_Base64 Go_Json "HOL-Library.List_Lexorder" "HOL-Library.Char_ord" "HOL-Library.Product_Lexorder"
begin

text \<open>
  The message board of an agent tree, \<open>agentboard/inmemory.go\<close> with its requests in \<open>api.go\<close> and
  \<open>types.go\<close> and the paging helpers of \<open>local.go\<close>.  A time is a number of nanoseconds.  What the
  host and the id generator answer during a call is an argument, the record \<open>host_call\<close>; Unicode
  case folding, a third-party package, is the parameter \<open>fold_case\<close>.  Each operation is atomic under
  the lock of the state; \<open>Post\<close> and \<open>UpsertChannel\<close> release it in between and are two steps.
\<close>

declare map_of_eq_Some_iff [simp del]

section \<open>Requests and records\<close>

datatype board_error = InvalidRequest bytes | HostError bytes

record host_call =
  hc_author :: "board_error + bytes"
  hc_resolve :: "bytes \<Rightarrow> board_error + bytes"
  hc_now :: "board_error + int"
  hc_new_id :: "board_error + bytes"

record post_destination =
  pd_kind :: bytes
  pd_name :: bytes
  pd_thread :: bytes

record post_request =
  pr_request_id :: bytes
  pr_destination :: post_destination
  pr_text :: bytes
  pr_notify :: "bytes list"

datatype post_behavior = PostDiscussion | PostSilentAppend
datatype subscription_change = Subscribe | Unsubscribe | OtherSubscription bytes
datatype sort_direction = NewestFirst | OldestFirst | OtherDirection bytes
datatype thread_sort = SortCreated | SortActivity | OtherSort bytes

record subscription_target =
  st_kind :: bytes
  st_channel :: bytes
  st_thread :: bytes

record post_metadata =
  pm_id :: bytes
  pm_channel :: bytes
  pm_author :: bytes
  pm_thread :: bytes
  pm_created :: int

record post_preview =
  pv_meta :: post_metadata
  pv_text :: bytes
  pv_chars :: int
  pv_truncated :: bool

record channel_summary =
  cs_name :: bytes
  cs_description :: "bytes option"
  cs_created :: int
  cs_created_by :: bytes
  cs_count :: int
  cs_last :: "bytes option"

section \<open>The board state\<close>

record board_channel =
  bc_summary :: channel_summary
  bc_search :: bytes
  bc_posts :: "nat list"
  bc_roots :: "nat list"

record board_post =
  bp_meta :: post_metadata
  bp_request :: post_request
  bp_behavior :: post_behavior
  bp_search :: bytes
  bp_chars :: int
  bp_replies :: "nat list"
  bp_latest_reply :: "nat option"

record board_state =
  bs_channels :: "(bytes \<times> board_channel) list"
  bs_posts :: "board_post list"
  bs_by_id :: "bytes \<rightharpoonup> nat"
  bs_requests :: "bytes \<rightharpoonup> nat"
  bs_subscriptions :: "subscription_target \<rightharpoonup> (bytes \<times> subscription_change) list"

definition new_board_state :: board_state where
  "new_board_state = \<lparr>bs_channels = [], bs_posts = [], bs_by_id = Map.empty, bs_requests = Map.empty,
     bs_subscriptions = Map.empty\<rparr>"

definition post_index :: "board_state \<Rightarrow> bytes \<Rightarrow> board_error + nat" where
  "post_index st i = (case bs_by_id st i of
     None \<Rightarrow> Inl (InvalidRequest ''post not found in this board'') | Some k \<Rightarrow> Inr k)"

definition thread_index :: "board_state \<Rightarrow> bytes \<Rightarrow> board_error + nat" where
  "thread_index st i = bind_res (post_index st i) (\<lambda>k.
     if pm_thread (bp_meta (bs_posts st ! k)) \<noteq> i
     then Inl (InvalidRequest ''thread_id must identify a top-level post'') else Inr k)"

definition unix_micro :: "int \<Rightarrow> int" where
  "unix_micro t = t div 1000"

definition post_key :: "board_state \<Rightarrow> nat \<Rightarrow> int \<times> nat" where
  "post_key st k = (unix_micro (pm_created (bp_meta (bs_posts st ! k))), k)"

definition key_greater :: "board_state \<Rightarrow> nat \<Rightarrow> bytes \<Rightarrow> bool" where
  "key_greater st k i = (case bs_by_id st i of
     None \<Rightarrow> True
   | Some j \<Rightarrow>
       (case (post_key st k, post_key st j) of ((created, s), (other, t)) \<Rightarrow>
          if created \<noteq> other then created > other else s > t))"

definition request_key :: "bytes \<Rightarrow> bytes \<Rightarrow> bytes" where
  "request_key caller request_id = caller @ CHR 0x00 # request_id"

definition post_requests_equal :: "post_request \<Rightarrow> post_request \<Rightarrow> bool" where
  "post_requests_equal a b \<longleftrightarrow>
     pr_request_id a = pr_request_id b \<and> pr_destination a = pr_destination b \<and> pr_text a = pr_text b \<and>
     pr_notify a = pr_notify b"

definition existing_post ::
  "board_state \<Rightarrow> bytes \<Rightarrow> post_request \<Rightarrow> post_behavior \<Rightarrow> board_error + post_metadata option" where
  "existing_post st caller request behavior =
     (case bs_requests st (request_key caller (pr_request_id request)) of
        None \<Rightarrow> Inr None
      | Some k \<Rightarrow>
          let p = bs_posts st ! k in
          if \<not> post_requests_equal (bp_request p) request \<or> bp_behavior p \<noteq> behavior
          then Inl (InvalidRequest ''request ID was already used for a different post'')
          else Inr (Some (bp_meta p)))"

section \<open>Channels and subscriptions\<close>

definition contains_control_char :: "bytes \<Rightarrow> bool" where
  "contains_control_char s \<longleftrightarrow> list_ex (\<lambda>r. r < 0x20 \<or> r = 0x7F) (string_runes s)"

definition channel_name_error :: board_error where
  "channel_name_error = InvalidRequest (''channel names must contain 1'' @ [CHR 0xE2, CHR 0x80, CHR 0x93] @
     ''128 bytes without edge whitespace or control characters'')"

definition validate_channel_name :: "bytes \<Rightarrow> board_error option" where
  "validate_channel_name name =
     (if name = '''' \<or> 128 < length name \<or> trim_space name \<noteq> name \<or> contains_control_char name
      then Some channel_name_error else None)"

definition validate_channel_description :: "bytes \<Rightarrow> board_error option" where
  "validate_channel_description d =
     (if 512 < length d
      then Some (InvalidRequest ''channel descriptions must contain at most 512 UTF-8 bytes'') else None)"

definition validate_optional_channel_description :: "bytes option \<Rightarrow> board_error option" where
  "validate_optional_channel_description d =
     (case d of None \<Rightarrow> None | Some s \<Rightarrow> validate_channel_description s)"

definition insert_channel ::
  "(bytes \<Rightarrow> bytes) \<Rightarrow> bytes \<Rightarrow> bytes \<Rightarrow> int \<Rightarrow> bytes option \<Rightarrow> board_state \<Rightarrow> board_error option \<times> board_state" where
  "insert_channel fold_case name author now description st =
     (case validate_channel_name name of
        Some e \<Rightarrow> (Some e, st)
      | None \<Rightarrow>
          if map_of (bs_channels st) name \<noteq> None then (Some (InvalidRequest ''channel already exists''), st)
          else (None, st\<lparr>bs_channels := AList.update name
            \<lparr>bc_summary = \<lparr>cs_name = name, cs_description = description, cs_created = now,
               cs_created_by = author, cs_count = 0, cs_last = None\<rparr>,
             bc_search = fold_case name, bc_posts = [], bc_roots = []\<rparr> (bs_channels st)\<rparr>))"

definition subscribers :: "board_state \<Rightarrow> subscription_target \<Rightarrow> (bytes \<times> subscription_change) list" where
  "subscribers st target = (case bs_subscriptions st target of None \<Rightarrow> [] | Some m \<Rightarrow> m)"

definition subscribe :: "subscription_target \<Rightarrow> bytes \<Rightarrow> board_state \<Rightarrow> board_state" where
  "subscribe target caller st =
     (let m = subscribers st target;
          m' = (case map_of m caller of None \<Rightarrow> AList.update caller Subscribe m | Some _ \<Rightarrow> m)
      in st\<lparr>bs_subscriptions := (bs_subscriptions st)(target \<mapsto> m')\<rparr>)"

definition channel_target :: "bytes \<Rightarrow> subscription_target" where
  "channel_target name = \<lparr>st_kind = ''channel'', st_channel = name, st_thread = ''''\<rparr>"

definition thread_target :: "bytes \<Rightarrow> subscription_target" where
  "thread_target i = \<lparr>st_kind = ''thread'', st_channel = '''', st_thread = i\<rparr>"

record create_channel_request =
  cr_name :: bytes
  cr_description :: "bytes option"
  cr_subscription :: subscription_change

definition create_channel ::
  "(bytes \<Rightarrow> bytes) \<Rightarrow> host_call \<Rightarrow> bytes \<Rightarrow> create_channel_request \<Rightarrow> board_state \<Rightarrow>
   (board_error + channel_summary) \<times> board_state" where
  "create_channel fold_case h caller request st =
     (case validate_optional_channel_description (cr_description request) of
        Some e \<Rightarrow> (Inl e, st)
      | None \<Rightarrow>
          (case (hc_author h, hc_now h) of
             (Inl e, _) \<Rightarrow> (Inl e, st)
           | (Inr _, Inl e) \<Rightarrow> (Inl e, st)
           | (Inr author, Inr now) \<Rightarrow>
               (case insert_channel fold_case (cr_name request) author now (cr_description request) st of
                  (Some e, st1) \<Rightarrow> (Inl e, st1)
                | (None, st1) \<Rightarrow>
                    let st2 = (if cr_subscription request = Subscribe
                               then subscribe (channel_target (cr_name request)) caller st1 else st1)
                    in (Inr (bc_summary (the (map_of (bs_channels st2) (cr_name request)))), st2))))"

definition set_description :: "bytes \<Rightarrow> bytes \<Rightarrow> board_channel \<Rightarrow> board_state \<Rightarrow> board_state" where
  "set_description name description c st =
     st\<lparr>bs_channels := AList.update name
          (c\<lparr>bc_summary := (bc_summary c)\<lparr>cs_description := Some description\<rparr>\<rparr>) (bs_channels st)\<rparr>"

text \<open>The two critical sections of \<open>UpsertChannel\<close>: updating an existing channel, and the second look
  once the clock answered.\<close>

definition upsert_existing :: "bytes \<Rightarrow> bytes \<Rightarrow> board_state \<Rightarrow> board_state option" where
  "upsert_existing name description st =
     map_option (\<lambda>c. set_description name description c st) (map_of (bs_channels st) name)"

definition upsert_insert ::
  "(bytes \<Rightarrow> bytes) \<Rightarrow> bytes \<Rightarrow> bytes \<Rightarrow> bytes \<Rightarrow> int \<Rightarrow> board_state \<Rightarrow> board_error option \<times> board_state" where
  "upsert_insert fold_case name description author now st =
     (case upsert_existing name description st of
        Some st1 \<Rightarrow> (None, st1)
      | None \<Rightarrow> insert_channel fold_case name author now (Some description) st)"

definition upsert_channel ::
  "(bytes \<Rightarrow> bytes) \<Rightarrow> host_call \<Rightarrow> bytes \<Rightarrow> bytes \<Rightarrow> board_state \<Rightarrow> board_error option \<times> board_state" where
  "upsert_channel fold_case h name description st =
     (case validate_channel_name name of
        Some e \<Rightarrow> (Some e, st)
      | None \<Rightarrow>
          (case validate_channel_description description of
             Some e \<Rightarrow> (Some e, st)
           | None \<Rightarrow>
               (case hc_author h of
                  Inl e \<Rightarrow> (Some e, st)
                | Inr author \<Rightarrow>
                    (case upsert_existing name description st of
                       Some st1 \<Rightarrow> (None, st1)
                     | None \<Rightarrow>
                         (case hc_now h of
                            Inl e \<Rightarrow> (Some e, st)
                          | Inr now \<Rightarrow> upsert_insert fold_case name description author now st)))))"

section \<open>Posting\<close>

definition validate_post_request :: "post_request \<Rightarrow> board_error option" where
  "validate_post_request r =
     (if pr_text r = '''' \<or> 65536 < length (pr_text r) \<or> pr_request_id r = '''' \<or>
         512 < length (pr_request_id r) \<or> 256 < length (pr_notify r)
      then Some (InvalidRequest ''post text, request ID or recipient count exceeds the board limits'') else None)"

definition resolve_destination ::
  "(bytes \<Rightarrow> bytes) \<Rightarrow> post_destination \<Rightarrow> bytes \<Rightarrow> int \<Rightarrow> bytes \<Rightarrow> bytes \<Rightarrow> post_behavior \<Rightarrow> board_state \<Rightarrow>
   (board_error + bytes \<times> bytes \<times> subscription_target) \<times> board_state" where
  "resolve_destination fold_case d author now caller i behavior st =
     (if pd_kind d = ''channel'' then
        (if map_of (bs_channels st) (pd_name d) = None
         then (Inl (InvalidRequest ''channel not found in this board''), st)
         else (Inr (pd_name d, i, channel_target (pd_name d)), st))
      else if pd_kind d = ''new_channel'' then
        (case insert_channel fold_case (pd_name d) author now None st of
           (Some e, st1) \<Rightarrow> (Inl e, st1)
         | (None, st1) \<Rightarrow>
             (Inr (pd_name d, i, channel_target (pd_name d)),
              if behavior = PostDiscussion then subscribe (channel_target (pd_name d)) caller st1 else st1))
      else if pd_kind d = ''thread'' then
        (case thread_index st (pd_thread d) of
           Inl e \<Rightarrow> (Inl e, st)
         | Inr k \<Rightarrow> (Inr (pm_channel (bp_meta (bs_posts st ! k)), pd_thread d, thread_target (pd_thread d)), st))
      else (Inl (InvalidRequest ''post destination is required''), st))"

definition preview :: "board_post \<Rightarrow> int \<Rightarrow> post_preview" where
  "preview p max_chars =
     \<lparr>pv_meta = bp_meta p,
      pv_text = string_of_runes (take (nat max_chars) (string_runes (pr_text (bp_request p)))),
      pv_chars = bp_chars p, pv_truncated = (bp_chars p > max_chars)\<rparr>"

text \<open>The agents a discussion post notifies: those it names and the subscribers of its target, but never
  its author; \<open>notifyRecipients\<close> goes through them in order.\<close>

definition post_recipients ::
  "bytes list \<Rightarrow> bytes \<Rightarrow> subscription_target \<Rightarrow> post_behavior \<Rightarrow> board_state \<Rightarrow> bytes list" where
  "post_recipients resolved caller target behavior st =
     sort (remdups (filter (\<lambda>a. a \<noteq> caller)
       (resolved @ (if behavior = PostDiscussion
          then map fst (filter (\<lambda>(_, c). c = Subscribe) (subscribers st target)) else []))))"

text \<open>Storing the post: its channel, and the thread it replies to, are updated with it.\<close>

definition add_to_channel :: "bytes \<Rightarrow> nat \<Rightarrow> bytes \<Rightarrow> bool \<Rightarrow> board_state \<Rightarrow> board_state" where
  "add_to_channel name k i is_root st = (case map_of (bs_channels st) name of
     None \<Rightarrow> st
   | Some c \<Rightarrow>
       let s = bc_summary c;
           newest = (case cs_last s of None \<Rightarrow> True | Some l \<Rightarrow> key_greater st k l)
       in st\<lparr>bs_channels := AList.update name
            (c\<lparr>bc_posts := bc_posts c @ [k], bc_roots := (if is_root then bc_roots c @ [k] else bc_roots c),
               bc_summary := s\<lparr>cs_count := cs_count s + 1, cs_last := (if newest then Some i else cs_last s)\<rparr>\<rparr>)
            (bs_channels st)\<rparr>)"

definition add_reply :: "bytes \<Rightarrow> nat \<Rightarrow> board_state \<Rightarrow> board_state" where
  "add_reply root k st =
     (let j = (case bs_by_id st root of None \<Rightarrow> 0 | Some j \<Rightarrow> j);
          t = bs_posts st ! j;
          newest = (case bp_latest_reply t of
                      None \<Rightarrow> True
                    | Some l \<Rightarrow> key_greater st k (pm_id (bp_meta (bs_posts st ! l))))
      in st\<lparr>bs_posts := (bs_posts st)[j := t\<lparr>bp_replies := bp_replies t @ [k],
             bp_latest_reply := (if newest then Some k else bp_latest_reply t)\<rparr>]\<rparr>)"

definition store_entry ::
  "(bytes \<Rightarrow> bytes) \<Rightarrow> bytes \<Rightarrow> post_request \<Rightarrow> post_behavior \<Rightarrow> post_metadata \<Rightarrow> board_state \<Rightarrow> board_state" where
  "store_entry fold_case caller request behavior meta st =
     (let k = length (bs_posts st)
      in st\<lparr>bs_requests := (bs_requests st)(request_key caller (pr_request_id request) \<mapsto> k),
            bs_by_id := (bs_by_id st)(pm_id meta \<mapsto> k),
            bs_posts := bs_posts st @ [\<lparr>bp_meta = meta, bp_request = request, bp_behavior = behavior,
              bp_search = fold_case (pr_text request), bp_chars = int (length (string_runes (pr_text request))),
              bp_replies = [], bp_latest_reply = None\<rparr>]\<rparr>)"

definition store_post ::
  "(bytes \<Rightarrow> bytes) \<Rightarrow> bytes \<Rightarrow> post_request \<Rightarrow> post_behavior \<Rightarrow> post_metadata \<Rightarrow> board_state \<Rightarrow> board_state" where
  "store_post fold_case caller request behavior meta st =
     (let k = length (bs_posts st);
          is_root = (pm_thread meta = pm_id meta);
          st1 = store_entry fold_case caller request behavior meta st;
          st2 = add_to_channel (pm_channel meta) k (pm_id meta) is_root st1;
          st3 = (if is_root then st2 else add_reply (pm_thread meta) k st2)
      in if behavior = PostDiscussion then subscribe (thread_target (pm_thread meta)) caller st3 else st3)"

text \<open>The second critical section of \<open>postInner\<close>: it looks for the request again, so that of several
  attempts that overlap only one stores a post.  The result names whom to notify and with what.\<close>

definition post_commit ::
  "(bytes \<Rightarrow> bytes) \<Rightarrow> board_error + bytes \<Rightarrow> bytes \<Rightarrow> bytes \<Rightarrow> bytes list \<Rightarrow> int \<Rightarrow> post_request \<Rightarrow> post_behavior \<Rightarrow>
   board_state \<Rightarrow> (board_error + post_metadata \<times> (bytes list \<times> post_preview) option) \<times> board_state" where
  "post_commit fold_case new_id caller author resolved now request behavior st =
     (case existing_post st caller request behavior of
        Inl e \<Rightarrow> (Inl e, st)
      | Inr (Some meta) \<Rightarrow> (Inr (meta, None), st)
      | Inr None \<Rightarrow>
          (case new_id of
             Inl e \<Rightarrow> (Inl e, st)
           | Inr i \<Rightarrow>
               (case resolve_destination fold_case (pr_destination request) author now caller i behavior st of
                  (Inl e, st1) \<Rightarrow> (Inl e, st1)
                | (Inr (channel, root, target), st1) \<Rightarrow>
                    let meta = \<lparr>pm_id = i, pm_channel = channel, pm_author = author, pm_thread = root, pm_created = now\<rparr>;
                        recipients = post_recipients resolved caller target behavior st1;
                        st2 = store_post fold_case caller request behavior meta st1
                    in (Inr (meta,
                          if behavior = PostSilentAppend \<or> recipients = [] then None
                          else Some (recipients, preview (bs_posts st2 ! length (bs_posts st1)) 150)),
                        st2))))"

fun resolve_agents :: "(bytes \<Rightarrow> board_error + bytes) \<Rightarrow> bytes list \<Rightarrow> board_error + bytes list" where
  "resolve_agents f [] = Inr []"
| "resolve_agents f (p # ps) = bind_res (f p) (\<lambda>a. bind_res (resolve_agents f ps) (\<lambda>rest. Inr (a # rest)))"

definition post_inner ::
  "(bytes \<Rightarrow> bytes) \<Rightarrow> host_call \<Rightarrow> bytes \<Rightarrow> post_request \<Rightarrow> post_behavior \<Rightarrow> board_state \<Rightarrow>
   (board_error + post_metadata \<times> (bytes list \<times> post_preview) option) \<times> board_state" where
  "post_inner fold_case h caller request behavior st =
     (case validate_post_request request of
        Some e \<Rightarrow> (Inl e, st)
      | None \<Rightarrow>
          (case hc_author h of
             Inl e \<Rightarrow> (Inl e, st)
           | Inr author \<Rightarrow>
               (case existing_post st caller request behavior of
                  Inl e \<Rightarrow> (Inl e, st)
                | Inr (Some meta) \<Rightarrow> (Inr (meta, None), st)
                | Inr None \<Rightarrow>
                    (case (if behavior = PostDiscussion then resolve_agents (hc_resolve h) (pr_notify request) else Inr []) of
                       Inl e \<Rightarrow> (Inl e, st)
                     | Inr resolved \<Rightarrow>
                         (case hc_now h of
                            Inl e \<Rightarrow> (Inl e, st)
                          | Inr now \<Rightarrow>
                              post_commit fold_case (hc_new_id h) caller author resolved now request behavior st)))))"

definition post :: "(bytes \<Rightarrow> bytes) \<Rightarrow> host_call \<Rightarrow> bytes \<Rightarrow> post_request \<Rightarrow> board_state \<Rightarrow>
   (board_error + post_metadata \<times> (bytes list \<times> post_preview) option) \<times> board_state" where
  "post fold_case h caller request st = post_inner fold_case h caller request PostDiscussion st"

definition append_evidence :: "(bytes \<Rightarrow> bytes) \<Rightarrow> host_call \<Rightarrow> bytes \<Rightarrow> bytes \<Rightarrow> post_destination \<Rightarrow> bytes \<Rightarrow> board_state \<Rightarrow>
   (board_error + post_metadata \<times> (bytes list \<times> post_preview) option) \<times> board_state" where
  "append_evidence fold_case h caller request_id destination body st =
     post_inner fold_case h caller \<lparr>pr_request_id = request_id, pr_destination = destination, pr_text = body,
       pr_notify = []\<rparr> PostSilentAppend st"

section \<open>Subscriptions\<close>

record subscription_request =
  sr_target :: subscription_target
  sr_agent :: "bytes option"
  sr_change :: subscription_change

record subscription_state =
  ss_channel :: bytes
  ss_thread :: "bytes option"
  ss_agent :: bytes
  ss_enabled :: bool
  ss_last :: "bytes option"

definition subscription_place ::
  "subscription_target \<Rightarrow> board_state \<Rightarrow> board_error + bytes \<times> bytes option \<times> bytes option" where
  "subscription_place target st =
     (if st_kind target = ''channel'' then
        (case map_of (bs_channels st) (st_channel target) of
           None \<Rightarrow> Inl (InvalidRequest ''channel not found in this board'')
         | Some c \<Rightarrow> Inr (st_channel target, None, cs_last (bc_summary c)))
      else if st_kind target = ''thread'' then
        bind_res (thread_index st (st_thread target)) (\<lambda>k.
          let p = bs_posts st ! k;
              last_index = (case bp_latest_reply p of
                 None \<Rightarrow> k | Some l \<Rightarrow> if key_greater st l (pm_id (bp_meta p)) then l else k)
          in Inr (pm_channel (bp_meta p), Some (pm_id (bp_meta p)), Some (pm_id (bp_meta (bs_posts st ! last_index)))))
      else Inl (InvalidRequest ''subscription target is required''))"

definition set_subscription ::
  "host_call \<Rightarrow> subscription_request \<Rightarrow> board_state \<Rightarrow> (board_error + subscription_state) \<times> board_state" where
  "set_subscription h request st =
     (case hc_author h of
        Inl e \<Rightarrow> (Inl e, st)
      | Inr caller_path \<Rightarrow>
          let path = (case sr_agent request of None \<Rightarrow> caller_path | Some p \<Rightarrow> p) in
          (case hc_resolve h path of
             Inl e \<Rightarrow> (Inl e, st)
           | Inr agent \<Rightarrow>
               (case subscription_place (sr_target request) st of
                  Inl e \<Rightarrow> (Inl e, st)
                | Inr (channel, thread, last_id) \<Rightarrow>
                    (Inr \<lparr>ss_channel = channel, ss_thread = thread, ss_agent = path,
                       ss_enabled = (sr_change request = Subscribe), ss_last = last_id\<rparr>,
                     st\<lparr>bs_subscriptions := (bs_subscriptions st)(sr_target request \<mapsto>
                          AList.update agent (sr_change request) (subscribers st (sr_target request)))\<rparr>))))"

section \<open>Pages\<close>

record page_request =
  pq_cursor :: "bytes option"
  pq_limit :: int

record 'a page =
  page_results :: "'a list"
  page_next :: "bytes option"

definition normalized_limit :: "int \<Rightarrow> int" where
  "normalized_limit limit = (if limit \<le> 0 then 20 else limit)"

text \<open>A cursor is the base64 of four bytes, the offset with the highest byte first.\<close>

definition page_cursor :: "nat \<Rightarrow> bytes" where
  "page_cursor n = b64_encode url_alphabet False
     [char_of (n div 16777216 mod 256), char_of (n div 65536 mod 256), char_of (n div 256 mod 256), char_of (n mod 256)]"

definition decode_page_cursor :: "bytes option \<Rightarrow> board_error + nat" where
  "decode_page_cursor cursor = (case cursor of
     None \<Rightarrow> Inr 0
   | Some c \<Rightarrow>
       (case b64_decode url_alphabet False (trim_space c) of
          Some [b3, b2, b1, b0] \<Rightarrow>
            Inr (byte_nat b3 * 16777216 + byte_nat b2 * 65536 + byte_nat b1 * 256 + byte_nat b0)
        | _ \<Rightarrow> Inl (InvalidRequest ''invalid cursor'')))"

definition board_window :: "page_request \<Rightarrow> board_error + nat \<times> nat" where
  "board_window q = bind_res (decode_page_cursor (pq_cursor q)) (\<lambda>offset.
     Inr (offset, nat (min (normalized_limit (pq_limit q)) 50)))"

definition finish_board_page :: "nat \<Rightarrow> nat \<Rightarrow> 'a list \<Rightarrow> board_error + 'a page" where
  "finish_board_page offset limit results =
     (if limit < length results then
        (if offset + limit > 0xFFFFFFFF then Inl (InvalidRequest ''cursor offset exceeds the board limit'')
         else Inr \<lparr>page_results = take limit results, page_next = Some (page_cursor (offset + limit))\<rparr>)
      else Inr \<lparr>page_results = results, page_next = None\<rparr>)"

definition page_items :: "page_request \<Rightarrow> 'a list \<Rightarrow> board_error + 'a page" where
  "page_items q results = bind_res (board_window q) (\<lambda>(offset, limit).
     let start = min offset (length results) in finish_board_page start limit (drop start results))"

definition min_positive :: "int \<Rightarrow> int \<Rightarrow> int" where
  "min_positive requested budget =
     (let limit = (if requested \<le> 0 \<or> requested > budget then budget else requested) in
      if limit < 1 then 1 else limit)"

definition search_preview_chars :: "int \<Rightarrow> nat \<Rightarrow> int" where
  "search_preview_chars requested count = min_positive requested (20000 div int (max count 1))"

definition thread_preview_chars :: "int \<Rightarrow> nat \<Rightarrow> int" where
  "thread_preview_chars requested count = min_positive requested (20000 div (2 * int (max count 1)))"

section \<open>Queries\<close>

text \<open>Every query asks the host for the caller's path first and fails with the host's error.\<close>

record post_content =
  pc_meta :: post_metadata
  pc_text :: bytes
  pc_chars :: int
  pc_next_offset :: int

definition clamp_offset :: "int \<Rightarrow> int \<Rightarrow> int" where
  "clamp_offset offset chars = (let o1 = (if offset > chars then chars else offset) in if o1 < 0 then 0 else o1)"

definition clamp_limit :: "int \<Rightarrow> int" where
  "clamp_limit limit = (if limit \<le> 0 \<or> limit > 20000 then 20000 else limit)"

definition read_post :: "host_call \<Rightarrow> bytes \<Rightarrow> int \<Rightarrow> int \<Rightarrow> board_state \<Rightarrow> board_error + post_content" where
  "read_post h i offset_chars limit_chars st =
     bind_res (hc_author h) (\<lambda>_. bind_res (post_index st i) (\<lambda>k.
       let p = bs_posts st ! k;
           offset = clamp_offset offset_chars (bp_chars p);
           limit = clamp_limit limit_chars;
           runes = string_runes (pr_text (bp_request p));
           slice = string_of_runes (take (nat limit) (drop (nat offset) runes))
       in Inr \<lparr>pc_meta = bp_meta p, pc_text = slice, pc_chars = bp_chars p,
                pc_next_offset = offset + int (length (string_runes slice))\<rparr>))"

record channel_query =
  cq_query :: "bytes option"
  cq_direction :: sort_direction
  cq_page :: page_request

definition channel_activity :: "board_state \<Rightarrow> board_channel \<Rightarrow> int" where
  "channel_activity st c =
     (case cs_last (bc_summary c) of
        None \<Rightarrow> unix_micro (cs_created (bc_summary c))
      | Some i \<Rightarrow> (case bs_by_id st i of
            None \<Rightarrow> unix_micro (cs_created (bc_summary c)) | Some k \<Rightarrow> fst (post_key st k)))"

definition in_direction :: "sort_direction \<Rightarrow> 'a list \<Rightarrow> 'a list" where
  "in_direction d xs = (if d = NewestFirst then rev xs else xs)"

definition list_channels ::
  "(bytes \<Rightarrow> bytes) \<Rightarrow> host_call \<Rightarrow> channel_query \<Rightarrow> board_state \<Rightarrow> board_error + channel_summary page" where
  "list_channels fold_case h q st = bind_res (hc_author h) (\<lambda>_.
     let search = (case cq_query q of None \<Rightarrow> '''' | Some s \<Rightarrow> fold_case s);
         found = filter (\<lambda>c. contains_bytes (bc_search c) search) (map snd (bs_channels st));
         ordered = sort_key (\<lambda>c. (channel_activity st c, cs_name (bc_summary c))) found
     in bind_res (page_items (cq_page q) (in_direction (cq_direction q) ordered)) (\<lambda>p.
          Inr \<lparr>page_results = map bc_summary (page_results p), page_next = page_next p\<rparr>))"

record thread_query =
  tq_channel :: bytes
  tq_sort :: thread_sort
  tq_direction :: sort_direction
  tq_page :: page_request
  tq_max_chars :: int

record thread_summary =
  ts_thread :: bytes
  ts_root :: post_preview
  ts_replies :: int
  ts_last_activity :: int
  ts_latest_reply :: "post_preview option"

definition thread_time :: "thread_sort \<Rightarrow> board_state \<Rightarrow> nat \<Rightarrow> int" where
  "thread_time s st k =
     (if s = SortActivity then
        (case bp_latest_reply (bs_posts st ! k) of
           None \<Rightarrow> fst (post_key st k) | Some r \<Rightarrow> max (fst (post_key st k)) (fst (post_key st r)))
      else fst (post_key st k))"

definition thread_summary_of :: "board_state \<Rightarrow> int \<Rightarrow> nat \<Rightarrow> thread_summary" where
  "thread_summary_of st chars k =
     (let root = bs_posts st ! k;
          latest = map_option (\<lambda>r. bs_posts st ! r) (bp_latest_reply root)
      in \<lparr>ts_thread = pm_id (bp_meta root), ts_root = preview root chars, ts_replies = int (length (bp_replies root)),
          ts_last_activity = (case latest of None \<Rightarrow> pm_created (bp_meta root)
            | Some r \<Rightarrow> max (pm_created (bp_meta root)) (pm_created (bp_meta r))),
          ts_latest_reply = map_option (\<lambda>r. preview r chars) latest\<rparr>)"

definition list_threads :: "host_call \<Rightarrow> thread_query \<Rightarrow> board_state \<Rightarrow> board_error + thread_summary page" where
  "list_threads h q st = bind_res (hc_author h) (\<lambda>_.
     case map_of (bs_channels st) (tq_channel q) of
       None \<Rightarrow> Inl (InvalidRequest ''channel not found in this board'')
     | Some c \<Rightarrow>
         let ordered = sort_key (\<lambda>k. (thread_time (tq_sort q) st k, k)) (bc_roots c)
         in bind_res (page_items (tq_page q) (in_direction (tq_direction q) ordered)) (\<lambda>p.
              let chars = thread_preview_chars (tq_max_chars q) (length (page_results p)) in
              Inr \<lparr>page_results = map (thread_summary_of st chars) (page_results p), page_next = page_next p\<rparr>))"

record post_query =
  sq_channel :: "bytes option"
  sq_query :: "bytes option"
  sq_after :: "bytes option"
  sq_author :: "bytes option"
  sq_page :: page_request
  sq_max_chars :: int

definition post_matches :: "board_state \<Rightarrow> bytes option \<Rightarrow> bytes option \<Rightarrow> (int \<times> nat) option \<Rightarrow> nat \<Rightarrow> bool" where
  "post_matches st author search after k =
     (let p = bs_posts st ! k in
      (case author of None \<Rightarrow> True | Some a \<Rightarrow> a = pm_author (bp_meta p)) \<and>
      (case search of None \<Rightarrow> True | Some s \<Rightarrow> contains_bytes (bp_search p) s) \<and>
      (case after of None \<Rightarrow> True
       | Some (created, s) \<Rightarrow> \<not> (fst (post_key st k) < created \<or> fst (post_key st k) = created \<and> k \<le> s)))"

text \<open>Newest first: by creation time, then by sequence, both descending.\<close>

definition newest_first :: "board_state \<Rightarrow> nat list \<Rightarrow> nat list" where
  "newest_first st ks = sort_key (\<lambda>k. (- fst (post_key st k), - int k)) ks"

definition search_candidates :: "bytes option \<Rightarrow> board_state \<Rightarrow> nat list" where
  "search_candidates channel st =
     (case channel of
        None \<Rightarrow> [0 ..< length (bs_posts st)]
      | Some name \<Rightarrow> (case map_of (bs_channels st) name of None \<Rightarrow> [] | Some c \<Rightarrow> bc_posts c))"

definition search_posts ::
  "(bytes \<Rightarrow> bytes) \<Rightarrow> host_call \<Rightarrow> post_query \<Rightarrow> board_state \<Rightarrow> board_error + post_preview page" where
  "search_posts fold_case h q st = bind_res (hc_author h) (\<lambda>_.
     bind_res (case sq_after q of None \<Rightarrow> Inr None | Some i \<Rightarrow> bind_res (post_index st i) (\<lambda>k. Inr (Some (post_key st k))))
       (\<lambda>after.
         let found = filter (post_matches st (sq_author q) (map_option fold_case (sq_query q)) after)
                       (search_candidates (sq_channel q) st)
         in bind_res (page_items (sq_page q) (newest_first st found)) (\<lambda>p.
              let chars = search_preview_chars (sq_max_chars q) (length (page_results p)) in
              Inr \<lparr>page_results = map (\<lambda>k. preview (bs_posts st ! k) chars) (page_results p),
                   page_next = page_next p\<rparr>)))"

record thread_page =
  tp_root :: post_preview
  tp_replies :: "post_preview page"

definition read_thread :: "host_call \<Rightarrow> bytes \<Rightarrow> page_request \<Rightarrow> int \<Rightarrow> board_state \<Rightarrow> board_error + thread_page" where
  "read_thread h thread q max_chars st = bind_res (hc_author h) (\<lambda>_.
     bind_res (thread_index st thread) (\<lambda>k.
       let root = bs_posts st ! k in
       bind_res (page_items q (newest_first st (bp_replies root))) (\<lambda>p.
         let chars = min_positive max_chars (20000 div int (length (page_results p) + 1)) in
         Inr \<lparr>tp_root = preview root chars,
              tp_replies = \<lparr>page_results = map (\<lambda>r. preview (bs_posts st ! r) chars) (page_results p),
                page_next = page_next p\<rparr>\<rparr>)))"

section \<open>Pages cover the results\<close>

lemma byte_digits:
  fixes n :: nat
  assumes "n < 4294967296"
  shows "n div 16777216 mod 256 * 16777216 + n div 65536 mod 256 * 65536 + n div 256 mod 256 * 256 + n mod 256 = n"
proof -
  have e: "n div 65536 = n div 256 div 256" "n div 16777216 = n div 256 div 256 div 256"
    by (simp_all add: div_mult2_eq [symmetric])
  have "n div 256 div 256 div 256 < 256"
    using assms by (intro less_mult_imp_div_less) simp
  moreover have "256 * (n div 256) + n mod 256 = n" "256 * (n div 256 div 256) + n div 256 mod 256 = n div 256"
    "256 * (n div 256 div 256 div 256) + n div 256 div 256 mod 256 = n div 256 div 256"
    by (rule mult_div_mod_eq)+
  ultimately show ?thesis unfolding e by (simp only: mod_less)
qed

lemma url_graphic: "c \<in> set url_alphabet \<Longrightarrow> ascii_graphic c"
proof -
  have "list_all ascii_graphic url_alphabet" by code_simp
  then show "c \<in> set url_alphabet \<Longrightarrow> ascii_graphic c" unfolding list_all_iff by blast
qed

lemma b64_raw_alphabet: "alphabet_ok al \<Longrightarrow> set (b64_encode al False s) \<subseteq> set al"
proof (induction al False s rule: b64_encode.induct)
  case (2 al a)
  with set_b64_digits(1) [OF 2 b64_value_less(3) [of a], of 2] show ?case by (simp only: b64_encode.simps b64_pad_def if_False append_Nil2)
next
  case (3 al a b)
  with set_b64_digits(1) [OF 3 b64_value_less(2) [of a b], of 3] show ?case by (simp only: b64_encode.simps b64_pad_def if_False append_Nil2)
next
  case (4 al a b c s)
  with set_b64_digits(2) [OF 4(2) b64_value_less(1) [of a b c]] show ?case
    unfolding b64_encode.simps set_append by blast
qed simp

lemma trim_space_graphic: "(\<And>c. c \<in> set s \<Longrightarrow> ascii_graphic c) \<Longrightarrow> trim_space s = s"
proof (cases s)
  case (Cons c t)
  assume "\<And>c. c \<in> set s \<Longrightarrow> ascii_graphic c"
  then have "ascii_graphic (hd s)" "ascii_graphic (last s)" "s = butlast s @ [last s]" "s \<noteq> []" using Cons by simp_all
  have "trailing_space (butlast s @ [last s]) = None" by (rule trailing_space_graphic) fact
  moreover have "leading_space s = None" using Cons \<open>ascii_graphic (hd s)\<close> by simp
  ultimately show ?thesis using \<open>s = butlast s @ [last s]\<close> by (intro trim_space_id) simp_all
qed simp

lemma decode_page_cursor: "n < 4294967296 \<Longrightarrow> decode_page_cursor (Some (page_cursor n)) = Inr n"
proof -
  assume n: "n < 4294967296"
  have "trim_space (page_cursor n) = page_cursor n"
    using b64_raw_alphabet [OF url_alphabet_ok] url_graphic unfolding page_cursor_def by (intro trim_space_graphic) blast
  moreover have "b64_decode url_alphabet False (page_cursor n) =
      Some [char_of (n div 16777216 mod 256), char_of (n div 65536 mod 256), char_of (n div 256 mod 256), char_of (n mod 256)]"
    unfolding page_cursor_def by (rule url_base64)
  moreover have "n div 16777216 < 256" using n by (intro less_mult_imp_div_less) simp
  ultimately show ?thesis using byte_digits [OF n] by (simp add: decode_page_cursor_def)
qed

text \<open>Following the cursors of a query from its first page.\<close>

fun page_walk :: "nat \<Rightarrow> int \<Rightarrow> 'a list \<Rightarrow> bytes option \<Rightarrow> board_error + 'a list list" where
  "page_walk 0 limit results cursor = Inr []"
| "page_walk (Suc n) limit results cursor =
     bind_res (page_items \<lparr>pq_cursor = cursor, pq_limit = limit\<rparr> results) (\<lambda>p. case page_next p of
         None \<Rightarrow> Inr [page_results p]
       | Some c \<Rightarrow> bind_res (page_walk n limit results (Some c)) (\<lambda>rest. Inr (page_results p # rest)))"

lemma page_limit_range: "1 \<le> nat (min (normalized_limit limit) 50) \<and> nat (min (normalized_limit limit) 50) \<le> 50"
  by (auto simp: normalized_limit_def)

lemma page_walk_from:
  assumes "length results < 4294967296"
  shows "decode_page_cursor cursor = Inr k \<Longrightarrow> k \<le> length results \<Longrightarrow> length results - k < n \<Longrightarrow>
    \<exists>pages. page_walk n limit results cursor = Inr pages \<and> concat pages = drop k results \<and>
      list_all (\<lambda>p. int (length p) \<le> min (normalized_limit limit) 50) pages"
proof (induction n arbitrary: cursor k)
  case (Suc n)
  define m where "m = nat (min (normalized_limit limit) 50)"
  have m: "1 \<le> m" "int m = min (normalized_limit limit) 50"
    using page_limit_range [of limit] by (auto simp: m_def normalized_limit_def)
  have items: "page_items \<lparr>pq_cursor = cursor, pq_limit = limit\<rparr> results = finish_board_page k m (drop k results)"
    using Suc.prems(1,2) by (simp add: page_items_def board_window_def m_def min_absorb1)
  show ?case
  proof (cases "m < length results - k")
    case False
    then have "int (length (drop k results)) \<le> int m" by simp
    then have "int (length (drop k results)) \<le> min (normalized_limit limit) 50" by (simp only: m(2))
    then show ?thesis using False items by (simp add: finish_board_page_def)
  next
    case True
    then have nxt: "decode_page_cursor (Some (page_cursor (k + m))) = Inr (k + m)"
      using assms by (intro decode_page_cursor) simp
    have "k + m \<le> length results" "length results - (k + m) < n" using True m(1) Suc.prems(3) by simp_all
    from Suc.IH [OF nxt this] obtain pages where pages: "page_walk n limit results (Some (page_cursor (k + m))) = Inr pages"
      "concat pages = drop (k + m) results" "list_all (\<lambda>p. int (length p) \<le> min (normalized_limit limit) 50) pages" by blast
    have "take m (drop k results) @ drop (k + m) results = drop k results"
      by (metis add.commute append_take_drop_id drop_drop)
    moreover have "\<not> 4294967295 < k + m" using True assms by simp
    moreover have "m \<le> 50" "int m \<le> normalized_limit limit" using m(2) by simp_all
    ultimately show ?thesis using True items pages by (simp add: finish_board_page_def)
  qed
qed simp

text \<open>Following the cursors of a query visits every result exactly once and in order, in pages of at
  most the requested size and never more than 50, whatever the requested size is.\<close>

theorem pages_cover_results:
  assumes "length results < 4294967296"
  shows "\<exists>pages. page_walk (Suc (length results)) limit results None = Inr pages \<and> concat pages = results \<and>
    list_all (\<lambda>p. int (length p) \<le> min (normalized_limit limit) 50) pages"
  using page_walk_from [OF assms, of None 0 "Suc (length results)" limit] by (simp add: decode_page_cursor_def)

theorem pages_cover_results_witness:
  "\<exists>pages. page_walk 4 2 [True, False, True] None = Inr pages \<and> concat pages = [True, False, True] \<and>
    list_all (\<lambda>p. int (length p) \<le> min (normalized_limit 2) 50) pages"
proof -
  have len: "length [True, False, True] = 3" and four: "Suc 3 = 4" by simp_all
  show ?thesis by (rule pages_cover_results [of "[True, False, True]" 2, unfolded len four]) simp
qed

end
