(* ===== verification/Board_Invariants.thy ===== *)
theory Board_Invariants
  imports Message_Board
begin

text \<open>
  What every state of the message board satisfies: the indexes a post is entered into (its channel's
  lists and counters, its thread's replies, the lookup by id) are functions of the posts' metadata.
  The steps are the critical sections of the operations, in any interleaving.
\<close>

declare map_of_eq_Some_iff [simp del]

section \<open>Indexes as functions of the metadata\<close>

definition metas :: "board_state \<Rightarrow> post_metadata list" where
  "metas st = map bp_meta (bs_posts st)"

definition index_filter :: "('a \<Rightarrow> bool) \<Rightarrow> 'a list \<Rightarrow> nat list" where
  "index_filter P ms = filter (\<lambda>k. P (ms ! k)) [0 ..< length ms]"

definition channel_posts :: "post_metadata list \<Rightarrow> bytes \<Rightarrow> nat list" where
  "channel_posts ms name = index_filter (\<lambda>m. pm_channel m = name) ms"

definition channel_roots :: "post_metadata list \<Rightarrow> bytes \<Rightarrow> nat list" where
  "channel_roots ms name = index_filter (\<lambda>m. pm_channel m = name \<and> pm_thread m = pm_id m) ms"

definition thread_replies :: "post_metadata list \<Rightarrow> bytes \<Rightarrow> nat list" where
  "thread_replies ms i = index_filter (\<lambda>m. pm_thread m = i \<and> pm_thread m \<noteq> pm_id m) ms"

definition meta_key :: "post_metadata list \<Rightarrow> nat \<Rightarrow> int \<times> nat" where
  "meta_key ms k = (unix_micro (pm_created (ms ! k)), k)"

text \<open>The newest of some posts: the latest creation time, then the latest in sequence.\<close>

definition newest_of :: "post_metadata list \<Rightarrow> nat list \<Rightarrow> nat option" where
  "newest_of ms ks = (if ks = [] then None else Some (snd (Max (meta_key ms ` set ks))))"

definition channel_ok :: "post_metadata list \<Rightarrow> bytes \<Rightarrow> board_channel \<Rightarrow> bool" where
  "channel_ok ms name c \<longleftrightarrow>
     cs_name (bc_summary c) = name \<and> bc_posts c = channel_posts ms name \<and> bc_roots c = channel_roots ms name \<and>
     cs_count (bc_summary c) = int (length (channel_posts ms name)) \<and>
     cs_last (bc_summary c) = map_option (\<lambda>k. pm_id (ms ! k)) (newest_of ms (channel_posts ms name))"

definition post_ok :: "post_metadata list \<Rightarrow> board_post \<Rightarrow> bool" where
  "post_ok ms p \<longleftrightarrow>
     bp_replies p = thread_replies ms (pm_id (bp_meta p)) \<and>
     bp_latest_reply p = newest_of ms (thread_replies ms (pm_id (bp_meta p))) \<and>
     bp_chars p = int (length (string_runes (pr_text (bp_request p))))"

definition thread_ok :: "post_metadata list \<Rightarrow> post_metadata \<Rightarrow> bool" where
  "thread_ok ms m \<longleftrightarrow>
     (\<exists>r \<in> set ms. pm_id r = pm_thread m \<and> pm_thread r = pm_id r \<and> pm_channel r = pm_channel m)"

definition channels_ok :: "post_metadata list \<Rightarrow> (bytes \<times> board_channel) list \<Rightarrow> bool" where
  "channels_ok ms chs \<longleftrightarrow> go_map chs \<and> (\<forall>name c. map_of chs name = Some c \<longrightarrow> channel_ok ms name c)"

definition lookup_ok :: "post_metadata list \<Rightarrow> (bytes \<rightharpoonup> nat) \<Rightarrow> bool" where
  "lookup_ok ms by_id \<longleftrightarrow> (\<forall>i k. by_id i = Some k \<longleftrightarrow> k < length ms \<and> pm_id (ms ! k) = i)"

definition threads_ok :: "post_metadata list \<Rightarrow> (bytes \<times> board_channel) list \<Rightarrow> bool" where
  "threads_ok ms chs \<longleftrightarrow> (\<forall>m \<in> set ms. map_of chs (pm_channel m) \<noteq> None \<and> thread_ok ms m)"

definition requests_ok :: "post_metadata list \<Rightarrow> (bytes \<rightharpoonup> nat) \<Rightarrow> bool" where
  "requests_ok ms requests \<longleftrightarrow> (\<forall>key k. requests key = Some k \<longrightarrow> k < length ms)"

definition board_inv :: "board_state \<Rightarrow> bool" where
  "board_inv st \<longleftrightarrow>
     channels_ok (metas st) (bs_channels st) \<and> lookup_ok (metas st) (bs_by_id st) \<and>
     list_all (post_ok (metas st)) (bs_posts st) \<and> threads_ok (metas st) (bs_channels st) \<and>
     requests_ok (metas st) (bs_requests st)"

lemma channels_ok_update: "channels_ok ms chs \<Longrightarrow> channel_ok ms name c \<Longrightarrow> channels_ok ms (AList.update name c chs)"
  by (simp add: channels_ok_def)

lemma threads_ok_update: "threads_ok ms chs \<Longrightarrow> threads_ok ms (AList.update name c chs)"
  by (auto simp: threads_ok_def)

lemma index_filter_less: "k \<in> set (index_filter P ms) \<Longrightarrow> k < length ms"
  by (simp add: index_filter_def)

lemma index_filter_append:
  "index_filter P (ms @ [m]) = index_filter P ms @ (if P m then [length ms] else [])"
proof -
  have "filter (\<lambda>k. P ((ms @ [m]) ! k)) [0 ..< length ms] = filter (\<lambda>k. P (ms ! k)) [0 ..< length ms]"
    by (intro filter_cong) (simp_all add: nth_append)
  then show ?thesis by (simp add: index_filter_def)
qed

lemma index_filter_none: "(\<And>m. m \<in> set ms \<Longrightarrow> \<not> P m) \<Longrightarrow> index_filter P ms = []"
  by (auto simp: index_filter_def filter_empty_conv)

lemma newest_of_append:
  assumes "\<And>k. k \<in> set ks \<Longrightarrow> k < length ms"
  shows "newest_of (ms @ ms') ks = newest_of ms ks"
proof -
  have "meta_key (ms @ ms') ` set ks = meta_key ms ` set ks"
    using assms by (intro image_cong) (simp_all add: meta_key_def nth_append)
  then show ?thesis by (simp add: newest_of_def)
qed

lemma newest_of_snoc:
  "newest_of ms (ks @ [k]) =
     (case newest_of ms ks of None \<Rightarrow> Some k | Some j \<Rightarrow> if meta_key ms j < meta_key ms k then Some k else Some j)"
proof (cases "ks = []")
  case False
  define M where "M = Max (meta_key ms ` set ks)"
  have "M \<in> meta_key ms ` set ks" using False by (auto simp: M_def intro!: Max_in)
  then have M: "meta_key ms (snd M) = M" by (auto simp: meta_key_def)
  have "Max (meta_key ms ` set (ks @ [k])) = max (meta_key ms k) M"
    using False by (simp add: M_def)
  then have new: "newest_of ms (ks @ [k]) = Some (snd (max (meta_key ms k) M))" by (simp only: newest_of_def) simp
  have old: "newest_of ms ks = Some (snd M)" using False by (simp only: newest_of_def M_def if_False)
  show ?thesis
  proof (cases "M < meta_key ms k")
    case True
    then have "max (meta_key ms k) M = meta_key ms k" by (simp only: max_def) (metis leD)
    then show ?thesis unfolding new old option.case M using True by (simp only: if_True) (simp only: meta_key_def snd_conv)
  next
    case False
    then have "max (meta_key ms k) M = M" by (simp only: max_def) (metis leI antisym)
    then show ?thesis unfolding new old option.case M using False by (simp only: if_False)
  qed
qed (simp add: newest_of_def meta_key_def)

lemma newest_of_in: "newest_of ms ks = Some j \<Longrightarrow> j \<in> set ks"
proof -
  assume j: "newest_of ms ks = Some j"
  then have ne: "ks \<noteq> []" by (auto simp: newest_of_def)
  define M where "M = Max (meta_key ms ` set ks)"
  have "M \<in> meta_key ms ` set ks" unfolding M_def using ne by (intro Max_in) auto
  then have "snd M \<in> set ks" by (auto simp: meta_key_def)
  moreover have "j = snd M" using j ne by (simp only: newest_of_def if_False option.inject M_def)
  ultimately show ?thesis by simp
qed

lemma post_key_metas: "k < length (bs_posts st) \<Longrightarrow> post_key st k = meta_key (metas st) k"
  by (simp add: post_key_def meta_key_def metas_def)

section \<open>Steps that store no post\<close>

lemma board_inv_new: "board_inv new_board_state"
  by (simp add: board_inv_def new_board_state_def metas_def channels_ok_def lookup_ok_def threads_ok_def requests_ok_def)

lemma board_inv_subscriptions: "board_inv (st\<lparr>bs_subscriptions := s\<rparr>) \<longleftrightarrow> board_inv st"
  by (simp add: board_inv_def metas_def)

lemma board_inv_subscribe: "board_inv (subscribe target caller st) \<longleftrightarrow> board_inv st"
  by (simp add: subscribe_def Let_def board_inv_subscriptions)

lemma board_inv_channel:
  "board_inv st \<Longrightarrow> channel_ok (metas st) name c \<Longrightarrow> board_inv (st\<lparr>bs_channels := AList.update name c (bs_channels st)\<rparr>)"
  by (simp add: board_inv_def metas_def channels_ok_update threads_ok_update)

lemma no_channel_no_posts:
  assumes "board_inv st" and "map_of (bs_channels st) name = None"
  shows "channel_posts (metas st) name = []" "channel_roots (metas st) name = []"
  unfolding channel_posts_def channel_roots_def
  by (rule index_filter_none; use assms in \<open>auto simp: board_inv_def threads_ok_def\<close>)+

lemma insert_channel_result:
  assumes "insert_channel f name author now d st = (e, st')"
  shows "case e of Some _ \<Rightarrow> st' = st
    | None \<Rightarrow> map_of (bs_channels st) name = None \<and>
        (\<exists>c. st' = st\<lparr>bs_channels := AList.update name c (bs_channels st)\<rparr> \<and> cs_name (bc_summary c) = name \<and>
          bc_posts c = [] \<and> bc_roots c = [] \<and> cs_count (bc_summary c) = 0 \<and> cs_last (bc_summary c) = None)"
  using assms by (auto simp: insert_channel_def split: option.splits if_splits)

lemma board_inv_insert_channel:
  assumes "board_inv st" and "insert_channel f name author now d st = (e, st')"
  shows "board_inv st'"
proof (cases e)
  case None
  with insert_channel_result [OF assms(2)] obtain c where
    c: "map_of (bs_channels st) name = None" "st' = st\<lparr>bs_channels := AList.update name c (bs_channels st)\<rparr>"
      "cs_name (bc_summary c) = name" "bc_posts c = []" "bc_roots c = []" "cs_count (bc_summary c) = 0"
      "cs_last (bc_summary c) = None" by auto
  have "channel_ok (metas st) name c"
    using c no_channel_no_posts [OF assms(1) c(1)] by (simp add: channel_ok_def newest_of_def)
  with assms(1) show ?thesis unfolding c(2) by (rule board_inv_channel)
next
  case (Some x)
  with insert_channel_result [OF assms(2)] assms(1) show ?thesis by simp
qed

lemma board_inv_channel_ok: "board_inv st \<Longrightarrow> map_of (bs_channels st) name = Some c \<Longrightarrow> channel_ok (metas st) name c"
  by (simp add: board_inv_def channels_ok_def)

lemma board_inv_set_description:
  assumes "board_inv st" and "map_of (bs_channels st) name = Some c"
  shows "board_inv (set_description name d c st)"
proof -
  have "channel_ok (metas st) name (c\<lparr>bc_summary := (bc_summary c)\<lparr>cs_description := Some d\<rparr>\<rparr>)"
    using board_inv_channel_ok [OF assms] by (simp add: channel_ok_def)
  with assms(1) show ?thesis unfolding set_description_def by (rule board_inv_channel)
qed

lemma board_inv_upsert_insert:
  assumes "board_inv st" shows "board_inv (snd (upsert_insert f name d author now st))"
proof (cases "map_of (bs_channels st) name")
  case None
  then have "upsert_insert f name d author now st = insert_channel f name author now (Some d) st"
    by (simp add: upsert_insert_def upsert_existing_def)
  then show ?thesis using board_inv_insert_channel [OF assms] by (metis surjective_pairing)
next
  case (Some c)
  then show ?thesis using board_inv_set_description [OF assms Some]
    by (simp add: upsert_insert_def upsert_existing_def)
qed

section \<open>Storing a post\<close>

lemma channel_posts_snoc:
  "channel_posts (ms @ [m]) name = channel_posts ms name @ (if pm_channel m = name then [length ms] else [])"
  unfolding channel_posts_def by (rule index_filter_append)

lemma channel_roots_snoc:
  "channel_roots (ms @ [m]) name =
     channel_roots ms name @ (if pm_channel m = name \<and> pm_thread m = pm_id m then [length ms] else [])"
  unfolding channel_roots_def by (rule index_filter_append)

lemma thread_replies_snoc:
  "thread_replies (ms @ [m]) i =
     thread_replies ms i @ (if pm_thread m = i \<and> pm_thread m \<noteq> pm_id m then [length ms] else [])"
  unfolding thread_replies_def by (rule index_filter_append)

lemma index_bounds:
  "k \<in> set (channel_posts ms name) \<Longrightarrow> k < length ms" "k \<in> set (thread_replies ms i) \<Longrightarrow> k < length ms"
  by (auto simp: channel_posts_def thread_replies_def dest: index_filter_less)

lemmas newest_bounds = newest_of_in [THEN index_bounds(1)] newest_of_in [THEN index_bounds(2)]

lemma newest_of_snoc_index:
  assumes "\<And>k. k \<in> set ks \<Longrightarrow> k < length ms"
  shows "newest_of (ms @ [m]) (ks @ [length ms]) =
    (case newest_of ms ks of None \<Rightarrow> Some (length ms)
     | Some j \<Rightarrow> if meta_key (ms @ [m]) j < meta_key (ms @ [m]) (length ms) then Some (length ms) else Some j)"
proof -
  have "newest_of (ms @ [m]) ks = newest_of ms ks" by (rule newest_of_append) (rule assms)
  then show ?thesis unfolding newest_of_snoc by simp
qed

lemma last_id_append:
  "map_option (\<lambda>k. pm_id ((ms @ ms') ! k)) (newest_of ms (channel_posts ms name)) =
   map_option (\<lambda>k. pm_id (ms ! k)) (newest_of ms (channel_posts ms name))"
  by (cases "newest_of ms (channel_posts ms name)") (auto simp: nth_append dest: newest_bounds(1))

lemma channel_ok_other:
  assumes "channel_ok ms name c" and "pm_channel m \<noteq> name"
  shows "channel_ok (ms @ [m]) name c"
proof -
  have "newest_of (ms @ [m]) (channel_posts ms name) = newest_of ms (channel_posts ms name)"
    by (rule newest_of_append) (rule index_bounds(1))
  with assms show ?thesis
    by (simp add: channel_ok_def channel_posts_snoc channel_roots_snoc last_id_append)
qed

lemma channel_ok_added:
  assumes ok: "channel_ok ms (pm_channel m) c"
    and newest: "newest = (case newest_of ms (channel_posts ms (pm_channel m)) of None \<Rightarrow> True
      | Some j \<Rightarrow> meta_key (ms @ [m]) j < meta_key (ms @ [m]) (length ms))"
  shows "channel_ok (ms @ [m]) (pm_channel m)
    (c\<lparr>bc_posts := bc_posts c @ [length ms],
       bc_roots := (if pm_thread m = pm_id m then bc_roots c @ [length ms] else bc_roots c),
       bc_summary := (bc_summary c)\<lparr>cs_count := cs_count (bc_summary c) + 1,
         cs_last := (if newest then Some (pm_id m) else cs_last (bc_summary c))\<rparr>\<rparr>)"
proof -
  have "newest_of (ms @ [m]) (channel_posts (ms @ [m]) (pm_channel m)) =
      (if newest then Some (length ms) else newest_of ms (channel_posts ms (pm_channel m)))"
    using newest_of_snoc_index [of "channel_posts ms (pm_channel m)" ms m, OF index_bounds(1)]
    by (simp add: channel_posts_snoc newest split: option.splits)
  moreover have "map_option (\<lambda>k. pm_id ((ms @ [m]) ! k)) (newest_of ms (channel_posts ms (pm_channel m))) =
      map_option (\<lambda>k. pm_id (ms ! k)) (newest_of ms (channel_posts ms (pm_channel m)))"
    by (rule last_id_append)
  ultimately show ?thesis using ok
    by (simp add: channel_ok_def channel_posts_snoc channel_roots_snoc)
qed

lemma post_ok_other:
  assumes "post_ok ms p" and "pm_thread m = pm_id m \<or> pm_thread m \<noteq> pm_id (bp_meta p)"
  shows "post_ok (ms @ [m]) p"
proof -
  have "newest_of (ms @ [m]) (thread_replies ms (pm_id (bp_meta p))) = newest_of ms (thread_replies ms (pm_id (bp_meta p)))"
    by (rule newest_of_append) (rule index_bounds(2))
  with assms show ?thesis by (auto simp: post_ok_def thread_replies_snoc)
qed

lemma post_ok_reply:
  assumes ok: "post_ok ms p" and reply: "pm_thread m = pm_id (bp_meta p)" "pm_thread m \<noteq> pm_id m"
    and newest: "newest = (case newest_of ms (thread_replies ms (pm_id (bp_meta p))) of None \<Rightarrow> True
      | Some j \<Rightarrow> meta_key (ms @ [m]) j < meta_key (ms @ [m]) (length ms))"
  shows "post_ok (ms @ [m]) (p\<lparr>bp_replies := bp_replies p @ [length ms],
    bp_latest_reply := (if newest then Some (length ms) else bp_latest_reply p)\<rparr>)"
  using ok newest_of_snoc_index [of "thread_replies ms (pm_id (bp_meta p))" ms m, OF index_bounds(2)] reply
  by (simp add: post_ok_def thread_replies_snoc newest split: option.splits)

lemma key_greater_iff:
  "bs_by_id st i = Some j \<Longrightarrow> j < length (bs_posts st) \<Longrightarrow> k < length (bs_posts st) \<Longrightarrow>
   key_greater st k i \<longleftrightarrow> meta_key (metas st) j < meta_key (metas st) k"
  by (auto simp: key_greater_def post_key_metas [symmetric])

text \<open>Where a new post may go: into an existing channel, as a root of its own thread or as a reply to a
  root of that channel, under an id no post has.\<close>

definition storable :: "post_metadata \<Rightarrow> board_state \<Rightarrow> bool" where
  "storable m st \<longleftrightarrow> bs_by_id st (pm_id m) = None \<and> map_of (bs_channels st) (pm_channel m) \<noteq> None \<and>
     (pm_thread m = pm_id m \<or> (\<exists>j. bs_by_id st (pm_thread m) = Some j \<and> pm_thread (metas st ! j) = pm_thread m \<and>
        pm_channel (metas st ! j) = pm_channel m))"

lemma lookup_ok_snoc:
  assumes "lookup_ok ms by_id" and "by_id (pm_id m) = None"
  shows "lookup_ok (ms @ [m]) (by_id(pm_id m \<mapsto> length ms))"
proof -
  have "by_id (pm_id (ms ! k)) = Some k" if "k < length ms" for k using assms(1) that by (simp add: lookup_ok_def)
  then have ne: "pm_id (ms ! k) \<noteq> pm_id m" if "k < length ms" for k using assms(2) that by force
  show ?thesis unfolding lookup_ok_def
  proof (intro allI)
    fix i k
    show "((by_id(pm_id m \<mapsto> length ms)) i = Some k) = (k < length (ms @ [m]) \<and> pm_id ((ms @ [m]) ! k) = i)"
      using assms ne by (cases "k < length ms"; cases "k = length ms") (auto simp: lookup_ok_def nth_append)
  qed
qed

lemma threads_ok_snoc:
  assumes "threads_ok ms chs" and "\<And>n. map_of chs n \<noteq> None \<Longrightarrow> map_of chs' n \<noteq> None"
    and "map_of chs' (pm_channel m) \<noteq> None" and "thread_ok (ms @ [m]) m"
  shows "threads_ok (ms @ [m]) chs'"
proof -
  have "thread_ok ms x \<Longrightarrow> thread_ok (ms @ [m]) x" for x by (auto simp: thread_ok_def)
  with assms show ?thesis by (auto simp: threads_ok_def)
qed

lemma metas_update: "j < length ps \<Longrightarrow> bp_meta x = bp_meta (ps ! j) \<Longrightarrow> map bp_meta (ps[j := x]) = map bp_meta ps"
  by (metis list_update_id map_update)

text \<open>Entering the post: its metadata is appended and the lookups are extended; the channel's and the
  thread's indexes do not know it yet.\<close>

definition entered :: "post_metadata list \<Rightarrow> post_metadata \<Rightarrow> board_state \<Rightarrow> bool" where
  "entered ms m st \<longleftrightarrow>
     metas st = ms @ [m] \<and> lookup_ok (ms @ [m]) (bs_by_id st) \<and> requests_ok (ms @ [m]) (bs_requests st) \<and>
     (\<forall>k < length ms. post_ok ms (bs_posts st ! k)) \<and> post_ok (ms @ [m]) (bs_posts st ! length ms)"

lemma bp_meta_nth: "k < length (bs_posts st) \<Longrightarrow> bp_meta (bs_posts st ! k) = metas st ! k"
  by (simp add: metas_def)

lemma entered_length: "entered ms m st \<Longrightarrow> length (bs_posts st) = Suc (length ms)"
proof -
  assume "entered ms m st"
  then have "length (metas st) = Suc (length ms)" by (simp add: entered_def)
  then show ?thesis by (simp add: metas_def)
qed

lemma entered_meta: "entered ms m st \<Longrightarrow> k < length ms \<Longrightarrow> bp_meta (bs_posts st ! k) = ms ! k"
  using bp_meta_nth [of k st] entered_length [of ms m st] by (simp add: entered_def nth_append)

lemma entered_newer:
  assumes "entered ms m st" and "j < length ms"
  shows "key_greater st (length ms) (pm_id (ms ! j)) \<longleftrightarrow> meta_key (ms @ [m]) j < meta_key (ms @ [m]) (length ms)"
proof -
  have "bs_by_id st (pm_id (ms ! j)) = Some j" using assms by (simp add: entered_def lookup_ok_def nth_append)
  from key_greater_iff [OF this, of "length ms"] show ?thesis
    using assms entered_length [OF assms(1)] by (simp add: entered_def)
qed

lemma fresh_id:
  assumes "lookup_ok ms by_id" and "by_id i = None" and "x \<in> set ms"
  shows "pm_id x \<noteq> i"
proof
  assume i: "pm_id x = i"
  from assms(3) obtain k where k: "k < length ms" "ms ! k = x" unfolding in_set_conv_nth by blast
  have "by_id (pm_id (ms ! k)) = Some k" using assms(1) k(1) by (simp add: lookup_ok_def)
  then show False using assms(2) k(2) i by simp
qed

lemma no_replies_yet:
  assumes "\<And>x. x \<in> set ms \<Longrightarrow> thread_ok ms x" and "\<And>x. x \<in> set ms \<Longrightarrow> pm_id x \<noteq> pm_id m"
  shows "thread_replies (ms @ [m]) (pm_id m) = []"
proof -
  have "thread_replies ms (pm_id m) = []" unfolding thread_replies_def
    using assms by (intro index_filter_none) (force simp: thread_ok_def)
  then show ?thesis by (simp add: thread_replies_snoc)
qed

lemma store_entry_entered:
  assumes inv: "board_inv st" and ok: "storable m st"
  shows "entered (metas st) m (store_entry f caller request behavior m st)"
proof -
  define ms where "ms = metas st"
  have len: "length (bs_posts st) = length ms" by (simp add: ms_def metas_def)
  have parts: "lookup_ok ms (bs_by_id st)" "list_all (post_ok ms) (bs_posts st)"
    "threads_ok ms (bs_channels st)" "requests_ok ms (bs_requests st)"
    using inv by (simp_all add: board_inv_def ms_def)
  have new: "bs_by_id st (pm_id m) = None" using ok by (simp add: storable_def)
  have "thread_replies (ms @ [m]) (pm_id m) = []"
    using parts(3) fresh_id [OF parts(1) new] by (intro no_replies_yet) (simp_all add: threads_ok_def)
  moreover have "metas (store_entry f caller request behavior m st) = ms @ [m]"
    by (simp add: store_entry_def Let_def metas_def ms_def)
  moreover note lookup_ok_snoc [OF parts(1) new]
  ultimately show ?thesis unfolding ms_def [symmetric] using parts(2,4) len
    by (auto simp: entered_def store_entry_def Let_def list_all_length nth_append post_ok_def newest_of_def
        requests_ok_def less_Suc_eq)
qed

text \<open>Adding it to its channel.\<close>

lemma add_to_channel_ok:
  assumes st: "entered ms m st" and chs: "channels_ok ms (bs_channels st)" "threads_ok ms (bs_channels st)"
    and "map_of (bs_channels st) (pm_channel m) \<noteq> None" and thread: "thread_ok (ms @ [m]) m"
  shows "\<exists>chs. add_to_channel (pm_channel m) (length ms) (pm_id m) (pm_thread m = pm_id m) st = st\<lparr>bs_channels := chs\<rparr> \<and>
    channels_ok (ms @ [m]) chs \<and> threads_ok (ms @ [m]) chs"
proof -
  obtain c where c: "map_of (bs_channels st) (pm_channel m) = Some c" using assms(4) by blast
  then have ok: "channel_ok ms (pm_channel m) c" using chs(1) by (simp add: channels_ok_def)
  define newest where "newest = (case cs_last (bc_summary c) of None \<Rightarrow> True | Some l \<Rightarrow> key_greater st (length ms) l)"
  have "newest = (case newest_of ms (channel_posts ms (pm_channel m)) of None \<Rightarrow> True
      | Some j \<Rightarrow> meta_key (ms @ [m]) j < meta_key (ms @ [m]) (length ms))"
    using ok entered_newer [OF st] newest_bounds(1)
    by (simp add: newest_def channel_ok_def split: option.splits)
  note added = channel_ok_added [OF ok this]
  define c' where "c' = c\<lparr>bc_posts := bc_posts c @ [length ms],
       bc_roots := (if pm_thread m = pm_id m then bc_roots c @ [length ms] else bc_roots c),
       bc_summary := (bc_summary c)\<lparr>cs_count := cs_count (bc_summary c) + 1,
         cs_last := (if newest then Some (pm_id m) else cs_last (bc_summary c))\<rparr>\<rparr>"
  have "channels_ok (ms @ [m]) (AList.update (pm_channel m) c' (bs_channels st))"
    using chs(1) added [folded c'_def] channel_ok_other by (auto simp: channels_ok_def)
  moreover have "threads_ok (ms @ [m]) (AList.update (pm_channel m) c' (bs_channels st))"
    by (rule threads_ok_snoc [OF chs(2) _ _ thread]) auto
  moreover have "add_to_channel (pm_channel m) (length ms) (pm_id m) (pm_thread m = pm_id m) st =
      st\<lparr>bs_channels := AList.update (pm_channel m) c' (bs_channels st)\<rparr>"
    by (simp add: add_to_channel_def c Let_def newest_def c'_def)
  ultimately show ?thesis by blast
qed

text \<open>Adding it to its thread.\<close>

lemma entered_root:
  assumes st: "entered ms m st" and "pm_thread m = pm_id m"
  shows "list_all (post_ok (ms @ [m])) (bs_posts st)"
  unfolding list_all_length entered_length [OF st]
  using st assms(2) post_ok_other [of ms _ m] by (auto simp: entered_def less_Suc_eq)

lemma entered_reply:
  assumes st: "entered ms m st" and reply: "pm_thread m \<noteq> pm_id m"
    and j: "bs_by_id st (pm_thread m) = Some j" "j < length ms"
  shows "\<exists>ps. add_reply (pm_thread m) (length ms) st = st\<lparr>bs_posts := ps\<rparr> \<and> map bp_meta ps = ms @ [m] \<and>
    list_all (post_ok (ms @ [m])) ps"
proof -
  define t where "t = bs_posts st ! j"
  have t: "bp_meta t = ms ! j" "post_ok ms t" using st j(2) entered_meta [OF st] by (simp_all add: t_def entered_def)
  have lookup: "lookup_ok (ms @ [m]) (bs_by_id st)" using st by (simp add: entered_def)
  then have root: "pm_id (ms ! j) = pm_thread m" using j by (simp add: lookup_ok_def nth_append)
  define newest where "newest = (case bp_latest_reply t of None \<Rightarrow> True
      | Some l \<Rightarrow> key_greater st (length ms) (pm_id (bp_meta (bs_posts st ! l))))"
  define t' where "t' = t\<lparr>bp_replies := bp_replies t @ [length ms],
      bp_latest_reply := (if newest then Some (length ms) else bp_latest_reply t)\<rparr>"
  define ps where "ps = (bs_posts st)[j := t']"
  have "newest = (case newest_of ms (thread_replies ms (pm_id (bp_meta t))) of None \<Rightarrow> True
      | Some l \<Rightarrow> meta_key (ms @ [m]) l < meta_key (ms @ [m]) (length ms))"
    using t(2) entered_newer [OF st] entered_meta [OF st] newest_bounds(2)
    by (simp add: newest_def post_ok_def split: option.splits)
  then have t': "post_ok (ms @ [m]) t'" unfolding t'_def
    using reply root by (intro post_ok_reply [OF t(2)]) (simp_all add: t(1))
  have "post_ok (ms @ [m]) (ps ! k)" if k: "k < Suc (length ms)" for k
  proof (cases "k = j \<or> k = length ms")
    case True
    then show ?thesis using t' st j(2) entered_length [OF st] by (auto simp: ps_def entered_def)
  next
    case False
    then have kl: "k < length ms" "k \<noteq> j" using k by simp_all
    have "bs_by_id st (pm_id (ms ! k)) = Some k" using lookup kl(1) by (simp add: lookup_ok_def nth_append)
    then have "pm_thread m \<noteq> pm_id (ms ! k)" using j(1) kl(2) by auto
    then have "post_ok (ms @ [m]) (bs_posts st ! k)"
      using st kl(1) entered_meta [OF st kl(1)] by (intro post_ok_other) (simp_all add: entered_def)
    then show ?thesis using kl(2) by (simp add: ps_def)
  qed
  then have "list_all (post_ok (ms @ [m])) ps" using entered_length [OF st] by (simp add: list_all_length ps_def)
  moreover have "map bp_meta ps = ms @ [m]"
    using metas_update [of j "bs_posts st" t'] st j(2) entered_length [OF st]
    by (simp add: ps_def entered_def metas_def t'_def t_def)
  moreover have "add_reply (pm_thread m) (length ms) st = st\<lparr>bs_posts := ps\<rparr>"
    by (simp add: add_reply_def j(1) Let_def t_def newest_def t'_def ps_def)
  ultimately show ?thesis by blast
qed

lemma thread_ok_reply:
  assumes "j < length ms" and "pm_id (ms ! j) = pm_thread m" "pm_thread (ms ! j) = pm_thread m"
    and "pm_channel (ms ! j) = pm_channel m"
  shows "thread_ok (ms @ [m]) m"
  unfolding thread_ok_def by (rule bexI [of _ "ms ! j"]) (use assms in simp_all)

lemma storable_thread:
  assumes "board_inv st" and "storable m st"
  shows "thread_ok (metas st @ [m]) m \<and>
    (pm_thread m \<noteq> pm_id m \<longrightarrow> (\<exists>j < length (metas st). bs_by_id st (pm_thread m) = Some j))"
proof (cases "pm_thread m = pm_id m")
  case True
  then show ?thesis by (simp add: thread_ok_def)
next
  case False
  with assms(2) obtain j where j: "bs_by_id st (pm_thread m) = Some j" "pm_thread (metas st ! j) = pm_thread m"
    "pm_channel (metas st ! j) = pm_channel m" unfolding storable_def by blast
  have "j < length (metas st)" "pm_id (metas st ! j) = pm_thread m"
    using assms(1) j(1) by (simp_all add: board_inv_def lookup_ok_def)
  with thread_ok_reply [OF this j(2,3)] j(1) show ?thesis by blast
qed

lemma board_inv_store_post:
  assumes inv: "board_inv st" and ok: "storable m st"
  shows "board_inv (store_post f caller request behavior m st) \<and>
    metas (store_post f caller request behavior m st) = metas st @ [m]"
proof -
  define ms where "ms = metas st"
  define st1 where "st1 = store_entry f caller request behavior m st"
  have st1: "entered ms m st1" unfolding ms_def st1_def by (rule store_entry_entered) fact+
  have len: "length (bs_posts st) = length ms" by (simp add: ms_def metas_def)
  have chs1: "bs_channels st1 = bs_channels st" by (simp add: st1_def store_entry_def Let_def)
  have exists: "map_of (bs_channels st) (pm_channel m) \<noteq> None" using ok unfolding storable_def by blast
  have "channels_ok ms (bs_channels st)" "threads_ok ms (bs_channels st)" using inv by (simp_all add: board_inv_def ms_def)
  from add_to_channel_ok [OF st1, unfolded chs1, OF this exists] storable_thread [OF inv ok]
  obtain chs where chs: "add_to_channel (pm_channel m) (length ms) (pm_id m) (pm_thread m = pm_id m) st1 = st1\<lparr>bs_channels := chs\<rparr>"
    "channels_ok (ms @ [m]) chs" "threads_ok (ms @ [m]) chs" by (auto simp: ms_def)
  define st2 where "st2 = st1\<lparr>bs_channels := chs\<rparr>"
  have st2: "entered ms m st2" using st1 by (simp add: st2_def entered_def metas_def)
  define st3 where "st3 = (if pm_thread m = pm_id m then st2 else add_reply (pm_thread m) (length ms) st2)"
  have "\<exists>ps. st3 = st2\<lparr>bs_posts := ps\<rparr> \<and> map bp_meta ps = ms @ [m] \<and> list_all (post_ok (ms @ [m])) ps"
  proof (cases "pm_thread m = pm_id m")
    case True
    then show ?thesis using entered_root [OF st2] st2
      by (intro exI [of _ "bs_posts st2"]) (simp add: st3_def entered_def metas_def)
  next
    case False
    with storable_thread [OF inv ok] obtain j where j: "j < length ms" "bs_by_id st (pm_thread m) = Some j"
      by (auto simp: ms_def)
    then have "bs_by_id st2 (pm_thread m) = Some j" using False by (simp add: st2_def st1_def store_entry_def Let_def)
    from entered_reply [OF st2 False this j(1)] show ?thesis using False by (simp only: st3_def if_False)
  qed
  then obtain ps where ps: "st3 = st2\<lparr>bs_posts := ps\<rparr>" "map bp_meta ps = ms @ [m]" "list_all (post_ok (ms @ [m])) ps"
    by blast
  then have st3: "metas st3 = ms @ [m]" by (simp add: metas_def)
  have "board_inv st3" using st2 chs(2,3) ps(3)
    by (simp add: board_inv_def st3 entered_def) (simp add: ps(1) st2_def)
  moreover have "store_post f caller request behavior m st =
      (if behavior = PostDiscussion then subscribe (thread_target (pm_thread m)) caller st3 else st3)"
    unfolding store_post_def Let_def len st1_def [symmetric] chs(1) st2_def [symmetric] st3_def [symmetric] ..
  moreover have "metas (subscribe t a s) = metas s" for t a s by (simp add: subscribe_def Let_def metas_def)
  ultimately show ?thesis using st3 by (simp add: board_inv_subscribe ms_def)
qed

end
