(* ===== verification/Board_Steps.thy ===== *)
theory Board_Steps
  imports Board_Invariants "HOL-Library.Sublist"
begin

text \<open>
  The message board as a transition system: a step is one critical section of an operation, so that any
  interleaving of callers is a sequence of steps.  Every reachable board satisfies its invariant, a
  retried post is recognised, and the queries read what the posts say.
\<close>

declare map_of_eq_Some_iff [simp del]

section \<open>Steps and reachable boards\<close>

text \<open>The ids a board gives its posts are random UUIDs: a step that stores a post stores it under an id
  no post has.\<close>

definition fresh_post_id :: "board_error + bytes \<Rightarrow> board_state \<Rightarrow> bool" where
  "fresh_post_id new_id st = (case new_id of Inl _ \<Rightarrow> True | Inr i \<Rightarrow> bs_by_id st i = None)"

inductive board_step :: "(bytes \<Rightarrow> bytes) \<Rightarrow> board_state \<Rightarrow> board_state \<Rightarrow> bool" for f where
  create: "board_step f st (snd (create_channel f h caller request st))"
| update: "upsert_existing name d st = Some st' \<Longrightarrow> board_step f st st'"
| insert: "board_step f st (snd (upsert_insert f name d author now st))"
| commit: "fresh_post_id new_id st \<Longrightarrow>
    board_step f st (snd (post_commit f new_id caller author resolved now request behavior st))"
| subscription: "board_step f st (snd (set_subscription h change st))"

inductive board_reachable :: "(bytes \<Rightarrow> bytes) \<Rightarrow> board_state \<Rightarrow> bool" for f where
  start: "board_reachable f new_board_state"
| step: "board_reachable f st \<Longrightarrow> board_step f st st' \<Longrightarrow> board_reachable f st'"

inductive_cases board_stepE: "board_step f st st'"

section \<open>The invariant is kept\<close>

lemma metas_simps [simp]:
  "metas (subscribe t a st) = metas st" "bs_by_id (subscribe t a st) = bs_by_id st"
  "bs_channels (subscribe t a st) = bs_channels st" "bs_posts (subscribe t a st) = bs_posts st"
  "bs_requests (subscribe t a st) = bs_requests st"
  by (simp_all add: subscribe_def Let_def metas_def)

lemma insert_channel_frame:
  assumes "insert_channel f name author now d st = (e, st')"
  shows "metas st' = metas st" "bs_by_id st' = bs_by_id st" "bs_posts st' = bs_posts st"
    "bs_requests st' = bs_requests st" "bs_subscriptions st' = bs_subscriptions st"
    "e = None \<Longrightarrow> map_of (bs_channels st') name \<noteq> None"
  using assms by (auto simp: insert_channel_def metas_def split: option.splits if_splits)

lemma board_inv_create:
  assumes inv: "board_inv st" shows "board_inv (snd (create_channel f h caller request st))"
proof -
  have "board_inv (snd (insert_channel f n a t d st))" for n a t d
    using board_inv_insert_channel [OF inv] by (metis surjective_pairing)
  then have "board_inv st1" if "insert_channel f n a t d st = (e, st1)" for n a t d e st1
    using that by (metis snd_conv)
  then show ?thesis using inv
    by (auto simp: create_channel_def Let_def board_inv_subscribe split: option.splits sum.splits prod.splits)
qed

lemma board_inv_set_subscription: "board_inv st \<Longrightarrow> board_inv (snd (set_subscription h change st))"
  by (simp add: set_subscription_def Let_def board_inv_subscriptions split: sum.splits prod.splits)

lemma thread_index_ok:
  assumes inv: "board_inv st" and k: "thread_index st i = Inr k"
  shows "bs_by_id st i = Some k" "k < length (bs_posts st)" "pm_thread (metas st ! k) = i" "pm_id (metas st ! k) = i"
    "bp_meta (bs_posts st ! k) = metas st ! k"
proof -
  have k': "bs_by_id st i = Some k" "pm_thread (bp_meta (bs_posts st ! k)) = i"
    using k by (auto simp: thread_index_def post_index_def split: option.splits if_splits)
  then have kl: "k < length (metas st)" and i: "pm_id (metas st ! k) = i"
    using inv by (simp_all add: board_inv_def lookup_ok_def)
  show l: "k < length (bs_posts st)" using kl by (simp add: metas_def)
  show m: "bp_meta (bs_posts st ! k) = metas st ! k" using bp_meta_nth [OF l] .
  show "bs_by_id st i = Some k" "pm_thread (metas st ! k) = i" "pm_id (metas st ! k) = i" using k' i m by simp_all
qed

lemma thread_channel_exists:
  assumes inv: "board_inv st" and k: "k < length (metas st)"
  shows "map_of (bs_channels st) (pm_channel (metas st ! k)) \<noteq> None"
  using inv nth_mem [OF k] unfolding board_inv_def threads_ok_def by blast

text \<open>A resolved destination is one the new post may go to.\<close>

lemma resolve_destination_frame:
  assumes "resolve_destination f d author now caller i behavior st = (r, st1)"
  shows "metas st1 = metas st" "bs_by_id st1 = bs_by_id st" "bs_posts st1 = bs_posts st" "bs_requests st1 = bs_requests st"
  using assms
  by (auto simp: resolve_destination_def dest: insert_channel_frame split: if_splits sum.splits prod.splits option.splits)

lemma board_inv_resolve:
  assumes inv: "board_inv st" and r: "resolve_destination f d author now caller i behavior st = (r, st1)"
  shows "board_inv st1"
  using r inv board_inv_insert_channel [OF inv]
  by (auto simp: resolve_destination_def board_inv_subscribe split: if_splits sum.splits prod.splits option.splits)

lemma resolve_storable:
  assumes inv: "board_inv st" and fresh: "bs_by_id st i = None"
    and r: "resolve_destination f d author now caller i behavior st = (Inr (channel, root, target), st1)"
  shows "storable \<lparr>pm_id = i, pm_channel = channel, pm_author = author, pm_thread = root, pm_created = now\<rparr> st1"
proof (cases "pd_kind d = ''thread''")
  case True
  then obtain k where k: "thread_index st (pd_thread d) = Inr k" "st1 = st" "root = pd_thread d"
    "channel = pm_channel (bp_meta (bs_posts st ! k))"
    using r by (auto simp: resolve_destination_def split: sum.splits)
  note t = thread_index_ok [OF inv k(1)]
  have "map_of (bs_channels st) (pm_channel (metas st ! k)) \<noteq> None"
    using t(2) by (intro thread_channel_exists [OF inv]) (simp add: metas_def)
  then show ?thesis using fresh t k(2-4) by (simp add: storable_def)
next
  case False
  then have "root = i" "map_of (bs_channels st1) channel \<noteq> None"
    using r insert_channel_frame(6)
    by (auto simp: resolve_destination_def split: if_splits sum.splits prod.splits option.splits)
  then show ?thesis using fresh resolve_destination_frame(2) [OF r] by (simp add: storable_def)
qed

lemma board_inv_commit:
  assumes inv: "board_inv st" and fresh: "fresh_post_id new_id st"
  shows "board_inv (snd (post_commit f new_id caller author resolved now request behavior st))"
proof (cases "\<exists>i. existing_post st caller request behavior = Inr None \<and> new_id = Inr i")
  case False
  then show ?thesis using inv by (auto simp: post_commit_def split: sum.splits option.splits)
next
  case True
  then obtain i where i: "existing_post st caller request behavior = Inr None" "new_id = Inr i" by blast
  then have free: "bs_by_id st i = None" using fresh by (simp add: fresh_post_id_def)
  obtain r st1 where r: "resolve_destination f (pr_destination request) author now caller i behavior st = (r, st1)"
    by fastforce
  note inv1 = board_inv_resolve [OF inv r]
  show ?thesis
  proof (cases r)
    case (Inl e)
    then show ?thesis using i r inv1 by (simp add: post_commit_def)
  next
    case (Inr x)
    obtain channel root target where x: "x = (channel, root, target)" by (cases x)
    note ok = resolve_storable [OF inv free r [unfolded Inr x]]
    show ?thesis using i r Inr x board_inv_store_post [OF inv1 ok] by (simp add: post_commit_def Let_def)
  qed
qed

lemma board_inv_step:
  assumes "board_inv st" and "board_step f st st'" shows "board_inv st'"
  using assms(2)
proof cases
  case (update name d)
  then show ?thesis using board_inv_set_description [OF assms(1)] by (auto simp: upsert_existing_def)
qed (simp_all add: assms(1) board_inv_create board_inv_upsert_insert board_inv_commit board_inv_set_subscription)

lemma reachable_inv: "board_reachable f st \<Longrightarrow> board_inv st"
  by (induction rule: board_reachable.induct) (auto intro: board_inv_new board_inv_step)

text \<open>C10: whatever the callers do in whatever order, the indexes of a board stay functions of its posts:
  every channel lists exactly its posts and its thread roots in order, counts them, and names its newest
  post; every root lists its replies and names the newest; ids are unique and found; every reply belongs
  to a root of its own channel, and every channel a post names exists.\<close>

theorem board_invariant: "board_reachable f st \<Longrightarrow> board_inv st"
  by (rule reachable_inv)

text \<open>A sample run: a channel is created and a post opens a thread in it.\<close>

definition sample_host :: "bytes \<Rightarrow> bytes \<Rightarrow> int \<Rightarrow> host_call" where
  "sample_host caller i t = \<lparr>hc_author = Inr (''/'' @ caller), hc_resolve = (\<lambda>p. Inr (drop 1 p)), hc_now = Inr t,
     hc_new_id = Inr i\<rparr>"

definition sample_post :: "bytes \<Rightarrow> post_destination \<Rightarrow> bytes list \<Rightarrow> post_request" where
  "sample_post i d notify = \<lparr>pr_request_id = i, pr_destination = d, pr_text = ''text of '' @ i, pr_notify = notify\<rparr>"

definition sample_created :: board_state where
  "sample_created = snd (create_channel id (sample_host ''a'' '''' 5000) ''a''
     \<lparr>cr_name = ''general'', cr_description = None, cr_subscription = Subscribe\<rparr> new_board_state)"

definition sample_root :: board_state where
  "sample_root = snd (post_commit id (Inr ''p1'') ''a'' ''/a'' [] 6000
     (sample_post ''r1'' \<lparr>pd_kind = ''channel'', pd_name = ''general'', pd_thread = ''''\<rparr> []) PostDiscussion sample_created)"

lemma sample_reachable: "board_reachable id sample_root"
proof -
  have "board_reachable id sample_created"
    unfolding sample_created_def by (rule board_reachable.step [OF board_reachable.start board_step.create])
  moreover have "fresh_post_id (Inr ''p1'') sample_created" by code_simp
  ultimately show "board_reachable id sample_root"
    unfolding sample_root_def by (rule board_reachable.step [OF _ board_step.commit])
qed

theorem board_invariant_witness: "board_inv sample_root \<and> bs_by_id sample_root ''p1'' = Some 0"
proof (intro conjI)
  show "board_inv sample_root" by (rule board_invariant [OF sample_reachable])
qed code_simp

section \<open>Retried posts\<close>

text \<open>What no step changes: the metadata, request and behaviour of a stored post, and the request it answered.\<close>

definition post_core :: "board_post \<Rightarrow> post_metadata \<times> post_request \<times> post_behavior" where
  "post_core p = (bp_meta p, bp_request p, bp_behavior p)"

definition board_extends :: "board_state \<Rightarrow> board_state \<Rightarrow> bool" where
  "board_extends st st' \<longleftrightarrow>
     prefix (map post_core (bs_posts st)) (map post_core (bs_posts st')) \<and> bs_requests st \<subseteq>\<^sub>m bs_requests st'"

lemma board_extends_refl [simp]: "board_extends st st"
  by (simp add: board_extends_def)

lemma board_extends_trans: "board_extends st st' \<Longrightarrow> board_extends st' st'' \<Longrightarrow> board_extends st st''"
  by (auto simp: board_extends_def intro: prefix_order.trans map_le_trans)

lemma board_extends_same:
  "bs_posts st' = bs_posts st \<Longrightarrow> bs_requests st' = bs_requests st \<Longrightarrow> board_extends st st'"
  by (simp add: board_extends_def)

lemma add_to_channel_frame [simp]:
  "bs_posts (add_to_channel n k i r st) = bs_posts st" "bs_requests (add_to_channel n k i r st) = bs_requests st"
  by (simp_all add: add_to_channel_def Let_def split: option.splits)

lemma add_reply_core [simp]:
  "map post_core (bs_posts (add_reply root k st)) = map post_core (bs_posts st)"
  "bs_requests (add_reply root k st) = bs_requests st"
proof -
  have "map post_core (ps[j := (ps ! j)\<lparr>bp_replies := r, bp_latest_reply := l\<rparr>]) = map post_core ps" for ps j r l
  proof (cases "j < length ps")
    case True
    have "post_core ((ps ! j)\<lparr>bp_replies := r, bp_latest_reply := l\<rparr>) = map post_core ps ! j"
      using True by (simp add: post_core_def)
    then show ?thesis by (simp only: map_update list_update_id)
  next
    case False
    then show ?thesis by (simp only: list_update_beyond not_less)
  qed
  then show "map post_core (bs_posts (add_reply root k st)) = map post_core (bs_posts st)"
    by (simp add: add_reply_def Let_def)
qed (simp add: add_reply_def Let_def)

lemma store_post_core:
  "map post_core (bs_posts (store_post f caller request behavior m st)) = map post_core (bs_posts st) @ [(m, request, behavior)]"
  "bs_requests (store_post f caller request behavior m st) =
     (bs_requests st)(request_key caller (pr_request_id request) \<mapsto> length (bs_posts st))"
  by (simp_all add: store_post_def store_entry_def Let_def post_core_def)

lemma insert_channel_extends: "board_extends st (snd (insert_channel f n a t d st))"
  by (cases "insert_channel f n a t d st") (auto intro: board_extends_same dest: insert_channel_frame(3,4))

lemma create_extends: "board_extends st (snd (create_channel f h caller request st))"
proof -
  have "board_extends st st1" if "insert_channel f n a t d st = (e, st1)" for n a t d e st1
    using insert_channel_extends [of st f n a t d] that by simp
  moreover have "board_extends st (subscribe t a s) \<longleftrightarrow> board_extends st s" for t a s by (simp add: board_extends_def)
  ultimately show ?thesis
    by (auto simp: create_channel_def Let_def split: option.splits sum.splits prod.splits)
qed

lemma upsert_extends:
  "upsert_existing n d st = Some st' \<Longrightarrow> board_extends st st'" "board_extends st (snd (upsert_insert f n d a t st))"
proof -
  show update: "board_extends st st'" if "upsert_existing n d st = Some st'" for st'
    using that by (auto simp: upsert_existing_def set_description_def intro: board_extends_same)
  then show "board_extends st (snd (upsert_insert f n d a t st))"
    using insert_channel_extends by (auto simp: upsert_insert_def split: option.splits)
qed

lemma set_subscription_extends: "board_extends st (snd (set_subscription h change st))"
  by (auto simp: set_subscription_def Let_def split: sum.splits prod.splits intro: board_extends_same)

text \<open>What a commit does to the posts and the requests: nothing, or the new post with its key.\<close>

lemma post_commit_result:
  assumes "post_commit f new_id caller author resolved now request behavior st = (r, st')"
  shows "case r of
      Inl e \<Rightarrow> board_extends st st'
    | Inr (m, n) \<Rightarrow>
        existing_post st caller request behavior = Inr (Some m) \<and> n = None \<and> st' = st \<or>
        existing_post st caller request behavior = Inr None \<and>
          map post_core (bs_posts st') = map post_core (bs_posts st) @ [(m, request, behavior)] \<and>
          bs_requests st' = (bs_requests st)(request_key caller (pr_request_id request) \<mapsto> length (bs_posts st))"
proof (cases "\<exists>i. existing_post st caller request behavior = Inr None \<and> new_id = Inr i")
  case False
  then show ?thesis using assms by (auto simp: post_commit_def split: sum.splits option.splits)
next
  case True
  then obtain i where i: "existing_post st caller request behavior = Inr None" "new_id = Inr i" by blast
  obtain d st1 where d: "resolve_destination f (pr_destination request) author now caller i behavior st = (d, st1)"
    by fastforce
  note frame = resolve_destination_frame [OF d]
  show ?thesis
  proof (cases d)
    case (Inl e)
    then show ?thesis using assms i d frame by (auto simp: post_commit_def intro: board_extends_same)
  next
    case (Inr x)
    obtain channel root target where x: "x = (channel, root, target)" by (cases x)
    show ?thesis using assms i d Inr x store_post_core frame
      by (auto simp: post_commit_def Let_def)
  qed
qed

lemma existing_post_None: "existing_post st caller request behavior = Inr None \<Longrightarrow>
    bs_requests st (request_key caller (pr_request_id request)) = None"
  by (auto simp: existing_post_def Let_def split: option.splits if_splits)

lemma commit_extends: "board_extends st (snd (post_commit f new_id caller author resolved now request behavior st))"
proof -
  obtain r st' where r: "post_commit f new_id caller author resolved now request behavior st = (r, st')" by fastforce
  from post_commit_result [OF r] show ?thesis unfolding r snd_conv
    by (auto simp: board_extends_def map_le_def dest!: existing_post_None split: sum.splits)
qed

lemma step_extends: "board_step f st st' \<Longrightarrow> board_extends st st'"
  by (erule board_stepE)
    (auto intro: create_extends upsert_extends commit_extends set_subscription_extends)

lemma steps_extend: "(board_step f)\<^sup>*\<^sup>* st st' \<Longrightarrow> board_extends st st'"
  by (induction rule: rtranclp_induct) (auto intro: board_extends_trans step_extends)

lemma extends_core:
  assumes "board_extends st st'" and "k < length (bs_posts st)"
  shows "post_core (bs_posts st' ! k) = post_core (bs_posts st ! k)"
proof -
  obtain xs where xs: "map post_core (bs_posts st') = map post_core (bs_posts st) @ xs"
    using assms(1) unfolding board_extends_def prefix_def by blast
  then have "length (bs_posts st') = length (bs_posts st) + length xs" by (metis length_append length_map)
  then have "post_core (bs_posts st' ! k) = map post_core (bs_posts st') ! k" using assms(2) by simp
  also have "\<dots> = post_core (bs_posts st ! k)" using assms(2) by (simp add: xs nth_append)
  finally show ?thesis .
qed

text \<open>A post that was stored, or found again, is the one its request's key leads to.\<close>

definition answered :: "bytes \<Rightarrow> post_request \<Rightarrow> post_behavior \<Rightarrow> post_metadata \<Rightarrow> board_state \<Rightarrow> bool" where
  "answered caller request behavior m st \<longleftrightarrow>
     (\<exists>k < length (bs_posts st). bs_requests st (request_key caller (pr_request_id request)) = Some k \<and>
        post_core (bs_posts st ! k) = (m, request, behavior))"

lemma answered_extends: "answered caller request behavior m st \<Longrightarrow> board_extends st st' \<Longrightarrow> answered caller request behavior m st'"
proof -
  assume "answered caller request behavior m st" and ext: "board_extends st st'"
  then obtain k where k: "k < length (bs_posts st)" "bs_requests st (request_key caller (pr_request_id request)) = Some k"
    "post_core (bs_posts st ! k) = (m, request, behavior)" unfolding answered_def by blast
  have "length (bs_posts st) \<le> length (bs_posts st')"
    using ext prefix_length_le by (force simp: board_extends_def)
  moreover have "bs_requests st' (request_key caller (pr_request_id request)) = Some k"
    using ext k(2) by (auto simp: board_extends_def map_le_def dom_def)
  ultimately show ?thesis using extends_core [OF ext k(1)] k by (auto simp: answered_def)
qed

lemma post_requests_equal_iff: "post_requests_equal a b \<longleftrightarrow> a = b"
  by (cases a; cases b) (auto simp: post_requests_equal_def)

lemma existing_answered:
  assumes "board_inv st" and "existing_post st caller request behavior = Inr (Some m)"
  shows "answered caller request behavior m st"
proof -
  obtain k where k: "bs_requests st (request_key caller (pr_request_id request)) = Some k"
    "bp_request (bs_posts st ! k) = request" "bp_behavior (bs_posts st ! k) = behavior" "bp_meta (bs_posts st ! k) = m"
    using assms(2) by (auto simp: existing_post_def Let_def post_requests_equal_iff split: option.splits if_splits)
  have "k < length (bs_posts st)" using assms(1) k(1) by (auto simp: board_inv_def requests_ok_def metas_def)
  then show ?thesis using k by (auto simp: answered_def post_core_def)
qed

lemma answered_existing:
  assumes "answered caller request behavior m st" and "pr_request_id request' = pr_request_id request"
  shows "existing_post st caller request' behavior' =
    (if request' = request \<and> behavior' = behavior then Inr (Some m)
     else Inl (InvalidRequest ''request ID was already used for a different post''))"
proof -
  obtain k where "bs_requests st (request_key caller (pr_request_id request)) = Some k"
    "post_core (bs_posts st ! k) = (m, request, behavior)" using assms(1) unfolding answered_def by blast
  then show ?thesis using assms(2)
    by (simp add: existing_post_def Let_def post_core_def post_requests_equal_iff)
qed

lemma commit_answered:
  assumes "board_inv st" and "post_commit f new_id caller author resolved now request behavior st = (Inr (m, n), st')"
  shows "answered caller request behavior m st'"
proof (cases "existing_post st caller request behavior = Inr (Some m) \<and> st' = st")
  case True
  then show ?thesis using existing_answered [OF assms(1)] by simp
next
  case False
  with post_commit_result [OF assms(2)] have c:
    "map post_core (bs_posts st') = map post_core (bs_posts st) @ [(m, request, behavior)]"
    "bs_requests st' = (bs_requests st)(request_key caller (pr_request_id request) \<mapsto> length (bs_posts st))" by auto
  have l: "length (bs_posts st') = Suc (length (bs_posts st))" using arg_cong [OF c(1), of length] by simp
  have "post_core (bs_posts st' ! length (bs_posts st)) = map post_core (bs_posts st') ! length (bs_posts st)"
    by (simp add: l)
  also have "\<dots> = (m, request, behavior)" unfolding c(1) by (simp add: nth_append)
  finally have "post_core (bs_posts st' ! length (bs_posts st)) = (m, request, behavior)" .
  then show ?thesis using c(2) l by (auto simp: answered_def)
qed

lemma post_inner_answered:
  assumes "board_inv st" and "post_inner f h caller request behavior st = (Inr (m, n), st')"
  shows "answered caller request behavior m st'"
  using assms(2) existing_answered [OF assms(1)] commit_answered [OF assms(1)]
  by (auto simp: post_inner_def split: option.splits sum.splits)

text \<open>C17: once a post was answered, its request id is spent.  Whatever steps other callers take in
  between, the same caller asking again gets the metadata of the first post, stores nothing and notifies
  nobody if the request and its kind are the same, and gets an error otherwise.\<close>

theorem post_retry:
  assumes "board_reachable f st" and "post_inner f h caller request behavior st = (Inr (m, n), st1)"
    and "(board_step f)\<^sup>*\<^sup>* st1 st2"
    and "hc_author h' = Inr author" and "validate_post_request request' = None"
    and "pr_request_id request' = pr_request_id request"
  shows "post_inner f h' caller request' behavior' st2 =
    (if request' = request \<and> behavior' = behavior then Inr (m, None)
     else Inl (InvalidRequest ''request ID was already used for a different post''), st2)"
proof -
  have "answered caller request behavior m st2"
    using post_inner_answered [OF reachable_inv [OF assms(1)] assms(2)] steps_extend [OF assms(3)]
    by (rule answered_extends)
  from answered_existing [OF this assms(6)] show ?thesis
    by (simp add: post_inner_def assms(4,5))
qed

definition sample_request :: post_request where
  "sample_request = sample_post ''r2'' \<lparr>pd_kind = ''new_channel'', pd_name = ''general'', pd_thread = ''''\<rparr> [''/c'']"

definition sample_answer :: post_metadata where
  "sample_answer = \<lparr>pm_id = ''p2'', pm_channel = ''general'', pm_author = ''/b'', pm_thread = ''p2'', pm_created = 7000\<rparr>"

definition sample_notice :: "(bytes list \<times> post_preview) option" where
  "sample_notice = Some ([''c''], \<lparr>pv_meta = sample_answer, pv_text = ''text of r2'', pv_chars = 10, pv_truncated = False\<rparr>)"

lemma sample_valid: "validate_post_request sample_request = None"
  by (simp add: validate_post_request_def sample_request_def sample_post_def)

lemma sample_commit: "fst (post_commit id (Inr ''p2'') ''b'' ''/b'' [''c''] 7000 sample_request PostDiscussion new_board_state) =
    Inr (sample_answer, sample_notice)"
  by code_simp

lemma sample_inner: "post_inner id (sample_host ''b'' ''p2'' 7000) ''b'' sample_request PostDiscussion new_board_state =
    post_commit id (Inr ''p2'') ''b'' ''/b'' [''c''] 7000 sample_request PostDiscussion new_board_state"
proof -
  have "existing_post new_board_state ''b'' sample_request PostDiscussion = Inr None"
    "resolve_agents (hc_resolve (sample_host ''b'' ''p2'' 7000)) (pr_notify sample_request) = Inr [''c'']"
    by code_simp+
  then show ?thesis by (simp add: post_inner_def sample_valid) (simp add: sample_host_def)
qed

lemma sample_first: "fst (post_inner id (sample_host ''b'' ''p2'' 7000) ''b'' sample_request PostDiscussion new_board_state) =
    Inr (sample_answer, sample_notice)"
  by (simp only: sample_inner sample_commit)

theorem post_retry_witness:
  "let st1 = snd (post_inner id (sample_host ''b'' ''p2'' 7000) ''b'' sample_request PostDiscussion new_board_state)
   in post_inner id (sample_host ''b'' ''p3'' 9000) ''b'' sample_request PostDiscussion st1 = (Inr (sample_answer, None), st1)"
proof -
  define r where "r = post_inner id (sample_host ''b'' ''p2'' 7000) ''b'' sample_request PostDiscussion new_board_state"
  have first: "post_inner id (sample_host ''b'' ''p2'' 7000) ''b'' sample_request PostDiscussion new_board_state =
      (Inr (sample_answer, sample_notice), snd r)" using sample_first unfolding r_def by (metis prod.collapse)
  have author: "hc_author (sample_host ''b'' ''p3'' 9000) = Inr ''/b''" by code_simp
  show ?thesis
    using post_retry [OF board_reachable.start first rtranclp.rtrancl_refl author sample_valid refl, of PostDiscussion]
    by (simp only: r_def [symmetric] Let_def if_True simp_thms)
qed

section \<open>Notifications\<close>

definition destination_target :: "post_destination \<Rightarrow> subscription_target" where
  "destination_target d = (if pd_kind d = ''thread'' then thread_target (pd_thread d) else channel_target (pd_name d))"

lemma set_update: "set (AList.update a c m) - {(a, c')} \<subseteq> set m \<union> {(a, c)}"
  by (induction m) auto

lemma subscribers_subscribe: "a \<noteq> caller \<Longrightarrow> (a, c) \<in> set (subscribers (subscribe t caller st) t') \<longleftrightarrow> (a, c) \<in> set (subscribers st t')"
proof -
  assume a: "a \<noteq> caller"
  have "(a, c) \<in> set (AList.update caller d m) \<longleftrightarrow> (a, c) \<in> set m" for d m using a by (induction m) auto
  then show ?thesis by (simp add: subscribe_def subscribers_def Let_def split: option.splits)
qed

lemma resolve_target:
  assumes "resolve_destination f d author now caller i behavior st = (Inr (channel, root, target), st1)"
  shows "target = destination_target d \<and>
    (\<forall>a c. a \<noteq> caller \<longrightarrow> (a, c) \<in> set (subscribers st1 target) \<longleftrightarrow> (a, c) \<in> set (subscribers st target))"
proof -
  have "subscribers st' t = subscribers st t" if "insert_channel f n a u d st = (e, st')" for n a u d e st' t
    using insert_channel_frame(5) [OF that] by (simp add: subscribers_def)
  then show ?thesis using assms
    by (auto simp: resolve_destination_def destination_target_def subscribers_subscribe
        split: if_splits sum.splits prod.splits option.splits)
qed

lemma set_recipients: "set (post_recipients resolved caller target behavior st) =
    (set resolved \<union> (if behavior = PostDiscussion then {a. (a, Subscribe) \<in> set (subscribers st target)} else {})) - {caller}"
  by (force simp: post_recipients_def)

lemma commit_notifies:
  assumes "post_commit f new_id caller author resolved now request behavior st = (Inr (m, Some (rs, pv)), st')"
  shows "behavior = PostDiscussion \<and> rs \<noteq> [] \<and> sorted rs \<and> distinct rs \<and>
    set rs = (set resolved \<union> {a. (a, Subscribe) \<in> set (subscribers st (destination_target (pr_destination request)))}) - {caller} \<and>
    pv = preview (bs_posts st' ! length (bs_posts st)) 150"
proof -
  obtain i where i: "existing_post st caller request behavior = Inr None" "new_id = Inr i"
    using assms by (auto simp: post_commit_def split: sum.splits option.splits)
  obtain channel root target st1 where
    d: "resolve_destination f (pr_destination request) author now caller i behavior st = (Inr (channel, root, target), st1)"
    using assms i by (auto simp: post_commit_def split: sum.splits prod.splits)
  note frame = resolve_destination_frame(3) [OF d] and target = resolve_target [OF d]
  have c: "behavior = PostDiscussion" "rs = post_recipients resolved caller target behavior st1" "rs \<noteq> []"
    "pv = preview (bs_posts st' ! length (bs_posts st)) 150"
    using assms i d frame by (auto simp: post_commit_def Let_def post_behavior.exhaust split: if_splits intro: post_behavior.exhaust)
  have "sorted rs \<and> distinct rs" by (simp add: c(2) post_recipients_def)
  moreover have "set rs = (set resolved \<union> {a. (a, Subscribe) \<in> set (subscribers st (destination_target (pr_destination request)))}) - {caller}"
    using c(1,2) target by (auto simp: set_recipients)
  ultimately show ?thesis using c by blast
qed

text \<open>A post notifies exactly the agents it names and the subscribers of the channel or thread it goes
  to, each once and never its author, with a preview of what was stored; only a discussion post notifies.\<close>

theorem post_notifies:
  assumes "post_inner f h caller request behavior st = (Inr (m, Some (rs, pv)), st')"
  shows "behavior = PostDiscussion \<and> rs \<noteq> [] \<and> distinct rs \<and> pv = preview (bs_posts st' ! length (bs_posts st)) 150 \<and>
    (\<exists>named. resolve_agents (hc_resolve h) (pr_notify request) = Inr named \<and>
      set rs = (set named \<union> {a. (a, Subscribe) \<in> set (subscribers st (destination_target (pr_destination request)))}) - {caller})"
proof -
  obtain author resolved now where
    r: "(if behavior = PostDiscussion then resolve_agents (hc_resolve h) (pr_notify request) else Inr []) = Inr resolved"
    and c: "post_commit f (hc_new_id h) caller author resolved now request behavior st = (Inr (m, Some (rs, pv)), st')"
    using assms by (auto simp: post_inner_def split: option.splits sum.splits)
  show ?thesis using r commit_notifies [OF c] by simp
qed

theorem post_notifies_witness:
  "set [''c''] = (set [''c''] \<union> {a. (a, Subscribe) \<in> set (subscribers new_board_state (channel_target ''general''))}) - {''b''}"
proof -
  define r where "r = post_inner id (sample_host ''b'' ''p2'' 7000) ''b'' sample_request PostDiscussion new_board_state"
  have "post_inner id (sample_host ''b'' ''p2'' 7000) ''b'' sample_request PostDiscussion new_board_state =
      (Inr (sample_answer, sample_notice), snd r)" using sample_first unfolding r_def by (metis prod.collapse)
  from post_notifies [OF this [unfolded sample_notice_def]] obtain named where
    named: "resolve_agents (hc_resolve (sample_host ''b'' ''p2'' 7000)) (pr_notify sample_request) = Inr named"
    "set [''c''] = (set named \<union> {a. (a, Subscribe) \<in> set (subscribers new_board_state
      (destination_target (pr_destination sample_request)))}) - {''b''}" by blast
  have "resolve_agents (hc_resolve (sample_host ''b'' ''p2'' 7000)) (pr_notify sample_request) = Inr [''c'']"
    "destination_target (pr_destination sample_request) = channel_target ''general''" by code_simp+
  with named show ?thesis by simp
qed

section \<open>Queries\<close>

lemma channel_list_exact:
  assumes "board_inv st" and "map_of (bs_channels st) name = Some c"
  shows "bc_posts c = filter (\<lambda>k. pm_channel (bp_meta (bs_posts st ! k)) = name) [0 ..< length (bs_posts st)]"
proof -
  have "bc_posts c = channel_posts (metas st) name"
    using board_inv_channel_ok [OF assms] by (simp add: channel_ok_def)
  also have "\<dots> = filter (\<lambda>k. pm_channel (bp_meta (bs_posts st ! k)) = name) [0 ..< length (bs_posts st)]"
    unfolding channel_posts_def index_filter_def by (intro filter_cong) (simp_all add: metas_def)
  finally show ?thesis .
qed

lemma no_channel_none:
  assumes "board_inv st" and "map_of (bs_channels st) name = None" and "k < length (bs_posts st)"
  shows "pm_channel (bp_meta (bs_posts st ! k)) \<noteq> name"
proof -
  have "k < length (metas st)" using assms(3) by (simp add: metas_def)
  from thread_channel_exists [OF assms(1) this] bp_meta_nth [OF assms(3)] assms(2) show ?thesis by auto
qed

text \<open>Posts match a search when scanning all of them says so.\<close>

definition scan_posts ::
  "bytes option \<Rightarrow> bytes option \<Rightarrow> bytes option \<Rightarrow> (int \<times> nat) option \<Rightarrow> board_state \<Rightarrow> nat list" where
  "scan_posts channel author search after st = filter (\<lambda>k.
     (case channel of None \<Rightarrow> True | Some name \<Rightarrow> pm_channel (bp_meta (bs_posts st ! k)) = name) \<and>
     post_matches st author search after k) [0 ..< length (bs_posts st)]"

lemma search_candidates_scan:
  assumes "board_inv st"
  shows "filter (post_matches st author search after) (search_candidates channel st) = scan_posts channel author search after st"
proof (cases channel)
  case None
  then show ?thesis by (simp add: search_candidates_def scan_posts_def)
next
  case (Some name)
  show ?thesis
  proof (cases "map_of (bs_channels st) name")
    case None
    then show ?thesis using no_channel_none [OF assms None]
      by (auto simp: search_candidates_def scan_posts_def Some filter_empty_conv)
  next
    case (Some c)
    then show ?thesis using \<open>channel = Some name\<close> channel_list_exact [OF assms Some]
      by (simp add: search_candidates_def scan_posts_def conj_commute)
  qed
qed

lemma newest_first_sorted:
  "distinct ks \<Longrightarrow> sorted_wrt (\<lambda>j k. post_key st k < post_key st j) (newest_first st ks)"
proof -
  assume d: "distinct ks"
  define key where "key = (\<lambda>k. (- fst (post_key st k), - int k))"
  have "sorted_wrt (\<lambda>j k. key j \<le> key k \<and> j \<noteq> k) (newest_first st ks)"
    using d sorted_sort_key [of key ks] unfolding newest_first_def key_def [symmetric]
    by (simp add: sorted_map sorted_wrt_iff_nth_less nth_eq_iff_index_eq)
  then show ?thesis
    by (rule sorted_wrt_mono_rel [rotated]) (auto simp: key_def post_key_def)
qed

lemma newest_first_set [simp]: "set (newest_first st ks) = set ks" "distinct (newest_first st ks) = distinct ks"
  by (simp_all add: newest_first_def)

lemma scan_posts_distinct [simp]: "distinct (scan_posts channel author search after st)"
  by (simp add: scan_posts_def)

definition page_posts :: "board_state \<Rightarrow> board_error + nat page \<Rightarrow> board_error + post_metadata list \<times> bytes option" where
  "page_posts st r = bind_res r (\<lambda>p. Inr (map (\<lambda>k. bp_meta (bs_posts st ! k)) (page_results p), page_next p))"

definition page_metas :: "board_error + post_preview page \<Rightarrow> board_error + post_metadata list \<times> bytes option" where
  "page_metas r = bind_res r (\<lambda>p. Inr (map pv_meta (page_results p), page_next p))"

lemma preview_meta [simp]: "pv_meta (preview p n) = bp_meta p"
  by (simp add: preview_def)

text \<open>A search returns a page of exactly the posts that a scan of the whole board finds, newest first,
  although it looks only at the index of the channel.\<close>

theorem search_posts_exact:
  assumes "board_reachable f st" and "hc_author h = Inr a"
    and "(case sq_after q of None \<Rightarrow> Inr None | Some i \<Rightarrow> bind_res (post_index st i) (\<lambda>k. Inr (Some (post_key st k)))) = Inr after"
  shows "\<exists>ks. set ks = set (scan_posts (sq_channel q) (sq_author q) (map_option f (sq_query q)) after st) \<and>
    sorted_wrt (\<lambda>j k. post_key st k < post_key st j) ks \<and>
    page_metas (search_posts f h q st) = page_posts st (page_items (sq_page q) ks)"
proof -
  define found where "found = scan_posts (sq_channel q) (sq_author q) (map_option f (sq_query q)) after st"
  have "search_posts f h q st = bind_res (page_items (sq_page q) (newest_first st found)) (\<lambda>p.
      Inr \<lparr>page_results = map (\<lambda>k. preview (bs_posts st ! k) (search_preview_chars (sq_max_chars q) (length (page_results p))))
        (page_results p), page_next = page_next p\<rparr>)"
    using search_candidates_scan [OF reachable_inv [OF assms(1)]]
    by (simp add: search_posts_def assms(2,3) found_def Let_def)
  then have "page_metas (search_posts f h q st) = page_posts st (page_items (sq_page q) (newest_first st found))"
    by (cases "page_items (sq_page q) (newest_first st found)") (simp_all add: page_metas_def page_posts_def)
  moreover have "sorted_wrt (\<lambda>j k. post_key st k < post_key st j) (newest_first st found)"
    by (rule newest_first_sorted) (simp add: found_def)
  ultimately show ?thesis unfolding found_def [symmetric] by (intro exI [of _ "newest_first st found"]) simp
qed

definition sample_query :: post_query where
  "sample_query = \<lparr>sq_channel = Some ''general'', sq_query = None, sq_after = None, sq_author = None,
     sq_page = \<lparr>pq_cursor = None, pq_limit = 0\<rparr>, sq_max_chars = 0\<rparr>"

theorem search_posts_exact_witness:
  "\<exists>ks. set ks = set (scan_posts (Some ''general'') None None None sample_root) \<and>
    page_metas (search_posts id (sample_host ''a'' '''' 0) sample_query sample_root) =
      page_posts sample_root (page_items \<lparr>pq_cursor = None, pq_limit = 0\<rparr> ks)"
proof -
  have "hc_author (sample_host ''a'' '''' 0) = Inr ''/a''" by code_simp
  moreover have "(case sq_after sample_query of None \<Rightarrow> Inr None
      | Some i \<Rightarrow> bind_res (post_index sample_root i) (\<lambda>k. Inr (Some (post_key sample_root k)))) = Inr None"
    by (simp add: sample_query_def)
  ultimately have "\<exists>ks. set ks = set (scan_posts (sq_channel sample_query) (sq_author sample_query)
        (map_option id (sq_query sample_query)) None sample_root) \<and>
      sorted_wrt (\<lambda>j k. post_key sample_root k < post_key sample_root j) ks \<and>
      page_metas (search_posts id (sample_host ''a'' '''' 0) sample_query sample_root) =
        page_posts sample_root (page_items (sq_page sample_query) ks)"
    by (rule search_posts_exact [OF sample_reachable])
  then show ?thesis by (simp only: sample_query_def post_query.simps option.map) blast
qed

text \<open>Reading a thread returns its root and a page of exactly its replies, newest first.\<close>

theorem read_thread_exact:
  assumes "board_reachable f st" and "read_thread h thread q max_chars st = Inr t"
  shows "\<exists>ks. sorted_wrt (\<lambda>j k. post_key st k < post_key st j) ks \<and>
    set ks = {k. k < length (bs_posts st) \<and> pm_thread (bp_meta (bs_posts st ! k)) = thread \<and>
                 pm_id (bp_meta (bs_posts st ! k)) \<noteq> thread} \<and>
    pm_id (pv_meta (tp_root t)) = thread \<and>
    page_metas (Inr (tp_replies t)) = page_posts st (page_items q ks)"
proof -
  note inv = reachable_inv [OF assms(1)]
  obtain a k p where r: "hc_author h = Inr a" "thread_index st thread = Inr k"
    "page_items q (newest_first st (bp_replies (bs_posts st ! k))) = Inr p"
    and t: "pv_meta (tp_root t) = bp_meta (bs_posts st ! k)"
      "map pv_meta (page_results (tp_replies t)) = map (\<lambda>r. bp_meta (bs_posts st ! r)) (page_results p)"
      "page_next (tp_replies t) = page_next p"
    using assms(2) by (auto simp: read_thread_def Let_def bind_res_eq_Inr)
  note k = thread_index_ok [OF inv r(2)]
  have "post_ok (metas st) (bs_posts st ! k)" using inv k(2) by (simp add: board_inv_def list_all_length)
  then have replies: "bp_replies (bs_posts st ! k) = thread_replies (metas st) thread" using k(4,5) by (simp add: post_ok_def)
  have "set (thread_replies (metas st) thread) = {j. j < length (bs_posts st) \<and>
      pm_thread (bp_meta (bs_posts st ! j)) = thread \<and> pm_id (bp_meta (bs_posts st ! j)) \<noteq> thread}"
    by (auto simp: thread_replies_def index_filter_def metas_def)
  moreover have "distinct (thread_replies (metas st) thread)" by (simp add: thread_replies_def index_filter_def)
  moreover have "page_metas (Inr (tp_replies t)) =
      page_posts st (page_items q (newest_first st (bp_replies (bs_posts st ! k))))"
    by (simp add: page_metas_def page_posts_def r(3) t)
  ultimately show ?thesis using newest_first_sorted [of "thread_replies (metas st) thread" st] k(4,5) t(1)
    by (intro exI [of _ "newest_first st (bp_replies (bs_posts st ! k))"]) (simp add: replies)
qed

theorem read_thread_exact_witness:
  "\<exists>t ks. read_thread (sample_host ''a'' '''' 0) ''p1'' \<lparr>pq_cursor = None, pq_limit = 0\<rparr> 5 sample_root = Inr t \<and>
    set ks = {k. k < length (bs_posts sample_root) \<and> pm_thread (bp_meta (bs_posts sample_root ! k)) = ''p1'' \<and>
      pm_id (bp_meta (bs_posts sample_root ! k)) \<noteq> ''p1''} \<and>
    page_metas (Inr (tp_replies t)) = page_posts sample_root (page_items \<lparr>pq_cursor = None, pq_limit = 0\<rparr> ks)"
proof -
  define r where "r = read_thread (sample_host ''a'' '''' 0) ''p1'' \<lparr>pq_cursor = None, pq_limit = 0\<rparr> 5 sample_root"
  have "\<not> isl r" unfolding r_def by code_simp
  then obtain t where t: "read_thread (sample_host ''a'' '''' 0) ''p1'' \<lparr>pq_cursor = None, pq_limit = 0\<rparr> 5 sample_root = Inr t"
    unfolding r_def by (cases r) (simp_all add: r_def)
  show ?thesis using read_thread_exact [OF sample_reachable t] t by blast
qed

text \<open>The channels listed, and what their summaries say.\<close>

lemma page_items_subset: "page_items q xs = Inr p \<Longrightarrow> set (page_results p) \<subseteq> set xs"
  by (auto simp: page_items_def bind_res_eq_Inr finish_board_page_def Let_def split: if_splits
      dest!: in_set_takeD dest: in_set_dropD)

lemma newest_of_max: "newest_of ms ks = Some k \<Longrightarrow> j \<in> set ks \<Longrightarrow> meta_key ms j \<le> meta_key ms k"
proof -
  assume k: "newest_of ms ks = Some k" and j: "j \<in> set ks"
  then have ne: "ks \<noteq> []" by auto
  define M where "M = Max (meta_key ms ` set ks)"
  have "M \<in> meta_key ms ` set ks" unfolding M_def using ne by (intro Max_in) auto
  then have "meta_key ms (snd M) = M" by (auto simp: meta_key_def)
  moreover have "k = snd M" using k ne by (simp only: newest_of_def if_False option.inject M_def)
  moreover have "meta_key ms j \<le> M" unfolding M_def using j by (intro Max_ge) auto
  ultimately show ?thesis by simp
qed

text \<open>Every summary that listing the channels returns counts exactly the posts of its channel, and
  names the newest of them, by creation time and then by sequence, if there is one.\<close>

theorem list_channels_exact:
  assumes "board_reachable f st" and "list_channels f h q st = Inr p" and "s \<in> set (page_results p)"
  shows "\<exists>ks. set ks = {k. k < length (bs_posts st) \<and> pm_channel (bp_meta (bs_posts st ! k)) = cs_name s} \<and>
    distinct ks \<and> cs_count s = int (length ks) \<and>
    (case cs_last s of None \<Rightarrow> ks = []
     | Some i \<Rightarrow> \<exists>k. k \<in> set ks \<and> pm_id (bp_meta (bs_posts st ! k)) = i \<and> list_all (\<lambda>j. post_key st j \<le> post_key st k) ks)"
proof -
  note inv = reachable_inv [OF assms(1)]
  define found where "found = sort_key (\<lambda>c. (channel_activity st c, cs_name (bc_summary c)))
    (filter (\<lambda>c. contains_bytes (bc_search c) (case cq_query q of None \<Rightarrow> '''' | Some s \<Rightarrow> f s)) (map snd (bs_channels st)))"
  obtain p' where p': "page_items (cq_page q) (in_direction (cq_direction q) found) = Inr p'"
    "page_results p = map bc_summary (page_results p')"
    using assms(2) by (auto simp: list_channels_def Let_def bind_res_eq_Inr found_def)
  then obtain c where c: "c \<in> set (page_results p')" "s = bc_summary c" using assms(3) by auto
  have "set (in_direction (cq_direction q) found) \<subseteq> snd ` set (bs_channels st)"
    by (auto simp: in_direction_def found_def)
  then obtain name where "(name, c) \<in> set (bs_channels st)" using page_items_subset [OF p'(1)] c(1) by force
  then have name: "map_of (bs_channels st) name = Some c"
    using inv by (simp add: board_inv_def channels_ok_def )
  note ok = board_inv_channel_ok [OF inv name]
  define ks where "ks = bc_posts c"
  have named: "cs_name s = name" using ok by (simp add: channel_ok_def c(2))
  have ks: "ks = channel_posts (metas st) name" using ok by (simp add: ks_def channel_ok_def)
  have set_ks: "set ks = {k. k < length (bs_posts st) \<and> pm_channel (bp_meta (bs_posts st ! k)) = cs_name s}"
    unfolding ks_def channel_list_exact [OF inv name] named by auto
  have "case cs_last s of None \<Rightarrow> ks = []
     | Some i \<Rightarrow> \<exists>k. k \<in> set ks \<and> pm_id (bp_meta (bs_posts st ! k)) = i \<and> list_all (\<lambda>j. post_key st j \<le> post_key st k) ks"
  proof (cases "newest_of (metas st) ks")
    case None
    then have "ks = []" by (simp add: newest_of_def split: if_splits)
    moreover have "cs_last s = None" using ok None by (simp add: channel_ok_def c(2) ks)
    ultimately show ?thesis by simp
  next
    case (Some k)
    note k = newest_of_in [OF Some]
    have "cs_last s = Some (pm_id (metas st ! k))" using ok Some by (simp add: channel_ok_def c(2) ks)
    moreover have "k < length (bs_posts st)" using k set_ks by simp
    moreover have "list_all (\<lambda>j. post_key st j \<le> post_key st k) ks"
      using newest_of_max [OF Some] set_ks k by (auto simp: list_all_iff post_key_metas)
    ultimately show ?thesis using k bp_meta_nth [of k st] by auto
  qed
  moreover have "distinct ks" by (simp add: ks channel_posts_def index_filter_def)
  moreover have "cs_count s = int (length ks)" using ok by (simp add: c(2) channel_ok_def ks)
  ultimately show ?thesis using set_ks by (intro exI [of _ ks] conjI)
qed

theorem list_channels_exact_witness:
  "\<exists>p s ks. list_channels id (sample_host ''a'' '''' 0)
      \<lparr>cq_query = None, cq_direction = NewestFirst, cq_page = \<lparr>pq_cursor = None, pq_limit = 0\<rparr>\<rparr> sample_root = Inr p \<and>
    s \<in> set (page_results p) \<and> distinct ks \<and> cs_count s = int (length ks) \<and>
    set ks = {k. k < length (bs_posts sample_root) \<and> pm_channel (bp_meta (bs_posts sample_root ! k)) = cs_name s}"
proof -
  define r where "r = list_channels id (sample_host ''a'' '''' 0)
      \<lparr>cq_query = None, cq_direction = NewestFirst, cq_page = \<lparr>pq_cursor = None, pq_limit = 0\<rparr>\<rparr> sample_root"
  have "case r of Inl _ \<Rightarrow> False | Inr p \<Rightarrow> page_results p \<noteq> []" unfolding r_def by code_simp
  then obtain p where p: "r = Inr p" "page_results p \<noteq> []" by (cases r) auto
  then have "hd (page_results p) \<in> set (page_results p)" by simp
  from list_channels_exact [OF sample_reachable p(1) [unfolded r_def] this] p(1) [unfolded r_def] this show ?thesis by blast
qed

end
