(* ===== verification/Go_Case.thy ===== *)
theory Go_Case
  imports Go_Strings
begin

text \<open>
  Lower case and digits as Go's \<open>strings\<close> package has them.  The case table of Unicode, \<open>unicode.ToLower\<close>,
  is the parameter \<open>lower_rune\<close>; ASCII strings do not need it.
\<close>

definition ascii_lower :: "char \<Rightarrow> char" where
  "ascii_lower c = (if 0x41 \<le> (of_char c :: nat) \<and> (of_char c :: nat) \<le> 0x5A then char_of (of_char c + 0x20 :: nat) else c)"

definition is_ascii :: "bytes \<Rightarrow> bool" where
  "is_ascii s \<longleftrightarrow> list_all (\<lambda>c. (of_char c :: nat) < 0x80) s"

definition to_lower :: "(nat \<Rightarrow> nat) \<Rightarrow> bytes \<Rightarrow> bytes" where
  "to_lower lower_rune s =
     (if is_ascii s then map ascii_lower s else string_of_runes (map lower_rune (string_runes s)))"

definition ascii_digit :: "char \<Rightarrow> bool" where
  "ascii_digit c \<longleftrightarrow> 0x30 \<le> (of_char c :: nat) \<and> (of_char c :: nat) \<le> 0x39"

end
