(* ===== verification/Network_Policy.thy ===== *)
theory Network_Policy
  imports Go_Case "HOL-Library.Word" "HOL-Library.List_Lexorder" "HOL-Library.Char_ord"
begin

text \<open>
  The application network policy, \<open>network/network_policy.go\<close>: which destinations a request may go to,
  the permits requests hold while they run, and their revocation when the account or the configuration
  changes.  A controller owns one state, shared by every \<open>NetworkPolicy\<close> handle; each operation runs under
  its mutex.  A permit is an index into a heap of permits.  The channel that \<open>Changes\<close> hands out is
  modelled by how often it was closed.  The case table of Unicode, \<open>unicode.ToLower\<close>, is the parameter
  \<open>lower_rune\<close>; the rendering \<open>URL.String()\<close> is a field of the URL.
\<close>

section \<open>Host names\<close>

record url =
  u_scheme :: bytes
  u_host :: bytes
  u_text :: bytes

text \<open>\<open>URL.Hostname\<close>: the host without a port and without the brackets of an IPv6 literal.\<close>

definition valid_optional_port :: "bytes \<Rightarrow> bool" where
  "valid_optional_port p = (case p of [] \<Rightarrow> True | c # ds \<Rightarrow> c = CHR '':'' \<and> list_all ascii_digit ds)"

text \<open>The part up to the last colon and the part from it on.\<close>

definition last_colon :: "bytes \<Rightarrow> (bytes \<times> bytes) option" where
  "last_colon s =
     (if CHR '':'' \<in> set s
      then Some (rev (drop 1 (dropWhile (\<lambda>c. c \<noteq> CHR '':'') (rev s))),
                 CHR '':'' # rev (takeWhile (\<lambda>c. c \<noteq> CHR '':'') (rev s)))
      else None)"

definition hostname :: "url \<Rightarrow> bytes" where
  "hostname u =
     (let h = (case last_colon (u_host u) of
                 None \<Rightarrow> u_host u
               | Some (before, port) \<Rightarrow> if valid_optional_port port then before else u_host u)
      in if has_prefix h ''['' \<and> has_suffix h '']'' then butlast (tl h) else h)"

section \<open>Destination policies\<close>

record destination_policy =
  dp_restricted :: bool
  dp_hosts :: "bytes list"
  dp_lookup :: "bytes list"

definition unrestricted_policy :: destination_policy where
  "unrestricted_policy = \<lparr>dp_restricted = False, dp_hosts = [], dp_lookup = []\<rparr>"

fun collect_hosts :: "(nat \<Rightarrow> nat) \<Rightarrow> bytes list \<Rightarrow> bytes list \<Rightarrow> bytes list" where
  "collect_hosts lower_rune seen [] = seen"
| "collect_hosts lower_rune seen (host # hosts) =
     (let h = to_lower lower_rune (trim_space host) in
      if h = '''' then collect_hosts lower_rune seen hosts
      else if h \<in> set seen then collect_hosts lower_rune seen hosts
      else collect_hosts lower_rune (seen @ [h]) hosts)"

definition restricted_policy :: "(nat \<Rightarrow> nat) \<Rightarrow> bytes list \<Rightarrow> destination_policy" where
  "restricted_policy lower_rune allowed =
     (let hosts = collect_hosts lower_rune [] allowed
      in \<lparr>dp_restricted = True, dp_hosts = sort hosts, dp_lookup = hosts\<rparr>)"

definition allows :: "(nat \<Rightarrow> nat) \<Rightarrow> destination_policy \<Rightarrow> url option \<Rightarrow> bool" where
  "allows lower_rune p target =
     (if \<not> dp_restricted p then True
      else (case target of
          None \<Rightarrow> False
        | Some u \<Rightarrow>
            if to_lower lower_rune (u_scheme u) \<noteq> ''https'' \<and> to_lower lower_rune (u_scheme u) \<noteq> ''wss'' then False
            else
              let host = trim_suffix (to_lower lower_rune (hostname u)) ''.''
              in if host = '''' then False else host \<in> set (dp_lookup p)))"

definition policies_equal :: "destination_policy \<Rightarrow> destination_policy \<Rightarrow> bool" where
  "policies_equal p q \<longleftrightarrow> dp_restricted p = dp_restricted q \<and> dp_hosts p = dp_hosts q"

section \<open>State, permits and handles\<close>

datatype policy_error = PolicyUnavailable | DestinationDenied | PermissionRevoked | UnsupportedTransport

record permit_destination =
  pe_target :: "url option"
  pe_sdk :: bool

record permit =
  pe_destination :: permit_destination
  pe_managed :: bool
  pe_revoked :: bool
  pe_released :: bool

record network_state =
  ns_policy :: "destination_policy option"
  ns_revision :: "64 word"
  ns_account :: "64 word"
  ns_permits :: "nat list"
  ns_changes :: nat
  ns_heap :: "permit list"

definition new_network_state :: network_state where
  "new_network_state = \<lparr>ns_policy = None, ns_revision = 0, ns_account = 0, ns_permits = [], ns_changes = 0, ns_heap = []\<rparr>"

record policy_handle =
  ph_managed :: bool
  ph_endpoints :: "url list option"
  ph_account :: "64 word option"

definition unmanaged_handle :: policy_handle where
  "unmanaged_handle = \<lparr>ph_managed = False, ph_endpoints = None, ph_account = None\<rparr>"

definition controller_handle :: policy_handle where
  "controller_handle = \<lparr>ph_managed = True, ph_endpoints = None, ph_account = None\<rparr>"

definition is_scoped :: "policy_handle \<Rightarrow> bool" where
  "is_scoped h \<longleftrightarrow> ph_managed h \<or> ph_endpoints h \<noteq> None"

definition contains_endpoint :: "url option list \<Rightarrow> url option \<Rightarrow> bool" where
  "contains_endpoint endpoints target = (case target of
     None \<Rightarrow> False
   | Some t \<Rightarrow> list_ex (\<lambda>e. case e of None \<Rightarrow> False | Some u \<Rightarrow> u_text u = u_text t) endpoints)"

definition restrict_to_endpoints :: "url option list \<Rightarrow> policy_handle \<Rightarrow> policy_handle" where
  "restrict_to_endpoints endpoints h =
     h\<lparr>ph_endpoints := Some (case ph_endpoints h of
         None \<Rightarrow> map the (filter (\<lambda>e. e \<noteq> None) endpoints)
       | Some existing \<Rightarrow> filter (\<lambda>u. contains_endpoint endpoints (Some u)) existing)\<rparr>"

definition for_current_account :: "network_state \<Rightarrow> policy_handle \<Rightarrow> policy_handle" where
  "for_current_account st h = (if ph_managed h then h\<lparr>ph_account := Some (ns_account st)\<rparr> else h)"

definition policy_revision :: "policy_handle \<Rightarrow> network_state \<Rightarrow> 64 word" where
  "policy_revision h st = (if ph_managed h then ns_revision st else 0)"

definition destination_allowed :: "(nat \<Rightarrow> nat) \<Rightarrow> permit_destination \<Rightarrow> destination_policy option \<Rightarrow> bool" where
  "destination_allowed lower_rune d policy = (case policy of
     None \<Rightarrow> False
   | Some p \<Rightarrow> if pe_sdk d then \<not> dp_restricted p else allows lower_rune p (pe_target d))"

definition check_permit :: "nat \<Rightarrow> network_state \<Rightarrow> policy_error option" where
  "check_permit i st = (if pe_revoked (ns_heap st ! i) then Some PermissionRevoked else None)"

definition release_permit :: "nat \<Rightarrow> network_state \<Rightarrow> network_state" where
  "release_permit i st = st\<lparr>ns_heap := (ns_heap st)[i := (ns_heap st ! i)\<lparr>pe_released := True\<rparr>]\<rparr>"

definition mark_revoked :: "nat \<Rightarrow> permit list \<Rightarrow> permit list" where
  "mark_revoked i heap = heap[i := (heap ! i)\<lparr>pe_revoked := True\<rparr>]"

definition notify_change :: "network_state \<Rightarrow> network_state" where
  "notify_change st = st\<lparr>ns_changes := Suc (ns_changes st)\<rparr>"

definition revoke_all :: "network_state \<Rightarrow> network_state" where
  "revoke_all st = st\<lparr>ns_heap := fold mark_revoked (ns_permits st) (ns_heap st), ns_permits := []\<rparr>"

definition prune_released :: "network_state \<Rightarrow> network_state" where
  "prune_released st = st\<lparr>ns_permits := filter (\<lambda>i. \<not> pe_released (ns_heap st ! i)) (ns_permits st)\<rparr>"

section \<open>Operations\<close>

definition acquire_destination ::
  "(nat \<Rightarrow> nat) \<Rightarrow> policy_handle \<Rightarrow> permit_destination \<Rightarrow> network_state \<Rightarrow> (policy_error + nat) \<times> network_state" where
  "acquire_destination lower_rune h d st =
     (if \<not> ph_managed h
      then (Inr (length (ns_heap st)), st\<lparr>ns_heap := ns_heap st @
              [\<lparr>pe_destination = d, pe_managed = False, pe_revoked = False, pe_released = False\<rparr>]\<rparr>)
      else if (case ph_account h of None \<Rightarrow> False | Some a \<Rightarrow> a \<noteq> ns_account st) then (Inl PermissionRevoked, st)
      else if ns_policy st = None then (Inl PolicyUnavailable, st)
      else if \<not> destination_allowed lower_rune d (ns_policy st)
      then (Inl (if pe_sdk d then UnsupportedTransport else DestinationDenied), st)
      else
        let st1 = prune_released st; i = length (ns_heap st1)
        in (Inr i, st1\<lparr>ns_heap := ns_heap st1 @
              [\<lparr>pe_destination = d, pe_managed = True, pe_revoked = False, pe_released = False\<rparr>],
            ns_permits := ns_permits st1 @ [i]\<rparr>))"

definition acquire ::
  "(nat \<Rightarrow> nat) \<Rightarrow> policy_handle \<Rightarrow> url option \<Rightarrow> network_state \<Rightarrow> (policy_error + nat) \<times> network_state" where
  "acquire lower_rune h target st =
     (if (case ph_endpoints h of None \<Rightarrow> False | Some es \<Rightarrow> \<not> contains_endpoint (map Some es) target)
      then (Inl DestinationDenied, st)
      else acquire_destination lower_rune h \<lparr>pe_target = target, pe_sdk = False\<rparr> st)"

definition acquire_sdk ::
  "(nat \<Rightarrow> nat) \<Rightarrow> policy_handle \<Rightarrow> network_state \<Rightarrow> (policy_error + nat) \<times> network_state" where
  "acquire_sdk lower_rune h st =
     (if ph_endpoints h \<noteq> None then (Inl UnsupportedTransport, st)
      else acquire_destination lower_rune h \<lparr>pe_target = None, pe_sdk = True\<rparr> st)"

definition invalidate :: "policy_handle \<Rightarrow> network_state \<Rightarrow> network_state" where
  "invalidate h st =
     (if \<not> ph_managed h then st
      else revoke_all (notify_change
        (st\<lparr>ns_revision := ns_revision st + 1, ns_account := ns_account st + 1, ns_policy := None\<rparr>)))"

definition unavailable :: "64 word \<Rightarrow> network_state \<Rightarrow> network_state" where
  "unavailable revision st =
     (if ns_revision st \<noteq> revision then st
      else revoke_all (if ns_policy st \<noteq> None then notify_change (st\<lparr>ns_policy := None\<rparr>) else st))"

definition publish :: "(nat \<Rightarrow> nat) \<Rightarrow> 64 word \<Rightarrow> destination_policy \<Rightarrow> network_state \<Rightarrow> bool \<times> network_state" where
  "publish lower_rune revision policy st =
     (if ns_revision st \<noteq> revision then (False, st)
      else
        let st1 = prune_released st;
            kept = ns_permits st1;
            denied = filter (\<lambda>i. \<not> destination_allowed lower_rune (pe_destination (ns_heap st1 ! i)) (Some policy)) kept;
            heap = fold mark_revoked denied (ns_heap st1);
            st2 = st1\<lparr>ns_heap := heap, ns_permits := filter (\<lambda>i. \<not> pe_revoked (heap ! i)) kept\<rparr>
        in (True,
            if (case ns_policy st2 of None \<Rightarrow> True | Some q \<Rightarrow> \<not> policies_equal q policy)
            then notify_change (st2\<lparr>ns_policy := Some policy\<rparr>) else st2))"

text \<open>A run of the shared state: any operations of any handles, in the order they took the mutex.\<close>

datatype network_op =
    Acquire policy_handle "url option"
  | AcquireSdk policy_handle
  | Invalidate policy_handle
  | Unavailable "64 word"
  | Publish "64 word" destination_policy
  | Release nat

definition network_step :: "(nat \<Rightarrow> nat) \<Rightarrow> network_op \<Rightarrow> network_state \<Rightarrow> network_state" where
  "network_step lower_rune op st = (case op of
     Acquire h target \<Rightarrow> snd (acquire lower_rune h target st)
   | AcquireSdk h \<Rightarrow> snd (acquire_sdk lower_rune h st)
   | Invalidate h \<Rightarrow> invalidate h st
   | Unavailable r \<Rightarrow> unavailable r st
   | Publish r p \<Rightarrow> snd (publish lower_rune r p st)
   | Release i \<Rightarrow> release_permit i st)"

definition network_run :: "(nat \<Rightarrow> nat) \<Rightarrow> network_op list \<Rightarrow> network_state \<Rightarrow> network_state" where
  "network_run lower_rune ops st = fold (network_step lower_rune) ops st"

section \<open>No permit outlives its authorization\<close>

text \<open>Policies come from the two constructors; their lookup table is their host list.\<close>

definition policy_ok :: "destination_policy \<Rightarrow> bool" where
  "policy_ok p \<longleftrightarrow> set (dp_lookup p) = set (dp_hosts p)"

definition op_ok :: "(nat \<Rightarrow> nat) \<Rightarrow> network_op \<Rightarrow> bool" where
  "op_ok lower_rune op = (case op of
     Publish r p \<Rightarrow> p = unrestricted_policy \<or> (\<exists>hosts. p = restricted_policy lower_rune hosts)
   | _ \<Rightarrow> True)"

lemma op_ok_policy: "op_ok lower_rune (Publish r p) \<Longrightarrow> policy_ok p"
  by (auto simp: op_ok_def policy_ok_def unrestricted_policy_def restricted_policy_def Let_def)

lemma length_mark_revoked [simp]: "length (fold mark_revoked is heap) = length heap"
  by (induction "is" arbitrary: heap) (simp_all add: mark_revoked_def)

lemma nth_mark_revoked:
  "j < length heap \<Longrightarrow>
   fold mark_revoked is heap ! j = (if j \<in> set is then (heap ! j)\<lparr>pe_revoked := True\<rparr> else heap ! j)"
proof (induction "is" arbitrary: heap)
  case (Cons i "is")
  then show ?case by (cases "i < length heap") (auto simp: mark_revoked_def nth_list_update)
qed simp

definition network_inv :: "(nat \<Rightarrow> nat) \<Rightarrow> network_state \<Rightarrow> bool" where
  "network_inv lower_rune st \<longleftrightarrow>
     (\<forall>i \<in> set (ns_permits st). i < length (ns_heap st) \<and> \<not> pe_revoked (ns_heap st ! i) \<and>
        destination_allowed lower_rune (pe_destination (ns_heap st ! i)) (ns_policy st)) \<and>
     (\<forall>i < length (ns_heap st). pe_managed (ns_heap st ! i) \<and> \<not> pe_revoked (ns_heap st ! i) \<and>
        \<not> pe_released (ns_heap st ! i) \<longrightarrow> i \<in> set (ns_permits st)) \<and>
     (\<forall>p. ns_policy st = Some p \<longrightarrow> policy_ok p)"

lemma network_invI:
  assumes "\<And>i. i \<in> set (ns_permits st) \<Longrightarrow> i < length (ns_heap st) \<and> \<not> pe_revoked (ns_heap st ! i) \<and>
      destination_allowed lower_rune (pe_destination (ns_heap st ! i)) (ns_policy st)"
    and "\<And>i. i < length (ns_heap st) \<Longrightarrow> pe_managed (ns_heap st ! i) \<Longrightarrow> \<not> pe_revoked (ns_heap st ! i) \<Longrightarrow>
      \<not> pe_released (ns_heap st ! i) \<Longrightarrow> i \<in> set (ns_permits st)"
    and "\<And>p. ns_policy st = Some p \<Longrightarrow> policy_ok p"
  shows "network_inv lower_rune st"
  using assms unfolding network_inv_def by blast

lemma network_invD:
  assumes "network_inv lower_rune st"
  shows "i \<in> set (ns_permits st) \<Longrightarrow> i < length (ns_heap st)"
    "i \<in> set (ns_permits st) \<Longrightarrow> \<not> pe_revoked (ns_heap st ! i)"
    "i \<in> set (ns_permits st) \<Longrightarrow> destination_allowed lower_rune (pe_destination (ns_heap st ! i)) (ns_policy st)"
    "i < length (ns_heap st) \<Longrightarrow> pe_managed (ns_heap st ! i) \<Longrightarrow> \<not> pe_revoked (ns_heap st ! i) \<Longrightarrow>
      \<not> pe_released (ns_heap st ! i) \<Longrightarrow> i \<in> set (ns_permits st)"
    "ns_policy st = Some p \<Longrightarrow> policy_ok p"
  using assms unfolding network_inv_def by blast+

lemma network_inv_new: "network_inv lower_rune new_network_state"
  by (simp add: network_inv_def new_network_state_def)

text \<open>A new permit, listed if it is managed, over a list that may have lost released ones.\<close>

lemma network_inv_add:
  assumes inv: "network_inv lower_rune st"
    and listed: "\<And>i. i \<in> set is \<Longrightarrow> i \<in> set (ns_permits st)"
    and dropped: "\<And>i. i \<in> set (ns_permits st) \<Longrightarrow> i \<notin> set is \<Longrightarrow> pe_released (ns_heap st ! i)"
    and new: "\<not> pe_revoked p" "pe_managed p \<Longrightarrow> destination_allowed lower_rune (pe_destination p) (ns_policy st)"
  shows "network_inv lower_rune (st\<lparr>ns_heap := ns_heap st @ [p],
    ns_permits := is @ (if pe_managed p then [length (ns_heap st)] else [])\<rparr>)"
proof (intro network_invI, goal_cases)
  case (1 i)
  then have "i \<in> set is \<or> pe_managed p \<and> i = length (ns_heap st)" by (auto split: if_splits)
  then show ?case
  proof
    assume i: "i \<in> set is"
    note I = network_invD(1-3) [OF inv listed [OF i]]
    then have "(ns_heap st @ [p]) ! i = ns_heap st ! i" by (simp only: nth_append if_True)
    with I show ?thesis by simp
  qed (simp add: new)
next
  case (2 i)
  show ?case
  proof (cases "i = length (ns_heap st)")
    case True
    then show ?thesis using 2 by simp
  next
    case False
    then have i: "i < length (ns_heap st)" using 2(1) by simp
    then have "(ns_heap st @ [p]) ! i = ns_heap st ! i" by (simp only: nth_append if_True)
    with 2(2-4) have old: "pe_managed (ns_heap st ! i)" "\<not> pe_revoked (ns_heap st ! i)" "\<not> pe_released (ns_heap st ! i)"
      by simp_all
    have "i \<in> set (ns_permits st)" by (rule network_invD(4) [OF inv i old])
    with old(3) have "i \<in> set is" by (metis dropped)
    then show ?thesis by simp
  qed
next
  case (3 q)
  then show ?case using network_invD(5) [OF inv] by simp
qed

lemma network_inv_acquire_destination:
  assumes inv: "network_inv lower_rune st"
  shows "network_inv lower_rune (snd (acquire_destination lower_rune h d st))"
proof -
  define pruned where "pruned = filter (\<lambda>i. \<not> pe_released (ns_heap st ! i)) (ns_permits st)"
  have unmanaged: "network_inv lower_rune (st\<lparr>ns_heap := ns_heap st @ [p]\<rparr>)" if p: "\<not> pe_managed p" "\<not> pe_revoked p" for p
  proof -
    have "network_inv lower_rune (st\<lparr>ns_heap := ns_heap st @ [p], ns_permits := ns_permits st @ (if pe_managed p then [length (ns_heap st)] else [])\<rparr>)"
      by (rule network_inv_add [OF inv]) (use p in simp_all)
    moreover have "st\<lparr>ns_heap := ns_heap st @ [p], ns_permits := ns_permits st @ (if pe_managed p then [length (ns_heap st)] else [])\<rparr> =
        st\<lparr>ns_heap := ns_heap st @ [p]\<rparr>" using p by simp
    ultimately show ?thesis by (simp only:)
  qed
  have managed: "network_inv lower_rune (st\<lparr>ns_heap := ns_heap st @ [p], ns_permits := pruned @ [length (ns_heap st)]\<rparr>)"
    if "pe_managed p" "pe_destination p = d" "\<not> pe_revoked p" "destination_allowed lower_rune d (ns_policy st)" for p
  proof -
    have "network_inv lower_rune (st\<lparr>ns_heap := ns_heap st @ [p], ns_permits := pruned @ (if pe_managed p then [length (ns_heap st)] else [])\<rparr>)"
      by (rule network_inv_add [OF inv]) (use that in \<open>auto simp: pruned_def\<close>)
    then show ?thesis using that(1) by simp
  qed
  have "snd (acquire_destination lower_rune h d st) =
      (if \<not> ph_managed h then st\<lparr>ns_heap := ns_heap st @
          [\<lparr>pe_destination = d, pe_managed = False, pe_revoked = False, pe_released = False\<rparr>]\<rparr>
       else if (case ph_account h of None \<Rightarrow> False | Some a \<Rightarrow> a \<noteq> ns_account st) \<or> ns_policy st = None \<or>
           \<not> destination_allowed lower_rune d (ns_policy st) then st
       else st\<lparr>ns_heap := ns_heap st @
          [\<lparr>pe_destination = d, pe_managed = True, pe_revoked = False, pe_released = False\<rparr>],
          ns_permits := pruned @ [length (ns_heap st)]\<rparr>)"
    by (simp add: acquire_destination_def Let_def prune_released_def pruned_def)
  then show ?thesis using inv managed unmanaged by simp
qed

lemma network_inv_acquire:
  "network_inv lower_rune st \<Longrightarrow> network_inv lower_rune (snd (acquire lower_rune h t st))"
  "network_inv lower_rune st \<Longrightarrow> network_inv lower_rune (snd (acquire_sdk lower_rune h st))"
  by (simp_all add: acquire_def acquire_sdk_def network_inv_acquire_destination)

lemma network_inv_revoke_all:
  assumes inv: "network_inv lower_rune st"
    and same: "ns_heap st' = ns_heap st" "ns_permits st' = ns_permits st" and ok: "\<And>p. ns_policy st' = Some p \<Longrightarrow> policy_ok p"
  shows "network_inv lower_rune (revoke_all st')"
proof (intro network_invI, goal_cases)
  case (2 i)
  then have "i < length (ns_heap st)" "i \<notin> set (ns_permits st)" "ns_heap (revoke_all st') ! i = ns_heap st ! i"
    by (auto simp: revoke_all_def same nth_mark_revoked split: if_splits)
  with 2 network_invD(4) [OF inv] show ?case by simp
qed (simp_all add: revoke_all_def ok)

lemma network_inv_unavailable:
  assumes inv: "network_inv lower_rune st" shows "network_inv lower_rune (unavailable r st)"
  using inv network_invD(5) [OF inv]
  by (auto simp: unavailable_def notify_change_def intro!: network_inv_revoke_all [OF inv])

lemma network_inv_invalidate:
  assumes inv: "network_inv lower_rune st" shows "network_inv lower_rune (invalidate h st)"
  using inv by (auto simp: invalidate_def notify_change_def intro!: network_inv_revoke_all [OF inv])

lemma allowed_equal:
  assumes "policies_equal p q" and "policy_ok p" and "policy_ok q"
  shows "destination_allowed lower_rune d (Some p) = destination_allowed lower_rune d (Some q)"
  using assms by (simp add: policies_equal_def policy_ok_def destination_allowed_def allows_def Let_def split: option.splits)

lemma network_inv_publish:
  assumes inv: "network_inv lower_rune st" and ok: "policy_ok policy"
  shows "network_inv lower_rune (snd (publish lower_rune r policy st))"
proof (cases "ns_revision st = r")
  case False
  then show ?thesis using inv by (simp add: publish_def)
next
  case True
  note I = network_invD [OF inv]
  define kept where "kept = ns_permits (prune_released st)"
  define denied where "denied = filter (\<lambda>i. \<not> destination_allowed lower_rune (pe_destination (ns_heap st ! i)) (Some policy)) kept"
  define heap where "heap = fold mark_revoked denied (ns_heap st)"
  define q where "q = (if (case ns_policy st of None \<Rightarrow> True | Some q \<Rightarrow> \<not> policies_equal q policy) then policy else the (ns_policy st))"
  have kept: "i \<in> set kept \<longleftrightarrow> i \<in> set (ns_permits st) \<and> \<not> pe_released (ns_heap st ! i)" for i
    by (simp add: kept_def prune_released_def)
  have heap: "i < length (ns_heap st) \<Longrightarrow> heap ! i = (if i \<in> set denied then (ns_heap st ! i)\<lparr>pe_revoked := True\<rparr> else ns_heap st ! i)"
    for i by (simp add: heap_def nth_mark_revoked)
  have q: "policy_ok q" "destination_allowed lower_rune d (Some q) = destination_allowed lower_rune d (Some policy)" for d
    using ok I(5) allowed_equal [OF _ _ ok] by (auto simp: q_def split: option.splits)
  have "network_inv lower_rune (st\<lparr>ns_heap := heap, ns_permits := filter (\<lambda>i. \<not> pe_revoked (heap ! i)) kept,
      ns_policy := Some q, ns_changes := c\<rparr>)" for c
  proof (intro network_invI, goal_cases)
    case (1 i)
    then have i: "i \<in> set kept" "\<not> pe_revoked (heap ! i)" by auto
    then have "i < length (ns_heap st)" "i \<notin> set denied" using heap kept I(1) by (auto split: if_splits)
    then show ?case using i heap q(2) by (auto simp: denied_def heap_def)
  next
    case (2 i)
    then show ?case using heap kept I(4) by (auto simp: heap_def split: if_splits)
  next
    case (3 p)
    then show ?case using q(1) by simp
  qed
  moreover have "snd (publish lower_rune r policy st) = st\<lparr>ns_heap := heap, ns_permits := filter (\<lambda>i. \<not> pe_revoked (heap ! i)) kept,
      ns_policy := Some q, ns_changes := (if (case ns_policy st of None \<Rightarrow> True | Some q \<Rightarrow> \<not> policies_equal q policy)
        then Suc (ns_changes st) else ns_changes st)\<rparr>"
    using True by (cases "ns_policy st") (simp_all add: publish_def Let_def kept_def denied_def heap_def q_def prune_released_def notify_change_def)
  ultimately show ?thesis by (simp only:)
qed

lemma network_inv_release:
  assumes inv: "network_inv lower_rune st" shows "network_inv lower_rune (release_permit i st)"
proof -
  have heap: "j < length (ns_heap st) \<Longrightarrow> ns_heap (release_permit i st) ! j =
      (if j = i then (ns_heap st ! j)\<lparr>pe_released := True\<rparr> else ns_heap st ! j)" for j
    by (simp add: release_permit_def nth_list_update)
  have same: "ns_permits (release_permit i st) = ns_permits st" "ns_policy (release_permit i st) = ns_policy st"
    "length (ns_heap (release_permit i st)) = length (ns_heap st)" by (simp_all add: release_permit_def)
  show ?thesis
  proof (intro network_invI, goal_cases)
    case (1 j)
    then show ?case using network_invD(1-3) [OF inv, of j] heap [of j] by (cases "j = i") (simp_all add: same)
  next
    case (2 j)
    then show ?case using network_invD(4) [OF inv, of j] heap [of j] by (cases "j = i") (simp_all add: same)
  next
    case (3 p)
    then show ?case using network_invD(5) [OF inv] by (simp add: same)
  qed
qed

lemma network_inv_step: "network_inv lower_rune st \<Longrightarrow> op_ok lower_rune op \<Longrightarrow> network_inv lower_rune (network_step lower_rune op st)"
  by (cases op) (simp_all add: network_step_def network_inv_acquire network_inv_invalidate network_inv_unavailable
      network_inv_publish network_inv_release op_ok_policy)

lemma network_inv_run: "network_inv lower_rune st \<Longrightarrow> list_all (op_ok lower_rune) ops \<Longrightarrow> network_inv lower_rune (network_run lower_rune ops st)"
  by (induction ops arbitrary: st) (simp_all add: network_run_def network_inv_step)

text \<open>C11: whatever the controllers and transports do in whatever order, a permit that is in use and still
  passes its check is allowed by the policy in force now; while no policy is published there is none.\<close>

theorem permits_current:
  assumes "list_all (op_ok lower_rune) ops" and "st = network_run lower_rune ops new_network_state"
    and "i < length (ns_heap st)" and "pe_managed (ns_heap st ! i)" and "\<not> pe_released (ns_heap st ! i)"
    and "check_permit i st = None"
  shows "destination_allowed lower_rune (pe_destination (ns_heap st ! i)) (ns_policy st)"
proof -
  have inv: "network_inv lower_rune st" unfolding assms(2) by (rule network_inv_run [OF network_inv_new assms(1)])
  have "\<not> pe_revoked (ns_heap st ! i)" using assms(6) by (simp add: check_permit_def split: if_splits)
  with network_invD(4) [OF inv assms(3,4)] assms(5) have "i \<in> set (ns_permits st)" by simp
  then show ?thesis by (rule network_invD(3) [OF inv])
qed

definition sample_url :: url where
  "sample_url = \<lparr>u_scheme = ''https'', u_host = ''a.org:443'', u_text = ''https://a.org:443''\<rparr>"

definition sample_ops :: "network_op list" where
  "sample_ops = [Publish 0 (restricted_policy id [''A.org '']), Acquire controller_handle (Some sample_url)]"

lemma sample_ops_ok: "list_all (op_ok id) sample_ops"
  by (auto simp: sample_ops_def op_ok_def)

theorem permits_current_witness:
  "destination_allowed id \<lparr>pe_target = Some sample_url, pe_sdk = False\<rparr>
    (ns_policy (network_run id sample_ops new_network_state))"
proof -
  define st where "st = network_run id sample_ops new_network_state"
  have heap: "ns_heap st = [\<lparr>pe_destination = \<lparr>pe_target = Some sample_url, pe_sdk = False\<rparr>, pe_managed = True,
      pe_revoked = False, pe_released = False\<rparr>]" unfolding st_def by code_simp
  have "destination_allowed id (pe_destination (ns_heap st ! 0)) (ns_policy st)"
    by (rule permits_current [OF sample_ops_ok st_def]) (simp_all add: heap check_permit_def)
  then show ?thesis by (simp add: heap) (simp only: st_def)
qed

section \<open>A change of account is final\<close>

definition invalidations :: "network_op list \<Rightarrow> nat" where
  "invalidations ops = length (filter (\<lambda>op. case op of Invalidate h \<Rightarrow> ph_managed h | _ \<Rightarrow> False) ops)"

lemma generation_acquire [simp]:
  "ns_revision (snd (acquire_destination lower_rune h d st)) = ns_revision st"
  "ns_account (snd (acquire_destination lower_rune h d st)) = ns_account st"
  by (simp_all add: acquire_destination_def Let_def prune_released_def)

lemma generation_step:
  "ns_revision (network_step lower_rune op st) = ns_revision st + of_nat (invalidations [op])"
  "ns_account (network_step lower_rune op st) = ns_account st + of_nat (invalidations [op])"
  by (cases op; simp add: network_step_def invalidations_def acquire_def acquire_sdk_def invalidate_def
      unavailable_def publish_def Let_def revoke_all_def notify_change_def prune_released_def release_permit_def)+

lemma generation_run:
  "ns_revision (network_run lower_rune ops st) = ns_revision st + of_nat (invalidations ops)"
  "ns_account (network_run lower_rune ops st) = ns_account st + of_nat (invalidations ops)"
proof (induction ops arbitrary: st)
  case (Cons op ops)
  have count: "of_nat (invalidations (op # ops)) = (of_nat (invalidations [op]) + of_nat (invalidations ops) :: 64 word)"
    by (simp add: invalidations_def)
  {
    case 1
    show ?case using Cons.IH(1) [of "network_step lower_rune op st"] generation_step(1) [of lower_rune op st] count
      by (simp add: network_run_def)
  next
    case 2
    show ?case using Cons.IH(2) [of "network_step lower_rune op st"] generation_step(2) [of lower_rune op st] count
      by (simp add: network_run_def)
  }
qed (simp_all add: network_run_def invalidations_def)

text \<open>What is revoked stays revoked.\<close>

definition revoked_in :: "nat \<Rightarrow> permit list \<Rightarrow> bool" where
  "revoked_in i heap \<longleftrightarrow> i < length heap \<and> pe_revoked (heap ! i)"

lemma revoked_in_mark: "revoked_in i heap \<Longrightarrow> revoked_in i (fold mark_revoked is heap)"
  by (simp add: revoked_in_def nth_mark_revoked)

lemma revoked_in_append: "revoked_in i heap \<Longrightarrow> revoked_in i (heap @ ps)"
  by (simp add: revoked_in_def nth_append)

lemma revoked_in_release: "revoked_in i heap \<Longrightarrow> revoked_in i (heap[j := (heap ! j)\<lparr>pe_released := b\<rparr>])"
  by (cases "j = i") (simp_all add: revoked_in_def)

lemma revoked_in_step: "revoked_in i (ns_heap st) \<Longrightarrow> revoked_in i (ns_heap (network_step lower_rune op st))"
  by (cases op)
    (simp_all add: network_step_def acquire_def acquire_sdk_def acquire_destination_def invalidate_def unavailable_def
      publish_def Let_def revoke_all_def notify_change_def prune_released_def release_permit_def
      revoked_in_mark revoked_in_append revoked_in_release)

lemma revoked_in_run: "revoked_in i (ns_heap st) \<Longrightarrow> revoked_in i (ns_heap (network_run lower_rune ops st))"
  by (induction ops arbitrary: st) (simp_all add: network_run_def revoked_in_step)

lemma invalidate_revokes:
  assumes inv: "network_inv lower_rune st" and "ph_managed h"
    and i: "i < length (ns_heap st)" "pe_managed (ns_heap st ! i)" "\<not> pe_released (ns_heap st ! i)"
  shows "revoked_in i (ns_heap (invalidate h st))"
proof (cases "pe_revoked (ns_heap st ! i)")
  case False
  with network_invD(4) [OF inv i(1,2)] i(3) have "i \<in> set (ns_permits st)" by simp
  then show ?thesis using assms(2) i(1)
    by (simp add: invalidate_def revoke_all_def notify_change_def revoked_in_def nth_mark_revoked)
next
  case True
  then show ?thesis using assms(2) i(1)
    by (simp add: invalidate_def revoke_all_def notify_change_def revoked_in_def nth_mark_revoked)
qed

lemma word_later: "0 < k \<Longrightarrow> k < 2 ^ 64 \<Longrightarrow> (of_nat k :: 64 word) \<noteq> 0"
  by (auto simp: word_of_nat_eq_0_iff dest: dvd_imp_le)

text \<open>C22: once the account changed, and until the 64-bit generation counter wraps around, whatever happens
  later: the permits in use at that time fail their check, a policy loaded for the old generation cannot
  be published, and a client bound to the old account acquires nothing.\<close>

theorem account_change_final:
  assumes "list_all (op_ok lower_rune) ops" and "st = network_run lower_rune ops new_network_state"
    and "ph_managed h" and "st' = network_run lower_rune later (invalidate h st)"
    and "invalidations later < 18446744073709551615"
  shows "(i < length (ns_heap st) \<and> pe_managed (ns_heap st ! i) \<and> \<not> pe_released (ns_heap st ! i) \<longrightarrow>
      check_permit i st' = Some PermissionRevoked) \<and>
    publish lower_rune (ns_revision st) p st' = (False, st') \<and>
    (\<exists>e. acquire lower_rune (for_current_account st h) target st' = (Inl e, st'))"
proof -
  have inv: "network_inv lower_rune st" unfolding assms(2) by (rule network_inv_run [OF network_inv_new assms(1)])
  have "0 < Suc (invalidations later)" "Suc (invalidations later) < 2 ^ 64" using assms(5) by simp_all
  note moved = word_later [OF this]
  have "ns_revision st' = ns_revision st + of_nat (Suc (invalidations later))"
    "ns_account st' = ns_account st + of_nat (Suc (invalidations later))"
    unfolding assms(4) generation_run using assms(3)
    by (simp_all add: invalidate_def revoke_all_def notify_change_def)
  with moved have new: "ns_revision st' \<noteq> ns_revision st" "ns_account st' \<noteq> ns_account st" by simp_all
  have "check_permit i st' = Some PermissionRevoked"
    if "i < length (ns_heap st)" "pe_managed (ns_heap st ! i)" "\<not> pe_released (ns_heap st ! i)"
    using revoked_in_run [OF invalidate_revokes [OF inv assms(3) that], of lower_rune later]
    by (simp add: assms(4) revoked_in_def check_permit_def)
  moreover have "publish lower_rune (ns_revision st) p st' = (False, st')" using new(1) by (simp add: publish_def)
  moreover have "\<exists>e. acquire lower_rune (for_current_account st h) target st' = (Inl e, st')"
    using new(2) assms(3) by (simp add: acquire_def acquire_destination_def for_current_account_def)
  ultimately show ?thesis by simp
qed

theorem account_change_final_witness:
  "check_permit 0 (invalidate controller_handle (network_run id sample_ops new_network_state)) = Some PermissionRevoked"
proof -
  define st where "st = network_run id sample_ops new_network_state"
  have heap: "ns_heap st = [\<lparr>pe_destination = \<lparr>pe_target = Some sample_url, pe_sdk = False\<rparr>, pe_managed = True,
      pe_revoked = False, pe_released = False\<rparr>]" unfolding st_def by code_simp
  have managed: "ph_managed controller_handle" by (simp add: controller_handle_def)
  have later: "invalidate controller_handle st = network_run id [] (invalidate controller_handle st)"
    "invalidations [] < 18446744073709551615" by (simp_all add: network_run_def invalidations_def)
  have "0 < length (ns_heap st) \<and> pe_managed (ns_heap st ! 0) \<and> \<not> pe_released (ns_heap st ! 0) \<longrightarrow>
      check_permit 0 (invalidate controller_handle st) = Some PermissionRevoked"
    using account_change_final [OF sample_ops_ok st_def managed later] by blast
  then show ?thesis by (simp add: heap) (simp only: st_def)
qed

section \<open>Scopes and hosts\<close>

lemma contains_endpoint_iff:
  "contains_endpoint es target \<longleftrightarrow> (\<exists>t e. target = Some t \<and> Some e \<in> set es \<and> u_text e = u_text t)"
proof (cases target)
  case (Some t)
  have "(case e of None \<Rightarrow> False | Some u \<Rightarrow> u_text u = u_text t) \<longleftrightarrow> (\<exists>u. e = Some u \<and> u_text u = u_text t)" for e
    by (cases e) simp_all
  then show ?thesis by (auto simp: contains_endpoint_def list_ex_iff Some)
qed (simp add: contains_endpoint_def)

text \<open>Restricting a client to endpoints never grants anything: it keeps what the client could do for the
  endpoints in the list and denies the rest, so that restricting again intersects, and SDKs that do not
  check destinations are refused.\<close>

theorem endpoint_scope:
  "acquire lower_rune (restrict_to_endpoints es h) target st =
     (if contains_endpoint es target then acquire lower_rune h target st else (Inl DestinationDenied, st)) \<and>
   acquire_sdk lower_rune (restrict_to_endpoints es h) st = (Inl UnsupportedTransport, st)"
proof -
  have "Some e \<in> set (map Some (map the (filter (\<lambda>e. e \<noteq> None) es))) \<longleftrightarrow> Some e \<in> set es" for e by force
  then have "contains_endpoint (map Some (map the (filter (\<lambda>e. e \<noteq> None) es))) target = contains_endpoint es target"
    by (simp only: contains_endpoint_iff)
  moreover have "contains_endpoint (map Some (filter (\<lambda>u. contains_endpoint es (Some u)) us)) target \<longleftrightarrow>
      contains_endpoint (map Some us) target \<and> contains_endpoint es target" for us
    by (fastforce simp: contains_endpoint_iff)
  moreover have "acquire_destination lower_rune (h\<lparr>ph_endpoints := x\<rparr>) d st = acquire_destination lower_rune h d st" for x d
    by (simp add: acquire_destination_def)
  ultimately show ?thesis
    by (cases "ph_endpoints h") (auto simp: acquire_def acquire_sdk_def restrict_to_endpoints_def)
qed

lemma set_collect_hosts:
  "set (collect_hosts lower_rune seen hosts) = set seen \<union> {h. h \<noteq> '''' \<and> (\<exists>x \<in> set hosts. h = to_lower lower_rune (trim_space x))}"
  by (induction lower_rune seen hosts rule: collect_hosts.induct) (auto simp: Let_def)

text \<open>A restricted policy allows exactly the \<open>https\<close> and \<open>wss\<close> URLs whose host name, in lower case and
  without one trailing dot, is one of the configured names, trimmed and in lower case.\<close>

theorem restricted_allows_exactly:
  "allows lower_rune (restricted_policy lower_rune hosts) (Some u) \<longleftrightarrow>
     to_lower lower_rune (u_scheme u) \<in> {''https'', ''wss''} \<and>
     trim_suffix (to_lower lower_rune (hostname u)) ''.'' \<in> (\<lambda>x. to_lower lower_rune (trim_space x)) ` set hosts - {''''}"
  by (auto simp: allows_def restricted_policy_def Let_def set_collect_hosts image_iff)

text \<open>A configured name that ends in a dot is never matched, not even by a URL with the same name.\<close>

theorem dotted_host_denied:
  "\<not> allows lower_rune (restricted_policy lower_rune [''a.org.'']) (Some \<lparr>u_scheme = ''https'', u_host = ''a.org.'', u_text = t\<rparr>) \<and>
   \<not> allows lower_rune (restricted_policy lower_rune [''a.org.'']) (Some \<lparr>u_scheme = ''https'', u_host = ''a.org'', u_text = t\<rparr>)"
  by code_simp

end
