(* ===== verification/Exec_Policy.thy ===== *)
theory Exec_Policy
  imports Go_Paths Go_Case "HOL-Library.List_Lexorder" "HOL-Library.Char_ord"
begin

text \<open>
  Prefix rules for commands, the matching half of \<open>execpolicy/execpolicy.go\<close> on a POSIX host: which rules
  a tokenised command matches, the decision they make together, and the rules for hosts.  Reading the
  rule language is not modelled; a policy is the value it produces.  The canonical form of a token, a
  third-party Unicode normalisation, is the parameter \<open>canon\<close>.
\<close>

section \<open>Policies\<close>

datatype decision = NoDecision | DecisionAllow | DecisionPrompt | DecisionPromptUser | DecisionForbidden | OtherDecision bytes

record prefix_rule =
  xr_pattern :: "bytes list list"
  xr_canonical :: bool
  xr_decision :: decision
  xr_justification :: bytes
  xr_matches :: "bytes list list"
  xr_not_matches :: "bytes list list"
  xr_source :: bytes

record network_rule =
  nr_host :: bytes
  nr_protocol :: bytes
  nr_decision :: decision
  nr_justification :: bytes

record policy =
  xp_rules :: "prefix_rule list"
  xp_network :: "network_rule list"
  xp_hosts :: "(bytes \<times> bytes list) list option"

record rule_match =
  rm_prefix :: "bytes list"
  rm_decision :: decision
  rm_program :: bytes
  rm_justification :: bytes

record check_output =
  co_matched :: "rule_match list"
  co_decision :: "decision option"

section \<open>Matching\<close>

definition normalize_token_path :: "bytes \<Rightarrow> bytes" where
  "normalize_token_path value =
     (let v = trim_space value in
      if v = '''' then ''''
      else if is_abs v \<or> list_ex (\<lambda>c. c = SLASH \<or> c = CHR 0x5C) v then path_clean v
      else v)"

definition contains_token :: "(bytes \<Rightarrow> bytes) \<Rightarrow> bytes list \<Rightarrow> bytes \<Rightarrow> bool \<Rightarrow> bool" where
  "contains_token canon alternatives token canonical \<longleftrightarrow>
     list_ex (\<lambda>a. a = token \<or> normalize_token_path a = normalize_token_path token \<or>
       (canonical \<and> canon a = canon token)) alternatives"

text \<open>What follows the last slash: \<open>executableLookupKeyForPlatform\<close> for POSIX.\<close>

definition lookup_key :: "bytes \<Rightarrow> bytes" where
  "lookup_key raw = (if SLASH \<in> set raw then rev (takeWhile (\<lambda>c. c \<noteq> SLASH) (rev raw)) else raw)"

definition host_executable_allows :: "policy \<Rightarrow> bytes \<Rightarrow> bytes \<Rightarrow> bool" where
  "host_executable_allows p name path = (case Option.bind (xp_hosts p) (\<lambda>m. map_of m name) of
     None \<Rightarrow> True
   | Some allowed \<Rightarrow> if allowed = [] then False else list_ex (\<lambda>item. path_clean item = path_clean path) allowed)"

text \<open>The loop over the pattern; \<open>start\<close> tells the program token.\<close>

fun match_tokens ::
  "(bytes \<Rightarrow> bytes) \<Rightarrow> policy \<Rightarrow> prefix_rule \<Rightarrow> bool \<Rightarrow> bool \<Rightarrow> bytes list list \<Rightarrow> bytes list \<Rightarrow>
   (bytes list \<times> bytes) option" where
  "match_tokens canon p rule resolve start [] command = Some ([], '''')"
| "match_tokens canon p rule resolve start (alts # pattern) [] = None"
| "match_tokens canon p rule resolve start (alts # pattern) (token # command) =
     (let more = (\<lambda>shown program. case match_tokens canon p rule resolve False pattern command of
            None \<Rightarrow> None
          | Some (matched, later) \<Rightarrow> Some (shown # matched, if program = '''' then later else program));
          name = lookup_key (path_base token)
      in if start \<and> resolve \<and> is_abs token \<and> contains_token canon alts token (xr_canonical rule) then more token ''''
         else if start \<and> resolve \<and> is_abs token \<and> contains_token canon alts name (xr_canonical rule) \<and>
           host_executable_allows p name token then more name token
         else if \<not> contains_token canon alts token (xr_canonical rule) then None
         else more token '''')"

definition match_rule ::
  "(bytes \<Rightarrow> bytes) \<Rightarrow> policy \<Rightarrow> prefix_rule \<Rightarrow> bytes list \<Rightarrow> bool \<Rightarrow> (bytes list \<times> bytes) option" where
  "match_rule canon p rule command resolve =
     (if xr_pattern rule = [] \<or> length command < length (xr_pattern rule) then None
      else match_tokens canon p rule resolve True (xr_pattern rule) command)"

definition effective_decision :: "prefix_rule \<Rightarrow> decision" where
  "effective_decision r = (if xr_decision r = NoDecision then DecisionAllow else xr_decision r)"

fun matches_from :: "(bytes \<Rightarrow> bytes) \<Rightarrow> policy \<Rightarrow> bytes list \<Rightarrow> bool \<Rightarrow> prefix_rule list \<Rightarrow> rule_match list" where
  "matches_from canon p command resolve [] = []"
| "matches_from canon p command resolve (rule # rules) =
     (case match_rule canon p rule command resolve of
        None \<Rightarrow> matches_from canon p command resolve rules
      | Some (prefix, program) \<Rightarrow>
          \<lparr>rm_prefix = prefix, rm_decision = effective_decision rule, rm_program = program,
           rm_justification = xr_justification rule\<rparr> # matches_from canon p command resolve rules)"

definition matches_for_command :: "(bytes \<Rightarrow> bytes) \<Rightarrow> policy \<Rightarrow> bytes list \<Rightarrow> bool \<Rightarrow> rule_match list" where
  "matches_for_command canon p command resolve = matches_from canon p command resolve (xp_rules p)"

fun decision_rank :: "decision \<Rightarrow> nat" where
  "decision_rank DecisionAllow = 1"
| "decision_rank DecisionPrompt = 2"
| "decision_rank DecisionPromptUser = 3"
| "decision_rank DecisionForbidden = 4"
| "decision_rank NoDecision = 0"
| "decision_rank (OtherDecision s) = 0"

definition strictest_decision :: "rule_match list \<Rightarrow> decision" where
  "strictest_decision ms =
     foldl (\<lambda>d m. if decision_rank (rm_decision m) > decision_rank d then rm_decision m else d) NoDecision ms"

definition output_of :: "rule_match list \<Rightarrow> check_output" where
  "output_of ms = \<lparr>co_matched = ms,
     co_decision = (if strictest_decision ms \<noteq> NoDecision then Some (strictest_decision ms) else None)\<rparr>"

definition evaluate_command :: "(bytes \<Rightarrow> bytes) \<Rightarrow> policy \<Rightarrow> bytes list \<Rightarrow> check_output" where
  "evaluate_command canon p command = output_of (matches_for_command canon p command False)"

text \<open>\<open>Check\<close> once the policy files are read: basenames are tried only when nothing matches exactly.\<close>

definition check_command :: "(bytes \<Rightarrow> bytes) \<Rightarrow> policy \<Rightarrow> bytes list \<Rightarrow> bool \<Rightarrow> check_output" where
  "check_command canon p command resolve =
     (let exact = matches_for_command canon p command False in
      output_of (if exact \<noteq> [] \<or> \<not> resolve then exact else matches_for_command canon p command True))"

definition validate_examples :: "(bytes \<Rightarrow> bytes) \<Rightarrow> policy \<Rightarrow> bytes option" where
  "validate_examples canon p =
     (let failure = (\<lambda>rule. case find (\<lambda>e. match_rule canon p rule e True \<noteq> None) (xr_not_matches rule) of
            Some e \<Rightarrow> Some (''example matched when it should not: '' @ join_with '' '' e)
          | None \<Rightarrow> (case find (\<lambda>e. match_rule canon p rule e True = None) (xr_matches rule) of
              Some e \<Rightarrow> Some (''example did not match: '' @ join_with '' '' e) | None \<Rightarrow> None))
      in case find (\<lambda>rule. failure rule \<noteq> None) (xp_rules p) of None \<Rightarrow> None | Some rule \<Rightarrow> failure rule)"

section \<open>Allowed prefixes\<close>

definition prefix_key :: "bytes list \<Rightarrow> bytes" where
  "prefix_key prefix = join_with [CHR 0x00] prefix"

fun distinct_prefixes :: "bytes list \<Rightarrow> bytes list list \<Rightarrow> bytes list list" where
  "distinct_prefixes seen [] = []"
| "distinct_prefixes seen (p # ps) =
     (if prefix_key p = '''' \<or> prefix_key p \<in> set seen then distinct_prefixes seen ps
      else p # distinct_prefixes (prefix_key p # seen) ps)"

definition canonical_prefixes :: "bytes list list \<Rightarrow> bytes list list" where
  "canonical_prefixes prefixes = (if prefixes = [] then [] else sort_key prefix_key (distinct_prefixes [] prefixes))"

definition shown_token :: "bytes list \<Rightarrow> bytes list" where
  "shown_token alts = (case alts of [] \<Rightarrow> [] | [t] \<Rightarrow> [t] | _ \<Rightarrow> [''['' @ join_with ''|'' alts @ '']''])"

definition allowed_prefixes :: "policy \<Rightarrow> bytes list list" where
  "allowed_prefixes p = canonical_prefixes (filter (\<lambda>x. x \<noteq> [])
     (map (\<lambda>r. concat (map shown_token (xr_pattern r))) (filter (\<lambda>r. xr_decision r = DecisionAllow) (xp_rules p))))"

section \<open>What a policy decides\<close>

text \<open>A rule applies to a command whose first tokens its pattern accepts one by one.\<close>

definition rule_applies :: "(bytes \<Rightarrow> bytes) \<Rightarrow> prefix_rule \<Rightarrow> bytes list \<Rightarrow> bool" where
  "rule_applies canon r command \<longleftrightarrow>
     xr_pattern r \<noteq> [] \<and> length (xr_pattern r) \<le> length command \<and>
     list_all2 (\<lambda>alts t. contains_token canon alts t (xr_canonical r)) (xr_pattern r) (take (length (xr_pattern r)) command)"

lemma match_tokens_exact:
  "match_tokens canon p rule False start pat command =
     (if length pat \<le> length command \<and>
         list_all2 (\<lambda>alts t. contains_token canon alts t (xr_canonical rule)) pat (take (length pat) command)
      then Some (take (length pat) command, '''') else None)"
  by (induction pat arbitrary: command start; case_tac command) (simp_all add: Let_def)

lemma match_rule_exact:
  "match_rule canon p rule command False =
     (if rule_applies canon rule command then Some (take (length (xr_pattern rule)) command, '''') else None)"
  by (simp add: match_rule_def match_tokens_exact rule_applies_def)

lemma matches_exact:
  "map rm_decision (matches_from canon p command False rules) =
     map effective_decision (filter (\<lambda>r. rule_applies canon r command) rules)"
  by (induction rules) (simp_all add: match_rule_exact)

lemma strictest_from:
  "foldl (\<lambda>d m. if decision_rank (rm_decision m) > decision_rank d then rm_decision m else d) d ms = e \<Longrightarrow>
   (e = d \<or> e \<in> rm_decision ` set ms) \<and> decision_rank d \<le> decision_rank e \<and>
   (\<forall>m \<in> set ms. decision_rank (rm_decision m) \<le> decision_rank e)"
proof (induction ms arbitrary: d)
  case (Cons m ms)
  from Cons.IH [OF Cons.prems [unfolded foldl_Cons]] show ?case by (auto split: if_splits)
qed simp

lemma strictest_decision_max:
  "(strictest_decision ms = NoDecision \<or> strictest_decision ms \<in> rm_decision ` set ms) \<and>
   (\<forall>m \<in> set ms. decision_rank (rm_decision m) \<le> decision_rank (strictest_decision ms))"
  using strictest_from [of NoDecision ms] unfolding strictest_decision_def by blast

lemma decisions_exact:
  "rm_decision ` set (matches_for_command canon p command False) =
     effective_decision ` {r \<in> set (xp_rules p). rule_applies canon r command}"
proof -
  have "set (map rm_decision (matches_for_command canon p command False)) =
      set (map effective_decision (filter (\<lambda>r. rule_applies canon r command) (xp_rules p)))"
    by (simp only: matches_for_command_def matches_exact)
  then show ?thesis by simp
qed


text \<open>Tokens that are no paths and have no blanks at their ends are compared as they are.\<close>

definition plain_token :: "bytes \<Rightarrow> bool" where
  "plain_token t \<longleftrightarrow> trim_space t = t \<and> SLASH \<notin> set t \<and> CHR 0x5C \<notin> set t"

lemma normalize_plain: "plain_token t \<Longrightarrow> normalize_token_path t = t"
proof -
  assume t: "plain_token t"
  have "\<not> is_abs t" if "t \<noteq> []"
    using t that by (cases t) (auto simp: plain_token_def is_abs_def)
  then show ?thesis using t by (auto simp: normalize_token_path_def plain_token_def Let_def list_ex_iff)
qed

lemma contains_plain:
  "plain_token t \<Longrightarrow> list_all plain_token alts \<Longrightarrow> contains_token canon alts t False \<longleftrightarrow> t \<in> set alts"
  by (auto simp: contains_token_def list_ex_iff list_all_iff normalize_plain)

text \<open>For plain tokens a rule without canonical matching is an exact prefix test: it applies exactly when
  every token of the prefix is one of the alternatives at its place.\<close>

theorem plain_rule_exact:
  assumes "\<not> xr_canonical r" and "list_all (list_all plain_token) (xr_pattern r)" and "list_all plain_token command"
  shows "rule_applies canon r command \<longleftrightarrow> xr_pattern r \<noteq> [] \<and> length (xr_pattern r) \<le> length command \<and>
    list_all2 (\<lambda>alts t. t \<in> set alts) (xr_pattern r) (take (length (xr_pattern r)) command)"
proof -
  have "list_all2 (\<lambda>alts t. contains_token canon alts t False) pat ts = list_all2 (\<lambda>alts t. t \<in> set alts) pat ts"
    if "list_all (list_all plain_token) pat" "list_all plain_token ts" for pat ts
    using that by (induction pat ts rule: list_induct2') (simp_all add: contains_plain)
  moreover have "list_all plain_token (take (length (xr_pattern r)) command)"
    using assms(3) by (auto simp: list_all_iff dest: in_set_takeD)
  ultimately show ?thesis using assms(1,2) by (simp add: rule_applies_def)
qed

definition allow_rule :: "bytes list list \<Rightarrow> prefix_rule" where
  "allow_rule pat = \<lparr>xr_pattern = pat, xr_canonical = False, xr_decision = DecisionAllow, xr_justification = '''',
     xr_matches = [], xr_not_matches = [], xr_source = ''''\<rparr>"

theorem plain_rule_exact_witness:
  "rule_applies id (allow_rule [[''git''], [''log'', ''diff'']]) [''git'', ''diff'', ''-p'']"
proof -
  have plain: "list_all (list_all plain_token) (xr_pattern (allow_rule [[''git''], [''log'', ''diff'']]))"
    "list_all plain_token [''git'', ''diff'', ''-p'']" "\<not> xr_canonical (allow_rule [[''git''], [''log'', ''diff'']])"
    by code_simp+
  show ?thesis unfolding plain_rule_exact [OF plain(3,1,2)] by code_simp
qed

text \<open>A program named by a relative path matches a rule for the bare name: a rule that allows \<open>git\<close>, which
  the shell finds on its search path, also allows \<open>./git\<close>, whatever lies in the working directory.\<close>

theorem relative_program_allowed:
  "co_decision (evaluate_command canon \<lparr>xp_rules = [allow_rule [[''git'']]], xp_network = [], xp_hosts = None\<rparr>
     [''./git'', ''push'']) = Some DecisionAllow"
  by code_simp

text \<open>The prefixes reported as allowed are in strictly increasing order of their text.\<close>

lemma distinct_prefixes_keys:
  "distinct (map prefix_key (distinct_prefixes seen ps)) \<and> set (map prefix_key (distinct_prefixes seen ps)) = prefix_key ` set ps - set seen - {''''}"
  by (induction seen ps rule: distinct_prefixes.induct) auto

theorem allowed_prefixes_sorted:
  "sorted_wrt (<) (map prefix_key (allowed_prefixes p)) \<and>
   set (map prefix_key (allowed_prefixes p)) =
     prefix_key ` (\<lambda>r. concat (map shown_token (xr_pattern r))) ` {r \<in> set (xp_rules p). xr_decision r = DecisionAllow} - {''''}"
proof -
  define raw where "raw = filter (\<lambda>x. x \<noteq> []) (map (\<lambda>r. concat (map shown_token (xr_pattern r)))
    (filter (\<lambda>r. xr_decision r = DecisionAllow) (xp_rules p)))"
  have sorted: "allowed_prefixes p = sort_key prefix_key (distinct_prefixes [] raw)"
    by (simp add: allowed_prefixes_def canonical_prefixes_def raw_def)
  have "distinct (map prefix_key (allowed_prefixes p))" "set (map prefix_key (allowed_prefixes p)) = prefix_key ` set raw - {''''}"
    using distinct_prefixes_keys [of "[]" raw] by (simp_all add: sorted distinct_map)
  moreover have "sorted (map prefix_key (allowed_prefixes p))" by (simp add: sorted)
  moreover have "prefix_key ` set raw - {''''} =
      prefix_key ` (\<lambda>r. concat (map shown_token (xr_pattern r))) ` {r \<in> set (xp_rules p). xr_decision r = DecisionAllow} - {''''}"
    by (auto simp: raw_def prefix_key_def)
  ultimately show ?thesis by (simp add: strict_sorted_iff)
qed

end
