(* ===== verification/Exec_Requirements.thy ===== *)
theory Exec_Requirements
  imports Exec_Policy
begin

text \<open>
  Managed command policies, \<open>execpolicy/requirements.go\<close>, and the transfer of a policy to another session,
  \<open>execpolicy/inheritance.go\<close>.  A nil map of host executables is \<open>None\<close>, which \<open>reflect.DeepEqual\<close> tells
  from an empty one.  The \<open>%q\<close> verb of \<open>fmt\<close> is the parameter \<open>quote\<close>.
\<close>

section \<open>Requirements\<close>

definition empty_policy :: policy where
  "empty_policy = \<lparr>xp_rules = [], xp_network = [], xp_hosts = None\<rparr>"

type_synonym requirements = "policy option"

definition requirements_policy :: "requirements \<Rightarrow> policy" where
  "requirements_policy r = (case r of None \<Rightarrow> empty_policy | Some p \<Rightarrow> p)"

definition decision_text :: "decision \<Rightarrow> bytes" where
  "decision_text d = (case d of NoDecision \<Rightarrow> '''' | DecisionAllow \<Rightarrow> ''allow'' | DecisionPrompt \<Rightarrow> ''prompt''
     | DecisionPromptUser \<Rightarrow> ''prompt-user'' | DecisionForbidden \<Rightarrow> ''forbidden'' | OtherDecision s \<Rightarrow> s)"

definition rule_entry :: "(bytes \<Rightarrow> bytes) \<Rightarrow> prefix_rule \<Rightarrow> bytes" where
  "rule_entry quote r =
     ''pattern='' @ join_with ''|'' (map (\<lambda>alts. ''['' @ join_with '','' alts @ '']'') (xr_pattern r)) @
     '' canonical_matching='' @ (if xr_canonical r then ''true'' else ''false'') @
     '' decision='' @ decision_text (xr_decision r) @ '' justification='' @ quote (xr_justification r)"

definition fingerprint :: "(bytes \<Rightarrow> bytes) \<Rightarrow> requirements \<Rightarrow> bytes list" where
  "fingerprint quote r = (case r of
     None \<Rightarrow> []
   | Some p \<Rightarrow> sort (map (\<lambda>rule.
       (case xr_pattern rule of (program # _) # _ \<Rightarrow> program | _ \<Rightarrow> ''?'') @ '':'' @ rule_entry quote rule) (xp_rules p)))"

definition has_allow_rules :: "requirements \<Rightarrow> bool" where
  "has_allow_rules r = (case r of None \<Rightarrow> False | Some p \<Rightarrow> list_ex (\<lambda>x. xr_decision x = DecisionAllow) (xp_rules p))"

definition clone_hosts :: "(bytes \<times> bytes list) list option \<Rightarrow> (bytes \<times> bytes list) list option" where
  "clone_hosts m = (case m of None \<Rightarrow> None | Some [] \<Rightarrow> None | Some xs \<Rightarrow> Some xs)"

definition clone_policy :: "policy \<Rightarrow> policy" where
  "clone_policy p = p\<lparr>xp_hosts := clone_hosts (xp_hosts p)\<rparr>"

definition merge_overlay :: "requirements \<Rightarrow> requirements \<Rightarrow> requirements" where
  "merge_overlay base overlay =
     (let b = requirements_policy base; ov = requirements_policy overlay in
      Some \<lparr>xp_rules = xp_rules b @ xp_rules ov, xp_network = xp_network b @ xp_network ov,
            xp_hosts = clone_hosts (xp_hosts b)\<rparr>)"

section \<open>Hosts\<close>

definition upsert_host :: "bytes list \<Rightarrow> bytes \<Rightarrow> bytes list" where
  "upsert_host values v = (if v \<in> set values then values else values @ [v])"

definition remove_host :: "bytes list \<Rightarrow> bytes \<Rightarrow> bytes list" where
  "remove_host values v = filter (\<lambda>x. x \<noteq> v) values"

definition network_domains_step :: "network_rule \<Rightarrow> bytes list \<times> bytes list \<Rightarrow> bytes list \<times> bytes list" where
  "network_domains_step r = (\<lambda>(allowed, denied).
     if nr_decision r = DecisionAllow then (upsert_host allowed (nr_host r), remove_host denied (nr_host r))
     else if nr_decision r = DecisionForbidden then (remove_host allowed (nr_host r), upsert_host denied (nr_host r))
     else (allowed, denied))"

definition compiled_network_domains :: "policy \<Rightarrow> bytes list \<times> bytes list" where
  "compiled_network_domains p = fold network_domains_step (xp_network p) ([], [])"

section \<open>Which snapshots keep the managed rules\<close>

definition rule_program :: "prefix_rule \<Rightarrow> bytes" where
  "rule_program r = (case xr_pattern r of (program # _) # _ \<Rightarrow> program | _ \<Rightarrow> '''')"

definition rules_for_program :: "policy \<Rightarrow> bytes \<Rightarrow> prefix_rule list" where
  "rules_for_program p program = filter (\<lambda>r. rule_program r = program) (xp_rules p)"

definition prefix_rules_equal :: "prefix_rule \<Rightarrow> prefix_rule \<Rightarrow> bool" where
  "prefix_rules_equal a b \<longleftrightarrow>
     xr_pattern a = xr_pattern b \<and> xr_decision a = xr_decision b \<and> xr_justification a = xr_justification b"

definition contains_prefix_rule :: "policy \<Rightarrow> bytes \<Rightarrow> prefix_rule \<Rightarrow> bool" where
  "contains_prefix_rule p program rule \<longleftrightarrow> list_ex (\<lambda>c. prefix_rules_equal c rule) (rules_for_program p program)"

definition host_rules_for_path :: "policy \<Rightarrow> bytes \<Rightarrow> prefix_rule list option" where
  "host_rules_for_path p path =
     (let name = lookup_key (path_base path) in
      if name = '''' then None
      else if (case Option.bind (xp_hosts p) (\<lambda>m. map_of m name) of None \<Rightarrow> False | Some paths \<Rightarrow> path \<notin> set paths)
      then None
      else if rules_for_program p name = [] then None else Some (rules_for_program p name))"

definition rule_rest :: "prefix_rule \<Rightarrow> bytes list list" where
  "rule_rest r = (if length (xr_pattern r) \<le> 1 then [] else tl (xr_pattern r))"

definition shared_arguments :: "bytes list list \<Rightarrow> bytes list list \<Rightarrow> nat \<Rightarrow> bytes list" where
  "shared_arguments shorter longer i =
     (if length longer \<le> i then []
      else filter (\<lambda>a. \<not> (i < length shorter \<and> a \<notin> set (shorter ! i))) (longer ! i))"

definition can_weaken_fallback :: "prefix_rule \<Rightarrow> prefix_rule \<Rightarrow> prefix_rule list \<Rightarrow> bool" where
  "can_weaken_fallback exact fallback path_rules =
     (if decision_rank (xr_decision exact) \<ge> decision_rank (xr_decision fallback) then False
      else
        let swap = (length (rule_rest exact) > length (rule_rest fallback));
            shorter = (if swap then rule_rest fallback else rule_rest exact);
            longer = (if swap then rule_rest exact else rule_rest fallback);
            shared = shared_arguments shorter longer
        in if list_ex (\<lambda>i. shared i = []) [0 ..< length shorter] then False
           else \<not> list_ex (\<lambda>rule.
             decision_rank (xr_decision rule) \<ge> decision_rank (xr_decision fallback) \<and>
             length (rule_rest rule) \<le> length longer \<and>
             list_all (\<lambda>i. list_all (\<lambda>a. a \<in> set (rule_rest rule ! i)) (shared i)) [0 ..< length (rule_rest rule)]) path_rules)"

definition hosts_equal :: "(bytes \<times> bytes list) list option \<Rightarrow> (bytes \<times> bytes list) list option \<Rightarrow> bool" where
  "hosts_equal a b = (case (a, b) of
     (None, None) \<Rightarrow> True
   | (Some x, Some y) \<Rightarrow> length x = length y \<and> list_all (\<lambda>(k, v). map_of y k = Some v) x
   | _ \<Rightarrow> False)"

definition path_rule_weakens :: "policy \<Rightarrow> policy \<Rightarrow> prefix_rule \<Rightarrow> bool" where
  "path_rule_weakens p managed rule =
     (let program = rule_program rule in
      if program = '''' \<or> \<not> is_abs program then False
      else (case host_rules_for_path managed program of
          None \<Rightarrow> False
        | Some fallbacks \<Rightarrow>
            list_ex (\<lambda>c. \<not> contains_prefix_rule managed program c \<and>
              list_ex (\<lambda>f. can_weaken_fallback c f (rules_for_program p program)) fallbacks) (rules_for_program p program)))"

definition preserves_requirements :: "policy \<Rightarrow> requirements \<Rightarrow> bool" where
  "preserves_requirements p requirements =
     (let managed = requirements_policy requirements in
      if \<not> hosts_equal (xp_hosts p) (xp_hosts managed) then False
      else if \<not> list_all (\<lambda>r. rule_program r = '''' \<or> contains_prefix_rule p (rule_program r) r) (xp_rules managed) then False
      else if list_ex (path_rule_weakens p managed) (xp_rules p) then False
      else list_all (\<lambda>h. h \<in> set (snd (compiled_network_domains p))) (snd (compiled_network_domains managed)))"

definition same_requirements :: "(bytes \<Rightarrow> bytes) \<Rightarrow> requirements \<Rightarrow> requirements \<Rightarrow> bool" where
  "same_requirements quote source target \<longleftrightarrow>
     fingerprint quote source = fingerprint quote target \<and>
     xp_network (requirements_policy source) = xp_network (requirements_policy target) \<and>
     hosts_equal (xp_hosts (requirements_policy source)) (xp_hosts (requirements_policy target))"

record inherited_policy =
  ip_policy :: "policy option"
  ip_source :: "requirements option"

record inherited_destination =
  id_managed_only :: bool
  id_policy_files :: "bytes list"
  id_requirements :: "requirements option"

definition install_inherited ::
  "(bytes \<Rightarrow> bytes) \<Rightarrow> inherited_policy option \<Rightarrow> inherited_destination \<Rightarrow> bytes + policy" where
  "install_inherited quote snapshot d =
     (if \<not> id_managed_only d \<or> id_policy_files d \<noteq> []
      then Inl ''inherited execution policy requires a managed-only destination''
      else (case Option.bind snapshot ip_policy of
          None \<Rightarrow> Inl ''inherited execution policy snapshot is missing''
        | Some p \<Rightarrow>
            let compatible = (case (Option.bind snapshot ip_source, id_requirements d) of
                  (None, None) \<Rightarrow> True | (Some s, Some t) \<Rightarrow> same_requirements quote s t | _ \<Rightarrow> False)
            in if \<not> compatible then Inl ''inherited execution policy requirements differ from the destination''
               else if (case id_requirements d of None \<Rightarrow> False | Some t \<Rightarrow> \<not> preserves_requirements p t)
               then Inl ''inherited execution policy does not preserve destination requirements''
               else Inr (clone_policy p)))"

section \<open>An overlay only tightens\<close>

definition decision_rank_of :: "(bytes \<Rightarrow> bytes) \<Rightarrow> policy \<Rightarrow> bytes list \<Rightarrow> nat" where
  "decision_rank_of canon p command =
     (case co_decision (evaluate_command canon p command) of None \<Rightarrow> 0 | Some d \<Rightarrow> decision_rank d)"

lemma decision_rank_of_strictest:
  "decision_rank_of canon p command = decision_rank (strictest_decision (matches_for_command canon p command False))"
  by (simp add: decision_rank_of_def evaluate_command_def output_of_def)

lemma decision_rank_of_le:
  "decision_rank_of canon p command \<le> n \<longleftrightarrow>
     (\<forall>r \<in> set (xp_rules p). rule_applies canon r command \<longrightarrow> decision_rank (effective_decision r) \<le> n)"
proof -
  define ms where "ms = matches_for_command canon p command False"
  have "decision_rank (strictest_decision ms) \<le> n \<longleftrightarrow> (\<forall>m \<in> set ms. decision_rank (rm_decision m) \<le> n)"
  proof
    assume "decision_rank (strictest_decision ms) \<le> n"
    then show "\<forall>m \<in> set ms. decision_rank (rm_decision m) \<le> n"
      using strictest_decision_max [of ms] by fastforce
  next
    assume "\<forall>m \<in> set ms. decision_rank (rm_decision m) \<le> n"
    then show "decision_rank (strictest_decision ms) \<le> n"
      using strictest_decision_max [of ms] by auto
  qed
  also have "\<dots> \<longleftrightarrow> (\<forall>d \<in> rm_decision ` set ms. decision_rank d \<le> n)" by simp
  finally show ?thesis
    unfolding decision_rank_of_strictest ms_def decisions_exact by auto
qed

text \<open>C20: a managed overlay can only tighten what a policy decides on a command: the merged policy is exactly as
  strict as the stricter of the two.\<close>

theorem overlay_tightens:
  "decision_rank_of canon (requirements_policy (merge_overlay base overlay)) command =
     max (decision_rank_of canon (requirements_policy base) command) (decision_rank_of canon (requirements_policy overlay) command)"
proof -
  have "decision_rank_of canon (requirements_policy (merge_overlay base overlay)) command \<le> n \<longleftrightarrow>
      max (decision_rank_of canon (requirements_policy base) command) (decision_rank_of canon (requirements_policy overlay) command) \<le> n" for n
    by (auto simp: decision_rank_of_le max.bounded_iff) (auto simp: requirements_policy_def merge_overlay_def Let_def)
  then show ?thesis by (metis le_antisym order_refl)
qed

section \<open>Hosts: the last verdict counts\<close>

definition host_verdict :: "network_rule list \<Rightarrow> bytes \<Rightarrow> decision" where
  "host_verdict rules host =
     (case rev (filter (\<lambda>r. nr_host r = host \<and> nr_decision r \<in> {DecisionAllow, DecisionForbidden}) rules) of
        [] \<Rightarrow> NoDecision | r # _ \<Rightarrow> nr_decision r)"

lemma host_verdict_snoc:
  "host_verdict (rules @ [r]) host =
     (if nr_host r = host \<and> nr_decision r \<in> {DecisionAllow, DecisionForbidden} then nr_decision r else host_verdict rules host)"
  by (auto simp: host_verdict_def)

lemma set_upsert_host [simp]: "set (upsert_host xs v) = insert v (set xs)" "distinct (upsert_host xs v) = distinct xs"
  by (auto simp: upsert_host_def)

lemma set_remove_host [simp]: "set (remove_host xs v) = set xs - {v}" "distinct xs \<Longrightarrow> distinct (remove_host xs v)"
  by (auto simp: remove_host_def)

text \<open>A host is allowed, or denied, exactly when the last rule that allows or denies it says so; no host is
  both, and none is listed twice.\<close>

theorem network_domains_exact:
  "case compiled_network_domains p of (allowed, denied) \<Rightarrow>
     distinct allowed \<and> distinct denied \<and>
     set allowed = {h. host_verdict (xp_network p) h = DecisionAllow} \<and>
     set denied = {h. host_verdict (xp_network p) h = DecisionForbidden}"
proof -
  have "case fold network_domains_step rules ([], []) of (allowed, denied) \<Rightarrow>
     distinct allowed \<and> distinct denied \<and>
     set allowed = {h. host_verdict rules h = DecisionAllow} \<and> set denied = {h. host_verdict rules h = DecisionForbidden}" for rules
  proof (induction rules rule: rev_induct)
    case Nil
    then show ?case by (simp add: host_verdict_def)
  next
    case (snoc r rules)
    obtain allowed denied where f: "fold network_domains_step rules ([], []) = (allowed, denied)" by fastforce
    then have step: "fold network_domains_step (rules @ [r]) ([], []) = network_domains_step r (allowed, denied)" by simp
    have sets: "distinct allowed" "distinct denied" "set allowed = {h. host_verdict rules h = DecisionAllow}"
      "set denied = {h. host_verdict rules h = DecisionForbidden}" using snoc by (simp_all add: f)
    show ?case unfolding step
      by (cases "nr_decision r") (auto simp: network_domains_step_def host_verdict_snoc sets split: if_splits)
  qed
  then show ?thesis by (simp add: compiled_network_domains_def)
qed

section \<open>Inherited policies\<close>

lemma contains_prefix_ruleD:
  "contains_prefix_rule p program r \<Longrightarrow>
   \<exists>c \<in> set (xp_rules p). xr_pattern c = xr_pattern r \<and> xr_decision c = xr_decision r"
  by (auto simp: contains_prefix_rule_def rules_for_program_def prefix_rules_equal_def list_ex_iff)

lemma rule_applies_mono:
  assumes "xr_pattern c = xr_pattern r" and "\<not> xr_canonical r" and "rule_applies canon r command"
  shows "rule_applies canon c command"
proof -
  have "contains_token canon alts t False \<Longrightarrow> contains_token canon alts t b" for alts t b
    by (auto simp: contains_token_def list_ex_iff)
  with assms show ?thesis by (auto simp: rule_applies_def elim: list_all2_mono)
qed

lemma clone_policy_rank [simp]: "decision_rank_of canon (clone_policy p) command = decision_rank_of canon p command"
proof -
  have "decision_rank_of canon (clone_policy p) command \<le> n \<longleftrightarrow> decision_rank_of canon p command \<le> n" for n
    by (simp add: decision_rank_of_le clone_policy_def)
  then show ?thesis by (metis le_antisym order_refl)
qed

text \<open>An inherited policy that is installed decides every command at least as strictly as the managed rules
  of the session it is installed in, if those name their programs and use no canonical matching; the
  next two properties show what happens otherwise.\<close>

theorem installed_keeps_managed:
  assumes "install_inherited quote snapshot d = Inr p" and "id_requirements d = Some managed"
    and "list_all (\<lambda>r. rule_program r \<noteq> '''' \<and> \<not> xr_canonical r) (xp_rules (requirements_policy managed))"
  shows "decision_rank_of canon (requirements_policy managed) command \<le> decision_rank_of canon p command"
proof -
  obtain q where q: "preserves_requirements q managed" "p = clone_policy q"
    using assms(1,2) by (auto simp: install_inherited_def Let_def split: if_splits option.splits)
  have "decision_rank (effective_decision r) \<le> decision_rank_of canon q command"
    if r: "r \<in> set (xp_rules (requirements_policy managed))" and app: "rule_applies canon r command" for r
  proof -
    have "contains_prefix_rule q (rule_program r) r" "\<not> xr_canonical r"
      using q(1) r assms(3) by (auto simp: preserves_requirements_def Let_def list_all_iff split: if_splits)
    then obtain c where c: "c \<in> set (xp_rules q)" "xr_pattern c = xr_pattern r" "xr_decision c = xr_decision r"
      using contains_prefix_ruleD by blast
    have "rule_applies canon c command" by (rule rule_applies_mono [OF c(2) \<open>\<not> xr_canonical r\<close> app])
    then have "decision_rank (effective_decision c) \<le> decision_rank_of canon q command"
      using c(1) decision_rank_of_le [of canon q command "decision_rank_of canon q command"] by blast
    then show ?thesis by (simp only: effective_decision_def c(3))
  qed
  then show ?thesis unfolding q(2) clone_policy_rank by (simp add: decision_rank_of_le)
qed

definition rule_of :: "bytes list list \<Rightarrow> bool \<Rightarrow> decision \<Rightarrow> prefix_rule" where
  "rule_of pat canonical d = \<lparr>xr_pattern = pat, xr_canonical = canonical, xr_decision = d, xr_justification = '''',
     xr_matches = [], xr_not_matches = [], xr_source = ''''\<rparr>"

definition policy_of :: "prefix_rule list \<Rightarrow> policy" where
  "policy_of rules = \<lparr>xp_rules = rules, xp_network = [], xp_hosts = None\<rparr>"

definition destination_of :: "policy \<Rightarrow> inherited_destination" where
  "destination_of p = \<lparr>id_managed_only = True, id_policy_files = [], id_requirements = Some (Some p)\<rparr>"

theorem installed_keeps_managed_witness:
  "decision_rank_of id (policy_of [rule_of [[''rm'']] False DecisionForbidden]) [''rm'', ''x''] \<le>
   decision_rank_of id (policy_of [rule_of [[''rm'']] False DecisionForbidden]) [''rm'', ''x'']"
proof -
  define m where "m = policy_of [rule_of [[''rm'']] False DecisionForbidden]"
  have "install_inherited id (Some \<lparr>ip_policy = Some m, ip_source = Some (Some m)\<rparr>) (destination_of m) = Inr m"
    unfolding m_def by code_simp
  moreover have "id_requirements (destination_of m) = Some (Some m)" by (simp add: destination_of_def)
  moreover have "list_all (\<lambda>r. rule_program r \<noteq> '''' \<and> \<not> xr_canonical r) (xp_rules (requirements_policy (Some m)))"
    unfolding m_def by code_simp
  ultimately have "decision_rank_of id (requirements_policy (Some m)) [''rm'', ''x''] \<le> decision_rank_of id m [''rm'', ''x'']"
    by (rule installed_keeps_managed)
  then show ?thesis by (simp add: requirements_policy_def m_def)
qed

text \<open>The comparison of rules ignores canonical matching: a snapshot whose rule lost it passes the test for
  the managed requirements, and then decides nothing on a command the managed rule forbids.\<close>

theorem canonical_rule_lost:
  "preserves_requirements (policy_of [rule_of [[''rm'']] False DecisionForbidden])
     (Some (policy_of [rule_of [[''rm'']] True DecisionForbidden])) \<and>
   co_decision (evaluate_command (map ascii_lower) (policy_of [rule_of [[''rm'']] True DecisionForbidden]) [''RM'', ''x'']) = Some DecisionForbidden \<and>
   co_decision (evaluate_command (map ascii_lower) (policy_of [rule_of [[''rm'']] False DecisionForbidden]) [''RM'', ''x'']) = None"
  by code_simp

text \<open>Only the first alternative of a program pattern counts as its program: a snapshot that allows a path as
  a later alternative passes the test, and with basenames resolved it allows a command the managed rule
  forbids.\<close>

theorem path_alternative_weakens:
  "preserves_requirements (policy_of [rule_of [[''rm'']] False DecisionForbidden, rule_of [[''x'', ''/bin/rm'']] False DecisionAllow])
     (Some (policy_of [rule_of [[''rm'']] False DecisionForbidden])) \<and>
   co_decision (check_command id (policy_of [rule_of [[''rm'']] False DecisionForbidden]) [''/bin/rm'', ''x''] True) = Some DecisionForbidden \<and>
   co_decision (check_command id (policy_of [rule_of [[''rm'']] False DecisionForbidden, rule_of [[''x'', ''/bin/rm'']] False DecisionAllow])
     [''/bin/rm'', ''x''] True) = Some DecisionAllow"
  by code_simp

end
