(* ===== verification/Shell_Words.thy ===== *)
theory Shell_Words
  imports Go_Case
begin

text \<open>
  Two small readers of \<open>execpolicy/execpolicy.go\<close>: splitting an example string into shell words, and the
  normal form of the host, the protocol and the decision of a network rule.
\<close>

section \<open>Shell words\<close>

record word_scan =
  ws_words :: "bytes list"
  ws_current :: bytes
  ws_quote :: "char option"
  ws_escaped :: bool
  ws_active :: bool

definition flush_word :: "word_scan \<Rightarrow> word_scan" where
  "flush_word s =
     (if ws_active s \<or> ws_current s \<noteq> []
      then s\<lparr>ws_words := ws_words s @ [ws_current s], ws_current := [], ws_active := False\<rparr> else s)"

definition shell_step :: "char \<Rightarrow> word_scan \<Rightarrow> word_scan" where
  "shell_step c s =
     (if ws_escaped s then s\<lparr>ws_current := ws_current s @ [c], ws_active := True, ws_escaped := False\<rparr>
      else if c = CHR 0x5C \<and> ws_quote s \<noteq> Some (CHR 0x27) then s\<lparr>ws_escaped := True, ws_active := True\<rparr>
      else (case ws_quote s of
          Some q \<Rightarrow> if c = q then s\<lparr>ws_quote := None, ws_active := True\<rparr>
                    else s\<lparr>ws_current := ws_current s @ [c], ws_active := True\<rparr>
        | None \<Rightarrow>
            if c = CHR 0x27 \<or> c = CHR 0x22 then s\<lparr>ws_quote := Some c, ws_active := True\<rparr>
            else if c = CHR '' '' \<or> c = CHR 0x09 \<or> c = CR \<or> c = LF then flush_word s
            else s\<lparr>ws_current := ws_current s @ [c], ws_active := True\<rparr>))"

definition split_shell_words :: "bytes \<Rightarrow> bytes + bytes list" where
  "split_shell_words raw =
     (let s = fold shell_step raw \<lparr>ws_words = [], ws_current = [], ws_quote = None, ws_escaped = False, ws_active = False\<rparr>
      in if ws_escaped s \<or> ws_quote s \<noteq> None then Inl ''example string has invalid shell syntax''
         else Inr (ws_words (flush_word s)))"

definition quote_word :: "bytes \<Rightarrow> bytes" where
  "quote_word w = CHR 0x27 # w @ [CHR 0x27]"

definition between :: "bytes list \<Rightarrow> word_scan" where
  "between ws = \<lparr>ws_words = ws, ws_current = [], ws_quote = None, ws_escaped = False, ws_active = False\<rparr>"

lemma scan_quoted:
  "CHR 0x27 \<notin> set w \<Longrightarrow>
   fold shell_step w \<lparr>ws_words = ws, ws_current = cur, ws_quote = Some (CHR 0x27), ws_escaped = False, ws_active = True\<rparr> =
     \<lparr>ws_words = ws, ws_current = cur @ w, ws_quote = Some (CHR 0x27), ws_escaped = False, ws_active = True\<rparr>"
proof (induction w arbitrary: cur)
  case (Cons a w)
  then have "a \<noteq> CHR 0x27" "CHR 0x27 \<notin> set w" by auto
  then show ?case using Cons.IH [of "cur @ [a]"] by (simp add: shell_step_def)
qed simp

lemma scan_word:
  "CHR 0x27 \<notin> set w \<Longrightarrow>
   fold shell_step (quote_word w) (between ws) =
     \<lparr>ws_words = ws, ws_current = w, ws_quote = None, ws_escaped = False, ws_active = True\<rparr>"
  by (simp add: quote_word_def between_def shell_step_def [of "CHR 0x27"] scan_quoted)

lemma scan_words:
  "list_all (\<lambda>w. CHR 0x27 \<notin> set w) ws \<Longrightarrow> ws \<noteq> [] \<Longrightarrow>
   fold shell_step (join_with '' '' (map quote_word ws)) (between before) =
     \<lparr>ws_words = before @ butlast ws, ws_current = last ws, ws_quote = None, ws_escaped = False, ws_active = True\<rparr>"
proof (induction ws arbitrary: before)
  case (Cons w ws)
  show ?case
  proof (cases ws)
    case Nil
    then show ?thesis using Cons.prems by (simp add: scan_word)
  next
    case (Cons v vs)
    have "shell_step (CHR '' '') \<lparr>ws_words = before, ws_current = w, ws_quote = None, ws_escaped = False, ws_active = True\<rparr> =
        between (before @ [w])" by (simp add: shell_step_def flush_word_def between_def)
    then show ?thesis using Cons Cons.prems Cons.IH [of "before @ [w]"] by (simp add: scan_word)
  qed
qed simp

text \<open>Words quoted one by one and joined by blanks are read back exactly, empty words included.\<close>

theorem shell_words_roundtrip:
  assumes "list_all (\<lambda>w. CHR 0x27 \<notin> set w) ws"
  shows "split_shell_words (join_with '' '' (map quote_word ws)) = Inr ws"
proof (cases "ws = []")
  case True
  then show ?thesis by (simp add: split_shell_words_def flush_word_def)
next
  case False
  have "fold shell_step (join_with '' '' (map quote_word ws))
      \<lparr>ws_words = [], ws_current = [], ws_quote = None, ws_escaped = False, ws_active = False\<rparr> =
      \<lparr>ws_words = butlast ws, ws_current = last ws, ws_quote = None, ws_escaped = False, ws_active = True\<rparr>"
    using scan_words [OF assms False, of "[]"] by (simp add: between_def)
  then show ?thesis using False by (simp add: split_shell_words_def flush_word_def Let_def)
qed

theorem shell_words_roundtrip_witness: "split_shell_words (join_with '' '' (map quote_word [''git'', '''', ''a b''])) = Inr [''git'', '''', ''a b'']"
  by (rule shell_words_roundtrip) code_simp

section \<open>Network rules\<close>

definition all_ascii_digits :: "bytes \<Rightarrow> bool" where
  "all_ascii_digits v \<longleftrightarrow> list_all (\<lambda>r. 0x30 \<le> r \<and> r \<le> 0x39) (string_runes v)"

definition contains_any :: "bytes \<Rightarrow> bytes \<Rightarrow> bool" where
  "contains_any s chars \<longleftrightarrow> list_ex (\<lambda>c. c \<in> set chars) s"

definition cut_at :: "char \<Rightarrow> bytes \<Rightarrow> (bytes \<times> bytes) option" where
  "cut_at c s = (if c \<in> set s then Some (takeWhile (\<lambda>x. x \<noteq> c) s, drop 1 (dropWhile (\<lambda>x. x \<noteq> c) s)) else None)"

definition trim_right_dots :: "bytes \<Rightarrow> bytes" where
  "trim_right_dots s = rev (dropWhile (\<lambda>c. c = CHR ''.'') (rev s))"

definition host_error :: "bytes \<Rightarrow> bytes" where
  "host_error s = ''invalid rule: network_rule host '' @ s"

text \<open>The host without brackets and port, or what is wrong with its brackets.\<close>

definition host_without_port :: "bytes \<Rightarrow> bytes \<Rightarrow> bytes + bytes" where
  "host_without_port raw host =
     (if has_prefix host ''['' then
        (case cut_at (CHR '']'') (drop 1 host) of
           None \<Rightarrow> Inl (host_error ''has an invalid bracketed IPv6 literal'')
         | Some (inside, rest) \<Rightarrow>
             if rest = '''' then Inr inside
             else (case cut_prefix rest '':'' of
                 None \<Rightarrow> Inl (host_error (''contains an unsupported suffix: '' @ raw))
               | Some port \<Rightarrow>
                   if port = '''' \<or> \<not> all_ascii_digits port then Inl (host_error (''contains an unsupported suffix: '' @ raw))
                   else Inr inside))
      else if length (filter (\<lambda>c. c = CHR '':'') host) = 1 then
        (case cut_at (CHR '':'') host of
           None \<Rightarrow> Inr host
         | Some (candidate, port) \<Rightarrow>
             if candidate \<noteq> '''' \<and> port \<noteq> '''' \<and> all_ascii_digits port then Inr candidate else Inr host)
      else Inr host)"

definition normalize_network_rule_host :: "(nat \<Rightarrow> nat) \<Rightarrow> bytes \<Rightarrow> bytes + bytes" where
  "normalize_network_rule_host lower_rune raw =
     (let host = trim_space raw in
      if host = '''' then Inl (host_error ''cannot be empty'')
      else if contains_bytes host ''://'' \<or> contains_any host ''/?#''
      then Inl (host_error ''must be a hostname or IP literal (without scheme or path)'')
      else bind_res (host_without_port raw host) (\<lambda>h.
        let normalized = to_lower lower_rune (trim_space (trim_right_dots h)) in
        if normalized = '''' then Inl (host_error ''cannot be empty'')
        else if contains_any normalized ''*'' then Inl (host_error ''must be a specific host; wildcards are not allowed'')
        else if contains_any normalized [CHR '' '', CHR 0x09, LF, CR] then Inl (host_error ''cannot contain whitespace'')
        else Inr normalized))"

definition parse_network_rule_protocol :: "bytes \<Rightarrow> bytes + bytes" where
  "parse_network_rule_protocol raw =
     (if raw = ''http'' then Inr ''http''
      else if raw = ''https'' \<or> raw = ''https_connect'' \<or> raw = ''http-connect'' then Inr ''https''
      else if raw = ''socks5_tcp'' then Inr ''socks5_tcp''
      else if raw = ''socks5_udp'' then Inr ''socks5_udp''
      else Inl (''invalid rule: network_rule protocol must be one of http, https, socks5_tcp, socks5_udp (got '' @ raw @ '')''))"

text \<open>The normal form of a host is not stable: the host that is written to the policy file is read back
  as another one.\<close>

theorem host_not_stable:
  "normalize_network_rule_host lower_rune ''a.org:1.'' = Inr ''a.org:1'' \<and>
   normalize_network_rule_host lower_rune ''a.org:1'' = Inr ''a.org''"
  by code_simp

end
