(* ===== verification/Go_Utf8.thy ===== *)
theory Go_Utf8
  imports Go_Case
begin

text \<open>
  UTF-8 text: a scalar value that is encoded is read back, whatever follows it, and the loop
  \<open>for i, r := range s\<close> over a text visits its runes at the offsets where their encodings start.
\<close>

definition scalar_rune :: "nat \<Rightarrow> bool" where
  "scalar_rune r \<longleftrightarrow> r \<le> 0x10FFFF \<and> \<not> (0xD800 \<le> r \<and> r \<le> 0xDFFF)"

lemma div_mod_split: "(n::nat) = n div 0x40 * 0x40 + n mod 0x40"
  by simp

lemma decode_two: "2 \<le> a \<Longrightarrow> a < 0x20 \<Longrightarrow> b < 0x40 \<Longrightarrow> decode_rune ((0xC0 + a) # (0x80 + b) # rest) = (a * 0x40 + b, 2)"
  by (simp add: decode_rune_def second_byte_ok_def cont_byte_def)

lemma decode_three:
  assumes "a < 0x10" "b < 0x40" "c < 0x40" "a = 0 \<longrightarrow> 0x20 \<le> b" "a = 0xD \<longrightarrow> b < 0x20"
  shows "decode_rune ((0xE0 + a) # (0x80 + b) # (0x80 + c) # rest) = (a * 0x1000 + b * 0x40 + c, 3)"
  using assms by (auto simp: decode_rune_def second_byte_ok_def cont_byte_def)

lemma decode_four:
  assumes "a < 5" "b < 0x40" "c < 0x40" "d < 0x40" "a = 0 \<longrightarrow> 0x10 \<le> b" "a = 4 \<longrightarrow> b < 0x10"
  shows "decode_rune ((0xF0 + a) # (0x80 + b) # (0x80 + c) # (0x80 + d) # rest) = (a * 0x40000 + b * 0x1000 + c * 0x40 + d, 4)"
  using assms by (auto simp: decode_rune_def second_byte_ok_def cont_byte_def)

lemma digits_three: "(r::nat) div 0x1000 * 0x1000 + r div 0x40 mod 0x40 * 0x40 + r mod 0x40 = r"
proof -
  have "r div 0x40 div 0x40 = r div 0x1000" by (simp add: div_mult2_eq [symmetric])
  then show ?thesis using div_mod_split [of r] div_mod_split [of "r div 0x40"] by linarith
qed

lemma digits_four: "(r::nat) div 0x40000 * 0x40000 + r div 0x1000 mod 0x40 * 0x1000 + r div 0x40 mod 0x40 * 0x40 + r mod 0x40 = r"
proof -
  have "r div 0x1000 div 0x40 = r div 0x40000" by (simp add: div_mult2_eq [symmetric])
  then have "r div 0x1000 = r div 0x40000 * 0x40 + r div 0x1000 mod 0x40" using div_mod_split [of "r div 0x1000"] by simp
  then show ?thesis using digits_three [of r] by simp
qed

text \<open>Decoding what was encoded.\<close>

lemma decode_encode:
  assumes "scalar_rune r" shows "decode_rune (encode_rune r @ rest) = (r, length (encode_rune r))"
proof -
  consider "r < 0x80" | "0x80 \<le> r" "r < 0x800" | "0x800 \<le> r" "r < 0x10000" | "0x10000 \<le> r" by linarith
  then show ?thesis
  proof cases
    case 1
    then show ?thesis by (simp add: encode_rune_def decode_rune_def)
  next
    case 2
    have a: "2 \<le> r div 0x40" "r div 0x40 < 0x20" using 2 by auto
    show ?thesis using 2 decode_two [OF a, of "r mod 0x40" rest] div_mod_split [of r] by (simp add: encode_rune_def)
  next
    case 3
    have a: "r div 0x1000 < 0x10" using 3 by auto
    have z: "r div 0x1000 = 0 \<longrightarrow> 0x20 \<le> r div 0x40 mod 0x40"
    proof
      assume "r div 0x1000 = 0"
      then have "r < 0x1000" by simp
      then have "r div 0x40 < 0x40" by auto
      then show "0x20 \<le> r div 0x40 mod 0x40" using 3 by simp
    qed
    have d: "r div 0x1000 = 0xD \<longrightarrow> r div 0x40 mod 0x40 < 0x20"
    proof
      assume hi: "r div 0x1000 = 0xD"
      have "r < 0xE000" using hi by linarith
      then have "r < 0xD800" using assms by (simp add: scalar_rune_def)
      moreover have "0xD * 0x1000 + r div 0x40 mod 0x40 * 0x40 + r mod 0x40 = r" using digits_three [of r] by (simp only: hi)
      ultimately show "r div 0x40 mod 0x40 < 0x20" by linarith
    qed
    have "encode_rune r = [0xE0 + r div 0x1000, 0x80 + r div 0x40 mod 0x40, 0x80 + r mod 0x40]"
      using 3 assms unfolding encode_rune_def scalar_rune_def by (simp only: if_splits) auto
    then show ?thesis using decode_three [OF a _ _ z d, of "r mod 0x40" rest] digits_three [of r] by simp
  next
    case 4
    have le: "r \<le> 0x10FFFF" using assms by (simp add: scalar_rune_def)
    have a: "r div 0x40000 < 5" using le by auto
    have z: "r div 0x40000 = 0 \<longrightarrow> 0x10 \<le> r div 0x1000 mod 0x40"
    proof
      assume "r div 0x40000 = 0"
      then have "r < 0x40000" by simp
      then have "r div 0x1000 < 0x40" by auto
      then show "0x10 \<le> r div 0x1000 mod 0x40" using 4 by simp
    qed
    have d: "r div 0x40000 = 4 \<longrightarrow> r div 0x1000 mod 0x40 < 0x10"
    proof
      assume hi: "r div 0x40000 = 4"
      have "4 * 0x40000 + r div 0x1000 mod 0x40 * 0x1000 + r div 0x40 mod 0x40 * 0x40 + r mod 0x40 = r"
        using digits_four [of r] by (simp only: hi)
      then show "r div 0x1000 mod 0x40 < 0x10" using le by linarith
    qed
    have "encode_rune r = [0xF0 + r div 0x40000, 0x80 + r div 0x1000 mod 0x40, 0x80 + r div 0x40 mod 0x40, 0x80 + r mod 0x40]"
      using 4 le by (simp add: encode_rune_def)
    then show ?thesis using decode_four [OF a _ _ _ z d, of "r div 0x40 mod 0x40" "r mod 0x40" rest] digits_four [of r] by simp
  qed
qed

lemma encode_rune_nonempty [simp]: "encode_rune r \<noteq> []"
  by (simp add: encode_rune_def)

section \<open>Ranging over a string\<close>

function range_from :: "nat \<Rightarrow> nat list \<Rightarrow> (nat \<times> nat) list" where
  "range_from i bs = (if bs = [] then []
     else (i, fst (decode_rune bs)) # range_from (i + snd (decode_rune bs)) (drop (snd (decode_rune bs)) bs))"
  by pat_completeness auto
termination
  by (relation "measure (length \<circ> snd)") (use decode_rune_width in auto)

declare range_from.simps [simp del]

definition string_range :: "bytes \<Rightarrow> (nat \<times> nat) list" where
  "string_range s = range_from 0 (map of_char s)"

fun rune_starts :: "nat \<Rightarrow> nat list \<Rightarrow> (nat \<times> nat) list" where
  "rune_starts i [] = []"
| "rune_starts i (r # rs) = (i, r) # rune_starts (i + length (encode_rune r)) rs"

lemma range_from_encoded: "list_all scalar_rune rs \<Longrightarrow> range_from i (concat (map encode_rune rs)) = rune_starts i rs"
proof (induction rs arbitrary: i)
  case Nil
  then show ?case by (simp add: range_from.simps)
next
  case (Cons r rs)
  then show ?case by (subst range_from.simps) (simp add: decode_encode)
qed

lemma encode_rune_byte: "b \<in> set (encode_rune r) \<Longrightarrow> b < 0x100"
proof -
  assume b: "b \<in> set (encode_rune r)"
  have "r div 0x40 < 0x20" if "r < 0x800" using that by auto
  moreover have "r div 0x1000 < 0x10" if "r < 0x10000" using that by auto
  moreover have "r div 0x40000 < 5" if "r \<le> 0x10FFFF" using that by auto
  moreover have "r mod 0x40 < 0x40" "r div 0x40 mod 0x40 < 0x40" "r div 0x1000 mod 0x40 < 0x40" by simp_all
  ultimately show ?thesis using b by (auto simp: encode_rune_def split: if_splits)
qed

lemma chars_of_bytes: "(\<And>b. b \<in> set bs \<Longrightarrow> b < 0x100) \<Longrightarrow> map of_char (map char_of bs) = (bs :: nat list)"
  by (induction bs) simp_all

lemma bytes_of_runes: "map of_char (string_of_runes rs) = concat (map encode_rune rs)"
  unfolding string_of_runes_def by (rule chars_of_bytes) (auto dest: encode_rune_byte)

lemma string_range_runes: "list_all scalar_rune rs \<Longrightarrow> string_range (string_of_runes rs) = rune_starts 0 rs"
  by (simp add: string_range_def bytes_of_runes range_from_encoded)

lemma string_of_runes_simps [simp]:
  "string_of_runes [] = []"
  "string_of_runes (r # rs) = map char_of (encode_rune r) @ string_of_runes rs"
  "string_of_runes (rs @ qs) = string_of_runes rs @ string_of_runes qs"
  by (simp_all add: string_of_runes_def)

definition rune_width :: "nat list \<Rightarrow> nat" where
  "rune_width rs = length (string_of_runes rs)"

lemma rune_width_simps [simp]:
  "rune_width [] = 0"
  "rune_width (r # rs) = length (encode_rune r) + rune_width rs"
  "rune_width (rs @ qs) = rune_width rs + rune_width qs"
  by (simp_all add: rune_width_def)

end
