(* ===== verification/Shell_Quote.thy ===== *)
theory Shell_Quote
  imports Shell_Words Go_Utf8
begin

text \<open>
  Quoting an argument vector for the shell, \<open>ShlexJoin\<close> of \<open>shell/command.go\<close>, and the reader of the same file,
  \<open>splitCommandLine\<close>.  Both it and the reader of the policy examples (theory \<open>Shell_Words\<close>) give the vector back.
\<close>

section \<open>Quoting\<close>

datatype quoting = Unquoted | SingleQuoted | DoubleQuoted

text \<open>The styles a byte, or a run of bytes, can be written in: the bit set \<open>unquotedOK\<close>, \<open>singleOK\<close>, \<open>doubleOK\<close>.\<close>

record style_set =
  st_unquoted :: bool
  st_single :: bool
  st_double :: bool

definition in_ascii_range :: "nat \<Rightarrow> nat \<Rightarrow> char \<Rightarrow> bool" where
  "in_ascii_range lo hi c \<longleftrightarrow> lo \<le> (of_char c :: nat) \<and> (of_char c :: nat) \<le> hi"

definition shlex_unquoted_byte_ok :: "char \<Rightarrow> bool" where
  "shlex_unquoted_byte_ok c \<longleftrightarrow> c \<in> set ''+-./:@]_'' \<or>
     in_ascii_range 0x30 0x39 c \<or> in_ascii_range 0x41 0x5A c \<or> in_ascii_range 0x61 0x7A c"

definition shlex_single_quoted_byte_ok :: "char \<Rightarrow> bool" where
  "shlex_single_quoted_byte_ok c \<longleftrightarrow> c \<noteq> CHR 0x27 \<and> c \<noteq> CHR ''^'' \<and> c \<noteq> CHR 0x5C"

definition shlex_double_quoted_byte_ok :: "char \<Rightarrow> bool" where
  "shlex_double_quoted_byte_ok c \<longleftrightarrow> c \<noteq> CHR 0x60 \<and> c \<noteq> CHR ''$'' \<and> c \<noteq> CHR ''!'' \<and> c \<noteq> CHR ''^''"

definition restrict_styles :: "char \<Rightarrow> style_set \<Rightarrow> style_set" where
  "restrict_styles c ok =
     (if 0x80 \<le> (of_char c :: nat) then ok\<lparr>st_unquoted := False\<rparr>
      else \<lparr>st_unquoted = st_unquoted ok \<and> shlex_unquoted_byte_ok c,
            st_single = st_single ok \<and> shlex_single_quoted_byte_ok c,
            st_double = st_double ok \<and> shlex_double_quoted_byte_ok c\<rparr>)"

definition no_style :: "style_set \<Rightarrow> bool" where
  "no_style ok \<longleftrightarrow> \<not> st_unquoted ok \<and> \<not> st_single ok \<and> \<not> st_double ok"

fun style_run :: "style_set \<Rightarrow> nat \<Rightarrow> bytes \<Rightarrow> nat \<times> style_set" where
  "style_run ok i [] = (i, ok)"
| "style_run ok i (c # s) = (if no_style (restrict_styles c ok) then (i, ok) else style_run (restrict_styles c ok) (i + 1) s)"

definition shlex_quoting_strategy :: "bytes \<Rightarrow> nat \<times> quoting" where
  "shlex_quoting_strategy s =
     (case (if take 1 s = ''^'' then style_run \<lparr>st_unquoted = False, st_single = True, st_double = False\<rparr> 1 (drop 1 s)
            else style_run \<lparr>st_unquoted = True, st_single = True, st_double = True\<rparr> 0 s) of (i, ok) \<Rightarrow>
        (i, if st_unquoted ok then Unquoted else if st_single ok then SingleQuoted else DoubleQuoted))"

definition quote_chunk :: "quoting \<Rightarrow> bytes \<Rightarrow> bytes" where
  "quote_chunk q chunk = (case q of
     SingleQuoted \<Rightarrow> CHR 0x27 # chunk @ [CHR 0x27]
   | DoubleQuoted \<Rightarrow> CHR 0x22 #
       concat (map (\<lambda>c. if c = CHR ''$'' \<or> c = CHR 0x60 \<or> c = CHR 0x22 \<or> c = CHR 0x5C then [CHR 0x5C, c] else [c]) chunk) @ [CHR 0x22]
   | Unquoted \<Rightarrow> chunk)"

function quote_chunks :: "bytes \<Rightarrow> bytes" where
  "quote_chunks rest = (if rest = [] then [] else
     case shlex_quoting_strategy rest of (n, q) \<Rightarrow>
       quote_chunk q (take (max 1 n) rest) @ quote_chunks (drop (max 1 n) rest))"
  by pat_completeness auto
termination
  by (relation "measure length") auto

declare quote_chunks.simps [simp del]

definition shell_quote :: "bytes \<Rightarrow> bytes" where
  "shell_quote token = (if token = [] then [CHR 0x27, CHR 0x27] else quote_chunks token)"

definition shlex_join :: "bytes list \<Rightarrow> bytes" where
  "shlex_join tokens = (if tokens = [] then [] else join_with '' '' (map shell_quote tokens))"

section \<open>Chunks\<close>

definition plain_byte :: "char \<Rightarrow> bool" where
  "plain_byte c \<longleftrightarrow> c \<noteq> CHR 0x5C \<and> c \<noteq> CHR 0x27 \<and> c \<noteq> CHR 0x22 \<and> c \<noteq> CHR '' '' \<and> c \<noteq> TAB \<and> c \<noteq> CR \<and> c \<noteq> LF"

lemma unquoted_plain: "shlex_unquoted_byte_ok c \<Longrightarrow> plain_byte c"
  by (auto simp: shlex_unquoted_byte_ok_def plain_byte_def in_ascii_range_def)

lemma restrict_styles_sub:
  "st_unquoted (restrict_styles c ok) \<Longrightarrow> st_unquoted ok" "st_single (restrict_styles c ok) \<Longrightarrow> st_single ok"
  by (auto simp: restrict_styles_def split: if_splits)

lemma style_run_styles:
  "style_run ok i s = (n, ok') \<Longrightarrow> i \<le> n \<and> n \<le> i + length s \<and>
     (st_unquoted ok' \<longrightarrow> st_unquoted ok \<and> list_all plain_byte (take (n - i) s)) \<and>
     (st_single ok' \<longrightarrow> st_single ok \<and> list_all (\<lambda>c. c \<noteq> CHR 0x27) (take (n - i) s))"
proof (induction ok i s rule: style_run.induct)
  case (2 ok i c s)
  show ?case
  proof (cases "no_style (restrict_styles c ok)")
    case True
    then show ?thesis using "2.prems" by auto
  next
    case False
    let ?ok = "restrict_styles c ok"
    have rest: "i + 1 \<le> n \<and> n \<le> i + 1 + length s \<and>
      (st_unquoted ok' \<longrightarrow> st_unquoted ?ok \<and> list_all plain_byte (take (n - (i + 1)) s)) \<and>
      (st_single ok' \<longrightarrow> st_single ?ok \<and> list_all (\<lambda>c. c \<noteq> CHR 0x27) (take (n - (i + 1)) s))"
      using "2.IH" [OF False] "2.prems" False by simp
    then have "n - i = Suc (n - (i + 1))" by linarith
    then have "take (n - i) (c # s) = c # take (n - (i + 1)) s" by simp
    moreover have "plain_byte c" if "st_unquoted ?ok"
      using that by (auto simp: restrict_styles_def unquoted_plain split: if_splits)
    moreover have "c \<noteq> CHR 0x27" if "st_single ?ok"
      using that by (auto simp: restrict_styles_def shlex_single_quoted_byte_ok_def split: if_splits)
    ultimately show ?thesis using rest restrict_styles_sub [of c ok] by auto
  qed
qed simp

lemma some_style: "c \<noteq> CHR ''^'' \<Longrightarrow> \<not> no_style (restrict_styles c \<lparr>st_unquoted = True, st_single = True, st_double = True\<rparr>)"
  by (auto simp: no_style_def restrict_styles_def shlex_single_quoted_byte_ok_def shlex_double_quoted_byte_ok_def)

text \<open>What the strategy picks can be written in its style.\<close>

definition style_ok :: "quoting \<Rightarrow> bytes \<Rightarrow> bool" where
  "style_ok q chunk \<longleftrightarrow> (case q of
     Unquoted \<Rightarrow> list_all plain_byte chunk | SingleQuoted \<Rightarrow> list_all (\<lambda>c. c \<noteq> CHR 0x27) chunk | DoubleQuoted \<Rightarrow> True)"

lemma strategy_chunk:
  assumes "s \<noteq> []" "shlex_quoting_strategy s = (n, q)"
  shows "0 < n" "n \<le> length s" "style_ok q (take n s)"
proof -
  have "0 < n \<and> n \<le> length s \<and> style_ok q (take n s)"
  proof (cases "take 1 s = ''^''")
    case True
    then obtain s' where s: "s = CHR ''^'' # s'" using assms(1) by (cases s) auto
    obtain ok' where run: "style_run \<lparr>st_unquoted = False, st_single = True, st_double = False\<rparr> 1 s' = (n, ok')"
      and q: "q = (if st_unquoted ok' then Unquoted else if st_single ok' then SingleQuoted else DoubleQuoted)"
      using assms(2) by (auto simp: shlex_quoting_strategy_def s split: prod.splits)
    have "take n s = CHR ''^'' # take (n - 1) s'" if "0 < n" using that by (cases n) (auto simp: s)
    then show ?thesis using style_run_styles [OF run] by (auto simp: q style_ok_def s)
  next
    case False
    obtain ok' where run: "style_run \<lparr>st_unquoted = True, st_single = True, st_double = True\<rparr> 0 s = (n, ok')"
      and q: "q = (if st_unquoted ok' then Unquoted else if st_single ok' then SingleQuoted else DoubleQuoted)"
      using assms(2) False by (auto simp: shlex_quoting_strategy_def split: prod.splits)
    obtain c s' where s: "s = c # s'" using assms(1) by (cases s) auto
    have "c \<noteq> CHR ''^''" using False s by simp
    then have "style_run (restrict_styles c \<lparr>st_unquoted = True, st_single = True, st_double = True\<rparr>) 1 s' = (n, ok')"
      using run s some_style by simp
    then have "1 \<le> n" using style_run_styles by blast
    then show ?thesis using style_run_styles [OF run] by (auto simp: q style_ok_def)
  qed
  then show "0 < n" "n \<le> length s" "style_ok q (take n s)" by simp_all
qed

lemma quote_chunks_step:
  assumes "s \<noteq> []"
  obtains n q where "0 < n" "style_ok q (take n s)" "take n s \<noteq> []" "quote_chunks s = quote_chunk q (take n s) @ quote_chunks (drop n s)"
proof -
  obtain n q where nq: "shlex_quoting_strategy s = (n, q)" by fastforce
  note c = strategy_chunk [OF assms nq]
  have "max 1 n = n" using c(1) by simp
  then have "quote_chunks s = quote_chunk q (take n s) @ quote_chunks (drop n s)"
    using assms by (subst quote_chunks.simps) (simp add: nq)
  then show thesis using that [OF c(1,3)] c(1) assms by simp
qed

section \<open>Reading the vector back\<close>

abbreviation scanning :: "bytes list \<Rightarrow> bytes \<Rightarrow> bool \<Rightarrow> word_scan" where
  "scanning ws cur active \<equiv> \<lparr>ws_words = ws, ws_current = cur, ws_quote = None, ws_escaped = False, ws_active = active\<rparr>"

lemma scan_plain:
  "list_all plain_byte chunk \<Longrightarrow> chunk \<noteq> [] \<Longrightarrow> fold shell_step chunk (scanning ws cur act) = scanning ws (cur @ chunk) True"
proof (induction chunk arbitrary: cur act)
  case (Cons c chunk)
  have "shell_step c (scanning ws cur act) = scanning ws (cur @ [c]) True"
    using Cons.prems(1) by (simp add: shell_step_def plain_byte_def)
  then show ?case using Cons by (cases chunk) simp_all
qed simp

lemma scan_double:
  "fold shell_step (concat (map (\<lambda>c. if c = CHR ''$'' \<or> c = CHR 0x60 \<or> c = CHR 0x22 \<or> c = CHR 0x5C then [CHR 0x5C, c] else [c]) chunk))
     \<lparr>ws_words = ws, ws_current = cur, ws_quote = Some (CHR 0x22), ws_escaped = False, ws_active = True\<rparr> =
     \<lparr>ws_words = ws, ws_current = cur @ chunk, ws_quote = Some (CHR 0x22), ws_escaped = False, ws_active = True\<rparr>"
proof (induction chunk arbitrary: cur)
  case (Cons c chunk)
  have "fold shell_step (if c = CHR ''$'' \<or> c = CHR 0x60 \<or> c = CHR 0x22 \<or> c = CHR 0x5C then [CHR 0x5C, c] else [c])
     \<lparr>ws_words = ws, ws_current = cur, ws_quote = Some (CHR 0x22), ws_escaped = False, ws_active = True\<rparr> =
     \<lparr>ws_words = ws, ws_current = cur @ [c], ws_quote = Some (CHR 0x22), ws_escaped = False, ws_active = True\<rparr>"
    by (simp add: shell_step_def)
  then show ?case using Cons.IH [of "cur @ [c]"] by simp
qed simp

lemma scan_chunk:
  assumes "style_ok q chunk" "chunk \<noteq> []"
  shows "fold shell_step (quote_chunk q chunk) (scanning ws cur act) = scanning ws (cur @ chunk) True"
proof (cases q)
  case Unquoted
  then show ?thesis using assms scan_plain by (simp add: quote_chunk_def style_ok_def)
next
  case SingleQuoted
  then have "CHR 0x27 \<notin> set chunk" using assms by (auto simp: style_ok_def list_all_iff)
  then show ?thesis using SingleQuoted scan_quoted [of chunk ws cur]
    by (simp add: quote_chunk_def shell_step_def [of "CHR 0x27"])
next
  case DoubleQuoted
  then show ?thesis using scan_double [of chunk ws cur]
    by (simp add: quote_chunk_def shell_step_def [of "CHR 0x22"])
qed

lemma scan_chunks: "s \<noteq> [] \<Longrightarrow> fold shell_step (quote_chunks s) (scanning ws cur act) = scanning ws (cur @ s) True"
proof (induction "length s" arbitrary: s cur act rule: less_induct)
  case less
  from quote_chunks_step [OF less.prems] obtain n q where
    nq: "0 < n" "style_ok q (take n s)" "take n s \<noteq> []" "quote_chunks s = quote_chunk q (take n s) @ quote_chunks (drop n s)" .
  show ?case
  proof (cases "drop n s = []")
    case True
    then have "take n s = s" by simp
    then show ?thesis using nq scan_chunk [OF nq(2,3), of ws cur act] True by (simp add: quote_chunks.simps [of "[]"])
  next
    case False
    have "length (drop n s) < length s" using nq(1) less.prems by simp
    from less.hyps [OF this False, of "cur @ take n s" True] show ?thesis
      using nq scan_chunk [OF nq(2,3), of ws cur act] by simp
  qed
qed

lemma scan_shell_quote: "fold shell_step (shell_quote w) (scanning ws [] False) = scanning ws w True"
  using scan_chunks [of w ws "[]" False] by (simp add: shell_quote_def shell_step_def)

lemma scan_join:
  "tokens \<noteq> [] \<Longrightarrow> fold shell_step (join_with '' '' (map shell_quote tokens)) (scanning ws [] False) =
     scanning (ws @ butlast tokens) (last tokens) True"
proof (induction tokens arbitrary: ws)
  case (Cons w tokens)
  show ?case
  proof (cases tokens)
    case Nil
    then show ?thesis by (simp add: scan_shell_quote)
  next
    case (Cons v vs)
    have "shell_step (CHR '' '') (scanning ws w True) = scanning (ws @ [w]) [] False"
      by (simp add: shell_step_def flush_word_def)
    then show ?thesis using Cons Cons.IH [of "ws @ [w]"] by (simp add: scan_shell_quote)
  qed
qed simp

text \<open>C24: quoting loses nothing.  Whatever bytes the arguments hold, spaces, quotes, line feeds and empty arguments
  included, the joined line is read back as exactly the same argument vector.\<close>

theorem shlex_join_roundtrip: "split_shell_words (shlex_join tokens) = Inr tokens"
proof (cases "tokens = []")
  case True
  then show ?thesis by (simp add: shlex_join_def split_shell_words_def flush_word_def)
next
  case False
  from scan_join [OF False, of "[]"] False show ?thesis
    by (simp add: shlex_join_def split_shell_words_def flush_word_def Let_def)
qed


section \<open>The reader of command lines\<close>

definition double_quote_escape :: "nat \<Rightarrow> bool" where
  "double_quote_escape r \<longleftrightarrow> r = 0x24 \<or> r = 0x60 \<or> r = 0x22 \<or> r = 0x5C \<or> r = 0x0A"

definition flush_token :: "bool \<Rightarrow> nat list \<Rightarrow> bytes list \<Rightarrow> bytes list" where
  "flush_token started current tokens = (if started then tokens @ [string_of_runes current] else tokens)"

text \<open>\<open>splitCommandLine\<close> on the runes of the command: the token being read, the open quote (zero for none), and
  whether a token was started.\<close>

fun split_command_loop :: "nat list \<Rightarrow> bytes list \<Rightarrow> nat list \<Rightarrow> nat \<Rightarrow> bool \<Rightarrow> bytes list option" where
  "split_command_loop [] tokens current quote started =
     (if quote \<noteq> 0 then None else Some (flush_token started current tokens))"
| "split_command_loop (r # rs) tokens current quote started =
     (if quote = 0x27 then
        (if r = 0x27 then split_command_loop rs tokens current 0 started
         else split_command_loop rs tokens (current @ [r]) quote True)
      else if quote = 0x22 then
        (if r = 0x22 then split_command_loop rs tokens current 0 started
         else (case rs of
             escaped # rs' \<Rightarrow>
               if r = 0x5C \<and> double_quote_escape escaped
               then split_command_loop rs' tokens (if escaped \<noteq> 0x0A then current @ [escaped] else current) quote True
               else split_command_loop rs tokens (current @ [r]) quote True
           | [] \<Rightarrow> split_command_loop rs tokens (current @ [r]) quote True))
      else if r = 0x5C then
        (case rs of
           [] \<Rightarrow> None
         | escaped # rs' \<Rightarrow> split_command_loop rs' tokens (if escaped \<noteq> 0x0A then current @ [escaped] else current) quote True)
      else if r = 0x27 \<or> r = 0x22 then split_command_loop rs tokens current r True
      else if r = 0x20 \<or> r = 0x09 \<or> r = 0x0D \<or> r = 0x0A
        then split_command_loop rs (flush_token started current tokens) (if started then [] else current) quote False
      else split_command_loop rs tokens (current @ [r]) quote True)"

definition split_command_line :: "bytes \<Rightarrow> bytes list option" where
  "split_command_line command = split_command_loop (string_runes command) [] [] 0 False"

lemma of_char_eq_iff: "(of_char c :: nat) = of_char d \<longleftrightarrow> c = d"
  by (metis char_of_char)

abbreviation byte_codes :: "bytes \<Rightarrow> nat list" where
  "byte_codes s \<equiv> map of_char s"

lemma plain_code:
  "plain_byte c \<Longrightarrow> (of_char c :: nat) \<notin> {0x5C, 0x27, 0x22, 0x20, 0x09, 0x0D, 0x0A}"
  using of_char_eq_iff [of c "CHR 0x5C"] of_char_eq_iff [of c "CHR 0x27"] of_char_eq_iff [of c "CHR 0x22"]
    of_char_eq_iff [of c "CHR '' ''"] of_char_eq_iff [of c TAB] of_char_eq_iff [of c CR] of_char_eq_iff [of c LF]
  by (simp add: plain_byte_def)

lemma command_plain:
  "list_all plain_byte chunk \<Longrightarrow> chunk \<noteq> [] \<Longrightarrow>
   split_command_loop (byte_codes chunk @ rest) tokens cur 0 act = split_command_loop rest tokens (cur @ byte_codes chunk) 0 True"
proof (induction chunk arbitrary: cur act)
  case (Cons c chunk)
  have "split_command_loop (byte_codes (c # chunk) @ rest) tokens cur 0 act = split_command_loop (byte_codes chunk @ rest) tokens (cur @ [of_char c]) 0 True"
    using Cons.prems(1) plain_code [of c] by simp
  then show ?case using Cons by (cases chunk) simp_all
qed simp

lemma command_single:
  "list_all (\<lambda>c. c \<noteq> CHR 0x27) chunk \<Longrightarrow>
   split_command_loop (byte_codes chunk @ 0x27 # rest) tokens cur 0x27 True = split_command_loop rest tokens (cur @ byte_codes chunk) 0 True"
proof (induction chunk arbitrary: cur)
  case (Cons c chunk)
  have "(of_char c :: nat) \<noteq> 0x27" using Cons.prems of_char_eq_iff [of c "CHR 0x27"] by simp
  then show ?case using Cons by simp
qed simp

lemma double_step:
  "r \<noteq> 0x22 \<Longrightarrow> r \<noteq> 0x5C \<Longrightarrow>
   split_command_loop (r # rs) tokens cur 0x22 st = split_command_loop rs tokens (cur @ [r]) 0x22 True"
  by (subst split_command_loop.simps) (simp del: split_command_loop.simps split: list.split)

lemma double_escape_step:
  "double_quote_escape r \<Longrightarrow> r \<noteq> 0x0A \<Longrightarrow>
   split_command_loop (0x5C # r # rs) tokens cur 0x22 st = split_command_loop rs tokens (cur @ [r]) 0x22 True"
  by (subst split_command_loop.simps) (simp del: split_command_loop.simps)

lemma double_close_step: "split_command_loop (0x22 # rs) tokens cur 0x22 st = split_command_loop rs tokens cur 0 st"
  by (subst split_command_loop.simps) (simp del: split_command_loop.simps)

lemma command_double:
  "split_command_loop (byte_codes (concat (map (\<lambda>c. if c = CHR ''$'' \<or> c = CHR 0x60 \<or> c = CHR 0x22 \<or> c = CHR 0x5C then [CHR 0x5C, c] else [c]) chunk)) @ 0x22 # rest)
     tokens cur 0x22 True = split_command_loop rest tokens (cur @ byte_codes chunk) 0 True"
proof (induction chunk arbitrary: cur)
  case (Cons c chunk)
  show ?case
  proof (cases "c = CHR ''$'' \<or> c = CHR 0x60 \<or> c = CHR 0x22 \<or> c = CHR 0x5C")
    case True
    then have "double_quote_escape (of_char c)" "(of_char c :: nat) \<noteq> 0x0A" by (auto simp: double_quote_escape_def)
    then show ?thesis using True Cons.IH [of "cur @ [of_char c]"]
      by (simp del: split_command_loop.simps add: double_escape_step)
  next
    case False
    then have "(of_char c :: nat) \<noteq> 0x22" "(of_char c :: nat) \<noteq> 0x5C"
      using of_char_eq_iff [of c "CHR 0x22"] of_char_eq_iff [of c "CHR 0x5C"] by simp_all
    then show ?thesis using False Cons.IH [of "cur @ [of_char c]"]
      by (simp del: split_command_loop.simps add: double_step)
  qed
qed (simp del: split_command_loop.simps add: double_close_step)

lemma command_chunk:
  assumes "style_ok q chunk" "chunk \<noteq> []"
  shows "split_command_loop (byte_codes (quote_chunk q chunk) @ rest) tokens cur 0 act = split_command_loop rest tokens (cur @ byte_codes chunk) 0 True"
proof (cases q)
  case Unquoted
  then show ?thesis using assms command_plain by (simp add: quote_chunk_def style_ok_def)
next
  case SingleQuoted
  then show ?thesis using assms command_single [of chunk rest tokens cur] by (simp add: quote_chunk_def style_ok_def)
next
  case DoubleQuoted
  then show ?thesis using command_double [of chunk rest tokens cur] by (simp add: quote_chunk_def)
qed

lemma command_chunks:
  "s \<noteq> [] \<Longrightarrow> split_command_loop (byte_codes (quote_chunks s) @ rest) tokens cur 0 act = split_command_loop rest tokens (cur @ byte_codes s) 0 True"
proof (induction "length s" arbitrary: s cur act rule: less_induct)
  case less
  from quote_chunks_step [OF less.prems] obtain n q where
    nq: "0 < n" "style_ok q (take n s)" "take n s \<noteq> []" "quote_chunks s = quote_chunk q (take n s) @ quote_chunks (drop n s)" .
  have split: "byte_codes s = byte_codes (take n s) @ byte_codes (drop n s)" by (metis append_take_drop_id map_append)
  show ?case
  proof (cases "drop n s = []")
    case True
    then show ?thesis using nq split command_chunk [OF nq(2,3), of rest] by (simp add: quote_chunks.simps [of "[]"])
  next
    case False
    have "length (drop n s) < length s" using nq(1) less.prems by simp
    from less.hyps [OF this False, of "cur @ byte_codes (take n s)" True] show ?thesis
      using nq(4) split command_chunk [OF nq(2,3), of "byte_codes (quote_chunks (drop n s)) @ rest"] by simp
  qed
qed

lemma command_word:
  "split_command_loop (byte_codes (shell_quote w) @ rest) tokens [] 0 False = split_command_loop rest tokens (byte_codes w) 0 True"
  using command_chunks [of w rest tokens "[]" False] by (simp add: shell_quote_def)

lemma ascii_text: "is_ascii w \<Longrightarrow> string_of_runes (byte_codes w) = w"
  by (induction w) (simp_all add: is_ascii_def encode_rune_def)

lemma command_join:
  "tokens \<noteq> [] \<Longrightarrow> list_all is_ascii tokens \<Longrightarrow>
   split_command_loop (byte_codes (join_with '' '' (map shell_quote tokens))) before [] 0 False = Some (before @ tokens)"
proof (induction tokens arbitrary: before)
  case (Cons w tokens)
  have word: "string_of_runes (byte_codes w) = w"
    using Cons.prems(2) by (simp add: ascii_text)
  show ?case
  proof (cases tokens)
    case Nil
    then show ?thesis using command_word [of w "[]"] word by (simp add: flush_token_def)
  next
    case (Cons v vs)
    then show ?thesis using Cons.prems Cons.IH [of "before @ [w]"] word
      command_word [of w "byte_codes (CHR '' '' # join_with '' '' (map shell_quote tokens))"] by (simp add: flush_token_def)
  qed
qed simp


lemma is_ascii_append: "is_ascii (s @ t) \<longleftrightarrow> is_ascii s \<and> is_ascii t"
  by (simp add: is_ascii_def)

lemma ascii_chunk: "is_ascii chunk \<Longrightarrow> is_ascii (quote_chunk q chunk)"
  by (cases q) (auto simp: quote_chunk_def is_ascii_def list_all_iff)

lemma ascii_chunks: "is_ascii s \<Longrightarrow> is_ascii (quote_chunks s)"
proof (induction s rule: quote_chunks.induct)
  case (1 rest)
  show ?case
  proof (cases "rest = []")
    case False
    obtain n q where nq: "shlex_quoting_strategy rest = (n, q)" by fastforce
    have parts: "is_ascii (take (max 1 n) rest)" "is_ascii (drop (max 1 n) rest)"
      using "1.prems" by (metis append_take_drop_id is_ascii_append)+
    then show ?thesis
      using "1.IH" [OF False nq [symmetric] parts(2)] False
      by (subst quote_chunks.simps) (simp add: nq is_ascii_append ascii_chunk)
  qed (simp add: quote_chunks.simps is_ascii_def)
qed

lemma ascii_join: "list_all is_ascii tokens \<Longrightarrow> is_ascii (join_with '' '' (map shell_quote tokens))"
proof (induction tokens)
  case (Cons w tokens)
  have "is_ascii (shell_quote w)" using Cons.prems ascii_chunks by (simp add: shell_quote_def is_ascii_def)
  then show ?case using Cons by (cases tokens) (simp_all add: is_ascii_append, simp add: is_ascii_def)
qed (simp add: is_ascii_def)

text \<open>The reader of command lines, whose escapes in double quotes differ, reads ASCII vectors back as well.\<close>

theorem command_line_roundtrip:
  assumes "list_all is_ascii tokens"
  shows "split_command_line (shlex_join tokens) = Some tokens"
proof (cases "tokens = []")
  case True
  then show ?thesis by (simp add: shlex_join_def split_command_line_def string_runes_def runes_of.simps flush_token_def)
next
  case False
  have "is_ascii (shlex_join tokens)" using ascii_join [OF assms] False by (simp add: shlex_join_def)
  then have "string_runes (shlex_join tokens) = byte_codes (shlex_join tokens)"
    unfolding string_runes_def by (intro runes_of_ascii) (auto simp: is_ascii_def list_all_iff)
  then show ?thesis using command_join [OF False assms, of "[]"] False
    by (simp add: split_command_line_def shlex_join_def)
qed

theorem command_line_roundtrip_witness:
  "split_command_line (shlex_join [''echo'', ''it is $5'', '''']) = Some [''echo'', ''it is $5'', '''']"
  by (rule command_line_roundtrip) code_simp

end
