(* ===== verification/Output_Truncation.thy ===== *)
theory Output_Truncation
  imports Go_Utf8
begin

text \<open>
  Cutting tool output to a budget of bytes or tokens, \<open>utils/outputtrunc.go\<close>: the middle of a text is replaced
  by a marker, mixed output is charged item by item, and the positions callers keep into the output are moved to
  where the text went.  \<open>WithSerializationAllowance\<close>, a floating point product, is not modelled.
\<close>

section \<open>Budgets\<close>

datatype policy_mode = PolicyBytes | PolicyTokens | OtherMode bytes

record truncation_policy =
  tp_mode :: policy_mode
  tp_limit :: int

definition wrap_int :: "int \<Rightarrow> int" where
  "wrap_int i = (i + 2 ^ 63) mod 2 ^ 64 - 2 ^ 63"

text \<open>The product of two Go \<open>int\<close>s wraps.\<close>

definition approx_bytes_for_tokens :: "int \<Rightarrow> int" where
  "approx_bytes_for_tokens tokens = (if tokens \<le> 0 then 0 else wrap_int (tokens * 4))"

definition approx_tokens_from_byte_count :: "int \<Rightarrow> nat" where
  "approx_tokens_from_byte_count n = (if n \<le> 0 then 0 else nat ((n + 3) div 4))"

definition approx_token_count :: "bytes \<Rightarrow> int" where
  "approx_token_count text = (int (length text) + 3) div 4"

definition byte_budget :: "truncation_policy \<Rightarrow> int" where
  "byte_budget p =
     (if tp_mode p = PolicyTokens then approx_bytes_for_tokens (tp_limit p)
      else if tp_limit p < 0 then 0 else tp_limit p)"

definition token_budget :: "truncation_policy \<Rightarrow> int" where
  "token_budget p =
     (if tp_mode p = PolicyTokens then (if tp_limit p < 0 then 0 else tp_limit p)
      else int (approx_tokens_from_byte_count (byte_budget p)))"

definition split_budget :: "int \<Rightarrow> int \<times> int" where
  "split_budget budget = (if budget \<le> 0 then (0, 0) else (budget div 2, budget - budget div 2))"

definition format_truncation_marker :: "bool \<Rightarrow> nat \<Rightarrow> bytes" where
  "format_truncation_marker use_tokens removed =
     (let dots = [CHR 0xE2, CHR 0x80, CHR 0xA6] in
      dots @ dec_nat removed @ (if use_tokens then '' tokens truncated'' else '' chars truncated'') @ dots)"

definition count_lines :: "bytes \<Rightarrow> nat" where
  "count_lines content = (if content = [] then 0 else length (filter (\<lambda>c. c = LF) content) + 1)"

section \<open>Boundaries of characters\<close>

definition rune_start :: "char \<Rightarrow> bool" where
  "rune_start c \<longleftrightarrow> \<not> cont_byte (of_char c)"

fun floor_scan :: "bytes \<Rightarrow> nat \<Rightarrow> nat" where
  "floor_scan s 0 = 0"
| "floor_scan s (Suc i) = (if rune_start (s ! Suc i) then Suc i else floor_scan s i)"

definition floor_char_boundary :: "bytes \<Rightarrow> int \<Rightarrow> int" where
  "floor_char_boundary s i =
     (if i \<le> 0 then 0 else if int (length s) \<le> i then int (length s) else int (floor_scan s (nat i)))"

definition ceil_char_boundary :: "bytes \<Rightarrow> int \<Rightarrow> int" where
  "ceil_char_boundary s i =
     (if i \<le> 0 then 0 else if int (length s) \<le> i then int (length s)
      else i + int (length (takeWhile (\<lambda>c. \<not> rune_start c) (drop (nat i) s))))"

section \<open>Cutting a text\<close>

text \<open>\<open>utf8.RuneLen\<close> of a decoded rune.\<close>

definition rune_len :: "nat \<Rightarrow> int" where
  "rune_len r = (if r < 0x80 then 1 else if r < 0x800 then 2 else if r < 0x10000 then 3 else 4)"

record split_scan =
  sc_prefix_end :: int
  sc_suffix_start :: int
  sc_removed :: nat
  sc_started :: bool

definition split_step :: "int \<Rightarrow> int \<Rightarrow> nat \<times> nat \<Rightarrow> split_scan \<Rightarrow> split_scan" where
  "split_step beginning tail_target = (\<lambda>(idx, ch) s.
     let char_end = int idx + rune_len ch in
     if char_end \<le> beginning then s\<lparr>sc_prefix_end := char_end\<rparr>
     else if tail_target \<le> int idx
       then (if sc_started s then s else s\<lparr>sc_suffix_start := int idx, sc_started := True\<rparr>)
     else s\<lparr>sc_removed := sc_removed s + 1\<rparr>)"

text \<open>\<open>SplitString\<close>; \<open>None\<close> is the panic of a slice beyond the string.\<close>

definition split_string :: "bytes \<Rightarrow> int \<Rightarrow> int \<Rightarrow> (nat \<times> bytes \<times> bytes) option" where
  "split_string s beginning_bytes end_bytes =
     (if s = [] then Some (0, [], []) else
      let beginning = max 0 beginning_bytes;
          len = int (length s);
          tail_target = max 0 (len - max 0 end_bytes);
          sc = fold (split_step beginning tail_target) (string_range s)
                 \<lparr>sc_prefix_end = 0, sc_suffix_start = len, sc_removed = 0, sc_started = False\<rparr>;
          suffix_start = max (sc_prefix_end sc) (sc_suffix_start sc)
      in if len < sc_prefix_end sc \<or> len < suffix_start then None
         else Some (sc_removed sc, take (nat (sc_prefix_end sc)) s, drop (nat suffix_start) s))"

definition truncate_middle_chars :: "bytes \<Rightarrow> int \<Rightarrow> bytes option" where
  "truncate_middle_chars s max_bytes =
     (if int (length s) \<le> max_bytes then Some s
      else case split_string s (fst (split_budget max_bytes)) (snd (split_budget max_bytes)) of
          None \<Rightarrow> None
        | Some (removed, left, right) \<Rightarrow> Some (left @ format_truncation_marker False removed @ right))"

definition truncate_middle_with_marker :: "bytes \<Rightarrow> int \<Rightarrow> bytes \<Rightarrow> bytes" where
  "truncate_middle_with_marker s max_bytes marker =
     (if int (length s) \<le> max_bytes then s
      else if max_bytes < int (length marker) then take (nat (floor_char_boundary s max_bytes)) s
      else let (left, right) = split_budget (max_bytes - int (length marker)) in
        take (nat (floor_char_boundary s left)) s @ marker @
        drop (nat (ceil_char_boundary s (int (length s) - right))) s)"

record text_truncation =
  tt_removed_start :: int
  tt_removed_end :: int
  tt_marker :: bytes

definition apply_truncation :: "text_truncation \<Rightarrow> bytes \<Rightarrow> bytes" where
  "apply_truncation t original =
     (let len = int (length original);
          start = min len (max 0 (tt_removed_start t));
          stop = min len (max start (tt_removed_end t))
      in take (nat start) original @ tt_marker t @ drop (nat stop) original)"

definition plan_token_truncation :: "bytes \<Rightarrow> int \<Rightarrow> text_truncation option" where
  "plan_token_truncation s max_tokens =
     (let max_bytes = approx_bytes_for_tokens max_tokens in
      if int (length s) \<le> max_bytes then None
      else let (left, right) = split_budget max_bytes in
        Some \<lparr>tt_removed_start = floor_char_boundary s left,
              tt_removed_end = ceil_char_boundary s (int (length s) - right),
              tt_marker = format_truncation_marker True (approx_tokens_from_byte_count (wrap_int (int (length s) - max_bytes)))\<rparr>)"

definition truncate_middle_with_token_budget :: "bytes \<Rightarrow> int \<Rightarrow> bytes \<times> nat option" where
  "truncate_middle_with_token_budget s max_tokens = (case plan_token_truncation s max_tokens of
     None \<Rightarrow> (s, None)
   | Some t \<Rightarrow>
       let truncated = take (nat (tt_removed_start t)) s @ tt_marker t @ drop (nat (tt_removed_end t)) s
       in if truncated = s then (truncated, None) else (truncated, Some (nat (approx_token_count s))))"

definition truncate_text_with_plan :: "bytes \<Rightarrow> truncation_policy \<Rightarrow> (bytes \<times> text_truncation option) option" where
  "truncate_text_with_plan content p =
     (if tp_mode p = PolicyTokens then (case plan_token_truncation content (tp_limit p) of
          None \<Rightarrow> Some (content, None)
        | Some edit \<Rightarrow> Some (apply_truncation edit content, Some edit))
      else map_option (\<lambda>t. (t, None)) (truncate_middle_chars content (tp_limit p)))"

definition truncate_text :: "bytes \<Rightarrow> truncation_policy \<Rightarrow> bytes option" where
  "truncate_text content p = map_option fst (truncate_text_with_plan content p)"


section \<open>What is kept of a text\<close>

text \<open>The longest prefix and the longest suffix of whole runes that fit a number of bytes.\<close>

fun prefix_fit :: "nat \<Rightarrow> nat list \<Rightarrow> nat list" where
  "prefix_fit b [] = []"
| "prefix_fit b (r # rs) = (if length (encode_rune r) \<le> b then r # prefix_fit (b - length (encode_rune r)) rs else [])"

fun suffix_fit :: "nat \<Rightarrow> nat list \<Rightarrow> nat list" where
  "suffix_fit e [] = []"
| "suffix_fit e (r # rs) = (if rune_width (r # rs) \<le> e then r # rs else suffix_fit e rs)"

lemma prefix_fit_prefix: "rs = prefix_fit b rs @ drop (length (prefix_fit b rs)) rs"
  by (induction b rs rule: prefix_fit.induct) auto

lemma prefix_fit_width: "rune_width (prefix_fit b rs) \<le> b"
  by (induction b rs rule: prefix_fit.induct) auto

lemma prefix_fit_all: "rune_width rs \<le> b \<Longrightarrow> prefix_fit b rs = rs"
  by (induction b rs rule: prefix_fit.induct) auto

lemma prefix_fit_longest: "rune_width ps \<le> b \<Longrightarrow> length ps \<le> length (prefix_fit b (ps @ qs))"
  by (induction ps arbitrary: b) auto

lemma suffix_fit_suffix: "rs = take (length rs - length (suffix_fit e rs)) rs @ suffix_fit e rs \<and> length (suffix_fit e rs) \<le> length rs"
  by (induction e rs rule: suffix_fit.induct) (auto simp: Suc_diff_le)

lemma suffix_fit_width: "rune_width (suffix_fit e rs) \<le> e"
  by (induction e rs rule: suffix_fit.induct) auto

lemma suffix_fit_longest: "rune_width qs \<le> e \<Longrightarrow> length qs \<le> length (suffix_fit e (ps @ qs))"
proof (induction ps)
  case Nil
  then show ?case by (cases qs) auto
qed auto

lemma rune_len_encode: "scalar_rune r \<Longrightarrow> rune_len r = int (length (encode_rune r))"
  by (simp add: rune_len_def encode_rune_def scalar_rune_def)

lemma prefix_loop:
  assumes "list_all scalar_rune rs" "int i + int b = beginning" "sc_prefix_end s = int i"
  shows "fold (split_step beginning tail_target) (rune_starts i rs) s =
    fold (split_step beginning tail_target) (rune_starts (i + rune_width (prefix_fit b rs)) (drop (length (prefix_fit b rs)) rs))
      (s\<lparr>sc_prefix_end := int (i + rune_width (prefix_fit b rs))\<rparr>)"
  using assms
proof (induction b rs arbitrary: i s rule: prefix_fit.induct)
  case (1 b)
  then show ?case by simp
next
  case (2 b r rs)
  show ?case
  proof (cases "length (encode_rune r) \<le> b")
    case True
    let ?i = "i + length (encode_rune r)"
    have "split_step beginning tail_target (i, r) s = s\<lparr>sc_prefix_end := int ?i\<rparr>"
      using 2 True by (simp add: split_step_def rune_len_encode)
    then show ?thesis using True "2.prems" "2.IH" [OF True, of ?i "s\<lparr>sc_prefix_end := int ?i\<rparr>"] by (simp add: add.assoc)
  next
    case False
    have "s\<lparr>sc_prefix_end := int i\<rparr> = s" using "2.prems"(3) by (cases s) simp
    then show ?thesis using False by simp
  qed
qed

lemma rest_loop_started:
  assumes "list_all scalar_rune rs" "beginning \<le> int i" "tail_target \<le> int i" "sc_started s"
  shows "fold (split_step beginning tail_target) (rune_starts i rs) s = s"
  using assms
proof (induction rs arbitrary: i)
  case (Cons r rs)
  have "0 < length (encode_rune r)" by simp
  moreover from this have "split_step beginning tail_target (i, r) s = s"
    using Cons.prems by (auto simp: split_step_def rune_len_encode Let_def simp del: length_greater_0_conv)
  ultimately show ?case using Cons.IH [of "i + length (encode_rune r)"] Cons.prems by simp
qed simp


lemma rest_loop:
  assumes "list_all scalar_rune rs" "rs \<noteq> [] \<longrightarrow> beginning < int i + int (length (encode_rune (hd rs)))"
    "tail_target = max 0 (int (i + rune_width rs) - int e)" "\<not> sc_started s"
  shows "fold (split_step beginning tail_target) (rune_starts i rs) s =
    s\<lparr>sc_removed := sc_removed s + (length rs - length (suffix_fit e rs)),
      sc_suffix_start := (if suffix_fit e rs = [] then sc_suffix_start s else int (i + rune_width rs - rune_width (suffix_fit e rs))),
      sc_started := (suffix_fit e rs \<noteq> [])\<rparr>"
  using assms
proof (induction rs arbitrary: i s)
  case Nil
  then show ?case by (cases s) simp
next
  case (Cons r rs)
  let ?i = "i + length (encode_rune r)"
  have after: "beginning < int ?i" using Cons.prems(2) by simp
  show ?case
  proof (cases "rune_width (r # rs) \<le> e")
    case True
    then have "split_step beginning tail_target (i, r) s = s\<lparr>sc_suffix_start := int i, sc_started := True\<rparr>"
      using Cons.prems by (simp add: split_step_def rune_len_encode Let_def)
    moreover have "fold (split_step beginning tail_target) (rune_starts ?i rs) (s\<lparr>sc_suffix_start := int i, sc_started := True\<rparr>) =
        s\<lparr>sc_suffix_start := int i, sc_started := True\<rparr>"
      using Cons.prems True after by (intro rest_loop_started) auto
    ultimately show ?thesis using True by (cases s) simp
  next
    case False
    have len: "length (suffix_fit e rs) \<le> length rs" using suffix_fit_suffix by blast
    have "split_step beginning tail_target (i, r) s = s\<lparr>sc_removed := sc_removed s + 1\<rparr>"
      using Cons.prems False by (simp add: split_step_def rune_len_encode Let_def)
    moreover have "rs \<noteq> [] \<longrightarrow> beginning < int ?i + int (length (encode_rune (hd rs)))" using after by simp
    ultimately show ?thesis
      using Cons.prems False len Cons.IH [of ?i "s\<lparr>sc_removed := sc_removed s + 1\<rparr>"] by (simp add: Suc_diff_le add.assoc)
  qed
qed

lemma string_range_length: "int (length (string_of_runes rs)) = int (rune_width rs)"
  by (simp add: rune_width_def)

lemma take_runes: "take (rune_width ps) (string_of_runes (ps @ qs)) = string_of_runes ps"
  by (simp add: rune_width_def)

lemma drop_runes: "drop (rune_width ps) (string_of_runes (ps @ qs)) = string_of_runes qs"
  by (simp add: rune_width_def)

lemma split_string_scan:
  assumes "s \<noteq> []"
    and "fold (split_step (int b) (max 0 (int (length s) - int e))) (string_range s)
        \<lparr>sc_prefix_end = 0, sc_suffix_start = int (length s), sc_removed = 0, sc_started = False\<rparr> =
      \<lparr>sc_prefix_end = int p, sc_suffix_start = int q, sc_removed = n, sc_started = t\<rparr>"
    and "p \<le> q" "q \<le> length s"
  shows "split_string s (int b) (int e) = Some (n, take p s, drop q s)"
proof -
  have "max 0 (int b) = int b" "max 0 (int e) = int e" "max (int p) (int q) = int q" using assms(3) by simp_all
  then show ?thesis using assms(1,3,4) by (simp only: split_string_def Let_def assms(2)) simp
qed

text \<open>What \<open>SplitString\<close> keeps of a text: the longest prefix of whole runes within the first budget, then the
  longest suffix of the rest within the second; it counts the runes between them.\<close>

lemma split_string_runes:
  fixes e :: nat
  assumes valid: "list_all scalar_rune rs" and b: "b \<le> rune_width rs"
  defines "left \<equiv> prefix_fit b rs"
  defines "rest \<equiv> drop (length left) rs"
  defines "right \<equiv> suffix_fit e rest"
  shows "split_string (string_of_runes rs) (int b) (int e) =
    Some (length rest - length right, string_of_runes left, string_of_runes right)"
proof (cases "rs = []")
  case True
  then show ?thesis by (simp add: split_string_def left_def rest_def right_def)
next
  case False
  let ?s = "string_of_runes rs"
  let ?len = "int (length ?s)"
  let ?tail = "max 0 (?len - int e)"
  define mid where "mid = take (length rest - length right) rest"
  let ?init = "\<lparr>sc_prefix_end = 0, sc_suffix_start = ?len, sc_removed = 0, sc_started = False\<rparr>"
  have rs: "rs = left @ rest" unfolding left_def rest_def by (rule prefix_fit_prefix)
  have rest: "rest = mid @ right" using suffix_fit_suffix unfolding mid_def right_def by blast
  have vrest: "list_all scalar_rune rest" using valid rs by (metis list_all_append)
  have stop: "rest \<noteq> [] \<longrightarrow> int b < int (rune_width left) + int (length (encode_rune (hd rest)))"
  proof
    assume ne: "rest \<noteq> []"
    show "int b < int (rune_width left) + int (length (encode_rune (hd rest)))"
    proof (rule ccontr)
      assume "\<not> ?thesis"
      then have "rune_width (left @ [hd rest]) \<le> b" by simp
      from prefix_fit_longest [OF this, of "tl rest"] have "Suc (length left) \<le> length (prefix_fit b rs)"
        using rs ne by simp
      then show False by (simp add: left_def)
    qed
  qed
  have ne: "?s \<noteq> []" using False by (cases rs) auto
  have sc: "fold (split_step (int b) ?tail) (string_range ?s) ?init =
     \<lparr>sc_prefix_end = int (rune_width left),
      sc_suffix_start = (if right = [] then ?len else int (rune_width left + rune_width rest - rune_width right)),
      sc_removed = length rest - length right, sc_started = (right \<noteq> [])\<rparr>"
  proof -
    have "fold (split_step (int b) ?tail) (string_range ?s) ?init =
        fold (split_step (int b) ?tail) (rune_starts (rune_width left) rest) (?init\<lparr>sc_prefix_end := int (rune_width left)\<rparr>)"
      using prefix_loop [OF valid, of 0 b "int b" ?init ?tail]
      by (simp add: string_range_runes [OF valid] left_def [symmetric] rest_def [symmetric])
    also have "\<dots> = (?init\<lparr>sc_prefix_end := int (rune_width left)\<rparr>)\<lparr>sc_removed := 0 + (length rest - length right),
        sc_suffix_start := (if right = [] then ?len else int (rune_width left + rune_width rest - rune_width right)),
        sc_started := (right \<noteq> [])\<rparr>"
      using rest_loop [OF vrest stop, of ?tail e "?init\<lparr>sc_prefix_end := int (rune_width left)\<rparr>"] rs
      by (simp add: right_def [symmetric] string_range_length)
    finally show ?thesis by simp
  qed
  have left_s: "take (rune_width left) ?s = string_of_runes left" using take_runes rs by metis
  have right_s: "drop (rune_width left + rune_width mid) ?s = string_of_runes right"
    using drop_runes [of "left @ mid" right] rs rest by (metis append.assoc rune_width_simps(3))
  have w: "length ?s = rune_width left + rune_width rest" "rune_width rest = rune_width mid + rune_width right"
    using rs rest by (metis rune_width_def rune_width_simps(3))+
  have start: "(if right = [] then ?len else int (rune_width left + rune_width rest - rune_width right)) =
      int (rune_width left + rune_width mid)"
    using w by (cases "right = []") simp_all
  from sc have "fold (split_step (int b) ?tail) (string_range ?s) ?init =
     \<lparr>sc_prefix_end = int (rune_width left), sc_suffix_start = int (rune_width left + rune_width mid),
      sc_removed = length rest - length right, sc_started = (right \<noteq> [])\<rparr>"
    by (simp only: start)
  from split_string_scan [OF ne this] w(1) w(2) show ?thesis by (simp add: left_s right_s)
qed


text \<open>The budget of a cut is spread over both ends.\<close>

definition kept_ends :: "nat \<Rightarrow> nat list \<Rightarrow> nat list \<times> nat \<times> nat list" where
  "kept_ends budget rs =
     (let p = prefix_fit (budget div 2) rs;
          rest = drop (length p) rs;
          q = suffix_fit (budget - budget div 2) rest
      in (p, length rest - length q, q))"

lemma kept_endsD:
  "kept_ends budget rs = (p, n, q) \<Longrightarrow> p = prefix_fit (budget div 2) rs \<and>
     q = suffix_fit (budget - budget div 2) (drop (length p) rs) \<and> n = length (drop (length p) rs) - length q"
  by (auto simp: kept_ends_def Let_def)

text \<open>What is kept fits the budget, and the text is its two ends with the counted runes between them.\<close>

lemma kept_ends_spec:
  assumes "kept_ends budget rs = (p, n, q)"
  shows "rune_width p + rune_width q \<le> budget" "rs = p @ take n (drop (length p) rs) @ q"
proof -
  define rest where "rest = drop (length p) rs"
  have p: "p = prefix_fit (budget div 2) rs" and q: "q = suffix_fit (budget - budget div 2) rest"
    and n: "n = length rest - length q"
    using kept_endsD [OF assms] by (simp_all add: rest_def)
  have "rune_width p \<le> budget div 2" "rune_width q \<le> budget - budget div 2"
    unfolding p q by (rule prefix_fit_width, rule suffix_fit_width)
  then show "rune_width p + rune_width q \<le> budget" by linarith
  have "rest = take n rest @ q" unfolding n q using suffix_fit_suffix by blast
  moreover have "rs = p @ rest" unfolding rest_def p by (rule prefix_fit_prefix)
  ultimately show "rs = p @ take n (drop (length p) rs) @ q" unfolding rest_def by metis
qed

lemma split_budget_nat: "split_budget (int b) = (int (b div 2), int (b - b div 2))"
  by (auto simp: split_budget_def zdiv_int of_nat_diff)

lemma truncate_middle_chars_runes:
  assumes "list_all scalar_rune rs" "b < rune_width rs" "kept_ends b rs = (p, n, q)"
  shows "truncate_middle_chars (string_of_runes rs) (int b) =
    Some (string_of_runes p @ format_truncation_marker False n @ string_of_runes q)"
proof -
  have "b div 2 \<le> rune_width rs" using assms(2) by linarith
  from split_string_runes [OF assms(1) this, of "b - b div 2"] assms(2) kept_endsD [OF assms(3)]
  show ?thesis by (simp add: truncate_middle_chars_def split_budget_nat string_range_length)
qed

subsection \<open>Boundaries found from the middle\<close>

lemma encode_rune_starts: "\<not> cont_byte (hd (encode_rune r))"
  by (auto simp: encode_rune_def cont_byte_def)

lemma encode_rune_continues: "list_all cont_byte (tl (encode_rune r))"
  by (auto simp: encode_rune_def cont_byte_def)

lemma enc_chars: "map of_char (map char_of (encode_rune r) :: bytes) = encode_rune r"
  by (rule chars_of_bytes) (rule encode_rune_byte)

lemma enc_start: "rune_start ((map char_of (encode_rune r) :: bytes) ! 0)"
proof -
  have "of_char ((map char_of (encode_rune r) :: bytes) ! 0) = encode_rune r ! 0"
    using enc_chars [of r] by (metis encode_rune_nonempty length_greater_0_conv length_map nth_map)
  then show ?thesis using encode_rune_starts [of r] by (simp add: rune_start_def hd_conv_nth)
qed

lemma enc_continue:
  assumes "0 < k" "k < length (encode_rune r)"
  shows "\<not> rune_start ((map char_of (encode_rune r) :: bytes) ! k)"
proof -
  have "of_char ((map char_of (encode_rune r) :: bytes) ! k) = encode_rune r ! k"
    using enc_chars [of r] assms by (metis length_map nth_map)
  moreover have "cont_byte (encode_rune r ! k)"
    using encode_rune_continues [of r] assms by (simp add: list_all_length nth_tl) (metis Suc_pred diff_less_mono less_eq_Suc_le nth_tl One_nat_def)
  ultimately show ?thesis by (simp add: rune_start_def)
qed

lemma floor_scan_unique:
  assumes "j \<le> i" "j = 0 \<or> rune_start (s ! j)" "\<And>k. j < k \<Longrightarrow> k \<le> i \<Longrightarrow> \<not> rune_start (s ! k)"
  shows "floor_scan s i = j"
  using assms
proof (induction i)
  case (Suc i)
  show ?case
  proof (cases "j = Suc i")
    case True
    then show ?thesis using Suc.prems by auto
  next
    case False
    then have "j \<le> i" using Suc.prems(1) by simp
    moreover have "\<not> rune_start (s ! Suc i)" using Suc.prems(1,3) False by auto
    ultimately show ?thesis using Suc by simp
  qed
qed simp

lemma floor_runes:
  assumes "b < rune_width rs"
  shows "floor_char_boundary (string_of_runes rs) (int b) = int (rune_width (prefix_fit b rs))"
proof (cases "b = 0")
  case True
  then show ?thesis using prefix_fit_width [of 0 rs] by (simp add: floor_char_boundary_def)
next
  case False
  let ?p = "prefix_fit b rs"
  obtain r qs where rs: "rs = ?p @ r # qs"
    using prefix_fit_prefix [of rs b] prefix_fit_width [of b rs] assms
    by (cases "drop (length ?p) rs") (auto dest: arg_cong [where f = rune_width])
  have next_rune: "b < rune_width ?p + length (encode_rune r)"
  proof (rule ccontr)
    assume "\<not> ?thesis"
    then have "rune_width (?p @ [r]) \<le> b" by simp
    from prefix_fit_longest [OF this, of qs] have "Suc (length ?p) \<le> length (prefix_fit b (?p @ r # qs))" by simp
    then show False using rs by (metis Suc_n_not_le_n)
  qed
  have nth: "string_of_runes rs ! (rune_width ?p + k) = (map char_of (encode_rune r) :: bytes) ! k"
    if "k < length (encode_rune r)" for k
    by (subst rs) (use that in \<open>simp add: rune_width_def nth_append\<close>)
  have "floor_scan (string_of_runes rs) b = rune_width ?p"
  proof (rule floor_scan_unique)
    show "rune_width ?p \<le> b" by (rule prefix_fit_width)
    show "rune_width ?p = 0 \<or> rune_start (string_of_runes rs ! rune_width ?p)"
      using nth [of 0] enc_start [of r] by simp
    fix k assume k: "rune_width ?p < k" "k \<le> b"
    then have "0 < k - rune_width ?p" "k - rune_width ?p < length (encode_rune r)" using next_rune by linarith+
    then show "\<not> rune_start (string_of_runes rs ! k)"
      using nth [of "k - rune_width ?p"] enc_continue k(1) by simp
  qed
  then show ?thesis using False assms by (simp add: floor_char_boundary_def rune_width_def)
qed


lemma suffix_fit_split:
  "e < rune_width rs \<Longrightarrow> \<exists>ms r. rs = ms @ r # suffix_fit e rs \<and> e < rune_width (r # suffix_fit e rs)"
proof (induction e rs rule: suffix_fit.induct)
  case (2 e r rs)
  show ?case
  proof (cases "rune_width rs \<le> e")
    case True
    then have "suffix_fit e rs = rs" by (cases rs) auto
    then show ?thesis using 2 by (intro exI [of _ "[]"] exI [of _ r]) simp
  next
    case False
    then obtain ms r' where m: "rs = ms @ r' # suffix_fit e rs" "e < rune_width (r' # suffix_fit e rs)"
      using 2 by fastforce
    have "suffix_fit e (r # rs) = suffix_fit e rs" using False by simp
    with m show ?thesis by (metis append_Cons)
  qed
qed simp

lemma suffix_fit_append: "e \<le> rune_width qs \<Longrightarrow> suffix_fit e (ps @ qs) = suffix_fit e qs"
proof (induction ps)
  case (Cons r ps)
  have "0 < length (encode_rune r)" by simp
  then have "\<not> rune_width (r # ps @ qs) \<le> e" using Cons.prems by (simp del: length_greater_0_conv)
  then show ?case using Cons by simp
qed simp

lemma takeWhile_inside_rune:
  assumes "0 < k"
  shows "takeWhile (\<lambda>c. \<not> rune_start c) (drop k (map char_of (encode_rune r)) @ string_of_runes qs) =
    (drop k (map char_of (encode_rune r)) :: bytes)"
proof -
  have inner: "list_all (\<lambda>c. \<not> rune_start c) (drop k (map char_of (encode_rune r)) :: bytes)"
    using enc_continue [of _ r] assms by (auto simp: list_all_length)
  have outer: "takeWhile (\<lambda>c. \<not> rune_start c) (string_of_runes qs) = []"
  proof (cases qs)
    case (Cons q qs')
    have "rune_start (hd (string_of_runes qs))" using enc_start [of q] Cons by (simp add: hd_append hd_conv_nth)
    moreover have "string_of_runes qs \<noteq> []" using Cons by simp
    ultimately show ?thesis by (cases "string_of_runes qs") auto
  qed simp
  show ?thesis using inner outer by (simp add: takeWhile_append list_all_iff)
qed

lemma ceil_runes:
  assumes "e < rune_width rs"
  shows "ceil_char_boundary (string_of_runes rs) (int (rune_width rs) - int e) = int (rune_width rs - rune_width (suffix_fit e rs))"
proof (cases "e = 0")
  case True
  then show ?thesis using assms suffix_fit_width [of 0 rs] by (simp add: ceil_char_boundary_def string_range_length)
next
  case False
  let ?q = "suffix_fit e rs"
  let ?i = "rune_width rs - e"
  obtain ms r where rs: "rs = ms @ r # ?q" and big: "e < rune_width (r # ?q)"
    using suffix_fit_split [OF assms] by blast
  have w: "rune_width rs = rune_width ms + length (encode_rune r) + rune_width ?q" by (subst rs) simp
  have small: "rune_width ?q \<le> e" by (rule suffix_fit_width)
  define k where "k = ?i - rune_width ms"
  have k: "0 < k" "?i = rune_width ms + k" "k \<le> length (encode_rune r)" using w big small assms by (auto simp: k_def)
  have "drop ?i (string_of_runes rs) = drop k (map char_of (encode_rune r)) @ string_of_runes ?q"
    unfolding k(2) by (subst rs) (use k(3) in \<open>simp add: rune_width_def drop_append\<close>)
  then have "takeWhile (\<lambda>c. \<not> rune_start c) (drop ?i (string_of_runes rs)) = drop k (map char_of (encode_rune r))"
    using takeWhile_inside_rune [OF k(1)] by simp
  moreover have "nat (int (rune_width rs) - int e) = ?i" using assms by simp
  ultimately have "ceil_char_boundary (string_of_runes rs) (int (rune_width rs) - int e) = int (?i + (length (encode_rune r) - k))"
    using False assms by (simp add: ceil_char_boundary_def string_range_length)
  also have "?i + (length (encode_rune r) - k) = rune_width rs - rune_width ?q" using k w by linarith
  finally show ?thesis .
qed

lemma wrap_int_id: "- (2 ^ 63) \<le> i \<Longrightarrow> i < 2 ^ 63 \<Longrightarrow> wrap_int i = i"
  by (simp add: wrap_int_def mod_pos_pos_trivial)

lemma drop_suffix_runes: "rs = ms @ q \<Longrightarrow> drop (rune_width rs - rune_width q) (string_of_runes rs) = string_of_runes q"
  by (simp add: rune_width_def)

lemma truncate_tokens_runes:
  assumes "4 * t < rune_width rs" "rune_width rs < 2 ^ 63" "kept_ends (4 * t) rs = (p, n, q)"
  shows "truncate_text_with_plan (string_of_runes rs) \<lparr>tp_mode = PolicyTokens, tp_limit = int t\<rparr> =
    Some (string_of_runes p @ format_truncation_marker True ((rune_width rs - 4 * t + 3) div 4) @ string_of_runes q,
      Some \<lparr>tt_removed_start = int (rune_width p), tt_removed_end = int (rune_width rs - rune_width q),
        tt_marker = format_truncation_marker True ((rune_width rs - 4 * t + 3) div 4)\<rparr>)"
proof -
  let ?b = "4 * t"
  have p: "p = prefix_fit (?b div 2) rs" and q: "q = suffix_fit (?b - ?b div 2) (drop (length p) rs)"
    using kept_endsD [OF assms(3)] by simp_all
  have rs: "rs = p @ drop (length p) rs" unfolding p by (rule prefix_fit_prefix)
  have wp: "rune_width p \<le> ?b div 2" unfolding p by (rule prefix_fit_width)
  have "rune_width rs = rune_width p + rune_width (drop (length p) rs)" by (subst rs) simp
  then have "?b - ?b div 2 \<le> rune_width (drop (length p) rs)" using wp assms(1) by linarith
  from suffix_fit_append [OF this, of p] have q': "q = suffix_fit (?b - ?b div 2) rs" using rs q by simp
  have wq: "rune_width q \<le> ?b - ?b div 2" unfolding q' by (rule suffix_fit_width)
  have bytes: "approx_bytes_for_tokens (int t) = int ?b"
    using assms(1,2) by (simp add: approx_bytes_for_tokens_def wrap_int_id)
  have start: "floor_char_boundary (string_of_runes rs) (int (?b div 2)) = int (rune_width p)"
    unfolding p by (rule floor_runes) (use assms(1) in linarith)
  have stop: "ceil_char_boundary (string_of_runes rs) (int (rune_width rs) - int (?b - ?b div 2)) = int (rune_width rs - rune_width q)"
    unfolding q' by (rule ceil_runes) (use assms(1) in linarith)
  have marker: "approx_tokens_from_byte_count (wrap_int (int (rune_width rs) - int ?b)) = (rune_width rs - ?b + 3) div 4"
    using assms(1,2) by (simp add: approx_tokens_from_byte_count_def wrap_int_id nat_div_distrib of_nat_diff [symmetric] del: of_nat_diff)
  have plan: "plan_token_truncation (string_of_runes rs) (int t) =
      Some \<lparr>tt_removed_start = int (rune_width p), tt_removed_end = int (rune_width rs - rune_width q),
        tt_marker = format_truncation_marker True ((rune_width rs - ?b + 3) div 4)\<rparr>"
    using assms(1) by (simp only: plan_token_truncation_def Let_def bytes split_budget_nat string_range_length
        prod.case start stop marker of_nat_le_iff) simp
  have left: "take (rune_width p) (string_of_runes rs) = string_of_runes p"
    using take_runes rs by metis
  have right: "drop (rune_width rs - rune_width q) (string_of_runes rs) = string_of_runes q"
  proof (rule drop_suffix_runes)
    show "rs = take (length rs - length q) rs @ q" unfolding q' using suffix_fit_suffix by blast
  qed
  have order: "rune_width p \<le> rune_width rs - rune_width q" using wp wq assms(1) by linarith
  have "min (int (rune_width rs)) (max 0 (int (rune_width p))) = int (rune_width p)"
    "min (int (rune_width rs)) (max (int (rune_width p)) (int (rune_width rs - rune_width q))) = int (rune_width rs - rune_width q)"
    using order by linarith+
  then show ?thesis
    by (simp add: truncate_text_with_plan_def plan apply_truncation_def Let_def string_range_length left right del: of_nat_diff)
qed




section \<open>Any bytes\<close>

lemma range_from_bounds: "(j, r) \<in> set (range_from i bs) \<Longrightarrow> i \<le> j \<and> j < i + length bs"
proof (induction i bs rule: range_from.induct)
  case (1 i bs)
  let ?w = "snd (decode_rune bs)"
  have ne: "bs \<noteq> []" using "1.prems" by (auto simp: range_from.simps [of i bs])
  consider "j = i" | "(j, r) \<in> set (range_from (i + ?w) (drop ?w bs))"
    using "1.prems" ne by (auto simp: range_from.simps [of i bs])
  then show ?case
  proof cases
    case 1
    then show ?thesis using ne by simp
  next
    case 2
    then have "i + ?w \<le> j" "j < i + ?w + (length bs - ?w)" using "1.IH" [OF ne] by simp_all
    then show ?thesis by linarith
  qed
qed

definition scan_ok :: "int \<Rightarrow> int \<Rightarrow> int \<Rightarrow> split_scan \<Rightarrow> bool" where
  "scan_ok beginning tail_target len s \<longleftrightarrow>
     0 \<le> sc_prefix_end s \<and> sc_prefix_end s \<le> beginning \<and> tail_target \<le> sc_suffix_start s \<and> sc_suffix_start s \<le> len"

lemma split_step_ok:
  "scan_ok beginning tail_target len s \<Longrightarrow> int (fst x) < len \<Longrightarrow> scan_ok beginning tail_target len (split_step beginning tail_target x s)"
  by (cases x) (auto simp: scan_ok_def split_step_def Let_def rune_len_def)

lemma split_fold_ok:
  "scan_ok beginning tail_target len s \<Longrightarrow> (\<And>x. x \<in> set xs \<Longrightarrow> int (fst x) < len) \<Longrightarrow>
   scan_ok beginning tail_target len (fold (split_step beginning tail_target) xs s)"
  by (induction xs arbitrary: s) (simp_all add: split_step_ok)

lemma split_string_within:
  assumes "0 \<le> b" "b \<le> int (length s)" "0 \<le> e"
  shows "\<exists>n l r. split_string s b e = Some (n, take l s, drop r s) \<and> l \<le> r \<and> r \<le> length s \<and>
    int l \<le> b \<and> int (length s) - int r \<le> e"
proof (cases "s = []")
  case True
  then show ?thesis using assms by (auto simp: split_string_def)
next
  case False
  let ?len = "int (length s)"
  let ?tail = "max 0 (?len - e)"
  define sc where "sc = fold (split_step b ?tail) (string_range s) \<lparr>sc_prefix_end = 0, sc_suffix_start = ?len, sc_removed = 0, sc_started = False\<rparr>"
  have "scan_ok b ?tail ?len sc" unfolding sc_def
  proof (rule split_fold_ok)
    show "scan_ok b ?tail ?len \<lparr>sc_prefix_end = 0, sc_suffix_start = ?len, sc_removed = 0, sc_started = False\<rparr>"
      using assms by (simp add: scan_ok_def)
    show "int (fst x) < ?len" if "x \<in> set (string_range s)" for x
      using that range_from_bounds [of "fst x" "snd x" 0 "map of_char s"] by (simp add: string_range_def)
  qed
  then have ok: "0 \<le> sc_prefix_end sc" "sc_prefix_end sc \<le> b" "?tail \<le> sc_suffix_start sc" "sc_suffix_start sc \<le> ?len"
    by (simp_all add: scan_ok_def)
  define l where "l = nat (sc_prefix_end sc)"
  define r where "r = nat (max (sc_prefix_end sc) (sc_suffix_start sc))"
  have "max 0 b = b" "max 0 e = e" using assms by simp_all
  then have "split_string s b e = Some (sc_removed sc, take l s, drop r s)"
    using False ok assms by (simp add: split_string_def Let_def sc_def [symmetric] l_def r_def)
  moreover have "l \<le> r" "r \<le> length s" "int l \<le> b" "int (length s) - int r \<le> e"
    using ok assms unfolding l_def r_def by linarith+
  ultimately show ?thesis by blast
qed

text \<open>Cutting never panics, whatever bytes the text has, valid UTF-8 or not, and whatever the limit: a text within
  the limit is unchanged, any other keeps two ends that together are within it.\<close>

theorem truncation_never_panics:
  "case truncate_middle_chars s limit of
     None \<Rightarrow> False
   | Some t \<Rightarrow>
       if int (length s) \<le> limit then t = s
       else \<exists>l n r. t = take l s @ format_truncation_marker False n @ drop r s \<and> l \<le> r \<and> r \<le> length s \<and>
         int l + (int (length s) - int r) \<le> max 0 limit"
proof (cases "int (length s) \<le> limit")
  case True
  then show ?thesis by (simp add: truncate_middle_chars_def)
next
  case False
  obtain b e where be: "split_budget limit = (b, e)" by fastforce
  have bounds: "0 \<le> b" "b \<le> int (length s)" "0 \<le> e" "b + e \<le> max 0 limit"
    using be False by (auto simp: split_budget_def split: if_splits)
  from split_string_within [OF bounds(1-3)] obtain n l r where
    cut: "split_string s b e = Some (n, take l s, drop r s)" "l \<le> r" "r \<le> length s" "int l \<le> b" "int (length s) - int r \<le> e"
    by blast
  then have "int l + (int (length s) - int r) \<le> max 0 limit" using bounds(4) by linarith
  then show ?thesis using False cut(1-3) by (simp add: truncate_middle_chars_def be) blast
qed

text \<open>Called with a first budget beyond the string, \<open>SplitString\<close> panics on a byte that is no UTF-8: the rune U+FFFD
  it stands for is three bytes long.\<close>

lemma split_string_panic: "split_string [CHR 0xFF] 3 0 = None"
proof -
  have "decode_rune [0xFF] = (rune_error, 1)" by (simp add: decode_rune_def)
  then have "string_range [CHR 0xFF] = [(0, rune_error)]"
    by (simp add: string_range_def range_from.simps [of 0 "[0xFF]"] range_from.simps [of _ "[]"])
  then show ?thesis by (simp add: split_string_def split_step_def rune_len_def rune_error_def)
qed

text \<open>A token limit of \<open>2 ^ 61\<close>, meant to keep everything, removes everything: its product by four wraps.\<close>

theorem huge_token_limit_erases:
  "if s = [] \<or> 2 ^ 62 \<le> length s then True
   else truncate_text s \<lparr>tp_mode = PolicyTokens, tp_limit = 2 ^ 61\<rparr> = Some (format_truncation_marker True 0)"
proof (cases "s = [] \<or> 2 ^ 62 \<le> length s")
  case False
  then have len: "0 < int (length s)" "int (length s) < 2 ^ 62" by auto
  have bytes: "approx_bytes_for_tokens (2 ^ 61) = - (2 ^ 63)" by (simp add: approx_bytes_for_tokens_def wrap_int_def)
  have "wrap_int (int (length s) - - (2 ^ 63)) = int (length s) - 2 ^ 63"
    using len by (simp add: wrap_int_def mod_pos_pos_trivial)
  then have none: "approx_tokens_from_byte_count (wrap_int (int (length s) - - (2 ^ 63))) = 0"
    using len by (simp add: approx_tokens_from_byte_count_def)
  have "plan_token_truncation s (2 ^ 61) =
      Some \<lparr>tt_removed_start = 0, tt_removed_end = int (length s), tt_marker = format_truncation_marker True 0\<rparr>"
    using len by (simp only: plan_token_truncation_def bytes Let_def none)
      (simp add: split_budget_def floor_char_boundary_def ceil_char_boundary_def)
  then show ?thesis by (simp add: truncate_text_def truncate_text_with_plan_def apply_truncation_def Let_def)
qed simp

end
