(* ===== verification/Output_Items.thy ===== *)
theory Output_Items
  imports Output_Truncation
begin

text \<open>
  Cutting the content items of a tool's output, the second half of \<open>utils/outputtrunc.go\<close>: text and audio are
  charged to one budget in order, images and encrypted content are kept, and the positions a caller holds into
  the output are moved to where the text they point at went.
\<close>

section \<open>Items and positions\<close>

datatype content_kind = InputText | InputImage | InputAudio | EncryptedContent | OtherContent bytes

record content_item =
  ci_kind :: content_kind
  ci_text :: bytes
  ci_image_url :: bytes
  ci_file_id :: bytes
  ci_detail :: "bytes option"
  ci_audio_url :: bytes
  ci_encrypted :: bytes

record output_boundary =
  ob_item :: int
  ob_offset :: int

definition text_item :: "bytes \<Rightarrow> content_item" where
  "text_item t = \<lparr>ci_kind = InputText, ci_text = t, ci_image_url = [], ci_file_id = [], ci_detail = None,
     ci_audio_url = [], ci_encrypted = []\<rparr>"

definition rendered_offset :: "text_truncation \<Rightarrow> int \<Rightarrow> int \<Rightarrow> int" where
  "rendered_offset edit boundary header_bytes =
     (if boundary = 0 then 0
      else if boundary \<le> tt_removed_start edit then header_bytes + boundary
      else header_bytes + tt_removed_start edit + int (length (tt_marker edit)) +
        (if tt_removed_end edit < boundary then boundary - tt_removed_end edit else 0))"

text \<open>One step of \<open>normalizeBoundaries\<close>; the state is the last position.\<close>

definition normalize_boundary :: "content_item list \<Rightarrow> output_boundary \<Rightarrow> output_boundary \<Rightarrow> output_boundary" where
  "normalize_boundary items previous b =
     (let item_index = min (int (length items)) (max 0 (ob_item b));
          text_offset =
            (if item_index < int (length items) \<and> ci_kind (items ! nat item_index) = InputText
             then floor_char_boundary (ci_text (items ! nat item_index)) (max 0 (ob_offset b)) else 0)
      in if ob_item previous < item_index \<or> (item_index = ob_item previous \<and> ob_offset previous < text_offset)
         then \<lparr>ob_item = item_index, ob_offset = text_offset\<rparr> else previous)"

fun normalize_from :: "content_item list \<Rightarrow> output_boundary \<Rightarrow> output_boundary list \<Rightarrow> output_boundary list" where
  "normalize_from items previous [] = []"
| "normalize_from items previous (b # bs) =
     normalize_boundary items previous b # normalize_from items (normalize_boundary items previous b) bs"

definition normalize_boundaries :: "content_item list \<Rightarrow> output_boundary list \<Rightarrow> output_boundary list" where
  "normalize_boundaries items bs = normalize_from items \<lparr>ob_item = 0, ob_offset = 0\<rparr> bs"

section \<open>Items charged in order\<close>

record item_scan =
  is_out :: "content_item list"
  is_remaining :: int
  is_omitted_text :: nat
  is_omitted_audio :: nat
  is_moved :: "output_boundary list"
  is_pending :: "output_boundary list"

text \<open>What becomes of one item: the items appended, the edit of its text, whether it is kept, the budget left and
  the omitted texts and audios; \<open>None\<close> is a panic while cutting.\<close>

definition charge_item ::
  "policy_mode \<Rightarrow> (bytes \<Rightarrow> int) option \<Rightarrow> int \<Rightarrow> content_item \<Rightarrow>
   (content_item list \<times> text_truncation option \<times> bool \<times> int \<times> nat \<times> nat) option" where
  "charge_item mode estimate remaining item = (case ci_kind item of
     InputText \<Rightarrow>
       if ci_text item = [] then Some ([], None, False, remaining, 0, 0)
       else if remaining = 0 then Some ([], None, False, remaining, 1, 0)
       else let cost = (if mode = PolicyTokens then approx_token_count (ci_text item) else int (length (ci_text item)))
         in if cost \<le> remaining then Some ([], None, True, remaining - cost, 0, 0)
            else (case truncate_text_with_plan (ci_text item) \<lparr>tp_mode = mode, tp_limit = remaining\<rparr> of
                None \<Rightarrow> None
              | Some (snippet, edit) \<Rightarrow>
                  if snippet = [] then Some ([], edit, False, 0, 1, 0)
                  else Some ([item\<lparr>ci_text := snippet\<rparr>], edit, False, 0, 0, 0))
   | InputImage \<Rightarrow> Some ([], None, True, remaining, 0, 0)
   | EncryptedContent \<Rightarrow> Some ([], None, True, remaining, 0, 0)
   | InputAudio \<Rightarrow>
       let tokens = (case estimate of None \<Rightarrow> 0 | Some f \<Rightarrow> f (ci_audio_url item));
           cost = (if mode = PolicyBytes then approx_bytes_for_tokens tokens else tokens)
       in if cost \<le> remaining then Some ([], None, True, remaining - cost, 0, 0)
          else Some ([], None, False, remaining, 0, 1)
   | OtherContent k \<Rightarrow> Some ([], None, False, remaining, 0, 0))"

text \<open>A boundary of the item is moved to the item's place in the output.\<close>

definition move_boundary :: "nat \<Rightarrow> text_truncation option \<Rightarrow> bool \<Rightarrow> output_boundary \<Rightarrow> output_boundary" where
  "move_boundary item_out edit keep b = \<lparr>ob_item = int item_out,
     ob_offset = (case edit of Some e \<Rightarrow> rendered_offset e (ob_offset b) 0 | None \<Rightarrow> if keep then ob_offset b else 0)\<rparr>"

fun truncate_loop ::
  "policy_mode \<Rightarrow> (bytes \<Rightarrow> int) option \<Rightarrow> int \<Rightarrow> content_item list \<Rightarrow> item_scan \<Rightarrow> item_scan option" where
  "truncate_loop mode estimate i [] s = Some s"
| "truncate_loop mode estimate i (item # items) s = (case charge_item mode estimate (is_remaining s) item of
     None \<Rightarrow> None
   | Some (new, edit, keep, remaining, texts, audios) \<Rightarrow>
       let here = takeWhile (\<lambda>b. ob_item b = i) (is_pending s) in
       truncate_loop mode estimate (i + 1) items
         \<lparr>is_out = is_out s @ new @ (if keep then [item] else []),
          is_remaining = remaining,
          is_omitted_text = is_omitted_text s + texts,
          is_omitted_audio = is_omitted_audio s + audios,
          is_moved = is_moved s @ map (move_boundary (length (is_out s)) edit keep) here,
          is_pending = drop (length here) (is_pending s)\<rparr>)"

definition omission_notices :: "nat \<Rightarrow> nat \<Rightarrow> content_item list" where
  "omission_notices texts audios =
     (if 0 < texts then [text_item (''[omitted '' @ dec_nat texts @ '' text items ...]'')] else []) @
     (if 0 < audios then [text_item (''[omitted '' @ dec_nat audios @ '' audio items ...]'')] else [])"

definition truncate_output_items ::
  "content_item list \<Rightarrow> truncation_policy \<Rightarrow> (bytes \<Rightarrow> int) option \<Rightarrow> output_boundary list \<Rightarrow>
   (content_item list \<times> output_boundary list) option" where
  "truncate_output_items items p estimate boundaries =
     (let budget = (if tp_mode p = PolicyTokens then token_budget p else byte_budget p) in
      map_option (\<lambda>s. (is_out s @ omission_notices (is_omitted_text s) (is_omitted_audio s),
          is_moved s @ map (\<lambda>b. \<lparr>ob_item = int (length (is_out s)), ob_offset = 0\<rparr>) (is_pending s)))
        (truncate_loop (tp_mode p) estimate 0 items
           \<lparr>is_out = [], is_remaining = budget, is_omitted_text = 0, is_omitted_audio = 0,
            is_moved = [], is_pending = boundaries\<rparr>))"

section \<open>Whole observations\<close>

definition truncation_header :: "bytes \<Rightarrow> bytes" where
  "truncation_header content =
     ''Warning: truncated output (original token count: '' @ dec_int (approx_token_count content) @ '')'' @ [LF] @
     ''Total output lines: '' @ dec_nat (count_lines content) @ [LF, LF]"

definition format_truncated_text ::
  "bytes \<Rightarrow> truncation_policy \<Rightarrow> output_boundary list \<Rightarrow> (bytes \<times> output_boundary list) option" where
  "format_truncated_text content p boundaries = (case truncate_text_with_plan content p of
     None \<Rightarrow> None
   | Some (snippet, edit) \<Rightarrow> Some (truncation_header content @ snippet,
       (case edit of None \<Rightarrow> boundaries
        | Some e \<Rightarrow> map (\<lambda>b. b\<lparr>ob_offset := rendered_offset e (ob_offset b) (int (length (truncation_header content)))\<rparr>) boundaries)))"

definition formatted_truncate_text :: "bytes \<Rightarrow> truncation_policy \<Rightarrow> bytes option" where
  "formatted_truncate_text content p =
     (if int (length content) \<le> byte_budget p then Some content else map_option fst (format_truncated_text content p []))"

text \<open>The texts joined by line feeds, no line feed while the result is still empty.\<close>

definition combined_length :: "content_item list \<Rightarrow> int" where
  "combined_length items = fold (\<lambda>item n. (if n \<noteq> 0 then n + 1 else n) + int (length (ci_text item))) items 0"

fun combine_loop ::
  "int \<Rightarrow> content_item list \<Rightarrow> bytes \<Rightarrow> output_boundary list \<Rightarrow> output_boundary list \<Rightarrow> bytes \<times> output_boundary list" where
  "combine_loop i [] combined moved pending =
     (combined, moved @ map (\<lambda>b. \<lparr>ob_item = 0, ob_offset = int (length combined)\<rparr>) pending)"
| "combine_loop i (item # items) combined moved pending =
     (let c = (if combined \<noteq> [] then combined @ [LF] else combined);
          here = takeWhile (\<lambda>b. ob_item b = i) pending
      in combine_loop (i + 1) items (c @ ci_text item)
           (moved @ map (\<lambda>b. \<lparr>ob_item = 0, ob_offset = ob_offset b + int (length c)\<rparr>) here)
           (drop (length here) pending))"

definition formatted_output ::
  "content_item list \<Rightarrow> truncation_policy \<Rightarrow> (bytes \<Rightarrow> int) option \<Rightarrow> output_boundary list \<Rightarrow>
   (content_item list \<times> output_boundary list) option" where
  "formatted_output items p estimate boundaries =
     (if list_ex (\<lambda>item. ci_kind item \<noteq> InputText) items then truncate_output_items items p estimate boundaries
      else if combined_length items \<le> byte_budget p then Some (items, boundaries)
      else case combine_loop 0 items [] [] boundaries of (combined, bs) \<Rightarrow>
        map_option (\<lambda>(text, bs'). ([text_item text], bs')) (format_truncated_text combined p bs))"

definition formatted_output_at_token_boundaries ::
  "content_item list \<Rightarrow> int \<Rightarrow> (bytes \<Rightarrow> int) option \<Rightarrow> output_boundary list \<Rightarrow>
   (content_item list \<times> output_boundary list) option" where
  "formatted_output_at_token_boundaries items max_tokens estimate boundaries =
     formatted_output items \<lparr>tp_mode = PolicyTokens, tp_limit = max_tokens\<rparr> estimate (normalize_boundaries items boundaries)"

definition mixed_output_at_token_boundaries ::
  "content_item list \<Rightarrow> int \<Rightarrow> (bytes \<Rightarrow> int) option \<Rightarrow> output_boundary list \<Rightarrow>
   (content_item list \<times> output_boundary list) option" where
  "mixed_output_at_token_boundaries items max_tokens estimate boundaries =
     truncate_output_items items \<lparr>tp_mode = PolicyTokens, tp_limit = max_tokens\<rparr> estimate (normalize_boundaries items boundaries)"


section \<open>Nothing fails, and media stays\<close>

lemma plan_bounds:
  assumes "plan_token_truncation s t = Some e"
  shows "0 \<le> tt_removed_start e" "tt_removed_start e \<le> tt_removed_end e" "tt_removed_end e \<le> int (length s)"
proof -
  obtain l r where lr: "split_budget (approx_bytes_for_tokens t) = (l, r)" by fastforce
  have b: "\<not> int (length s) \<le> approx_bytes_for_tokens t" using assms by (auto simp: plan_token_truncation_def Let_def)
  have e: "tt_removed_start e = floor_char_boundary s l" "tt_removed_end e = ceil_char_boundary s (int (length s) - r)"
    using assms b by (auto simp: plan_token_truncation_def Let_def lr)
  have lr': "0 \<le> l" "0 \<le> r" "l \<le> int (length s) - r"
    using lr b by (auto simp: split_budget_def split: if_splits)
  have scan: "floor_scan s i \<le> i" for i by (induction i) auto
  have "floor_char_boundary s l \<le> l" using scan [of "nat l"] lr' by (auto simp: floor_char_boundary_def)
  moreover have "0 \<le> floor_char_boundary s l" by (simp add: floor_char_boundary_def)
  moreover have "int (length s) - r \<le> ceil_char_boundary s (int (length s) - r)"
    using lr' by (auto simp: ceil_char_boundary_def)
  moreover have "ceil_char_boundary s i \<le> int (length s)" for i
    using length_takeWhile_le [of "\<lambda>c. \<not> rune_start c" "drop (nat i) s"] by (auto simp: ceil_char_boundary_def)
  ultimately show "0 \<le> tt_removed_start e" "tt_removed_start e \<le> tt_removed_end e" "tt_removed_end e \<le> int (length s)"
    using lr' by (auto simp: e)
qed

lemma split_budget_bounds: "int (length s) > limit \<Longrightarrow> split_budget limit = (b, e) \<Longrightarrow> 0 \<le> b \<and> b \<le> int (length s) \<and> 0 \<le> e"
  by (auto simp: split_budget_def split: if_splits)

lemma truncate_middle_chars_total: "truncate_middle_chars s limit \<noteq> None"
proof (cases "int (length s) \<le> limit")
  case False
  obtain b e where be: "split_budget limit = (b, e)" by fastforce
  from split_string_within [of b s e] split_budget_bounds [OF _ be, of s] False
  show ?thesis by (auto simp: truncate_middle_chars_def be)
qed (simp add: truncate_middle_chars_def)

lemma truncate_text_total: "truncate_text_with_plan s p \<noteq> None"
  using truncate_middle_chars_total [of s "tp_limit p"] by (auto simp: truncate_text_with_plan_def split: option.split)

lemma charge_item_total: "charge_item mode estimate remaining item \<noteq> None"
proof -
  obtain snippet edit where cut: "truncate_text_with_plan (ci_text item) \<lparr>tp_mode = mode, tp_limit = remaining\<rparr> = Some (snippet, edit)"
    using truncate_text_total [of "ci_text item" "\<lparr>tp_mode = mode, tp_limit = remaining\<rparr>"] by fastforce
  show ?thesis by (cases "ci_kind item") (auto simp: charge_item_def Let_def cut)
qed

lemma truncate_loop_total: "truncate_loop mode estimate i items s \<noteq> None"
proof (induction items arbitrary: i s)
  case (Cons item items)
  then show ?case using charge_item_total [of mode estimate "is_remaining s" item]
    by (auto simp: Let_def split: option.split)
qed simp

definition media_item :: "content_item \<Rightarrow> bool" where
  "media_item item \<longleftrightarrow> ci_kind item = InputImage \<or> ci_kind item = EncryptedContent"

lemma charge_item_media:
  assumes "charge_item mode estimate remaining item = Some (new, edit, keep, r, t, a)"
  shows "filter media_item (new @ (if keep then [item] else [])) = filter media_item [item]"
  using assms
  by (auto simp: charge_item_def media_item_def Let_def split: content_kind.splits option.splits if_splits)

lemma truncate_loop_media:
  "truncate_loop mode estimate i items s = Some s' \<Longrightarrow> filter media_item (is_out s') = filter media_item (is_out s @ items)"
proof (induction items arbitrary: i s)
  case (Cons item items)
  obtain new edit keep r t a where c: "charge_item mode estimate (is_remaining s) item = Some (new, edit, keep, r, t, a)"
    using charge_item_total [of mode estimate "is_remaining s" item] by auto
  have "filter media_item (is_out s') =
      filter media_item (is_out s) @ filter media_item (new @ (if keep then [item] else [])) @ filter media_item items"
    using Cons.IH [OF Cons.prems [unfolded truncate_loop.simps c option.case prod.case Let_def]] by simp
  also have "filter media_item (new @ (if keep then [item] else [])) = filter media_item [item]"
    by (rule charge_item_media [OF c])
  finally show ?case by simp
qed simp

lemma notices_no_media: "filter media_item (omission_notices t a) = []"
  by (simp add: omission_notices_def media_item_def text_item_def)

text \<open>Cutting never fails, and images and encrypted content all survive, unchanged and in their order,
  whatever the budget.\<close>

theorem media_survives:
  "case truncate_output_items items p estimate boundaries of
     None \<Rightarrow> False
   | Some (out, moved) \<Rightarrow> filter media_item out = filter media_item items"
proof -
  define s0 where "s0 = \<lparr>is_out = [], is_remaining = (if tp_mode p = PolicyTokens then token_budget p else byte_budget p),
    is_omitted_text = 0, is_omitted_audio = 0, is_moved = [], is_pending = boundaries\<rparr>"
  obtain s where s: "truncate_loop (tp_mode p) estimate 0 items s0 = Some s"
    using truncate_loop_total by fastforce
  have "filter media_item (is_out s) = filter media_item items" using truncate_loop_media [OF s] by (simp add: s0_def)
  then show ?thesis by (simp add: truncate_output_items_def s0_def [symmetric] s notices_no_media)
qed

section \<open>Positions\<close>

definition position_le :: "output_boundary \<Rightarrow> output_boundary \<Rightarrow> bool" where
  "position_le a b \<longleftrightarrow> ob_item a < ob_item b \<or> (ob_item a = ob_item b \<and> ob_offset a \<le> ob_offset b)"

text \<open>A position in a list of items: inside the text of an item, at the start of an item, or at the end.\<close>

definition position_in :: "content_item list \<Rightarrow> output_boundary \<Rightarrow> bool" where
  "position_in items b \<longleftrightarrow> 0 \<le> ob_item b \<and> ob_item b \<le> int (length items) \<and> 0 \<le> ob_offset b \<and>
     (ob_offset b = 0 \<or>
      (ob_item b < int (length items) \<and> ci_kind (items ! nat (ob_item b)) = InputText \<and>
       ob_offset b \<le> int (length (ci_text (items ! nat (ob_item b))))))"

definition positions_ok :: "content_item list \<Rightarrow> output_boundary list \<Rightarrow> bool" where
  "positions_ok items bs \<longleftrightarrow> sorted_wrt position_le bs \<and> list_all (position_in items) bs"

lemma position_le_trans: "position_le a b \<Longrightarrow> position_le b c \<Longrightarrow> position_le a c"
  by (auto simp: position_le_def)

lemma floor_bounds: "0 \<le> floor_char_boundary s i \<and> floor_char_boundary s i \<le> int (length s)"
proof -
  have scan: "floor_scan s i \<le> i" for i by (induction i) auto
  show ?thesis using scan [of "nat i"] by (auto simp: floor_char_boundary_def)
qed

lemma normalize_boundary_ok:
  "position_in items previous \<Longrightarrow> position_in items (normalize_boundary items previous b) \<and> position_le previous (normalize_boundary items previous b)"
  using floor_bounds [of "ci_text (items ! nat (min (int (length items)) (max 0 (ob_item b))))" "max 0 (ob_offset b)"]
  by (auto simp: normalize_boundary_def position_in_def position_le_def Let_def)

lemma normalize_from_ok:
  "position_in items previous \<Longrightarrow>
   positions_ok items (normalize_from items previous bs) \<and> list_all (position_le previous) (normalize_from items previous bs) \<and>
   length (normalize_from items previous bs) = length bs"
proof (induction bs arbitrary: previous)
  case (Cons b bs)
  let ?n = "normalize_boundary items previous b"
  have n: "position_in items ?n" "position_le previous ?n" using normalize_boundary_ok [OF Cons.prems] by simp_all
  show ?case using Cons.IH [OF n(1)] n by (auto simp: positions_ok_def list_all_iff dest: position_le_trans)
qed (simp add: positions_ok_def)

text \<open>The positions a caller passes are first put in order and inside the items.\<close>

theorem normalized_positions: "positions_ok items (normalize_boundaries items bs) \<and> length (normalize_boundaries items bs) = length bs"
  using normalize_from_ok [of items "\<lparr>ob_item = 0, ob_offset = 0\<rparr>" bs] by (simp add: normalize_boundaries_def position_in_def)


lemma marker_nonempty: "format_truncation_marker b n \<noteq> []"
  by (simp add: format_truncation_marker_def Let_def)

lemma plan_marker: "plan_token_truncation s t = Some e \<Longrightarrow> tt_marker e \<noteq> []"
  by (auto simp: plan_token_truncation_def Let_def marker_nonempty split: if_splits prod.splits)

lemma apply_plan:
  assumes "plan_token_truncation s t = Some e"
  shows "apply_truncation e s = take (nat (tt_removed_start e)) s @ tt_marker e @ drop (nat (tt_removed_end e)) s"
    and "int (length (apply_truncation e s)) =
      tt_removed_start e + int (length (tt_marker e)) + (int (length s) - tt_removed_end e)"
  using plan_bounds [OF assms] by (simp_all add: apply_truncation_def Let_def)

lemma rendered_offset_mono:
  "plan_token_truncation s t = Some e \<Longrightarrow> 0 \<le> h \<Longrightarrow> 0 \<le> a \<Longrightarrow> a \<le> b \<Longrightarrow> rendered_offset e a h \<le> rendered_offset e b h"
  using plan_bounds [of s t e] by (auto simp: rendered_offset_def)

lemma rendered_offset_bounds:
  assumes "plan_token_truncation s t = Some e" "0 \<le> h" "0 \<le> b" "b \<le> int (length s)"
  shows "0 \<le> rendered_offset e b h \<and> rendered_offset e b h \<le> h + int (length (apply_truncation e s))"
  using plan_bounds [OF assms(1)] assms(2-4) unfolding apply_plan(2) [OF assms(1)] by (auto simp: rendered_offset_def)

text \<open>The three ways an item is charged, as far as positions see them.\<close>

lemma charge_cases:
  assumes "charge_item mode estimate remaining item = Some (new, edit, keep, r, t, a)"
  obtains (kept) "edit = None" "keep" "new = []"
  | (gone) "edit = None" "\<not> keep"
  | (cut) e where "edit = Some e" "\<not> keep" "ci_kind item = InputText" "plan_token_truncation (ci_text item) remaining = Some e"
      "new = [item\<lparr>ci_text := apply_truncation e (ci_text item)\<rparr>]"
proof -
  have "apply_truncation e s \<noteq> []" if "plan_token_truncation s remaining = Some e" for e s
    using apply_plan(1) [OF that] plan_marker [OF that] by simp
  then have "(edit = None \<and> keep \<and> new = []) \<or> (edit = None \<and> \<not> keep) \<or>
      (\<exists>e. edit = Some e \<and> \<not> keep \<and> ci_kind item = InputText \<and> plan_token_truncation (ci_text item) remaining = Some e \<and>
        new = [item\<lparr>ci_text := apply_truncation e (ci_text item)\<rparr>])"
    using assms
    by (auto simp: charge_item_def truncate_text_with_plan_def Let_def split: content_kind.splits option.splits if_splits)
  then show thesis using that by blast
qed

definition position_from :: "int \<Rightarrow> content_item list \<Rightarrow> output_boundary \<Rightarrow> bool" where
  "position_from i items b \<longleftrightarrow> position_in items (b\<lparr>ob_item := ob_item b - i\<rparr>)"

lemma position_from_0: "position_from 0 items = position_in items"
  by (auto simp: position_from_def position_in_def fun_eq_iff)

lemma position_in_append: "position_in out b \<Longrightarrow> position_in (out @ ys) b"
  by (auto simp: position_in_def nth_append)

lemma position_from_here:
  "position_from i (item # items) b \<Longrightarrow> ob_item b = i \<Longrightarrow>
   0 \<le> ob_offset b \<and> (ob_offset b = 0 \<or> (ci_kind item = InputText \<and> ob_offset b \<le> int (length (ci_text item))))"
  by (auto simp: position_from_def position_in_def)

lemma position_from_later:
  "position_from i (item # items) b \<Longrightarrow> i < ob_item b \<Longrightarrow> position_from (i + 1) items b"
proof -
  assume b: "position_from i (item # items) b" "i < ob_item b"
  then have "nat (ob_item b - i) = Suc (nat (ob_item b - (i + 1)))" by simp
  with b show ?thesis by (auto simp: position_from_def position_in_def)
qed

lemma move_boundary_in:
  assumes "charge_item mode estimate remaining item = Some (new, edit, keep, r, t, a)"
    and "position_from i (item # items) b" "ob_item b = i"
  shows "position_in (out @ new @ (if keep then [item] else [])) (move_boundary (length out) edit keep b)"
  using assms(1)
proof (cases rule: charge_cases)
  case (cut e)
  have "0 \<le> ob_offset b" "ob_offset b \<le> int (length (ci_text item))"
    using position_from_here [OF assms(2,3)] by auto
  then have "0 \<le> rendered_offset e (ob_offset b) 0" "rendered_offset e (ob_offset b) 0 \<le> int (length (apply_truncation e (ci_text item)))"
    using rendered_offset_bounds [OF cut(4), of 0 "ob_offset b"] by simp_all
  then show ?thesis using cut by (simp add: move_boundary_def position_in_def)
qed (use position_from_here [OF assms(2,3)] in \<open>auto simp: move_boundary_def position_in_def\<close>)

lemma move_boundary_mono:
  assumes "charge_item mode estimate remaining item = Some (new, edit, keep, r, t, a)"
    and "position_le b c" "ob_item b = ob_item c" "0 \<le> ob_offset b"
  shows "position_le (move_boundary n edit keep b) (move_boundary n edit keep c)"
  using assms(1)
proof (cases rule: charge_cases)
  case (cut e)
  then show ?thesis using rendered_offset_mono [OF cut(4), of 0] assms(2-4) by (simp add: move_boundary_def position_le_def)
qed (use assms(2-4) in \<open>auto simp: move_boundary_def position_le_def\<close>)

lemma position_in_before_end: "position_in out b \<Longrightarrow> 0 \<le> x \<Longrightarrow> position_le b \<lparr>ob_item = int (length out), ob_offset = x\<rparr>"
  by (auto simp: position_in_def position_le_def)

lemma positions_ok_end: "positions_ok out bs \<Longrightarrow> positions_ok out (bs @ map (\<lambda>b. \<lparr>ob_item = int (length out), ob_offset = 0\<rparr>) cs)"
  by (auto simp: positions_ok_def sorted_wrt_append sorted_wrt_map list_all_iff position_in_before_end
      intro: position_in_before_end) (auto simp: position_in_def position_le_def sorted_wrt_iff_nth_less)


lemma takeWhile_drop: "drop (length (takeWhile P xs)) xs = dropWhile P xs"
  by (induction xs) auto

lemma pending_later:
  assumes "sorted_wrt position_le ps" "list_all (position_from i (item # items)) ps"
  shows "list_all (position_from (i + 1) items) (dropWhile (\<lambda>b. ob_item b = i) ps)"
proof (cases "dropWhile (\<lambda>b. ob_item b = i) ps")
  case (Cons c cs)
  define hs where "hs = takeWhile (\<lambda>b. ob_item b = i) ps"
  have ps: "ps = hs @ c # cs" using Cons by (metis hs_def takeWhile_dropWhile_id)
  have "ob_item c \<noteq> i" using Cons hd_dropWhile [of "\<lambda>b. ob_item b = i" ps] by simp
  moreover have "i \<le> ob_item c" using assms(2) by (auto simp: ps position_from_def position_in_def)
  ultimately have "i < ob_item c" by simp
  then have "\<forall>b \<in> set (c # cs). i < ob_item b" using assms(1) by (auto simp: ps sorted_wrt_append position_le_def)
  then show ?thesis using assms(2) unfolding Cons by (auto simp: ps list_all_iff dest: position_from_later)
next
  case Nil
  then show ?thesis by (simp only: list.pred_inject)
qed

lemma step_positions:
  assumes c: "charge_item mode estimate remaining item = Some (new, edit, keep, r, t, a)"
    and sorted: "sorted_wrt position_le ps" and pos: "list_all (position_from i (item # items)) ps"
    and moved: "positions_ok out moved"
  defines "here \<equiv> takeWhile (\<lambda>b. ob_item b = i) ps"
  shows "positions_ok (out @ new @ (if keep then [item] else [])) (moved @ map (move_boundary (length out) edit keep) here)"
proof -
  let ?out = "out @ new @ (if keep then [item] else [])"
  let ?move = "move_boundary (length out) edit keep"
  have here: "ob_item b = i \<and> position_from i (item # items) b" if "b \<in> set here" for b
    using that pos by (auto simp: here_def list_all_iff dest: set_takeWhileD)
  have valid: "position_in ?out (?move b)" if "b \<in> set here" for b
    using move_boundary_in [OF c] here [OF that] by blast
  have "sorted_wrt position_le here"
    using sorted unfolding here_def by (metis sorted_wrt_append takeWhile_dropWhile_id)
  then have "sorted_wrt (\<lambda>x y. position_le (?move x) (?move y)) here"
  proof (rule sorted_wrt_mono_rel [rotated])
    fix x y assume "x \<in> set here" "y \<in> set here" "position_le x y"
    moreover from \<open>x \<in> set here\<close> have "0 \<le> ob_offset x" using here position_from_here by blast
    ultimately show "position_le (?move x) (?move y)" using move_boundary_mono [OF c] here by simp
  qed
  moreover have "position_le m (?move b)" if "m \<in> set moved" "b \<in> set here" for m b
  proof -
    have "0 \<le> ob_offset (?move b)" using valid [OF that(2)] by (simp add: position_in_def)
    moreover have "position_in out m" using moved that(1) by (auto simp: positions_ok_def list_all_iff)
    ultimately have "position_le m \<lparr>ob_item = int (length out), ob_offset = ob_offset (?move b)\<rparr>"
      by (intro position_in_before_end)
    then show ?thesis by (simp add: position_le_def move_boundary_def)
  qed
  ultimately show ?thesis
    using moved valid by (auto simp: positions_ok_def sorted_wrt_append sorted_wrt_map list_all_iff intro: position_in_append)
qed

lemma loop_positions:
  assumes "truncate_loop mode estimate i items s = Some s'"
    and "sorted_wrt position_le (is_pending s)" "list_all (position_from i items) (is_pending s)"
    and "positions_ok (is_out s) (is_moved s)"
  shows "positions_ok (is_out s') (is_moved s') \<and>
    length (is_moved s') + length (is_pending s') = length (is_moved s) + length (is_pending s)"
  using assms
proof (induction items arbitrary: i s)
  case (Cons item items)
  obtain new edit keep r t a where c: "charge_item mode estimate (is_remaining s) item = Some (new, edit, keep, r, t, a)"
    using charge_item_total [of mode estimate "is_remaining s" item] by auto
  define here where "here = takeWhile (\<lambda>b. ob_item b = i) (is_pending s)"
  have rest: "drop (length here) (is_pending s) = dropWhile (\<lambda>b. ob_item b = i) (is_pending s)"
    unfolding here_def by (rule takeWhile_drop)
  have sorted: "sorted_wrt position_le (dropWhile (\<lambda>b. ob_item b = i) (is_pending s))"
    using Cons.prems(2) by (metis sorted_wrt_append takeWhile_dropWhile_id)
  have "length (is_pending s) = length here + length (dropWhile (\<lambda>b. ob_item b = i) (is_pending s))"
    unfolding here_def by (metis length_append takeWhile_dropWhile_id)
  with Cons.IH [OF Cons.prems(1) [unfolded truncate_loop.simps c option.case prod.case Let_def here_def [symmetric] rest]]
    sorted pending_later [OF Cons.prems(2,3)] step_positions [OF c Cons.prems(2-4)]
  show ?case by (simp add: here_def [symmetric])
qed simp

text \<open>Positions keep pointing into the output.  However much is cut, the positions returned are as many as were
  passed, in order, and each lies inside the text of a rendered item, at its start, or at the end.\<close>

theorem positions_follow:
  "case mixed_output_at_token_boundaries items max_tokens estimate boundaries of
     None \<Rightarrow> False
   | Some (out, moved) \<Rightarrow> positions_ok out moved \<and> length moved = length boundaries"
proof -
  define bs where "bs = normalize_boundaries items boundaries"
  define p where "p = \<lparr>tp_mode = PolicyTokens, tp_limit = max_tokens\<rparr>"
  define s0 where "s0 = \<lparr>is_out = [], is_remaining = token_budget p,
    is_omitted_text = 0, is_omitted_audio = 0, is_moved = [], is_pending = bs\<rparr>"
  have bs: "positions_ok items bs" "length bs = length boundaries" unfolding bs_def using normalized_positions by blast+
  obtain s where s: "truncate_loop PolicyTokens estimate 0 items s0 = Some s"
    using truncate_loop_total by fastforce
  have moved: "positions_ok (is_out s) (is_moved s) \<and> length (is_moved s) + length (is_pending s) = length bs"
    using loop_positions [OF s] bs(1)
    by (simp add: s0_def positions_ok_def position_from_0)
  have ok: "positions_ok (is_out s) (is_moved s @ map (\<lambda>b. \<lparr>ob_item = int (length (is_out s)), ob_offset = 0\<rparr>) (is_pending s))"
    by (rule positions_ok_end [OF conjunct1 [OF moved]])
  have len: "length (is_moved s) + length (is_pending s) = length boundaries" using moved bs(2) by simp
  have "positions_ok (is_out s @ ys) qs" if "positions_ok (is_out s) qs" for ys qs
    using that by (auto simp: positions_ok_def list_all_iff intro: position_in_append)
  then show ?thesis using ok len
    by (simp add: mixed_output_at_token_boundaries_def truncate_output_items_def bs_def [symmetric] p_def [symmetric]
        s0_def [symmetric] s) (simp add: p_def s0_def [symmetric] s)
qed

end
