(* ===== verification/Shell_Script.thy ===== *)
theory Shell_Script
  imports Exec_Policy
begin

text \<open>
  Reading the commands of a shell script from its syntax tree: \<open>parseWordOnlyCommandsSequence\<close> of
  \<open>shell/display_command.go\<close>, which accepts only scripts made of literal words, and \<open>parseShellLCLiteralCommands\<close> of
  \<open>execpolicy/dangerous_command.go\<close>, which takes what literal words it finds.  The parser is a third-party package
  and a parameter; the tree is what the code looks at of its result.
\<close>

section \<open>Syntax trees\<close>

datatype word_part = Lit bytes | SglQuoted bool bytes | DblQuoted bool "word_part list" | OtherPart

datatype binary_op = AndStmt | OrStmt | PipeOp | OtherOp

datatype
  stmt = Stmt (stmt_negated: bool) (stmt_background: bool) (stmt_coprocess: bool) (stmt_disown: bool)
    (stmt_redirs: nat) (stmt_comments: nat) (stmt_cmd: shell_cmd)
and shell_cmd = CallExpr (call_assigns: nat) (call_args: "word_part list list") | BinaryCmd binary_op stmt stmt | OtherCmd

text \<open>The statements of a script, the number of comments after the last, and the arguments of the call nodes in the
  order \<open>syntax.Walk\<close> visits them.\<close>

record shell_file =
  sf_stmts :: "stmt list"
  sf_last :: nat
  sf_calls :: "word_part list list list"

section \<open>Literal words\<close>

definition any_of :: "bytes \<Rightarrow> bytes \<Rightarrow> bool" where
  "any_of s chars \<longleftrightarrow> list_ex (\<lambda>c. c \<in> set chars) s"

definition is_expansion_sensitive_word :: "bytes \<Rightarrow> bool" where
  "is_expansion_sensitive_word s \<longleftrightarrow> has_prefix s ''='' \<or> any_of s (''{}*?[]~^#$'' @ [CHR 0x5C, CHR 0x60])"

fun has_double_quote_escape :: "bytes \<Rightarrow> bool" where
  "has_double_quote_escape (c # d # s) \<longleftrightarrow>
     (c = CHR 0x5C \<and> d \<in> {CHR ''$'', CHR 0x60, CHR 0x22, CHR 0x5C, LF}) \<or> has_double_quote_escape (d # s)"
| "has_double_quote_escape _ \<longleftrightarrow> False"

text \<open>The loop inside double quotes of \<open>literalWord\<close>: every literal is checked on its own.\<close>

fun literal_inner :: "word_part list \<Rightarrow> bytes option" where
  "literal_inner [] = Some []"
| "literal_inner (Lit s # ps) = (if has_double_quote_escape s then None else map_option (\<lambda>t. s @ t) (literal_inner ps))"
| "literal_inner (_ # ps) = None"

fun literal_word :: "word_part list \<Rightarrow> bytes option" where
  "literal_word [] = Some []"
| "literal_word (Lit s # ps) = (if is_expansion_sensitive_word s then None else map_option (\<lambda>t. s @ t) (literal_word ps))"
| "literal_word (SglQuoted dollar s # ps) = (if dollar then None else map_option (\<lambda>t. s @ t) (literal_word ps))"
| "literal_word (DblQuoted dollar inner # ps) =
     (if dollar then None
      else case literal_inner inner of None \<Rightarrow> None | Some s \<Rightarrow> map_option (\<lambda>t. s @ t) (literal_word ps))"
| "literal_word (OtherPart # ps) = None"

definition literal_command :: "word_part list list \<Rightarrow> bytes list option" where
  "literal_command args = (case args of [] \<Rightarrow> None | w # ws \<Rightarrow>
     map_option (\<lambda>name. name # List.map_filter literal_word ws) (literal_word w))"

text \<open>\<open>literalWordValue\<close> and its helpers: inside double quotes the literals are joined before the check, and neither a
  word nor a bare part may be empty.\<close>

fun joined_literals :: "word_part list \<Rightarrow> bytes option" where
  "joined_literals [] = Some []"
| "joined_literals (Lit s # ps) = map_option (\<lambda>t. s @ t) (joined_literals ps)"
| "joined_literals (_ # ps) = None"

definition literal_double_quoted_value :: "bool \<Rightarrow> word_part list \<Rightarrow> bytes option" where
  "literal_double_quoted_value dollar inner =
     (if dollar then None
      else case joined_literals inner of None \<Rightarrow> None | Some s \<Rightarrow> if has_double_quote_escape s then None else Some s)"

fun literal_parts_value :: "word_part list \<Rightarrow> bytes option" where
  "literal_parts_value [] = Some []"
| "literal_parts_value (Lit s # ps) =
     (if s = [] \<or> is_expansion_sensitive_word s then None else map_option (\<lambda>t. s @ t) (literal_parts_value ps))"
| "literal_parts_value (SglQuoted dollar s # ps) = (if dollar then None else map_option (\<lambda>t. s @ t) (literal_parts_value ps))"
| "literal_parts_value (DblQuoted dollar inner # ps) =
     (case literal_double_quoted_value dollar inner of None \<Rightarrow> None | Some s \<Rightarrow> map_option (\<lambda>t. s @ t) (literal_parts_value ps))"
| "literal_parts_value (OtherPart # ps) = None"

definition literal_word_value :: "word_part list \<Rightarrow> bytes option" where
  "literal_word_value w = (case literal_parts_value w of None \<Rightarrow> None | Some s \<Rightarrow> if s = [] then None else Some s)"

fun all_some :: "'a option list \<Rightarrow> 'a list option" where
  "all_some [] = Some []"
| "all_some (None # xs) = None"
| "all_some (Some x # xs) = map_option (Cons x) (all_some xs)"

section \<open>Scripts of literal words\<close>

fun collect_word_only_command :: "stmt \<Rightarrow> bytes list list option" where
  "collect_word_only_command (Stmt negated background coprocess disown redirs comments cmd) =
     (if negated \<or> background \<or> coprocess \<or> disown \<or> 0 < redirs \<or> 0 < comments then None
      else case cmd of
          CallExpr assigns args \<Rightarrow>
            if 0 < assigns then None
            else (case all_some (map literal_word_value args) of
                None \<Rightarrow> None | Some ws \<Rightarrow> if ws = [] then None else Some [ws])
        | BinaryCmd op x y \<Rightarrow>
            if op = OtherOp then None
            else (case collect_word_only_command x of
                None \<Rightarrow> None | Some xs \<Rightarrow> map_option (\<lambda>ys. xs @ ys) (collect_word_only_command y))
        | OtherCmd \<Rightarrow> None)"

definition parse_word_only_commands :: "(bytes \<Rightarrow> shell_file option) \<Rightarrow> bytes \<Rightarrow> bytes list list option" where
  "parse_word_only_commands parse script = (case parse script of
     None \<Rightarrow> None
   | Some f \<Rightarrow> if 0 < sf_last f then None
               else map_option concat (all_some (map collect_word_only_command (sf_stmts f))))"

section \<open>Shells\<close>

definition shell_base :: "(nat \<Rightarrow> nat) \<Rightarrow> bytes \<Rightarrow> bytes" where
  "shell_base lower_rune path = trim_suffix (to_lower lower_rune (path_base path)) ''.exe''"

definition replace_backslash :: "bytes \<Rightarrow> bytes" where
  "replace_backslash s = map (\<lambda>c. if c = CHR 0x5C then SLASH else c) s"

definition dangerous_shell_type :: "(nat \<Rightarrow> nat) \<Rightarrow> bytes \<Rightarrow> bytes" where
  "dangerous_shell_type lower_rune path = shell_base lower_rune (replace_backslash path)"

definition posix_shell :: "bytes \<Rightarrow> bool" where
  "posix_shell name \<longleftrightarrow> name = ''bash'' \<or> name = ''zsh'' \<or> name = ''sh''"

text \<open>\<open>ExtractPOSIXShellCommand\<close>: the script.\<close>

definition extract_posix_shell_command :: "(nat \<Rightarrow> nat) \<Rightarrow> bytes list \<Rightarrow> bytes option" where
  "extract_posix_shell_command lower_rune command = (case command of
     [shell, flag, script] \<Rightarrow>
       if posix_shell (shell_base lower_rune shell) \<and> (flag = ''-lc'' \<or> flag = ''-c'') then Some script else None
   | _ \<Rightarrow> None)"

definition parse_shell_lc_literal_commands ::
  "(bytes \<Rightarrow> shell_file option) \<Rightarrow> (nat \<Rightarrow> nat) \<Rightarrow> bytes list \<Rightarrow> bytes list list option" where
  "parse_shell_lc_literal_commands parse lower_rune command = (case command of
     [shell, flag, script] \<Rightarrow>
       if (flag = ''-lc'' \<or> flag = ''-c'') \<and> posix_shell (dangerous_shell_type lower_rune shell)
       then map_option (\<lambda>f. List.map_filter literal_command (sf_calls f)) (parse script) else None
   | _ \<Rightarrow> None)"

end
