(* ===== verification/Dangerous_Command.thy ===== *)
theory Dangerous_Command
  imports Shell_Script
begin

text \<open>
  Which commands are dangerous, \<open>execpolicy/dangerous_command.go\<close> with the semantics of a POSIX platform: a forced
  \<open>rm\<close>, behind any of the wrappers \<open>sudo\<close>, \<open>env\<close>, \<open>trap\<close> and shell scripts.  The rules of the Windows
  platform are not modelled.  The shell parser and the case table of Unicode are parameters.
\<close>

section \<open>The classifier\<close>

datatype dangerous_match = ForcedRm | OtherDangerous

definition max_wrapper_depth :: nat where
  "max_wrapper_depth = 8"

text \<open>The loop of \<open>rmArgsIncludeForceOption\<close>.\<close>

fun rm_args_include_force_option :: "bytes list \<Rightarrow> bool" where
  "rm_args_include_force_option [] = False"
| "rm_args_include_force_option (arg # args) =
     (if arg = ''--'' then False
      else if arg = ''--force'' then True
      else let flags = trim_prefix arg ''-'' in
        if flags \<noteq> arg \<and> \<not> has_prefix flags ''-'' \<and> contains_bytes flags ''f'' then True
        else rm_args_include_force_option args)"

definition executable_name :: "bytes \<Rightarrow> bytes option" where
  "executable_name raw = (if lookup_key raw = [] then None else Some (lookup_key raw))"

definition env_assignment :: "bytes \<Rightarrow> bool" where
  "env_assignment arg \<longleftrightarrow> (CHR ''='') \<in> set arg \<and>
     (let name = takeWhile (\<lambda>c. c \<noteq> CHR ''='') arg in name \<noteq> [] \<and> \<not> has_prefix name ''-'')"

text \<open>The command that \<open>env\<close> runs, from the arguments after it.\<close>

fun env_command :: "bytes list \<Rightarrow> bytes list" where
  "env_command [] = []"
| "env_command (arg # args) =
     (if arg = ''--'' then args
      else if arg = ''-i'' \<or> arg = ''--ignore-environment'' then env_command args
      else if env_assignment arg then env_command args
      else arg # args)"

definition trap_action :: "bytes list \<Rightarrow> bytes option" where
  "trap_action args =
     (case (if take 1 args = [''--''] then drop 1 args else args) of
        [] \<Rightarrow> None
      | action # _ \<Rightarrow> if has_prefix action ''-'' then None else Some action)"

text \<open>\<open>dangerousCommandMatchForExec\<close> up to its recursive calls: no match, a match, or the command it wraps.\<close>

datatype exec_outcome = NoMatch | Matched dangerous_match | Inner "bytes list"

definition exec_step :: "bytes list \<Rightarrow> exec_outcome" where
  "exec_step command = (case command of
     [] \<Rightarrow> NoMatch
   | program # args \<Rightarrow>
       (case executable_name program of
          None \<Rightarrow> NoMatch
        | Some name \<Rightarrow>
            if name = ''rm'' then (if rm_args_include_force_option args then Matched ForcedRm else NoMatch)
            else if name = ''sudo'' then Inner args
            else if name = ''env'' then Inner (env_command args)
            else if name = ''trap'' then
              (case trap_action args of None \<Rightarrow> NoMatch | Some action \<Rightarrow> Inner [''sh'', ''-c'', action])
            else NoMatch))"

fun first_some :: "'a option list \<Rightarrow> 'a option" where
  "first_some [] = None"
| "first_some (None # xs) = first_some xs"
| "first_some (Some x # xs) = Some x"

text \<open>\<open>dangerousCommandMatchWithDepth\<close>.\<close>

function dangerous_at ::
  "(bytes \<Rightarrow> shell_file option) \<Rightarrow> (nat \<Rightarrow> nat) \<Rightarrow> nat \<Rightarrow> bytes list \<Rightarrow> dangerous_match option" where
  "dangerous_at parse lower_rune depth command =
     (if max_wrapper_depth < depth then Some OtherDangerous
      else first_some
        [case exec_step command of
            NoMatch \<Rightarrow> None
          | Matched m \<Rightarrow> Some m
          | Inner wrapped \<Rightarrow> dangerous_at parse lower_rune (depth + 1) wrapped,
         case parse_shell_lc_literal_commands parse lower_rune command of
            None \<Rightarrow> None
          | Some commands \<Rightarrow> first_some (map (dangerous_at parse lower_rune (depth + 1)) commands)])"
  by pat_completeness auto
termination
  by (relation "measure (\<lambda>(parse, lower_rune, depth, command). max_wrapper_depth + 1 - depth)") auto

declare dangerous_at.simps [simp del]

definition match_dangerous_command ::
  "(bytes \<Rightarrow> shell_file option) \<Rightarrow> (nat \<Rightarrow> nat) \<Rightarrow> bytes list \<Rightarrow> dangerous_match option" where
  "match_dangerous_command parse lower_rune command = dangerous_at parse lower_rune 0 command"

definition rejection_reason :: "dangerous_match \<Rightarrow> bytes" where
  "rejection_reason m = (case m of
     ForcedRm \<Rightarrow> ''rm -f style commands are not permitted. Use a safer approach'' | OtherDangerous \<Rightarrow> ''blocked by policy'')"

section \<open>Forced removal\<close>

definition force_flag :: "bytes \<Rightarrow> bool" where
  "force_flag arg \<longleftrightarrow> arg = ''--force'' \<or>
     (take 1 arg = ''-'' \<and> take 1 (drop 1 arg) \<noteq> ''-'' \<and> CHR ''f'' \<in> set arg)"

lemma contains_char: "contains_bytes s [c] \<longleftrightarrow> c \<in> set s"
  by (induction s) (auto simp: has_prefix_def)

lemma force_flag_loop:
  "arg \<noteq> ''--force'' \<Longrightarrow> force_flag arg \<longleftrightarrow>
     (let flags = trim_prefix arg ''-'' in flags \<noteq> arg \<and> \<not> has_prefix flags ''-'' \<and> contains_bytes flags ''f'')"
  by (cases arg) (auto simp: force_flag_def trim_prefix_def has_prefix_def contains_char)

text \<open>An \<open>rm\<close> counts as forced exactly when an argument before the first \<open>--\<close> is \<open>--force\<close> or a cluster of
  short options with an \<open>f\<close> in it.\<close>

theorem forced_rm_exact:
  "rm_args_include_force_option args \<longleftrightarrow> list_ex force_flag (takeWhile (\<lambda>a. a \<noteq> ''--'') args)"
proof (induction args)
  case (Cons arg args)
  show ?case
  proof (cases "arg = ''--force''")
    case True
    then show ?thesis by (simp add: force_flag_def)
  next
    case False
    then show ?thesis using Cons force_flag_loop [OF False] by (simp add: Let_def)
  qed
qed simp

section \<open>Wrappers\<close>

lemma first_some_None: "first_some xs = None \<longleftrightarrow> (\<forall>x \<in> set xs. x = None)"
  by (induction xs rule: first_some.induct) auto

lemma dangerous_deep: "max_wrapper_depth < depth \<Longrightarrow> dangerous_at parse lower_rune depth command = Some OtherDangerous"
  by (simp add: dangerous_at.simps)

lemma first_some_step:
  "first_some [case e of NoMatch \<Rightarrow> None | Matched m \<Rightarrow> Some m | Inner w \<Rightarrow> f w,
     case q of None \<Rightarrow> None | Some cs \<Rightarrow> first_some (map f cs)] \<noteq> None \<longleftrightarrow>
   (\<exists>m. e = Matched m) \<or> (\<exists>w. e = Inner w \<and> f w \<noteq> None) \<or> (\<exists>cs c. q = Some cs \<and> c \<in> set cs \<and> f c \<noteq> None)"
  by (cases e; cases q) (auto simp: first_some_None)

lemma dangerous_iff:
  assumes "depth \<le> max_wrapper_depth"
  shows "dangerous_at parse lower_rune depth command \<noteq> None \<longleftrightarrow>
    (\<exists>m. exec_step command = Matched m) \<or>
    (\<exists>w. exec_step command = Inner w \<and> dangerous_at parse lower_rune (depth + 1) w \<noteq> None) \<or>
    (\<exists>cs c. parse_shell_lc_literal_commands parse lower_rune command = Some cs \<and> c \<in> set cs \<and>
       dangerous_at parse lower_rune (depth + 1) c \<noteq> None)"
  unfolding first_some_step [symmetric] using assms by (subst dangerous_at.simps) simp

text \<open>A dangerous command stays dangerous however deep it is found.\<close>

lemma dangerous_deeper:
  "dangerous_at parse lower_rune depth command \<noteq> None \<Longrightarrow> dangerous_at parse lower_rune (depth + 1) command \<noteq> None"
proof (induction parse lower_rune depth command rule: dangerous_at.induct)
  case (1 parse lower_rune depth command)
  show ?case
  proof (cases "max_wrapper_depth < depth + 1")
    case True
    then show ?thesis by (simp add: dangerous_deep)
  next
    case False
    let ?f = "dangerous_at parse lower_rune"
    have shallow: "\<not> max_wrapper_depth < depth" "depth \<le> max_wrapper_depth" "depth + 1 \<le> max_wrapper_depth" using False by simp_all
    from "1.prems" consider (matched) m where "exec_step command = Matched m"
      | (inner) wrapped where "exec_step command = Inner wrapped" "?f (depth + 1) wrapped \<noteq> None"
      | (script) commands c where "parse_shell_lc_literal_commands parse lower_rune command = Some commands"
          "c \<in> set commands" "?f (depth + 1) c \<noteq> None"
      unfolding dangerous_iff [OF shallow(2)] by blast
    then show ?thesis
    proof cases
      case matched
      then show ?thesis unfolding dangerous_iff [OF shallow(3)] by blast
    next
      case inner
      have "?f (depth + 1 + 1) wrapped \<noteq> None" by (rule "1.IH"(1) [OF shallow(1) inner])
      with inner(1) show ?thesis unfolding dangerous_iff [OF shallow(3)] by blast
    next
      case script
      have "?f (depth + 1 + 1) c \<noteq> None" by (rule "1.IH"(2) [OF shallow(1) script])
      with script(1,2) show ?thesis unfolding dangerous_iff [OF shallow(3)] by blast
    qed
  qed
qed

lemma dangerous_mono: "dangerous_at parse lower_rune depth command \<noteq> None \<Longrightarrow> dangerous_at parse lower_rune (depth + n) command \<noteq> None"
  by (induction n) (use dangerous_deeper in \<open>auto simp del: not_None_eq\<close>)


section \<open>Commands inside wrappers\<close>

lemma executable_sudo: "exec_step (p # c) = Inner c" if "executable_name p = Some ''sudo''"
  using that by (simp add: exec_step_def)

lemma sudo_depth_from:
  "dangerous_at parse lower_rune d (replicate n ''sudo'' @ command) =
     (if max_wrapper_depth < d + n then Some OtherDangerous else dangerous_at parse lower_rune (d + n) command)"
proof (induction n arbitrary: d)
  case 0
  then show ?case by (simp add: dangerous_deep)
next
  case (Suc n)
  have sudo: "exec_step (''sudo'' # c) = Inner c" for c
    by (rule executable_sudo) (simp add: executable_name_def lookup_key_def)
  have shell: "parse_shell_lc_literal_commands parse lower_rune (''sudo'' # c) = None" for c
  proof -
    have "\<not> posix_shell (dangerous_shell_type lower_rune ''sudo'')"
      by code_simp
    then show ?thesis by (simp add: parse_shell_lc_literal_commands_def split: list.split)
  qed
  have "first_some [x, None] = x" for x :: "dangerous_match option" by (cases x) simp_all
  then show ?case using Suc.IH [of "d + 1"] by (subst dangerous_at.simps) (simp add: sudo shell)
qed

text \<open>\<open>sudo\<close> does not hide a command, and nesting is bounded: behind up to eight of them the command itself
  is judged, at its depth; behind more it is dangerous whatever it is.\<close>

theorem sudo_depth_exact:
  "match_dangerous_command parse lower_rune (replicate n ''sudo'' @ command) =
     (if max_wrapper_depth < n then Some OtherDangerous else dangerous_at parse lower_rune n command)"
  using sudo_depth_from [of parse lower_rune 0] by (simp add: match_dangerous_command_def)

datatype wrapper = SudoWrapper bytes | EnvWrapper bytes "bytes list" | ShellWrapper bytes bytes bytes

fun wrap_command :: "wrapper \<Rightarrow> bytes list \<Rightarrow> bytes list" where
  "wrap_command (SudoWrapper program) c = program # c"
| "wrap_command (EnvWrapper program options) c = program # options @ ''--'' # c"
| "wrap_command (ShellWrapper shell flag script) c = [shell, flag, script]"

text \<open>A wrapper that runs the command: \<open>sudo\<close> or \<open>env\<close> by any path, with environment options; or a shell whose
  script has a call node with the command's words.\<close>

definition env_option :: "bytes \<Rightarrow> bool" where
  "env_option arg \<longleftrightarrow> arg = ''-i'' \<or> arg = ''--ignore-environment'' \<or> env_assignment arg"

fun wrapper_runs :: "(bytes \<Rightarrow> shell_file option) \<Rightarrow> (nat \<Rightarrow> nat) \<Rightarrow> wrapper \<Rightarrow> bytes list \<Rightarrow> bool" where
  "wrapper_runs parse lower_rune (SudoWrapper program) c \<longleftrightarrow> executable_name program = Some ''sudo''"
| "wrapper_runs parse lower_rune (EnvWrapper program options) c \<longleftrightarrow>
     executable_name program = Some ''env'' \<and> list_all env_option options"
| "wrapper_runs parse lower_rune (ShellWrapper shell flag script) c \<longleftrightarrow>
     (flag = ''-c'' \<or> flag = ''-lc'') \<and> posix_shell (dangerous_shell_type lower_rune shell) \<and>
     (case parse script of None \<Rightarrow> False | Some f \<Rightarrow> list_ex (\<lambda>args. literal_command args = Some c) (sf_calls f))"

fun wrap_all :: "wrapper list \<Rightarrow> bytes list \<Rightarrow> bytes list" where
  "wrap_all [] c = c"
| "wrap_all (w # ws) c = wrap_command w (wrap_all ws c)"

fun wrappers_run :: "(bytes \<Rightarrow> shell_file option) \<Rightarrow> (nat \<Rightarrow> nat) \<Rightarrow> wrapper list \<Rightarrow> bytes list \<Rightarrow> bool" where
  "wrappers_run parse lower_rune [] c \<longleftrightarrow> True"
| "wrappers_run parse lower_rune (w # ws) c \<longleftrightarrow>
     wrapper_runs parse lower_rune w (wrap_all ws c) \<and> wrappers_run parse lower_rune ws c"

lemma env_options_skipped: "list_all env_option options \<Longrightarrow> env_command (options @ ''--'' # c) = c"
  by (induction options) (auto simp: env_option_def env_assignment_def)

lemma map_filter_set: "x \<in> set xs \<Longrightarrow> f x = Some y \<Longrightarrow> y \<in> set (List.map_filter f xs)"
  by (force simp: List.map_filter_def)

lemma wrapper_dangerous:
  assumes "wrapper_runs parse lower_rune w c" "dangerous_at parse lower_rune 1 c \<noteq> None"
  shows "dangerous_at parse lower_rune 0 (wrap_command w c) \<noteq> None"
proof -
  have 0: "(0::nat) \<le> max_wrapper_depth" by simp
  show ?thesis
  proof (cases w)
    case (SudoWrapper program)
    then have "exec_step (wrap_command w c) = Inner c" using assms(1) executable_sudo by simp
    then show ?thesis unfolding dangerous_iff [OF 0] using assms(2) by auto
  next
    case (EnvWrapper program options)
    then have "exec_step (wrap_command w c) = Inner c" using assms(1) env_options_skipped by (simp add: exec_step_def)
    then show ?thesis unfolding dangerous_iff [OF 0] using assms(2) by auto
  next
    case (ShellWrapper shell flag script)
    then obtain f args where f: "parse script = Some f" "args \<in> set (sf_calls f)" "literal_command args = Some c"
      using assms(1) by (auto simp: list_ex_iff split: option.splits)
    have "parse_shell_lc_literal_commands parse lower_rune (wrap_command w c) = Some (List.map_filter literal_command (sf_calls f))"
      using ShellWrapper assms(1) f(1) by (auto simp: parse_shell_lc_literal_commands_def)
    moreover have "c \<in> set (List.map_filter literal_command (sf_calls f))" using f(2,3) by (rule map_filter_set)
    ultimately show ?thesis unfolding dangerous_iff [OF 0] using assms(2) by auto
  qed
qed


text \<open>A parser for one script, \<open>rm -rf $HOME\<close>.\<close>

definition one_script :: "bytes \<Rightarrow> shell_file option" where
  "one_script script =
     (if script = ''rm -rf $HOME''
      then Some \<lparr>sf_stmts = [Stmt False False False False 0 0 (CallExpr 0 [[Lit ''rm''], [Lit ''-rf''], [OtherPart]])],
             sf_last = 0, sf_calls = [[[Lit ''rm''], [Lit ''-rf''], [OtherPart]]]\<rparr> else None)"


end
