(* ===== verification/Approval_Requirement.thy ===== *)
theory Approval_Requirement
  imports Exec_Policy Shell_Quote
begin

text \<open>
  What must happen before a command may run, \<open>safety/safety.go\<close>: the decisions of the policy rules and of the
  heuristics on the parts of a command are combined into one requirement, with its reason and with the rule the
  user may be offered to remember.  The case table of Unicode is a parameter.
\<close>

section \<open>Types\<close>

datatype approval_mode = ApprovalNever | ApprovalOnRequest | ApprovalUnlessTrusted | ApprovalGranular | OtherApproval bytes

record approval_policy =
  ap_mode :: approval_mode
  ap_rules :: bool
  ap_sandbox_approval :: bool

datatype requirement_kind = ExecSkip | ExecNeedsApproval | ExecNeedsHumanApproval | ExecForbidden

record amendment =
  am_prefix :: "bytes list"
  am_decision :: decision

record requirement =
  rq_kind :: requirement_kind
  rq_reason :: bytes
  rq_bypass :: bool
  rq_amendment :: "amendment option"

record decided =
  dm_decision :: decision
  dm_is_policy :: bool
  dm_prefix :: "bytes list"
  dm_reason :: bytes

record evaluation =
  ev_decision :: decision
  ev_matches :: "decided list"

definition prompt_conflict_reason :: bytes where
  "prompt_conflict_reason = ''approval required by policy, but AskForApproval is set to Never''"

definition reject_sandbox_approval_reason :: bytes where
  "reject_sandbox_approval_reason = ''approval required by policy, but AskForApproval::Granular.sandbox_approval is false''"

definition reject_rules_approval_reason :: bytes where
  "reject_rules_approval_reason = ''approval required by policy rule, but AskForApproval::Granular.rules is false''"

section \<open>Decisions and reasons\<close>

definition prompt_rejected_by_policy :: "approval_policy \<Rightarrow> bool \<Rightarrow> bytes option" where
  "prompt_rejected_by_policy p prompt_is_rule = (case ap_mode p of
     ApprovalNever \<Rightarrow> Some prompt_conflict_reason
   | ApprovalGranular \<Rightarrow>
       if prompt_is_rule \<and> \<not> ap_rules p then Some reject_rules_approval_reason
       else if \<not> prompt_is_rule \<and> \<not> ap_sandbox_approval p then Some reject_sandbox_approval_reason
       else None
   | _ \<Rightarrow> None)"

definition strictest_match :: "decided list \<Rightarrow> decision" where
  "strictest_match ms =
     foldl (\<lambda>d m. if decision_rank (dm_decision m) > decision_rank d then dm_decision m else d) NoDecision ms"

text \<open>The policy rule that gives the reason: of those with the decision, the first with the longest prefix.\<close>

definition reason_match :: "decision \<Rightarrow> decided list \<Rightarrow> decided option" where
  "reason_match d ms = foldl (\<lambda>best m.
     if \<not> dm_is_policy m \<or> dm_decision m \<noteq> d then best
     else case best of
         None \<Rightarrow> Some m
       | Some b \<Rightarrow> if length (dm_prefix m) \<le> length (dm_prefix b) then best else Some m) None ms"

definition backquoted :: "bytes \<Rightarrow> bytes" where
  "backquoted s = CHR 0x60 # s @ [CHR 0x60]"

definition prompt_reason :: "bytes list \<Rightarrow> decided list \<Rightarrow> decision \<Rightarrow> bytes \<Rightarrow> bytes" where
  "prompt_reason command ms d label = (case reason_match d ms of
     None \<Rightarrow> ''''
   | Some m \<Rightarrow>
       if trim_space (dm_reason m) \<noteq> ''''
       then backquoted (shlex_join command) @ '' requires '' @ label @ '': '' @ trim_space (dm_reason m)
       else backquoted (shlex_join command) @ '' requires '' @ label @ '' by policy'')"

definition forbidden_reason :: "bytes list \<Rightarrow> decided list \<Rightarrow> bytes" where
  "forbidden_reason command ms = (case reason_match DecisionForbidden ms of
     None \<Rightarrow> backquoted (shlex_join command) @ '' rejected: blocked by policy''
   | Some m \<Rightarrow>
       if trim_space (dm_reason m) \<noteq> '''' then backquoted (shlex_join command) @ '' rejected: '' @ trim_space (dm_reason m)
       else backquoted (shlex_join command) @ '' rejected: policy forbids commands starting with '' @ backquoted (shlex_join (dm_prefix m)))"

section \<open>Rules offered to the user\<close>

definition banned_prefixes :: "bytes list list" where
  "banned_prefixes =
     [[''python3''], [''python3'', ''-''], [''python3'', ''-c''],
      [''python''], [''python'', ''-''], [''python'', ''-c''],
      [''py''], [''py'', ''-3''],
      [''git''],
      [''bash''], [''bash'', ''-lc''],
      [''sh''], [''sh'', ''-c''], [''sh'', ''-lc''],
      [''zsh''], [''zsh'', ''-lc''],
      [''pwsh''], [''pwsh'', ''-Command''], [''pwsh'', ''-c''],
      [''powershell''], [''powershell'', ''-Command''], [''powershell'', ''-c''],
      [''powershell.exe''], [''powershell.exe'', ''-Command''], [''powershell.exe'', ''-c''],
      [''env''], [''sudo''],
      [''node''], [''node'', ''-e''],
      [''perl''], [''perl'', ''-e''],
      [''ruby''], [''ruby'', ''-e''],
      [''php''], [''php'', ''-r''],
      [''lua''], [''lua'', ''-e''],
      [''osascript'']]"

definition banned_prefix_suggestion :: "(nat \<Rightarrow> nat) \<Rightarrow> bytes list \<Rightarrow> bool" where
  "banned_prefix_suggestion lower_rune prefix \<longleftrightarrow> prefix = [] \<or>
     list_ex (\<lambda>banned. to_lower lower_rune (join_with [CHR 0x00] prefix) = to_lower lower_rune (join_with [CHR 0x00] banned)) banned_prefixes"

definition allow_prefix :: "bytes list \<Rightarrow> amendment" where
  "allow_prefix prefix = \<lparr>am_prefix = prefix, am_decision = DecisionAllow\<rparr>"

definition first_suggestion :: "(nat \<Rightarrow> nat) \<Rightarrow> (decided \<Rightarrow> bool) \<Rightarrow> decided list \<Rightarrow> amendment option" where
  "first_suggestion lower_rune wanted ms =
     map_option (\<lambda>m. allow_prefix (dm_prefix m))
       (find (\<lambda>m. wanted m \<and> dm_prefix m \<noteq> [] \<and> \<not> banned_prefix_suggestion lower_rune (dm_prefix m)) ms)"

definition allow_amendment :: "(nat \<Rightarrow> nat) \<Rightarrow> decided list \<Rightarrow> amendment option" where
  "allow_amendment lower_rune ms =
     (if list_ex dm_is_policy ms then None else first_suggestion lower_rune (\<lambda>m. dm_decision m = DecisionAllow) ms)"

definition requested_amendment :: "(nat \<Rightarrow> nat) \<Rightarrow> bytes list \<Rightarrow> bool \<Rightarrow> decided list \<Rightarrow> amendment option" where
  "requested_amendment lower_rune prefix_rule allowed ms =
     (if \<not> allowed then None
      else if prefix_rule \<noteq> [] then
        (if banned_prefix_suggestion lower_rune prefix_rule then None
         else if list_ex dm_is_policy ms then None
         else Some (allow_prefix prefix_rule))
      else if list_ex (\<lambda>m. dm_is_policy m \<and> dm_decision m = DecisionPrompt) ms then None
      else first_suggestion lower_rune (\<lambda>m. \<not> dm_is_policy m \<and> dm_decision m = DecisionPrompt) ms)"

section \<open>The requirement\<close>

definition all_matches_are_policy_allows :: "decided list \<Rightarrow> bool" where
  "all_matches_are_policy_allows ms \<longleftrightarrow>
     ms \<noteq> [] \<and> list_all (\<lambda>m. dm_is_policy m \<and> dm_decision m = DecisionAllow) ms"

definition forbidden :: "bytes \<Rightarrow> requirement" where
  "forbidden reason = \<lparr>rq_kind = ExecForbidden, rq_reason = reason, rq_bypass = False, rq_amendment = None\<rparr>"

definition prompt_requirement ::
  "(nat \<Rightarrow> nat) \<Rightarrow> bytes list \<Rightarrow> approval_policy \<Rightarrow> evaluation \<Rightarrow> bytes list \<Rightarrow> bool \<Rightarrow> requirement" where
  "prompt_requirement lower_rune command p ev prefix_rule auto_amendment =
     (let prompt_is_rule = list_ex (\<lambda>m. dm_is_policy m \<and> dm_decision m = ev_decision ev) (ev_matches ev) in
      case prompt_rejected_by_policy p prompt_is_rule of
        Some reason \<Rightarrow> forbidden reason
      | None \<Rightarrow>
          if ev_decision ev = DecisionPromptUser
          then \<lparr>rq_kind = ExecNeedsHumanApproval,
                rq_reason = prompt_reason command (ev_matches ev) DecisionPromptUser ''human approval'',
                rq_bypass = False, rq_amendment = None\<rparr>
          else \<lparr>rq_kind = ExecNeedsApproval,
                rq_reason = prompt_reason command (ev_matches ev) DecisionPrompt ''approval'',
                rq_bypass = False, rq_amendment = requested_amendment lower_rune prefix_rule auto_amendment (ev_matches ev)\<rparr>)"

definition requirement_from_evaluation ::
  "(nat \<Rightarrow> nat) \<Rightarrow> bytes list \<Rightarrow> approval_policy \<Rightarrow> evaluation \<Rightarrow> bytes list \<Rightarrow> bool \<Rightarrow> requirement" where
  "requirement_from_evaluation lower_rune command p ev prefix_rule auto_amendment = (case ev_decision ev of
     DecisionForbidden \<Rightarrow> forbidden (forbidden_reason command (ev_matches ev))
   | DecisionPrompt \<Rightarrow> prompt_requirement lower_rune command p ev prefix_rule auto_amendment
   | DecisionPromptUser \<Rightarrow> prompt_requirement lower_rune command p ev prefix_rule auto_amendment
   | DecisionAllow \<Rightarrow>
       \<lparr>rq_kind = ExecSkip, rq_reason = '''', rq_bypass = all_matches_are_policy_allows (ev_matches ev),
        rq_amendment = (if auto_amendment then allow_amendment lower_rune (ev_matches ev) else None)\<rparr>
   | _ \<Rightarrow> forbidden ''unknown exec policy decision'')"

section \<open>What the requirement promises\<close>

lemma strictest_match_from:
  "foldl (\<lambda>d m. if decision_rank (dm_decision m) > decision_rank d then dm_decision m else d) d ms = e \<Longrightarrow>
   (e = d \<or> e \<in> dm_decision ` set ms) \<and> decision_rank d \<le> decision_rank e \<and>
   (\<forall>m \<in> set ms. decision_rank (dm_decision m) \<le> decision_rank e)"
proof (induction ms arbitrary: d)
  case (Cons m ms)
  from Cons.IH [OF Cons.prems [unfolded foldl_Cons]] show ?case by (auto split: if_splits)
qed simp

lemma strictest_match_max:
  "strictest_match ms = NoDecision \<or> strictest_match ms \<in> dm_decision ` set ms"
  "m \<in> set ms \<Longrightarrow> decision_rank (dm_decision m) \<le> decision_rank (strictest_match ms)"
  using strictest_match_from [of NoDecision ms] unfolding strictest_match_def by blast+

lemma suggestion_fresh:
  "first_suggestion lower_rune wanted ms = Some a \<Longrightarrow>
   am_decision a = DecisionAllow \<and> am_prefix a \<noteq> [] \<and> \<not> banned_prefix_suggestion lower_rune (am_prefix a)"
  by (auto simp: first_suggestion_def allow_prefix_def find_Some_iff)

text \<open>A rule is offered to be remembered only when it allows a non-empty prefix that is not banned; never for a command
  that is forbidden or that a person must decide on; and never beside a policy rule that already prompts for it.\<close>

theorem amendment_sound:
  "case rq_amendment (requirement_from_evaluation lower_rune command p ev prefix_rule auto_amendment) of
     None \<Rightarrow> True
   | Some a \<Rightarrow>
       am_decision a = DecisionAllow \<and> am_prefix a \<noteq> [] \<and> \<not> banned_prefix_suggestion lower_rune (am_prefix a) \<and>
       auto_amendment \<and> (ev_decision ev = DecisionPrompt \<or> ev_decision ev = DecisionAllow) \<and>
       \<not> list_ex (\<lambda>m. dm_is_policy m \<and> dm_decision m = ev_decision ev) (ev_matches ev)"
proof (cases "rq_amendment (requirement_from_evaluation lower_rune command p ev prefix_rule auto_amendment)")
  case (Some a)
  consider (prompt) "ev_decision ev = DecisionPrompt" "requested_amendment lower_rune prefix_rule auto_amendment (ev_matches ev) = Some a"
    | (allow) "ev_decision ev = DecisionAllow" "auto_amendment" "allow_amendment lower_rune (ev_matches ev) = Some a"
    using Some
    by (auto simp: requirement_from_evaluation_def prompt_requirement_def forbidden_def Let_def
        split: decision.splits option.splits if_splits)
  then show ?thesis
  proof cases
    case prompt
    have "am_decision a = DecisionAllow \<and> am_prefix a \<noteq> [] \<and> \<not> banned_prefix_suggestion lower_rune (am_prefix a)"
      "auto_amendment" "\<not> list_ex (\<lambda>m. dm_is_policy m \<and> dm_decision m = DecisionPrompt) (ev_matches ev)"
      using prompt(2) suggestion_fresh
      by (auto simp: requested_amendment_def allow_prefix_def list_ex_iff split: if_splits)
    then show ?thesis unfolding Some option.case prompt(1) by blast
  next
    case allow
    have "am_decision a = DecisionAllow \<and> am_prefix a \<noteq> [] \<and> \<not> banned_prefix_suggestion lower_rune (am_prefix a)"
      "\<not> list_ex (\<lambda>m. dm_is_policy m \<and> dm_decision m = DecisionAllow) (ev_matches ev)"
      using allow(3) suggestion_fresh by (auto simp: allow_amendment_def list_ex_iff split: if_splits)
    then show ?thesis using allow(2) unfolding Some option.case allow(1) by blast
  qed
qed simp

text \<open>The sandbox may be bypassed only when every part of the command is allowed by a policy rule.\<close>

lemma bypass_needs_rules:
  "rq_bypass (requirement_from_evaluation lower_rune command p ev prefix_rule auto_amendment) \<Longrightarrow>
   ev_decision ev = DecisionAllow \<and> ev_matches ev \<noteq> [] \<and> list_all (\<lambda>m. dm_is_policy m \<and> dm_decision m = DecisionAllow) (ev_matches ev)"
  by (auto simp: requirement_from_evaluation_def prompt_requirement_def forbidden_def all_matches_are_policy_allows_def Let_def
      split: decision.splits option.splits if_splits)

lemma skip_only_allowed:
  "rq_kind (requirement_from_evaluation lower_rune command p ev prefix_rule auto_amendment) = ExecSkip \<Longrightarrow>
   ev_decision ev = DecisionAllow"
  by (auto simp: requirement_from_evaluation_def prompt_requirement_def forbidden_def Let_def
      split: decision.splits option.splits if_splits)

text \<open>Where approvals are never asked, what is not allowed is forbidden.\<close>

lemma never_forbids:
  "ap_mode p = ApprovalNever \<Longrightarrow> ev_decision ev \<noteq> DecisionAllow \<Longrightarrow>
   rq_kind (requirement_from_evaluation lower_rune command p ev prefix_rule auto_amendment) = ExecForbidden"
  by (auto simp: requirement_from_evaluation_def prompt_requirement_def prompt_rejected_by_policy_def forbidden_def Let_def
      split: decision.splits)

end
