(* ===== verification/Exec_Approval.thy ===== *)
theory Exec_Approval
  imports Dangerous_Command Approval_Requirement Exec_Requirements Output_Truncation
begin

text \<open>
  The gate in front of every shell command, \<open>tool/exec_policy_requirement.go\<close> and \<open>tool/dangerous_command.go\<close> on a POSIX
  host: the commands of the call are matched against the policy, those without a rule are judged by the
  heuristics, and the request is rejected, marked for approval, or let through.  The canonical form of a token,
  the shell parser and the case table of Unicode are parameters.
\<close>

section \<open>Requests\<close>

datatype ask_for_approval = AskUntrusted | AskOnRequest | AskGranular | AskNever | AskOther bytes

datatype sandbox_kind = SandboxReadOnly | SandboxWorkspaceWrite | SandboxDangerFullAccess | SandboxExternal | SandboxOther bytes

record sandbox_policy =
  sp_kind :: sandbox_kind
  sp_full_write :: bool
  sp_full_write_set :: bool

record permission_profile =
  pf_disabled :: bool
  pf_policy :: "sandbox_policy option"
  pf_network :: bool
  pf_denied_reads :: "bytes list"

datatype sandbox_permissions = UseDefault | RequireEscalated | WithAdditionalPermissions | OtherPermissions bytes

record sandbox_profile =
  sb_tag :: bytes
  sb_network :: bool
  sb_roots :: "bytes list"

record shell_request =
  sr_command :: "bytes list"
  sr_prefix_rule :: "bytes list"
  sr_permissions :: sandbox_permissions
  sr_profile :: "permission_profile option"
  sr_profile_id :: bytes
  sr_profile_json :: bytes
  sr_sandbox_profile :: "sandbox_profile option"
  sr_managed_network :: bool
  sr_approval_required :: bool
  sr_approval_reason :: bytes

record shell_validation =
  sv_policy :: "policy option"
  sv_approval :: ask_for_approval
  sv_granular_rules :: bool
  sv_granular_sandbox :: bool
  sv_preapproved :: bool
  sv_additional_preapproved :: bool
  sv_ignore_prefix_rules :: bool

record approval_context =
  ac_policy :: "policy option"
  ac_approval :: ask_for_approval
  ac_profile :: "permission_profile option"
  ac_permissions :: sandbox_permissions
  ac_commands :: "bytes list list"

section \<open>Permissions\<close>

definition requests_sandbox_override :: "sandbox_permissions \<Rightarrow> bool" where
  "requests_sandbox_override p \<longleftrightarrow> p = RequireEscalated \<or> p = WithAdditionalPermissions"

definition read_only_policy :: sandbox_policy where
  "read_only_policy = \<lparr>sp_kind = SandboxReadOnly, sp_full_write = False, sp_full_write_set = False\<rparr>"

definition danger_full_access_policy :: sandbox_policy where
  "danger_full_access_policy = \<lparr>sp_kind = SandboxDangerFullAccess, sp_full_write = False, sp_full_write_set = False\<rparr>"

definition legacy_sandbox_policy :: "permission_profile \<Rightarrow> sandbox_policy" where
  "legacy_sandbox_policy p =
     (if pf_disabled p then danger_full_access_policy
      else case pf_policy p of None \<Rightarrow> read_only_policy | Some s \<Rightarrow> s)"

definition has_full_disk_write_access :: "sandbox_policy \<Rightarrow> bool" where
  "has_full_disk_write_access p \<longleftrightarrow>
     (if sp_kind p = SandboxDangerFullAccess \<or> sp_kind p = SandboxExternal then True
      else sp_full_write_set p \<and> sp_full_write p)"

definition profile_restricted :: "permission_profile option \<Rightarrow> bool" where
  "profile_restricted profile = (case profile of
     None \<Rightarrow> True
   | Some p \<Rightarrow>
       if pf_disabled p then False
       else let policy = legacy_sandbox_policy p in
         \<not> (sp_kind policy = SandboxExternal \<or> has_full_disk_write_access policy))"

definition unsandboxed_execution_allowed :: "permission_profile option \<Rightarrow> bool" where
  "unsandboxed_execution_allowed profile = (case profile of None \<Rightarrow> True | Some p \<Rightarrow> pf_denied_reads p = [])"

definition full_access_permission_profile :: permission_profile where
  "full_access_permission_profile =
     \<lparr>pf_disabled = True, pf_policy = Some danger_full_access_policy, pf_network = True, pf_denied_reads = []\<rparr>"

text \<open>\<open>buildShellSandboxProfile\<close> of that profile: a full access policy has no writable roots of its own.\<close>

definition full_access_sandbox_profile :: sandbox_profile where
  "full_access_sandbox_profile = \<lparr>sb_tag = ''danger-full-access'', sb_network = True, sb_roots = []\<rparr>"

definition shell_approval_policy :: "shell_validation \<Rightarrow> approval_policy" where
  "shell_approval_policy v = \<lparr>ap_mode = (case sv_approval v of
       AskNever \<Rightarrow> ApprovalNever | AskOnRequest \<Rightarrow> ApprovalOnRequest | AskUntrusted \<Rightarrow> ApprovalUnlessTrusted
     | AskGranular \<Rightarrow> ApprovalGranular | AskOther s \<Rightarrow> OtherApproval ''''),
     ap_rules = sv_granular_rules v, ap_sandbox_approval = sv_granular_sandbox v\<rparr>"

section \<open>Evaluation\<close>

type_synonym shell_parser = "bytes \<Rightarrow> shell_file option"

definition exec_policy_commands :: "shell_parser \<Rightarrow> (nat \<Rightarrow> nat) \<Rightarrow> bytes list \<Rightarrow> bytes list list" where
  "exec_policy_commands parse lower_rune command =
     (case Option.bind (extract_posix_shell_command lower_rune command) (parse_word_only_commands parse) of
        Some (c # cs) \<Rightarrow> c # cs
      | _ \<Rightarrow> [command])"

definition policy_without_allow_rules :: "policy option \<Rightarrow> policy option" where
  "policy_without_allow_rules policy = map_option (\<lambda>p. let q = clone_policy p in
     q\<lparr>xp_rules := filter (\<lambda>r. \<not> (xr_decision r = NoDecision \<or> xr_decision r = DecisionAllow)) (xp_rules q)\<rparr>) policy"

definition approval_context_for :: "shell_parser \<Rightarrow> (nat \<Rightarrow> nat) \<Rightarrow> shell_request \<Rightarrow> shell_validation \<Rightarrow> approval_context" where
  "approval_context_for parse lower_rune r v =
     \<lparr>ac_policy = (if sv_ignore_prefix_rules v then policy_without_allow_rules (sv_policy v) else sv_policy v),
      ac_approval = sv_approval v,
      ac_profile = sr_profile r,
      ac_permissions = (if sv_preapproved v \<or> sv_additional_preapproved v then UseDefault else sr_permissions r),
      ac_commands = exec_policy_commands parse lower_rune (sr_command r)\<rparr>"

definition exec_policy_matches :: "(bytes \<Rightarrow> bytes) \<Rightarrow> policy option \<Rightarrow> bytes list \<Rightarrow> rule_match list" where
  "exec_policy_matches canon policy command =
     (case policy of None \<Rightarrow> [] | Some p \<Rightarrow> co_matched (evaluate_command canon p command))"

definition all_allow :: "rule_match list \<Rightarrow> bool" where
  "all_allow ms \<longleftrightarrow> list_all (\<lambda>m. rm_decision m = DecisionAllow) ms"

definition dangerous_decision :: "approval_context \<Rightarrow> decision" where
  "dangerous_decision c = (if ac_approval c = AskNever then DecisionForbidden else DecisionPrompt)"

definition is_dangerous :: "shell_parser \<Rightarrow> (nat \<Rightarrow> nat) \<Rightarrow> bytes list \<Rightarrow> bool" where
  "is_dangerous parse lower_rune command \<longleftrightarrow> match_dangerous_command parse lower_rune command \<noteq> None"

text \<open>\<open>execPolicyFallbackDecision\<close> on a POSIX host.\<close>

definition fallback_decision :: "shell_parser \<Rightarrow> (nat \<Rightarrow> nat) \<Rightarrow> approval_context \<Rightarrow> bytes list \<Rightarrow> decision" where
  "fallback_decision parse lower_rune c command =
     (if is_dangerous parse lower_rune command then dangerous_decision c
      else case ac_approval c of
          AskNever \<Rightarrow> DecisionAllow
        | AskUntrusted \<Rightarrow> DecisionPrompt
        | _ \<Rightarrow> if \<not> profile_restricted (ac_profile c) then DecisionAllow
               else if requests_sandbox_override (ac_permissions c) then DecisionPrompt
               else DecisionAllow)"

definition heuristic_match :: "decision \<Rightarrow> bytes list \<Rightarrow> decided" where
  "heuristic_match d command = \<lparr>dm_decision = d, dm_is_policy = False, dm_prefix = command, dm_reason = ''''\<rparr>"

definition policy_match :: "rule_match \<Rightarrow> decided" where
  "policy_match m = \<lparr>dm_decision = rm_decision m, dm_is_policy = True, dm_prefix = rm_prefix m,
     dm_reason = trim_space (rm_justification m)\<rparr>"

definition command_matches ::
  "(bytes \<Rightarrow> bytes) \<Rightarrow> shell_parser \<Rightarrow> (nat \<Rightarrow> nat) \<Rightarrow> approval_context \<Rightarrow> bytes list \<Rightarrow> decided list" where
  "command_matches canon parse lower_rune c command =
     (let matched = exec_policy_matches canon (ac_policy c) command in
      if matched \<noteq> [] \<and> all_allow matched \<and> is_dangerous parse lower_rune command
        then [heuristic_match (dangerous_decision c) command]
      else if matched = [] then [heuristic_match (fallback_decision parse lower_rune c command) command]
      else map policy_match matched)"

definition evaluate_shell ::
  "(bytes \<Rightarrow> bytes) \<Rightarrow> shell_parser \<Rightarrow> (nat \<Rightarrow> nat) \<Rightarrow> approval_context \<Rightarrow> evaluation" where
  "evaluate_shell canon parse lower_rune c =
     (let ms = concat (map (command_matches canon parse lower_rune c) (ac_commands c)) in
      \<lparr>ev_decision = strictest_match ms, ev_matches = ms\<rparr>)"

section \<open>The rule the model asks for\<close>

definition prefix_allow_rule :: "bytes list \<Rightarrow> prefix_rule" where
  "prefix_allow_rule prefix = \<lparr>xr_pattern = map (\<lambda>t. [trim_space t]) prefix, xr_canonical = False, xr_decision = DecisionAllow,
     xr_justification = '''', xr_matches = [], xr_not_matches = [], xr_source = ''''\<rparr>"

text \<open>The context with the prefix allowed: the policy, or an empty one, with the rule appended.\<close>

definition amended_context :: "approval_context \<Rightarrow> bytes list \<Rightarrow> approval_context" where
  "amended_context c prefix =
     (let p = (case ac_policy c of None \<Rightarrow> \<lparr>xp_rules = [], xp_network = [], xp_hosts = None\<rparr> | Some p \<Rightarrow> clone_policy p)
      in c\<lparr>ac_policy := Some (p\<lparr>xp_rules := xp_rules p @ [prefix_allow_rule prefix]\<rparr>)\<rparr>)"

definition prefix_approves_all_commands ::
  "(bytes \<Rightarrow> bytes) \<Rightarrow> shell_parser \<Rightarrow> (nat \<Rightarrow> nat) \<Rightarrow> approval_context \<Rightarrow> bytes list \<Rightarrow> bool" where
  "prefix_approves_all_commands canon parse lower_rune c prefix \<longleftrightarrow>
     (if list_ex (\<lambda>t. trim_space t = '''') prefix then False
      else list_all (\<lambda>command.
        let matched = exec_policy_matches canon (ac_policy (amended_context c prefix)) command in
        if matched = [] then fallback_decision parse lower_rune (amended_context c prefix) command = DecisionAllow
        else all_allow matched) (ac_commands c))"

definition validated_prefix_rule ::
  "(bytes \<Rightarrow> bytes) \<Rightarrow> shell_parser \<Rightarrow> (nat \<Rightarrow> nat) \<Rightarrow> approval_context \<Rightarrow> evaluation \<Rightarrow> bytes list \<Rightarrow> bytes list" where
  "validated_prefix_rule canon parse lower_rune c ev prefix =
     (if prefix = [] \<or> banned_prefix_suggestion lower_rune prefix then []
      else if list_ex dm_is_policy (ev_matches ev) then []
      else if \<not> prefix_approves_all_commands canon parse lower_rune c prefix then []
      else prefix)"

section \<open>Applying the requirement\<close>

text \<open>\<open>dangerousCommandApprovalWithinPermissions\<close> on a POSIX platform.\<close>

definition dangerous_approval_within_permissions ::
  "shell_parser \<Rightarrow> (nat \<Rightarrow> nat) \<Rightarrow> shell_request \<Rightarrow> shell_validation \<Rightarrow> approval_context \<Rightarrow> evaluation \<Rightarrow> requirement \<Rightarrow> bool" where
  "dangerous_approval_within_permissions parse lower_rune r v c ev rq \<longleftrightarrow>
     (if trim_space (rq_reason rq) \<noteq> reject_sandbox_approval_reason then False
      else if ap_mode (shell_approval_policy v) \<noteq> ApprovalGranular \<or> ap_sandbox_approval (shell_approval_policy v) then False
      else if list_ex (\<lambda>m. dm_is_policy m \<and> dm_decision m = ev_decision ev) (ev_matches ev) then False
      else list_ex (is_dangerous parse lower_rune) (ac_commands c) \<and> \<not> requests_sandbox_override (sr_permissions r))"

definition bypass_sandbox :: "shell_request \<Rightarrow> shell_request" where
  "bypass_sandbox r =
     (if \<not> unsandboxed_execution_allowed (sr_profile r) then r
      else if sr_managed_network r then r
      else r\<lparr>sr_permissions := RequireEscalated, sr_profile_id := ''danger-full-access'',
             sr_profile := Some full_access_permission_profile, sr_profile_json := '''',
             sr_sandbox_profile := Some full_access_sandbox_profile\<rparr>)"

definition offered_prefix :: "requirement \<Rightarrow> bytes list" where
  "offered_prefix rq = (case rq_amendment rq of None \<Rightarrow> [] | Some a \<Rightarrow> am_prefix a)"

text \<open>The rejection, cut to 900 bytes; the inner \<open>None\<close> would be a panic while cutting.\<close>

definition rejection :: "bytes \<Rightarrow> bytes option" where
  "rejection reason =
     truncate_middle_chars (if trim_space reason = '''' then ''command rejected by exec policy'' else trim_space reason) 900"

definition apply_exec_policy_requirement ::
  "(bytes \<Rightarrow> bytes) \<Rightarrow> shell_parser \<Rightarrow> (nat \<Rightarrow> nat) \<Rightarrow> shell_request \<Rightarrow> shell_validation \<Rightarrow> bytes option + shell_request" where
  "apply_exec_policy_requirement canon parse lower_rune r v =
     (let c = approval_context_for parse lower_rune r v;
          ev = evaluate_shell canon parse lower_rune c;
          prefix = validated_prefix_rule canon parse lower_rune c ev (sr_prefix_rule r);
          rq = requirement_from_evaluation lower_rune (sr_command r) (shell_approval_policy v) ev prefix (\<not> sv_ignore_prefix_rules v)
      in case rq_kind rq of
           ExecForbidden \<Rightarrow>
             if dangerous_approval_within_permissions parse lower_rune r v c ev rq
             then (if sv_preapproved v then Inr r
                   else Inr (r\<lparr>sr_approval_required := True, sr_approval_reason := '''', sr_prefix_rule := []\<rparr>))
             else Inl (rejection (rq_reason rq))
         | ExecSkip \<Rightarrow>
             if sv_preapproved v then Inr r
             else let r1 = r\<lparr>sr_approval_required := False, sr_prefix_rule := offered_prefix rq\<rparr>
               in Inr (if rq_bypass rq then bypass_sandbox r1 else r1)
         | _ \<Rightarrow>
             if sv_preapproved v then Inr r
             else Inr (r\<lparr>sr_approval_required := True,
                 sr_approval_reason := (if trim_space (rq_reason rq) \<noteq> '''' then trim_space (rq_reason rq) else sr_approval_reason r),
                 sr_prefix_rule := offered_prefix rq\<rparr>))"

text \<open>\<open>applyDangerousCommandRequirement\<close>, which runs before it on the whole argument vector.\<close>

definition apply_dangerous_command_requirement ::
  "shell_parser \<Rightarrow> (nat \<Rightarrow> nat) \<Rightarrow> shell_request \<Rightarrow> shell_validation \<Rightarrow> bytes option + shell_request" where
  "apply_dangerous_command_requirement parse lower_rune r v =
     (if sv_preapproved v then Inr r
      else case match_dangerous_command parse lower_rune (sr_command r) of
          None \<Rightarrow> Inr r
        | Some m \<Rightarrow>
            if sv_approval v = AskNever
            then Inl (truncate_middle_chars (backquoted (shlex_join (sr_command r)) @ '' rejected: '' @ rejection_reason m) 900)
            else Inr (r\<lparr>sr_approval_required := True\<rparr>))"

text \<open>The two gates in the order \<open>prepareExecCommand\<close> calls them.\<close>

definition approval_gates ::
  "(bytes \<Rightarrow> bytes) \<Rightarrow> shell_parser \<Rightarrow> (nat \<Rightarrow> nat) \<Rightarrow> shell_request \<Rightarrow> shell_validation \<Rightarrow> bytes option + shell_request" where
  "approval_gates canon parse lower_rune r v =
     bind_res (apply_dangerous_command_requirement parse lower_rune r v)
       (\<lambda>r'. apply_exec_policy_requirement canon parse lower_rune r' v)"


section \<open>Dangerous commands\<close>

definition known_decisions :: "policy option \<Rightarrow> bool" where
  "known_decisions policy \<longleftrightarrow>
     (case policy of None \<Rightarrow> True | Some p \<Rightarrow> list_all (\<lambda>r. 0 < decision_rank (effective_decision r)) (xp_rules p))"

lemma matches_known:
  assumes "known_decisions policy" "m \<in> set (exec_policy_matches canon policy command)"
  shows "0 < decision_rank (rm_decision m)"
proof (cases policy)
  case (Some p)
  then have "rm_decision m \<in> rm_decision ` set (matches_for_command canon p command False)"
    using assms(2) by (auto simp: exec_policy_matches_def evaluate_command_def output_of_def)
  then obtain r where "r \<in> set (xp_rules p)" "rm_decision m = effective_decision r"
    unfolding decisions_exact by blast
  then show ?thesis using assms(1) Some by (auto simp: known_decisions_def list_all_iff)
qed (use assms(2) in \<open>simp add: exec_policy_matches_def\<close>)

lemma known_without_allow: "known_decisions policy \<Longrightarrow> known_decisions (policy_without_allow_rules policy)"
  by (cases policy) (auto simp: known_decisions_def policy_without_allow_rules_def clone_policy_def list_all_iff Let_def)

lemma rank_above_allow: "0 < decision_rank d \<Longrightarrow> d \<noteq> DecisionAllow \<Longrightarrow> 1 < decision_rank d"
  by (cases d) auto

lemma dangerous_decision_rank: "1 < decision_rank (dangerous_decision c)"
  by (simp add: dangerous_decision_def)

lemma dangerous_not_allowed:
  assumes "known_decisions (ac_policy c)" "is_dangerous parse lower_rune command"
  shows "\<exists>m \<in> set (command_matches canon parse lower_rune c command). 1 < decision_rank (dm_decision m)"
proof -
  define matched where "matched = exec_policy_matches canon (ac_policy c) command"
  consider (allowed) "matched \<noteq> []" "all_allow matched" | (unmatched) "matched = []"
    | (other) m where "m \<in> set matched" "rm_decision m \<noteq> DecisionAllow" "\<not> all_allow matched" "matched \<noteq> []"
    by (auto simp: all_allow_def list_all_iff)
  then show ?thesis
  proof cases
    case allowed
    then have "command_matches canon parse lower_rune c command = [heuristic_match (dangerous_decision c) command]"
      using assms(2) by (simp add: command_matches_def matched_def Let_def)
    then show ?thesis using dangerous_decision_rank by (simp add: heuristic_match_def)
  next
    case unmatched
    then have "command_matches canon parse lower_rune c command = [heuristic_match (dangerous_decision c) command]"
      using assms(2) by (simp add: command_matches_def matched_def Let_def fallback_decision_def)
    then show ?thesis using dangerous_decision_rank by (simp add: heuristic_match_def)
  next
    case other
    then have "command_matches canon parse lower_rune c command = map policy_match matched"
      by (simp add: command_matches_def matched_def Let_def)
    moreover have "1 < decision_rank (rm_decision m)"
      using rank_above_allow matches_known [OF assms(1)] other(1,2) unfolding matched_def by blast
    ultimately show ?thesis using other(1) by (auto simp: policy_match_def)
  qed
qed

lemma evaluate_above_allow:
  assumes "command \<in> set (ac_commands c)" "m \<in> set (command_matches canon parse lower_rune c command)" "1 < decision_rank (dm_decision m)"
  shows "ev_decision (evaluate_shell canon parse lower_rune c) \<noteq> DecisionAllow"
proof -
  have "m \<in> set (concat (map (command_matches canon parse lower_rune c) (ac_commands c)))" using assms by auto
  from strictest_match_max(2) [OF this] assms(3) show ?thesis by (auto simp: evaluate_shell_def Let_def)
qed

text \<open>The request after the gate, when it is neither rejected nor already approved.\<close>

lemma apply_not_allowed:
  assumes "\<not> sv_preapproved v"
    and "ev_decision (evaluate_shell canon parse lower_rune (approval_context_for parse lower_rune r v)) \<noteq> DecisionAllow"
    and "apply_exec_policy_requirement canon parse lower_rune r v = Inr r'"
  shows "sr_approval_required r' \<and> sr_permissions r' = sr_permissions r \<and> sr_profile r' = sr_profile r \<and> sv_approval v \<noteq> AskNever"
proof -
  let ?c = "approval_context_for parse lower_rune r v"
  let ?ev = "evaluate_shell canon parse lower_rune ?c"
  define rq where "rq = requirement_from_evaluation lower_rune (sr_command r) (shell_approval_policy v) ?ev
    (validated_prefix_rule canon parse lower_rune ?c ?ev (sr_prefix_rule r)) (\<not> sv_ignore_prefix_rules v)"
  have skip: "rq_kind rq \<noteq> ExecSkip" using skip_only_allowed assms(2) unfolding rq_def by blast
  have "rq_kind rq = ExecForbidden" if "sv_approval v = AskNever"
    unfolding rq_def by (rule never_forbids) (use that assms(2) in \<open>simp_all add: shell_approval_policy_def\<close>)
  moreover have "\<not> dangerous_approval_within_permissions parse lower_rune r v ?c ?ev rq" if "sv_approval v = AskNever"
    using that by (simp add: dangerous_approval_within_permissions_def shell_approval_policy_def)
  ultimately have "sv_approval v \<noteq> AskNever"
    using assms(3) by (auto simp: apply_exec_policy_requirement_def Let_def rq_def [symmetric])
  then show ?thesis
    using assms(1,3) skip
    by (auto simp: apply_exec_policy_requirement_def Let_def rq_def [symmetric] split: requirement_kind.splits if_splits)
qed


definition example_request :: "bytes list \<Rightarrow> shell_request" where
  "example_request command = \<lparr>sr_command = command, sr_prefix_rule = [], sr_permissions = UseDefault, sr_profile = None,
     sr_profile_id = '''', sr_profile_json = '''', sr_sandbox_profile = None, sr_managed_network = False,
     sr_approval_required = False, sr_approval_reason = ''''\<rparr>"

definition example_validation :: "policy option \<Rightarrow> ask_for_approval \<Rightarrow> shell_validation" where
  "example_validation p a = \<lparr>sv_policy = p, sv_approval = a, sv_granular_rules = True, sv_granular_sandbox = True,
     sv_preapproved = False, sv_additional_preapproved = False, sv_ignore_prefix_rules = False\<rparr>"

definition no_parser :: shell_parser where
  "no_parser script = None"

definition allow_rm :: "policy option" where
  "allow_rm = Some \<lparr>xp_rules = [allow_rule [[''rm'']]], xp_network = [], xp_hosts = None\<rparr>"

lemma plain_command: "length command \<noteq> 3 \<Longrightarrow> exec_policy_commands parse lower_rune command = [command]"
proof -
  assume "length command \<noteq> 3"
  then have "extract_posix_shell_command lower_rune command = None"
    by (auto simp: extract_posix_shell_command_def split: list.split)
  then show ?thesis by (simp add: exec_policy_commands_def)
qed

lemma rm_dangerous: "is_dangerous parse lower_rune [''rm'', ''-f'', ''x'', ''y'']"
proof -
  have "rm_args_include_force_option [''-f'', ''x'', ''y'']" by code_simp
  then have "exec_step [''rm'', ''-f'', ''x'', ''y''] = Matched ForcedRm" by (simp add: exec_step_def executable_name_def lookup_key_def)
  then show ?thesis unfolding is_dangerous_def match_dangerous_command_def by (subst dangerous_iff) simp_all
qed



section \<open>What runs unasked\<close>

lemma heuristic_allowed: "decision_rank (fallback_decision parse lower_rune c command) \<le> 1 \<Longrightarrow> fallback_decision parse lower_rune c command = DecisionAllow"
  by (auto simp: fallback_decision_def dangerous_decision_def split: ask_for_approval.splits if_splits)

definition runs_unasked ::
  "(bytes \<Rightarrow> bytes) \<Rightarrow> shell_parser \<Rightarrow> (nat \<Rightarrow> nat) \<Rightarrow> approval_context \<Rightarrow> bytes list \<Rightarrow> bool" where
  "runs_unasked canon parse lower_rune c command \<longleftrightarrow> \<not> is_dangerous parse lower_rune command \<and>
     (let matched = exec_policy_matches canon (ac_policy c) command in
      if matched = [] then fallback_decision parse lower_rune c command = DecisionAllow else all_allow matched)"

lemma allowed_runs_unasked:
  assumes known: "known_decisions (ac_policy c)" and command: "command \<in> set (ac_commands c)"
    and allow: "ev_decision (evaluate_shell canon parse lower_rune c) = DecisionAllow"
  shows "runs_unasked canon parse lower_rune c command"
proof -
  let ?ms = "command_matches canon parse lower_rune c command"
  let ?matched = "exec_policy_matches canon (ac_policy c) command"
  have low: "decision_rank (dm_decision m) \<le> 1" if "m \<in> set ?ms" for m
    using evaluate_above_allow [OF command that] allow by force
  have safe: "\<not> is_dangerous parse lower_rune command"
    using dangerous_not_allowed [OF known] low by (meson leD)
  show ?thesis
  proof (cases "?matched = []")
    case True
    then have "?ms = [heuristic_match (fallback_decision parse lower_rune c command) command]"
      by (simp add: command_matches_def Let_def)
    then show ?thesis using True safe low heuristic_allowed by (simp add: runs_unasked_def heuristic_match_def)
  next
    case False
    then have ms: "?ms = map policy_match ?matched" using safe by (simp add: command_matches_def Let_def)
    have "rm_decision m = DecisionAllow" if "m \<in> set ?matched" for m
      using low [of "policy_match m"] rank_above_allow [OF matches_known [OF known that]] that
      by (auto simp: ms policy_match_def)
    then show ?thesis using False safe by (simp add: runs_unasked_def all_allow_def list_all_iff)
  qed
qed

lemma bypass_matched:
  assumes "all_matches_are_policy_allows (ev_matches (evaluate_shell canon parse lower_rune c))" "command \<in> set (ac_commands c)"
  shows "exec_policy_matches canon (ac_policy c) command \<noteq> []"
proof
  assume "exec_policy_matches canon (ac_policy c) command = []"
  then have "heuristic_match (fallback_decision parse lower_rune c command) command \<in> set (ev_matches (evaluate_shell canon parse lower_rune c))"
    using assms(2) by (force simp: evaluate_shell_def command_matches_def Let_def)
  then show False using assms(1) by (auto simp: all_matches_are_policy_allows_def list_all_iff heuristic_match_def)
qed

text \<open>C6: what runs without being asked.  A call that the gate lets through unasked has no dangerous command; each of its
  commands either matches policy rules that all allow it or, matching none, is allowed by the approval policy.  It
  leaves the sandbox only when every command matches such a rule, nothing is denied to be read and no
  managed network is in force.\<close>

theorem unasked_means_allowed:
  fixes r :: shell_request and parse :: shell_parser and lower_rune :: "nat \<Rightarrow> nat"
  assumes "known_decisions (sv_policy v)" "\<not> sv_preapproved v"
  defines "c \<equiv> approval_context_for parse lower_rune r v"
  shows "case apply_exec_policy_requirement canon parse lower_rune r v of
      Inl reason \<Rightarrow> True
    | Inr r' \<Rightarrow>
        if sr_approval_required r' then True
        else list_all (runs_unasked canon parse lower_rune c) (ac_commands c) \<and>
          (if sr_permissions r' = sr_permissions r \<and> sr_profile r' = sr_profile r then True
           else list_all (\<lambda>command. exec_policy_matches canon (ac_policy c) command \<noteq> []) (ac_commands c) \<and>
             unsandboxed_execution_allowed (sr_profile r) \<and> \<not> sr_managed_network r)"
proof (cases "apply_exec_policy_requirement canon parse lower_rune r v")
  case (Inr r')
  let ?ev = "evaluate_shell canon parse lower_rune c"
  show ?thesis
  proof (cases "sr_approval_required r'")
    case False
    have known: "known_decisions (ac_policy c)"
      using assms(1) known_without_allow by (simp add: c_def approval_context_for_def)
    have allow: "ev_decision ?ev = DecisionAllow"
      using apply_not_allowed [OF assms(2) _ Inr] False unfolding c_def by blast
    have all: "list_all (runs_unasked canon parse lower_rune c) (ac_commands c)"
      using allowed_runs_unasked [OF known _ allow] by (auto simp: list_all_iff)
    have "all_matches_are_policy_allows (ev_matches ?ev) \<and> unsandboxed_execution_allowed (sr_profile r) \<and> \<not> sr_managed_network r"
      if "\<not> (sr_permissions r' = sr_permissions r \<and> sr_profile r' = sr_profile r)"
      using that Inr allow assms(2)
      by (auto simp: apply_exec_policy_requirement_def Let_def requirement_from_evaluation_def c_def [symmetric] bypass_sandbox_def
          split: if_splits)
    then show ?thesis using Inr False all bypass_matched [of canon parse lower_rune c] by (auto simp: list_all_iff)
  qed (simp add: Inr)
qed simp

theorem unasked_means_allowed_witness:
  "case apply_exec_policy_requirement id no_parser id (example_request [''rm'', ''a'', ''b'', ''c'']) (example_validation allow_rm AskOnRequest) of
      Inl reason \<Rightarrow> False
    | Inr r' \<Rightarrow> \<not> sr_approval_required r' \<and> sr_permissions r' = RequireEscalated \<and>
        runs_unasked id no_parser id (approval_context_for no_parser id (example_request [''rm'', ''a'', ''b'', ''c''])
          (example_validation allow_rm AskOnRequest)) [''rm'', ''a'', ''b'', ''c'']"
proof -
  let ?command = "[''rm'', ''a'', ''b'', ''c'']"
  let ?r = "example_request ?command" and ?v = "example_validation allow_rm AskOnRequest"
  let ?c = "approval_context_for no_parser id ?r ?v"
  have known: "known_decisions (sv_policy ?v)"
    by (simp add: known_decisions_def example_validation_def allow_rm_def allow_rule_def effective_decision_def)
  have not_pre: "\<not> sv_preapproved ?v" by (simp add: example_validation_def)
  have commands: "ac_commands ?c = [?command]"
    by (simp add: approval_context_for_def example_request_def plain_command)
  define r' where "r' = ?r\<lparr>sr_permissions := RequireEscalated, sr_profile_id := ''danger-full-access'',
             sr_profile := Some full_access_permission_profile, sr_sandbox_profile := Some full_access_sandbox_profile\<rparr>"
  have res: "apply_exec_policy_requirement id no_parser id ?r ?v = Inr r'"
    unfolding r'_def by code_simp
  have r': "\<not> sr_approval_required r'" "sr_permissions r' = RequireEscalated" by (simp_all add: r'_def example_request_def)
  have "list_all (runs_unasked id no_parser id ?c) (ac_commands ?c)"
    using unasked_means_allowed [OF known not_pre, of id no_parser id ?r] r'(1) unfolding res sum.case by simp
  then show ?thesis using r' unfolding res sum.case commands by simp
qed

section \<open>The offered rule\<close>

lemma strictest_all_allow:
  assumes "ms \<noteq> []" "\<And>m. m \<in> set ms \<Longrightarrow> dm_decision m = DecisionAllow"
  shows "strictest_match ms = DecisionAllow"
proof -
  obtain m where "m \<in> set ms" using assms(1) by (cases ms) auto
  then have "1 \<le> decision_rank (strictest_match ms)" using strictest_match_max(2) [of m ms] assms(2) by simp
  then show ?thesis using strictest_match_max(1) [of ms] assms(2) by auto
qed

text \<open>The rule the model asks to be remembered, when the gate offers it, decides the call: with the rule in the policy
  the same call is allowed, except that a call with a dangerous command still is not.\<close>

theorem offered_rule_decides:
  assumes "validated_prefix_rule canon parse lower_rune c ev prefix \<noteq> []" "ac_commands c \<noteq> []"
  shows "ev_decision (evaluate_shell canon parse lower_rune (amended_context c prefix)) = DecisionAllow \<longleftrightarrow>
    \<not> list_ex (is_dangerous parse lower_rune) (ac_commands c)"
proof -
  let ?a = "amended_context c prefix"
  have commands: "ac_commands ?a = ac_commands c" by (simp add: amended_context_def Let_def)
  have approves: "(if exec_policy_matches canon (ac_policy ?a) command = []
      then fallback_decision parse lower_rune ?a command = DecisionAllow
      else all_allow (exec_policy_matches canon (ac_policy ?a) command))" if "command \<in> set (ac_commands c)" for command
    using assms(1) that by (auto simp: validated_prefix_rule_def prefix_approves_all_commands_def list_all_iff Let_def split: if_splits)
  have fallback_safe: "\<not> is_dangerous parse lower_rune command" if "fallback_decision parse lower_rune ?a command = DecisionAllow" for command
    using that by (auto simp: fallback_decision_def dangerous_decision_def split: if_splits)
  show ?thesis
  proof (cases "list_ex (is_dangerous parse lower_rune) (ac_commands c)")
    case True
    then obtain command where command: "command \<in> set (ac_commands c)" "is_dangerous parse lower_rune command"
      by (auto simp: list_ex_iff)
    then have "exec_policy_matches canon (ac_policy ?a) command \<noteq> []" "all_allow (exec_policy_matches canon (ac_policy ?a) command)"
      using approves [OF command(1)] fallback_safe by (auto split: if_splits)
    then have "command_matches canon parse lower_rune ?a command = [heuristic_match (dangerous_decision ?a) command]"
      using command(2) by (simp add: command_matches_def Let_def)
    then have "ev_decision (evaluate_shell canon parse lower_rune ?a) \<noteq> DecisionAllow"
      using evaluate_above_allow [of command ?a _ canon parse lower_rune] command(1) commands dangerous_decision_rank
      by (simp add: heuristic_match_def)
    then show ?thesis using True by simp
  next
    case False
    let ?ms = "concat (map (command_matches canon parse lower_rune ?a) (ac_commands c))"
    have each: "command_matches canon parse lower_rune ?a command \<noteq> [] \<and>
        (\<forall>m \<in> set (command_matches canon parse lower_rune ?a command). dm_decision m = DecisionAllow)"
      if "command \<in> set (ac_commands c)" for command
    proof -
      have "\<not> is_dangerous parse lower_rune command" using False that by (auto simp: list_ex_iff)
      then show ?thesis using approves [OF that]
        by (auto simp: command_matches_def Let_def heuristic_match_def policy_match_def all_allow_def list_all_iff split: if_splits)
    qed
    have "?ms \<noteq> []" using each assms(2) by (cases "ac_commands c") auto
    then have "strictest_match ?ms = DecisionAllow" by (rule strictest_all_allow) (use each in auto)
    then show ?thesis using False by (simp add: evaluate_shell_def commands Let_def)
  qed
qed


definition example_context :: "bytes list \<Rightarrow> approval_context" where
  "example_context command = \<lparr>ac_policy = None, ac_approval = AskOnRequest, ac_profile = None, ac_permissions = UseDefault,
     ac_commands = [command]\<rparr>"

text \<open>A forced removal for which the model asks to remember \<open>rm -f\<close>: the rule is offered, and the command prompts again.\<close>

theorem offered_rule_decides_witness:
  "validated_prefix_rule id no_parser id (example_context [''rm'', ''-f'', ''x'', ''y''])
     (evaluate_shell id no_parser id (example_context [''rm'', ''-f'', ''x'', ''y''])) [''rm'', ''-f''] = [''rm'', ''-f''] \<and>
   ev_decision (evaluate_shell id no_parser id
     (amended_context (example_context [''rm'', ''-f'', ''x'', ''y'']) [''rm'', ''-f''])) \<noteq> DecisionAllow"
proof -
  let ?c = "example_context [''rm'', ''-f'', ''x'', ''y'']"
  have banned: "\<not> banned_prefix_suggestion id [''rm'', ''-f'']" by code_simp
  have "exec_policy_matches id None [''rm'', ''-f'', ''x'', ''y''] = []" by (simp add: exec_policy_matches_def)
  then have "\<not> list_ex dm_is_policy (ev_matches (evaluate_shell id no_parser id ?c))"
    by (simp add: evaluate_shell_def example_context_def command_matches_def heuristic_match_def Let_def)
  moreover have "prefix_approves_all_commands id no_parser id ?c [''rm'', ''-f'']" by code_simp
  ultimately have valid: "validated_prefix_rule id no_parser id ?c (evaluate_shell id no_parser id ?c) [''rm'', ''-f''] = [''rm'', ''-f'']"
    using banned by (simp add: validated_prefix_rule_def)
  have "ac_commands ?c \<noteq> []" "list_ex (is_dangerous no_parser id) (ac_commands ?c)"
    using rm_dangerous by (simp_all add: example_context_def)
  then show ?thesis using valid offered_rule_decides [of id no_parser id ?c "evaluate_shell id no_parser id ?c" "[''rm'', ''-f'']"] by simp
qed

section \<open>Two gates\<close>

text \<open>A script with a command behind eight \<open>sudo\<close>s.\<close>

definition deep_script :: shell_parser where
  "deep_script script =
     (let words = replicate 8 [Lit ''sudo''] @ [[Lit ''ls'']] in
      if script = ''deep'' then Some \<lparr>sf_stmts = [Stmt False False False False 0 0 (CallExpr 0 words)], sf_last = 0, sf_calls = [words]\<rparr>
      else None)"

text \<open>The second gate takes back the approval that the first one asks for: the argument vector of a shell is dangerous
  because of its nesting, but its script, read one level less deep, is not.\<close>

lemma approval_taken_back:
  "match_dangerous_command deep_script id [''sh'', ''-c'', ''deep''] = Some OtherDangerous \<and>
   (case approval_gates id deep_script id (example_request [''sh'', ''-c'', ''deep'']) (example_validation None AskOnRequest) of
      Inl reason \<Rightarrow> False
    | Inr r' \<Rightarrow> \<not> sr_approval_required r')"
proof -
  let ?command = "[''sh'', ''-c'', ''deep'']"
  let ?inner = "replicate 8 ''sudo'' @ [''ls'']"
  have words: "parse_shell_lc_literal_commands deep_script id ?command = Some [?inner]" by code_simp
  have commands: "exec_policy_commands deep_script id ?command = [?inner]" by code_simp
  have "dangerous_at deep_script id 1 ?inner = Some OtherDangerous" by (simp only: sudo_depth_from) (simp add: max_wrapper_depth_def)
  moreover have "exec_step ?command = NoMatch" by code_simp
  ultimately have outer: "match_dangerous_command deep_script id ?command = Some OtherDangerous"
    unfolding match_dangerous_command_def by (subst dangerous_at.simps) (simp add: words)
  have ls: "exec_step [''ls''] = NoMatch" "parse_shell_lc_literal_commands deep_script id [''ls''] = None" by code_simp+
  then have "dangerous_at deep_script id 8 [''ls''] = None" by (subst dangerous_at.simps) (simp add: ls max_wrapper_depth_def)
  then have "match_dangerous_command deep_script id ?inner = None" by (simp only: sudo_depth_exact) (simp add: max_wrapper_depth_def)
  then have safe: "\<not> is_dangerous deep_script id ?inner" by (simp add: is_dangerous_def)
  let ?v = "example_validation None AskOnRequest"
  let ?r = "(example_request ?command)\<lparr>sr_approval_required := True\<rparr>"
  let ?c = "approval_context_for deep_script id ?r ?v"
  have "ac_commands ?c = [?inner]" by (simp add: approval_context_for_def example_request_def commands)
  moreover have "command_matches id deep_script id ?c ?inner = [heuristic_match DecisionAllow ?inner]"
    using safe by (simp add: command_matches_def exec_policy_matches_def approval_context_for_def example_validation_def example_request_def
        fallback_decision_def requests_sandbox_override_def Let_def)
  ultimately have "evaluate_shell id deep_script id ?c = \<lparr>ev_decision = DecisionAllow, ev_matches = [heuristic_match DecisionAllow ?inner]\<rparr>"
    by (simp add: evaluate_shell_def strictest_match_def heuristic_match_def)
  then have "\<exists>r'. apply_exec_policy_requirement id deep_script id ?r ?v = Inr r' \<and> \<not> sr_approval_required r'"
    by (simp add: apply_exec_policy_requirement_def requirement_from_evaluation_def all_matches_are_policy_allows_def
        heuristic_match_def example_validation_def Let_def)
  then show ?thesis
    using outer by (auto simp: approval_gates_def apply_dangerous_command_requirement_def example_validation_def example_request_def)
qed

end
