(* ===== verification/Go_Ip.thy ===== *)
theory Go_Ip
  imports Go_Strings "HOL-Library.Word"
begin

unbundle bit_operations_syntax

text \<open>
  What the proxy uses of Go's package \<open>net\<close>: \<open>ParseIP\<close> and the classes of addresses.  An address is its
  slice of bytes, 4 of them for IPv4 or 16 for either family; \<open>ParseIP\<close> gives 16.
\<close>

type_synonym ip = "8 word list"

section \<open>Parsing\<close>

definition dec_value :: "bytes \<Rightarrow> nat" where
  "dec_value s = foldl (\<lambda>n c. 10 * n + (of_char c - 0x30)) 0 s"

definition octet_ok :: "bytes \<Rightarrow> bool" where
  "octet_ok s \<longleftrightarrow> s \<noteq> [] \<and> list_all (\<lambda>c. 0x30 \<le> (of_char c :: nat) \<and> (of_char c :: nat) \<le> 0x39) s \<and>
     (hd s = CHR ''0'' \<longrightarrow> length s = 1) \<and> dec_value s \<le> 255"

text \<open>Four decimal fields without leading zeros.\<close>

definition parse_ipv4 :: "bytes \<Rightarrow> ip option" where
  "parse_ipv4 s =
     (let fields = split_on (CHR ''.'') s in
      if length fields = 4 \<and> list_all octet_ok fields then Some (map (\<lambda>f. word_of_nat (dec_value f)) fields) else None)"

definition hex_digit :: "char \<Rightarrow> nat option" where
  "hex_digit c =
     (let n = (of_char c :: nat) in
      if 0x30 \<le> n \<and> n \<le> 0x39 then Some (n - 0x30)
      else if 0x61 \<le> n \<and> n \<le> 0x66 then Some (n - 0x61 + 10)
      else if 0x41 \<le> n \<and> n \<le> 0x46 then Some (n - 0x41 + 10) else None)"

definition hex_value :: "bytes \<Rightarrow> nat" where
  "hex_value s = foldl (\<lambda>n c. 16 * n + (case hex_digit c of None \<Rightarrow> 0 | Some d \<Rightarrow> d)) 0 s"

text \<open>The groups of an IPv6 literal, at most \<open>n\<close> more: the bytes so far, where the \<open>::\<close> stood, the rest.\<close>

fun ipv6_groups :: "nat \<Rightarrow> ip \<Rightarrow> nat option \<Rightarrow> bytes \<Rightarrow> (ip \<times> nat option \<times> bytes) option" where
  "ipv6_groups 0 acc gap s = Some (acc, gap, s)"
| "ipv6_groups (Suc n) acc gap s =
     (let digits = takeWhile (\<lambda>c. hex_digit c \<noteq> None) s; rest = dropWhile (\<lambda>c. hex_digit c \<noteq> None) s;
          v = hex_value digits; acc' = acc @ [word_of_nat (v div 256), word_of_nat (v mod 256)]
      in if digits = [] \<or> 4 < length digits then None
         else if has_prefix rest ''.'' then
           (if gap = None \<and> length acc \<noteq> 12 \<or> 16 < length acc + 4 then None
            else (case parse_ipv4 s of None \<Rightarrow> None | Some b \<Rightarrow> Some (acc @ b, gap, [])))
         else if rest = [] then Some (acc', gap, [])
         else if hd rest \<noteq> CHR '':'' \<or> tl rest = [] then None
         else if hd (tl rest) = CHR '':'' then
           (if gap \<noteq> None then None
            else if tl (tl rest) = [] then Some (acc', Some (length acc'), [])
            else ipv6_groups n acc' (Some (length acc')) (tl (tl rest)))
         else ipv6_groups n acc' gap (tl rest))"

definition parse_ipv6 :: "bytes \<Rightarrow> ip option" where
  "parse_ipv6 s =
     (if CHR ''%'' \<in> set s then None
      else if s = ''::'' then Some (replicate 16 0)
      else (case (if has_prefix s ''::'' then ipv6_groups 8 [] (Some 0) (drop 2 s) else ipv6_groups 8 [] None s) of
          None \<Rightarrow> None
        | Some (acc, gap, rest) \<Rightarrow>
            if rest \<noteq> [] then None
            else if length acc < 16 then
              (case gap of None \<Rightarrow> None | Some i \<Rightarrow> Some (take i acc @ replicate (16 - length acc) 0 @ drop i acc))
            else if gap \<noteq> None then None else Some acc))"

text \<open>\<open>net.ParseIP\<close>: the first dot or colon tells the family; literals with a zone are refused.\<close>

definition parse_ip :: "bytes \<Rightarrow> ip option" where
  "parse_ip s = (case find (\<lambda>c. c = CHR ''.'' \<or> c = CHR '':'' \<or> c = CHR ''%'') s of
     None \<Rightarrow> None
   | Some c \<Rightarrow>
       if c = CHR ''.'' then map_option (\<lambda>b. replicate 10 0 @ [255, 255] @ b) (parse_ipv4 s)
       else if c = CHR '':'' then parse_ipv6 s else None)"

section \<open>Classes of addresses\<close>

definition to4 :: "ip \<Rightarrow> ip option" where
  "to4 a =
     (if length a = 4 then Some a
      else if length a = 16 \<and> take 10 a = replicate 10 0 \<and> a ! 10 = 255 \<and> a ! 11 = 255 then Some (drop 12 a)
      else None)"

definition ip_is_unspecified :: "ip \<Rightarrow> bool" where
  "ip_is_unspecified a \<longleftrightarrow> to4 a = Some [0, 0, 0, 0] \<or> a = replicate 16 0"

definition ip_is_loopback :: "ip \<Rightarrow> bool" where
  "ip_is_loopback a = (case to4 a of Some b \<Rightarrow> b ! 0 = 127 | None \<Rightarrow> a = replicate 15 0 @ [1])"

definition ip_is_private :: "ip \<Rightarrow> bool" where
  "ip_is_private a = (case to4 a of
     Some b \<Rightarrow> b ! 0 = 10 \<or> b ! 0 = 172 \<and> b ! 1 AND 0xF0 = 16 \<or> b ! 0 = 192 \<and> b ! 1 = 168
   | None \<Rightarrow> length a = 16 \<and> a ! 0 AND 0xFE = 0xFC)"

definition ip_is_multicast :: "ip \<Rightarrow> bool" where
  "ip_is_multicast a = (case to4 a of Some b \<Rightarrow> b ! 0 AND 0xF0 = 0xE0 | None \<Rightarrow> length a = 16 \<and> a ! 0 = 0xFF)"

definition ip_is_link_local_multicast :: "ip \<Rightarrow> bool" where
  "ip_is_link_local_multicast a = (case to4 a of
     Some b \<Rightarrow> b ! 0 = 224 \<and> b ! 1 = 0 \<and> b ! 2 = 0
   | None \<Rightarrow> length a = 16 \<and> a ! 0 = 0xFF \<and> a ! 1 AND 0x0F = 0x02)"

definition ip_is_link_local_unicast :: "ip \<Rightarrow> bool" where
  "ip_is_link_local_unicast a = (case to4 a of
     Some b \<Rightarrow> b ! 0 = 169 \<and> b ! 1 = 254
   | None \<Rightarrow> length a = 16 \<and> a ! 0 = 0xFE \<and> a ! 1 AND 0xC0 = 0x80)"

lemma parse_ipv4_length: "parse_ipv4 s = Some b \<Longrightarrow> length b = 4"
  by (auto simp: parse_ipv4_def Let_def split: if_splits)

end
