(* ===== verification/Domain_Matcher.thy ===== *)
theory Domain_Matcher
  imports Go_Case Go_Ip
begin

text \<open>
  The host patterns of \<open>network/proxy_policy.go\<close>: the wildcard matcher over bytes, the three kinds of
  domain patterns, the compiled matcher and the order between patterns.  A position in a string is the
  rest of the string from it on.  Parsing IP literals is in theory \<open>Go_Ip\<close>; patterns that use the
  extensions of the glob library are matched by the parameter \<open>glob_lib\<close>.
\<close>

section \<open>The wildcard matcher\<close>

abbreviation "STAR \<equiv> CHR ''*''"
abbreviation "QUERY \<equiv> CHR ''?''"

text \<open>Two bytes are equal when they agree up to the case of ASCII letters; the code compares them with
  bit 5 set.\<close>

definition set_bit5 :: "char \<Rightarrow> nat" where
  "set_bit5 c = (let n = (of_char c :: nat) in if n div 32 mod 2 = 0 then n + 32 else n)"

definition byte_equal_fold :: "char \<Rightarrow> char \<Rightarrow> bool" where
  "byte_equal_fold l r \<longleftrightarrow>
     l = r \<or> set_bit5 l = set_bit5 r \<and> 0x61 \<le> set_bit5 l \<and> set_bit5 l \<le> 0x7A"

text \<open>The loop: the rest of the pattern, the rest of the host, and for the latest star the pattern after
  it and the host it stands at.  When the pattern does not fit, the latest star takes one byte more.\<close>

function byte_match_loop :: "bytes \<Rightarrow> bytes \<Rightarrow> (bytes \<times> bytes) option \<Rightarrow> bool" where
  "byte_match_loop p [] star \<longleftrightarrow> dropWhile (\<lambda>c. c = STAR) p = []"
| "byte_match_loop p (h # hs) star =
     (if p \<noteq> [] \<and> hd p = STAR then byte_match_loop (tl p) (h # hs) (Some (tl p, h # hs))
      else if p \<noteq> [] \<and> (hd p = QUERY \<or> byte_equal_fold (hd p) h) then byte_match_loop (tl p) hs star
      else (case star of
          None \<Rightarrow> False
        | Some (resume, consumed) \<Rightarrow>
            if consumed = [] then False
            else byte_match_loop resume (tl consumed) (Some (resume, tl consumed))))"
  by pat_completeness auto
termination
  by (relation "measures [\<lambda>(p, h, star). case star of None \<Rightarrow> Suc (length p) | Some (r, s) \<Rightarrow> max (length p) (length r),
                          \<lambda>(p, h, star). case star of None \<Rightarrow> 0 | Some (r, s) \<Rightarrow> length s,
                          \<lambda>(p, h, star). length h]")
     (auto simp: neq_Nil_conv split: option.splits)

definition domain_byte_match :: "bytes \<Rightarrow> bytes \<Rightarrow> bool" where
  "domain_byte_match pattern host = byte_match_loop pattern host None"

text \<open>What a pattern means: a star stands for any bytes, a question mark for one byte.\<close>

fun glob :: "bytes \<Rightarrow> bytes \<Rightarrow> bool" where
  "glob [] h \<longleftrightarrow> h = []"
| "glob (c # p) [] \<longleftrightarrow> c = STAR \<and> glob p []"
| "glob (c # p) (x # h) \<longleftrightarrow>
     (if c = STAR then glob p (x # h) \<or> glob (c # p) h else (c = QUERY \<or> byte_equal_fold c x) \<and> glob p h)"

lemma glob_empty: "glob p [] \<longleftrightarrow> dropWhile (\<lambda>c. c = STAR) p = []"
  by (induction p) auto

lemma glob_star: "glob (STAR # p) h \<longleftrightarrow> (\<exists>u v. h = u @ v \<and> glob p v)"
proof (induction h)
  case (Cons x h)
  show ?case unfolding glob.simps using Cons.IH by (auto simp: Cons_eq_append_conv)
qed simp

definition plain_pair :: "char \<Rightarrow> char \<Rightarrow> bool" where
  "plain_pair c x \<longleftrightarrow> c \<noteq> STAR \<and> (c = QUERY \<or> byte_equal_fold c x)"

lemma glob_plain: "\<forall>c \<in> set u. c \<noteq> STAR \<Longrightarrow> glob (u @ p) h \<longleftrightarrow> (\<exists>v w. h = v @ w \<and> list_all2 plain_pair u v \<and> glob p w)"
proof (induction u arbitrary: h)
  case (Cons c u)
  show ?case
  proof (cases h)
    case Nil
    then show ?thesis using Cons.prems by simp
  next
    case (Cons x hs)
    have "glob ((c # u) @ p) h \<longleftrightarrow> plain_pair c x \<and> glob (u @ p) hs"
      using Cons \<open>\<forall>c \<in> set (c # u). c \<noteq> STAR\<close> by (auto simp: plain_pair_def)
    also have "\<dots> \<longleftrightarrow> plain_pair c x \<and> (\<exists>v w. hs = v @ w \<and> list_all2 plain_pair u v \<and> glob p w)"
      using Cons.IH Cons.prems by simp
    also have "\<dots> \<longleftrightarrow> (\<exists>v w. h = v @ w \<and> list_all2 plain_pair (c # u) v \<and> glob p w)"
      using Cons by (auto simp: Cons_eq_append_conv list_all2_Cons1)
    finally show ?thesis .
  qed
qed simp

lemma glob_plain1: "c \<noteq> STAR \<Longrightarrow> glob (c # p) h \<longleftrightarrow> (\<exists>x w. h = x # w \<and> plain_pair c x \<and> glob p w)"
  by (cases h) (auto simp: plain_pair_def)

lemma glob_append: "glob (p @ q) h \<longleftrightarrow> (\<exists>u v. h = u @ v \<and> glob p u \<and> glob q v)"
proof (induction p arbitrary: h)
  case (Cons c p)
  show ?case
  proof (cases "c = STAR")
    case True
    have "glob ((c # p) @ q) h \<longleftrightarrow> (\<exists>a b. h = a @ b \<and> (\<exists>u v. b = u @ v \<and> glob p u \<and> glob q v))"
      using True Cons.IH by (simp add: glob_star del: glob.simps)
    also have "\<dots> \<longleftrightarrow> (\<exists>u v. h = u @ v \<and> (\<exists>a b. u = a @ b \<and> glob p b) \<and> glob q v)"
      by (metis append.assoc)
    finally show ?thesis using True by (simp add: glob_star del: glob.simps)
  next
    case False
    have "glob ((c # p) @ q) h \<longleftrightarrow> (\<exists>x w. h = x # w \<and> plain_pair c x \<and> (\<exists>u v. w = u @ v \<and> glob p u \<and> glob q v))"
      using False Cons.IH by (simp add: glob_plain1 del: glob.simps)
    also have "\<dots> \<longleftrightarrow> (\<exists>u v. h = u @ v \<and> (\<exists>x w. u = x # w \<and> plain_pair c x \<and> glob p w) \<and> glob q v)"
      by (metis append_Cons)
    finally show ?thesis using False by (simp add: glob_plain1 del: glob.simps)
  qed
qed simp

text \<open>The latest star: what the pattern matched since then has no star.  Trying that star further on
  finds everything an earlier one could.\<close>

definition since_star :: "bytes \<Rightarrow> bytes \<Rightarrow> (bytes \<times> bytes) option \<Rightarrow> bool" where
  "since_star p h star \<longleftrightarrow> (case star of
     None \<Rightarrow> True
   | Some (r, s) \<Rightarrow> (\<exists>u v. r = u @ p \<and> s = v @ h \<and> (\<forall>c \<in> set u. c \<noteq> STAR) \<and> length u = length v))"

definition retry_glob :: "(bytes \<times> bytes) option \<Rightarrow> bool" where
  "retry_glob star \<longleftrightarrow> (case star of None \<Rightarrow> False | Some (r, s) \<Rightarrow> s \<noteq> [] \<and> glob (STAR # r) (tl s))"

lemma retry_covered:
  assumes "since_star (STAR # p) h star" and "retry_glob star"
  shows "glob (STAR # p) h"
proof -
  obtain u v s where star: "star = Some (u @ STAR # p, v @ h)" and u: "\<forall>c \<in> set u. c \<noteq> STAR"
      and len: "length u = length v" and ne: "v @ h \<noteq> []" and g: "glob (STAR # u @ STAR # p) (tl (v @ h))"
    using assms by (auto simp: since_star_def retry_glob_def simp del: glob.simps split: option.splits)
  obtain a b where ab: "tl (v @ h) = a @ b" and "glob (u @ STAR # p) b"
    using g by (auto simp: glob_star simp del: glob.simps)
  then obtain c w where b: "b = c @ w" and "list_all2 plain_pair u c" and w: "glob (STAR # p) w"
    using glob_plain [OF u] by auto
  then have lc: "length c = length v" using len by (simp add: list_all2_lengthD)
  have "v @ h = hd (v @ h) # a @ c @ w" using ne ab b by (metis list.collapse)
  then obtain x where "v @ h = (x # a @ c) @ w" by auto
  then have "drop (length v) (v @ h) = drop (length c) ((x # a @ c) @ w)" using lc by simp
  then have "h = drop (length c) (x # a @ c) @ w" by (subst (asm) (2) drop_append) simp
  then show ?thesis using w by (metis append.assoc glob_star)
qed

lemma retry_at_end:
  assumes "since_star p [] star" shows "\<not> retry_glob star"
proof
  assume "retry_glob star"
  then obtain u v where star: "star = Some (u @ p, v)" and u: "\<forall>c \<in> set u. c \<noteq> STAR"
      and len: "length u = length v" and ne: "v \<noteq> []" and g: "glob (STAR # u @ p) (tl v)"
    using assms by (auto simp: since_star_def retry_glob_def simp del: glob.simps split: option.splits)
  obtain a b where ab: "tl v = a @ b" and "glob (u @ p) b" using g by (auto simp: glob_star simp del: glob.simps)
  then obtain c w where "b = c @ w" and "list_all2 plain_pair u c" using glob_plain [OF u] by auto
  then have "length (tl v) \<ge> length v" using ab len by (simp add: list_all2_lengthD)
  then show False using ne by (cases v) auto
qed

lemma byte_match_loop_exact: "since_star p h star \<Longrightarrow> byte_match_loop p h star \<longleftrightarrow> glob p h \<or> retry_glob star"
proof (induction p h star rule: byte_match_loop.induct)
  case (1 p star)
  then show ?case using retry_at_end by (simp add: glob_empty del: glob.simps)
next
  case (2 p h hs star)
  consider (star) q where "p = STAR # q"
    | (one) c q where "p = c # q" "c \<noteq> STAR" "c = QUERY \<or> byte_equal_fold c h"
    | (no) "\<not> (p \<noteq> [] \<and> hd p = STAR)" "\<not> (p \<noteq> [] \<and> (hd p = QUERY \<or> byte_equal_fold (hd p) h))"
    by (cases p) auto
  then show ?case
  proof cases
    case star
    have "byte_match_loop p (h # hs) star \<longleftrightarrow> byte_match_loop q (h # hs) (Some (q, h # hs))" using star by simp
    also have "\<dots> \<longleftrightarrow> glob q (h # hs) \<or> retry_glob (Some (q, h # hs))"
      using 2(1) star by (simp add: since_star_def del: glob.simps)
    also have "\<dots> \<longleftrightarrow> glob p (h # hs)" using star by (simp add: retry_glob_def)
    finally show ?thesis using retry_covered [of q "h # hs" star] 2(4) star by blast
  next
    case one
    have "since_star q hs star"
    proof (cases star)
      case (Some rs)
      obtain r s where rs: "rs = (r, s)" by (cases rs)
      obtain u v where "r = u @ p" "s = v @ h # hs" "\<forall>c \<in> set u. c \<noteq> STAR" "length u = length v"
        using 2(4) Some rs by (auto simp: since_star_def)
      then have "r = (u @ [c]) @ q" "s = (v @ [h]) @ hs" "\<forall>c \<in> set (u @ [c]). c \<noteq> STAR" "length (u @ [c]) = length (v @ [h])"
        using one by auto
      then show ?thesis unfolding since_star_def Some rs by auto
    qed (simp add: since_star_def)
    then show ?thesis using 2(2) one by simp
  next
    case no
    have g: "\<not> glob p (h # hs)" using no by (cases p) auto
    show ?thesis
    proof (cases star)
      case None
      have "\<not> byte_match_loop p (h # hs) star"
        by (subst byte_match_loop.simps(2)) (simp only: no if_False None option.case not_False_eq_True)
      then show ?thesis using g None by (simp add: retry_glob_def)
    next
      case (Some rs)
      obtain r s where rs: "rs = (r, s)" by (cases rs)
      have s: "s \<noteq> []" using 2(4) Some rs by (auto simp: since_star_def)
      have "byte_match_loop p (h # hs) star \<longleftrightarrow> byte_match_loop r (tl s) (Some (r, tl s))"
        by (subst byte_match_loop.simps(2)) (simp only: no if_False Some rs option.case prod.case s)
      also have "\<dots> \<longleftrightarrow> glob r (tl s) \<or> retry_glob (Some (r, tl s))"
        using 2(3) [OF no Some rs [symmetric] s] by (simp add: since_star_def)
      also have "\<dots> \<longleftrightarrow> glob (STAR # r) (tl s)"
        by (cases "tl s") (auto simp: retry_glob_def)
      finally show ?thesis using g Some rs s by (simp add: retry_glob_def del: glob.simps)
    qed
  qed
qed

text \<open>C8: the loop, which goes back to the latest star only, terminates and accepts exactly the hosts a
  pattern describes.\<close>

theorem domain_byte_match_exact: "domain_byte_match p h \<longleftrightarrow> glob p h"
  unfolding domain_byte_match_def
  by (subst byte_match_loop_exact) (simp_all add: since_star_def retry_glob_def)


section \<open>Host names\<close>

text \<open>\<open>strings.Cut\<close>.\<close>

fun cut_bytes :: "bytes \<Rightarrow> bytes \<Rightarrow> (bytes \<times> bytes) option" where
  "cut_bytes [] sep = (if sep = [] then Some ([], []) else None)"
| "cut_bytes (c # s) sep =
     (if has_prefix (c # s) sep then Some ([], drop (length sep) (c # s))
      else (case cut_bytes s sep of None \<Rightarrow> None | Some (before, after) \<Rightarrow> Some (c # before, after)))"

definition normalize_dns_host :: "(nat \<Rightarrow> nat) \<Rightarrow> bytes \<Rightarrow> bytes" where
  "normalize_dns_host lower_rune raw =
     (let host = trim_suffix (to_lower lower_rune (trim_space raw)) ''.'' in
      case cut_bytes host ''%25'' of
        None \<Rightarrow> host
      | Some (before, after) \<Rightarrow> if parse_ip before \<noteq> None then before @ ''%'' @ after else host)"

definition normalize_proxy_host :: "(nat \<Rightarrow> nat) \<Rightarrow> bytes \<Rightarrow> bytes" where
  "normalize_proxy_host lower_rune raw =
     (let host = trim_space raw in
      if has_prefix host ''['' \<and> CHR '']'' \<in> set host
      then normalize_dns_host lower_rune (drop 1 (takeWhile (\<lambda>c. c \<noteq> CHR '']'') host))
      else if length (filter (\<lambda>c. c = CHR '':'') host) = 1
      then normalize_dns_host lower_rune (takeWhile (\<lambda>c. c \<noteq> CHR '':'') host)
      else normalize_dns_host lower_rune host)"

definition parse_proxy_host :: "(nat \<Rightarrow> nat) \<Rightarrow> bytes \<Rightarrow> bytes + bytes" where
  "parse_proxy_host lower_rune raw =
     (let host = normalize_proxy_host lower_rune raw in if host = '''' then Inl ''host is empty'' else Inr host)"

definition unscoped_ip_literal :: "bytes \<Rightarrow> bytes" where
  "unscoped_ip_literal host = (case cut_bytes host ''%'' of
     None \<Rightarrow> '''' | Some (before, after) \<Rightarrow> if parse_ip before \<noteq> None then before else '''')"

definition is_loopback_host :: "bytes \<Rightarrow> bool" where
  "is_loopback_host host =
     (let v = (if unscoped_ip_literal host = '''' then host else unscoped_ip_literal host) in
      if v = ''localhost'' then True else (case parse_ip v of None \<Rightarrow> False | Some a \<Rightarrow> ip_is_loopback a))"

section \<open>Domain patterns\<close>

datatype pattern_kind = PatternExact | PatternSubdomainsOnly | PatternApexAndSubdomains

record domain_pattern =
  dpt_kind :: pattern_kind
  dpt_domain :: bytes

definition normalize_domain :: "(nat \<Rightarrow> nat) \<Rightarrow> bytes \<Rightarrow> bytes" where
  "normalize_domain lower_rune d = to_lower lower_rune (trim_suffix (trim_space d) ''.'')"

definition domain_equal :: "(nat \<Rightarrow> nat) \<Rightarrow> bytes \<Rightarrow> bytes \<Rightarrow> bool" where
  "domain_equal lower_rune l r \<longleftrightarrow> normalize_domain lower_rune l = normalize_domain lower_rune r"

definition subdomain_or_equal :: "(nat \<Rightarrow> nat) \<Rightarrow> bytes \<Rightarrow> bytes \<Rightarrow> bool" where
  "subdomain_or_equal lower_rune child parent =
     (let c = normalize_domain lower_rune child; p = normalize_domain lower_rune parent in
      c = p \<or> has_suffix c (''.'' @ p))"

definition strict_subdomain :: "(nat \<Rightarrow> nat) \<Rightarrow> bytes \<Rightarrow> bytes \<Rightarrow> bool" where
  "strict_subdomain lower_rune child parent =
     (let c = normalize_domain lower_rune child; p = normalize_domain lower_rune parent in
      c \<noteq> p \<and> has_suffix c (''.'' @ p))"

definition parse_domain_pattern :: "(nat \<Rightarrow> nat) \<Rightarrow> bytes \<Rightarrow> domain_pattern" where
  "parse_domain_pattern lower_rune raw =
     (let input = trim_space raw in
      if has_prefix input ''**.'' then \<lparr>dpt_kind = PatternApexAndSubdomains, dpt_domain = normalize_domain lower_rune (trim_prefix input ''**.'')\<rparr>
      else if has_prefix input ''*.'' then \<lparr>dpt_kind = PatternSubdomainsOnly, dpt_domain = normalize_domain lower_rune (trim_prefix input ''*.'')\<rparr>
      else \<lparr>dpt_kind = PatternExact, dpt_domain = normalize_domain lower_rune input\<rparr>)"

definition pattern_allows :: "(nat \<Rightarrow> nat) \<Rightarrow> domain_pattern \<Rightarrow> domain_pattern \<Rightarrow> bool" where
  "pattern_allows lower_rune p c = (case dpt_kind p of
     PatternExact \<Rightarrow> dpt_kind c = PatternExact \<and> domain_equal lower_rune (dpt_domain c) (dpt_domain p)
   | PatternSubdomainsOnly \<Rightarrow>
       (case dpt_kind c of
          PatternExact \<Rightarrow> strict_subdomain lower_rune (dpt_domain c) (dpt_domain p)
        | PatternSubdomainsOnly \<Rightarrow> subdomain_or_equal lower_rune (dpt_domain c) (dpt_domain p)
        | PatternApexAndSubdomains \<Rightarrow> strict_subdomain lower_rune (dpt_domain c) (dpt_domain p))
   | PatternApexAndSubdomains \<Rightarrow> subdomain_or_equal lower_rune (dpt_domain c) (dpt_domain p))"

text \<open>\<open>normalizeProxyConstraintPattern\<close> of \<open>proxy_constraints.go\<close>.\<close>

definition normalize_constraint_pattern :: "(nat \<Rightarrow> nat) \<Rightarrow> bytes \<Rightarrow> bytes" where
  "normalize_constraint_pattern lower_rune raw =
     (let pattern = trim_space raw in
      if has_prefix pattern ''**.'' then ''**.'' @ normalize_proxy_host lower_rune (trim_prefix pattern ''**.'')
      else if has_prefix pattern ''*.'' then ''*.'' @ normalize_proxy_host lower_rune (trim_prefix pattern ''*.'')
      else normalize_proxy_host lower_rune pattern)"

section \<open>The compiled matcher\<close>

text \<open>A compiled matcher is its list of globs; the type of the glob, byte matcher or library, is decided by
  its text.\<close>

datatype matcher_error = GlobalWildcard bytes | InvalidGlob bytes

definition uses_glob_extensions :: "bytes \<Rightarrow> bool" where
  "uses_glob_extensions s \<longleftrightarrow> list_ex (\<lambda>c. c \<in> set [CHR ''['', CHR '']'', CHR ''{'', CHR ''}'', CHR 0x5C]) s"

definition pattern_candidates :: "domain_pattern \<Rightarrow> bytes list" where
  "pattern_candidates p = (case dpt_kind p of
     PatternExact \<Rightarrow> [dpt_domain p]
   | PatternSubdomainsOnly \<Rightarrow> [''?*.'' @ dpt_domain p]
   | PatternApexAndSubdomains \<Rightarrow> [dpt_domain p, ''?*.'' @ dpt_domain p])"

fun add_candidates :: "(nat \<Rightarrow> nat) \<Rightarrow> (bytes \<Rightarrow> bool) \<Rightarrow> bytes list \<Rightarrow> bytes list \<Rightarrow> matcher_error + bytes list" where
  "add_candidates lower_rune lib_ok [] globs = Inr globs"
| "add_candidates lower_rune lib_ok (candidate # cs) globs =
     (let g = to_lower lower_rune candidate in
      if g \<in> set globs then add_candidates lower_rune lib_ok cs globs
      else if uses_glob_extensions g \<and> \<not> lib_ok g then Inl (InvalidGlob g)
      else add_candidates lower_rune lib_ok cs (globs @ [g]))"

fun compile_patterns ::
  "(nat \<Rightarrow> nat) \<Rightarrow> (bytes \<Rightarrow> bool) \<Rightarrow> bool \<Rightarrow> bytes list \<Rightarrow> bytes list \<Rightarrow> matcher_error + bytes list" where
  "compile_patterns lower_rune lib_ok reject [] globs = Inr globs"
| "compile_patterns lower_rune lib_ok reject (raw # ps) globs =
     (let parsed = parse_domain_pattern lower_rune (normalize_constraint_pattern lower_rune raw) in
      if reject \<and> dpt_domain parsed = ''*'' then Inl (GlobalWildcard (trim_space raw))
      else bind_res (add_candidates lower_rune lib_ok (pattern_candidates parsed) globs)
             (\<lambda>globs'. compile_patterns lower_rune lib_ok reject ps globs'))"

definition compile_matcher :: "(nat \<Rightarrow> nat) \<Rightarrow> (bytes \<Rightarrow> bool) \<Rightarrow> bytes list \<Rightarrow> bool \<Rightarrow> matcher_error + bytes list" where
  "compile_matcher lower_rune lib_ok patterns reject = compile_patterns lower_rune lib_ok reject patterns []"

definition glob_match :: "(bytes \<Rightarrow> bytes \<Rightarrow> bool) \<Rightarrow> bytes \<Rightarrow> bytes \<Rightarrow> bool" where
  "glob_match lib_match g host = (if uses_glob_extensions g then lib_match g host else domain_byte_match g host)"

definition matcher_match :: "(nat \<Rightarrow> nat) \<Rightarrow> (bytes \<Rightarrow> bytes \<Rightarrow> bool) \<Rightarrow> bytes list \<Rightarrow> bytes \<Rightarrow> bool" where
  "matcher_match lower_rune lib_match globs host =
     (let h = to_lower lower_rune (normalize_proxy_host lower_rune host) in list_ex (\<lambda>g. glob_match lib_match g h) globs)"


section \<open>What a compiled matcher accepts\<close>

definition pattern_of :: "(nat \<Rightarrow> nat) \<Rightarrow> bytes \<Rightarrow> domain_pattern" where
  "pattern_of lower_rune raw = parse_domain_pattern lower_rune (normalize_constraint_pattern lower_rune raw)"

text \<open>A pattern in normal form that the byte matcher handles; what its three kinds describe.\<close>

definition normal_pattern :: "(nat \<Rightarrow> nat) \<Rightarrow> domain_pattern \<Rightarrow> bool" where
  "normal_pattern lower_rune p \<longleftrightarrow> normalize_domain lower_rune (dpt_domain p) = dpt_domain p \<and>
     list_all (\<lambda>c. to_lower lower_rune c = c \<and> \<not> uses_glob_extensions c) (pattern_candidates p)"

definition below_domain :: "bytes \<Rightarrow> bytes \<Rightarrow> bool" where
  "below_domain d h \<longleftrightarrow> (\<exists>x y. h = x @ y \<and> x \<noteq> [] \<and> glob (CHR ''.'' # d) y)"

definition pattern_describes :: "domain_pattern \<Rightarrow> bytes \<Rightarrow> bool" where
  "pattern_describes p h = (case dpt_kind p of
     PatternExact \<Rightarrow> glob (dpt_domain p) h
   | PatternSubdomainsOnly \<Rightarrow> below_domain (dpt_domain p) h
   | PatternApexAndSubdomains \<Rightarrow> glob (dpt_domain p) h \<or> below_domain (dpt_domain p) h)"

lemma glob_below: "glob (''?*.'' @ d) h \<longleftrightarrow> below_domain d h"
proof -
  have "glob (''?*.'' @ d) h \<longleftrightarrow> (\<exists>x w. h = x # w \<and> (\<exists>u v. w = u @ v \<and> glob (CHR ''.'' # d) v))"
    by (simp add: glob_plain1 glob_star plain_pair_def del: glob.simps)
  also have "\<dots> \<longleftrightarrow> below_domain d h"
    unfolding below_domain_def by (metis append_Cons neq_Nil_conv)
  finally show ?thesis .
qed

lemma set_add_candidates:
  "add_candidates lower_rune lib_ok cs globs = Inr gs \<Longrightarrow> set gs = set globs \<union> to_lower lower_rune ` set cs"
  by (induction cs arbitrary: globs) (auto simp: Let_def split: if_splits)

lemma set_compile_patterns:
  "compile_patterns lower_rune lib_ok reject ps globs = Inr gs \<Longrightarrow>
   set gs = set globs \<union> (\<Union>raw \<in> set ps. to_lower lower_rune ` set (pattern_candidates (pattern_of lower_rune raw)))"
proof (induction ps arbitrary: globs)
  case (Cons raw ps)
  then obtain g1 where "add_candidates lower_rune lib_ok (pattern_candidates (pattern_of lower_rune raw)) globs = Inr g1"
      and "compile_patterns lower_rune lib_ok reject ps g1 = Inr gs"
    by (auto simp: Let_def pattern_of_def bind_res_eq_Inr split: if_splits)
  then show ?case using Cons.IH set_add_candidates by fastforce
qed simp

lemma candidates_describe:
  "normal_pattern lower_rune p \<Longrightarrow>
   list_ex (\<lambda>c. glob_match lib_match (to_lower lower_rune c) h) (pattern_candidates p) \<longleftrightarrow> pattern_describes p h"
  by (cases "dpt_kind p")
     (auto simp: normal_pattern_def pattern_candidates_def pattern_describes_def glob_match_def domain_byte_match_exact
        glob_below [symmetric] simp del: glob.simps)

text \<open>A compiled matcher accepts a host exactly when one of its patterns describes it: an exact pattern its
  domain, a \<open>*.\<close> pattern what has at least one byte before a dot and the domain, a \<open>**.\<close> pattern both.\<close>

theorem compiled_matcher_exact:
  assumes "compile_matcher lower_rune lib_ok patterns reject = Inr globs"
    and "list_all (\<lambda>raw. normal_pattern lower_rune (pattern_of lower_rune raw)) patterns"
  shows "matcher_match lower_rune lib_match globs host \<longleftrightarrow>
    list_ex (\<lambda>raw. pattern_describes (pattern_of lower_rune raw) (to_lower lower_rune (normalize_proxy_host lower_rune host))) patterns"
proof -
  define h where "h = to_lower lower_rune (normalize_proxy_host lower_rune host)"
  have "matcher_match lower_rune lib_match globs host \<longleftrightarrow> (\<exists>g \<in> set globs. glob_match lib_match g h)"
    by (simp add: matcher_match_def Let_def h_def list_ex_iff)
  also have "\<dots> \<longleftrightarrow> (\<exists>raw \<in> set patterns. list_ex (\<lambda>c. glob_match lib_match (to_lower lower_rune c) h) (pattern_candidates (pattern_of lower_rune raw)))"
    using set_compile_patterns [of lower_rune lib_ok reject patterns "[]" globs] assms(1)
    by (auto simp: compile_matcher_def list_ex_iff)
  also have "\<dots> \<longleftrightarrow> (\<exists>raw \<in> set patterns. pattern_describes (pattern_of lower_rune raw) h)"
    using assms(2) by (auto simp: candidates_describe list_all_iff)
  finally show ?thesis by (simp add: h_def list_ex_iff)
qed

theorem compiled_matcher_exact_witness:
  "matcher_match id (\<lambda>g h. False) [''b.org'', ''?*.b.org''] ''X.B.org.'' =
   list_ex (\<lambda>raw. pattern_describes (pattern_of id raw) (to_lower id (normalize_proxy_host id ''X.B.org.''))) [''**.B.org'']"
proof (rule compiled_matcher_exact)
  show "compile_matcher id (\<lambda>g. False) [''**.B.org''] True = Inr [''b.org'', ''?*.b.org'']" by code_simp
  have "pattern_of id ''**.B.org'' = \<lparr>dpt_kind = PatternApexAndSubdomains, dpt_domain = ''b.org''\<rparr>" by code_simp
  moreover have "normal_pattern id \<lparr>dpt_kind = PatternApexAndSubdomains, dpt_domain = ''b.org''\<rparr>" by code_simp
  ultimately show "list_all (\<lambda>raw. normal_pattern id (pattern_of id raw)) [''**.B.org'']" by simp
qed

section \<open>The order between patterns\<close>

lemma glob_dot: "glob (CHR ''.'' # d) y \<longleftrightarrow> (\<exists>w. y = CHR ''.'' # w \<and> glob d w)"
  by (cases y) (auto simp: byte_equal_fold_def set_bit5_def)

lemma below_append: "x \<noteq> [] \<Longrightarrow> glob (pre @ CHR ''.'' # d) y \<Longrightarrow> below_domain d (x @ y)"
  unfolding below_domain_def glob_append by (metis append.assoc append_is_Nil_conv)

lemma below_glob: "\<not> has_prefix h ''.'' \<Longrightarrow> glob (pre @ CHR ''.'' # d) h \<Longrightarrow> below_domain d h"
proof -
  assume no: "\<not> has_prefix h ''.''" and "glob (pre @ CHR ''.'' # d) h"
  then obtain u v where h: "h = u @ v" and "glob pre u" and v: "glob (CHR ''.'' # d) v" by (auto simp: glob_append)
  then have "u \<noteq> []" using no by (auto simp: glob_dot simp del: glob.simps)
  then show ?thesis using h v by (auto simp: below_domain_def)
qed

lemma below_sub: "below_domain (pre @ CHR ''.'' # d) h \<Longrightarrow> below_domain d h"
  unfolding below_domain_def [of "pre @ CHR ''.'' # d"] using below_append [of _ "CHR ''.'' # pre" d] by auto

text \<open>The test between managed and configured patterns is sound: what a managed pattern allows describes
  no host the managed pattern does not describe, host names that begin with a dot aside.\<close>

theorem allowed_pattern_sound:
  assumes "pattern_allows lower_rune p c" and "normal_pattern lower_rune p" and "normal_pattern lower_rune c"
    and "\<not> has_prefix h ''.''" and "list_ex (\<lambda>g. glob_match lib_match (to_lower lower_rune g) h) (pattern_candidates c)"
  shows "list_ex (\<lambda>g. glob_match lib_match (to_lower lower_rune g) h) (pattern_candidates p)"
proof -
  have n: "normalize_domain lower_rune (dpt_domain p) = dpt_domain p" "normalize_domain lower_rune (dpt_domain c) = dpt_domain c"
    using assms(2,3) by (auto simp: normal_pattern_def)
  have c: "pattern_describes c h" using assms(3,5) candidates_describe by blast
  have sub: "has_suffix (dpt_domain c) (CHR ''.'' # dpt_domain p) \<Longrightarrow> below_domain (dpt_domain p) h"
    using c below_glob [OF assms(4)] below_sub
    by (auto simp: has_suffix_iff pattern_describes_def split: pattern_kind.splits)
  have "pattern_describes p h"
    using assms(1) c sub n
    by (auto simp: pattern_allows_def pattern_describes_def strict_subdomain_def subdomain_or_equal_def domain_equal_def Let_def
        split: pattern_kind.splits)
  then show ?thesis using assms(2) candidates_describe by blast
qed

theorem allowed_pattern_sound_witness:
  "list_ex (\<lambda>g. glob_match (\<lambda>g h. False) (to_lower id g) ''a.b.c.org'')
     (pattern_candidates \<lparr>dpt_kind = PatternSubdomainsOnly, dpt_domain = ''c.org''\<rparr>)"
  by (rule allowed_pattern_sound [where lower_rune = id and c = "\<lparr>dpt_kind = PatternApexAndSubdomains, dpt_domain = ''b.c.org''\<rparr>"]) code_simp+

end
