(* ===== verification/Proxy_Policy.thy ===== *)
theory Proxy_Policy
  imports Domain_Matcher "HOL-Library.AList"
begin

text \<open>
  The decisions of the network proxy: classes of addresses (\<open>network/proxy_policy.go\<close>), domain permissions
  (\<open>network/proxy_config.go\<close>), the evaluation of a request, its log of blocked requests and the check at
  connection time (\<open>network/proxy_server.go\<close>).  Answers of the name service, the verdict of the policy decider
  and the clock are arguments; the name service may answer differently each time it is asked.
\<close>

unbundle bit_operations_syntax

section \<open>Addresses that are not public\<close>

definition ipv4_number :: "ip \<Rightarrow> 32 word" where
  "ipv4_number b = push_bit 24 (ucast (b ! 0)) OR push_bit 16 (ucast (b ! 1)) OR push_bit 8 (ucast (b ! 2)) OR ucast (b ! 3)"

definition ipv4_in_cidr :: "ip \<Rightarrow> ip \<Rightarrow> nat \<Rightarrow> bool" where
  "ipv4_in_cidr a base prefix = (case to4 a of
     None \<Rightarrow> False
   | Some b \<Rightarrow> let mask = push_bit (32 - prefix) (0xffffffff :: 32 word)
               in ipv4_number b AND mask = ipv4_number base AND mask)"

definition is_non_public_ip :: "ip option \<Rightarrow> bool" where
  "is_non_public_ip ip = (case ip of
     None \<Rightarrow> False
   | Some a \<Rightarrow>
       if ip_is_loopback a \<or> ip_is_private a \<or> ip_is_link_local_unicast a \<or> ip_is_link_local_multicast a \<or>
          ip_is_unspecified a \<or> ip_is_multicast a then True
       else (case to4 a of
           None \<Rightarrow> length a = 16 \<and> a ! 0 AND 0xFE = 0xFC
         | Some b \<Rightarrow>
             ipv4_in_cidr b [0, 0, 0, 0] 8 \<or> ipv4_in_cidr b [100, 64, 0, 0] 10 \<or> ipv4_in_cidr b [192, 0, 0, 0] 24 \<or>
             ipv4_in_cidr b [192, 0, 2, 0] 24 \<or> ipv4_in_cidr b [198, 18, 0, 0] 15 \<or> ipv4_in_cidr b [198, 51, 100, 0] 24 \<or>
             ipv4_in_cidr b [203, 0, 113, 0] 24 \<or> ipv4_in_cidr b [240, 0, 0, 0] 4))"

definition is_private_network_ip :: "ip option \<Rightarrow> bool" where
  "is_private_network_ip ip = (case ip of
     None \<Rightarrow> False
   | Some a \<Rightarrow> if ip_is_private a then True else (case to4 a of None \<Rightarrow> False | Some b \<Rightarrow> ipv4_in_cidr b [100, 64, 0, 0] 10))"

definition proxy_ip_literal :: "bytes \<Rightarrow> ip option" where
  "proxy_ip_literal host = (case parse_ip host of Some a \<Rightarrow> Some a | None \<Rightarrow> parse_ip (unscoped_ip_literal host))"

lemma push_mask_eq:
  fixes x y :: "32 word"
  assumes "k \<le> 32"
  shows "x AND push_bit k 0xffffffff = y AND push_bit k 0xffffffff \<longleftrightarrow> unat x div 2 ^ k = unat y div 2 ^ k"
proof -
  have ones: "(0xffffffff :: 32 word) = - 1" by simp
  have "x AND push_bit k 0xffffffff = push_bit k (drop_bit k x)" for x :: "32 word"
    unfolding ones by (rule bit_word_eqI) (auto simp: bit_simps)
  then have "x AND push_bit k 0xffffffff = y AND push_bit k 0xffffffff \<longleftrightarrow>
      push_bit k (drop_bit k x) = push_bit k (drop_bit k y)" by simp
  also have "\<dots> \<longleftrightarrow> drop_bit k x = drop_bit k y"
  proof
    assume "push_bit k (drop_bit k x) = push_bit k (drop_bit k y)"
    then have "drop_bit k (push_bit k (drop_bit k x)) = drop_bit k (push_bit k (drop_bit k y))" by simp
    moreover have "drop_bit k (push_bit k (drop_bit k z)) = drop_bit k z" for z :: "32 word"
      by (rule bit_word_eqI) (auto simp: bit_simps dest: bit_imp_le_length)
    ultimately show "drop_bit k x = drop_bit k y" by simp
  qed simp
  also have "\<dots> \<longleftrightarrow> unat x div 2 ^ k = unat y div 2 ^ k"
    by (simp only: word_unat_eq_iff unat_drop_bit_eq) (simp only: drop_bit_eq_div)
  finally show ?thesis .
qed

lemma octet_number: "push_bit k (ucast a :: 32 word) = word_of_nat (unat a * 2 ^ k)" for a :: "8 word"
proof -
  have "(ucast a :: 32 word) = word_of_nat (unat a)"
    by (simp add: word_unat_eq_iff unat_of_nat unsigned_ucast_eq)
  then show ?thesis by (simp add: push_bit_eq_mult)
qed

lemma octets_disjoint:
  fixes a b c d :: "8 word"
  defines "A \<equiv> push_bit 24 (ucast a :: 32 word)" and "B \<equiv> push_bit 16 (ucast b :: 32 word)"
    and "C \<equiv> push_bit 8 (ucast c :: 32 word)" and "D \<equiv> ucast d :: 32 word"
  shows "A OR B OR C OR D = A + B + C + D"
proof -
  have "A AND B = 0" unfolding assms by (rule bit_word_eqI) (auto simp: bit_simps dest: bit_imp_le_length)
  moreover have "(A OR B) AND C = 0" unfolding assms by (rule bit_word_eqI) (auto simp: bit_simps dest: bit_imp_le_length)
  moreover have "(A OR B OR C) AND D = 0" unfolding assms by (rule bit_word_eqI) (auto simp: bit_simps dest: bit_imp_le_length)
  ultimately show ?thesis by (simp add: disjunctive_add_eq_or or.assoc)
qed

lemma unat_ipv4_number:
  "unat (ipv4_number [a, b, c, d]) = unat a * 16777216 + unat b * 65536 + unat c * 256 + unat d"
proof -
  have "ipv4_number [a, b, c, d] = push_bit 24 (ucast a) + push_bit 16 (ucast b) + push_bit 8 (ucast c) + push_bit 0 (ucast d)"
    by (simp add: ipv4_number_def octets_disjoint)
  also have "\<dots> = word_of_nat (unat a * 2 ^ 24 + unat b * 2 ^ 16 + unat c * 2 ^ 8 + unat d * 2 ^ 0)"
    by (simp only: octet_number of_nat_add)
  finally have "unat (ipv4_number [a, b, c, d]) =
      (unat a * 16777216 + unat b * 65536 + unat c * 256 + unat d) mod 4294967296"
    by (simp only: unat_of_nat) simp
  moreover have "unat a < 256" "unat b < 256" "unat c < 256" "unat d < 256"
    using unsigned_less [of a] unsigned_less [of b] unsigned_less [of c] unsigned_less [of d] by simp_all
  ultimately show ?thesis by simp
qed

lemma in_cidr_div:
  "prefix \<le> 32 \<Longrightarrow> ipv4_in_cidr [a, b, c, d] [p, q, r, s] prefix \<longleftrightarrow>
     (unat a * 16777216 + unat b * 65536 + unat c * 256 + unat d) div 2 ^ (32 - prefix) =
     (unat p * 16777216 + unat q * 65536 + unat r * 256 + unat s) div 2 ^ (32 - prefix)"
  by (simp add: ipv4_in_cidr_def to4_def Let_def push_mask_eq unat_ipv4_number)

lemma div_value: "r < m \<Longrightarrow> n = r + m * q \<Longrightarrow> n div m = q" for n :: nat
  by simp

lemma div_steps:
  fixes a b c d :: nat
  assumes "a < 256" "b < 256" "c < 256" "d < 256"
  defines "n \<equiv> a * 16777216 + b * 65536 + c * 256 + d"
  shows "n div 16777216 = a" "n div 4194304 = a * 4 + b div 64" "n div 131072 = a * 128 + b div 2"
    "n div 256 = a * 65536 + b * 256 + c" "n div 268435456 = a div 16"
proof -
  have n: "n = a * 16777216 + b * 65536 + c * 256 + d" by (simp add: n_def)
  have split: "\<exists>q r. x = r + m * q \<and> r < m" if "0 < m" for x m :: nat
    using that mod_mult_div_eq [of x m] mod_less_divisor [of m x] by metis
  show "n div 16777216 = a" by (rule div_value [of "b * 65536 + c * 256 + d"]) (use assms(1-4) n in linarith)+
  show "n div 256 = a * 65536 + b * 256 + c" by (rule div_value [of d]) (simp_all add: n assms(4))
  obtain q r where b: "b = r + 64 * q" "r < 64" using split [of 64 b] by auto
  have "n div 4194304 = a * 4 + q"
    by (rule div_value [of "r * 65536 + c * 256 + d"]) (use assms(1-4) b in \<open>simp_all add: n\<close>)
  then show "n div 4194304 = a * 4 + b div 64" using b by simp
  obtain q r where b: "b = r + 2 * q" "r < 2" using split [of 2 b] by auto
  have "n div 131072 = a * 128 + q"
    by (rule div_value [of "r * 65536 + c * 256 + d"]) (use assms(1-4) b in \<open>simp_all add: n\<close>)
  then show "n div 131072 = a * 128 + b div 2" using b by simp
  obtain q r where a: "a = r + 16 * q" "r < 16" using split [of 16 a] by auto
  have "n div 268435456 = q"
    by (rule div_value [of "r * 16777216 + b * 65536 + c * 256 + d"]) (use assms(1-4) a in \<open>simp_all add: n\<close>)
  then show "n div 268435456 = a div 16" using a by simp
qed

text \<open>The ranges of IPv4 addresses that are not public.\<close>

definition ipv4_not_public :: "nat \<Rightarrow> nat \<Rightarrow> nat \<Rightarrow> bool" where
  "ipv4_not_public a b c \<longleftrightarrow>
     a \<in> {0, 10, 127} \<or> 224 \<le> a \<or>
     a = 100 \<and> 64 \<le> b \<and> b \<le> 127 \<or> a = 169 \<and> b = 254 \<or> a = 172 \<and> 16 \<le> b \<and> b \<le> 31 \<or>
     a = 192 \<and> (b = 168 \<or> b = 0 \<and> c \<in> {0, 2}) \<or> a = 198 \<and> (b \<in> {18, 19} \<or> b = 51 \<and> c = 100) \<or>
     a = 203 \<and> b = 0 \<and> c = 113"

lemma nibble_mask: "x AND 0xF0 = y \<longleftrightarrow> unat x div 16 * 16 = unat y" for x y :: "8 word"
proof -
  have ones: "x AND push_bit 4 (- 1) = push_bit 4 (drop_bit 4 x)" by (rule bit_word_eqI) (auto simp: bit_simps)
  have "(0xF0 :: 8 word) = push_bit 4 (- 1)" by code_simp
  then have "x AND 0xF0 = push_bit 4 (drop_bit 4 x)" using ones by (simp only:)
  also have "\<dots> = word_of_nat (unat (drop_bit 4 x) * 16)" by (simp add: push_bit_eq_mult mult.commute)
  also have "unat (drop_bit 4 x) = unat x div 16" unfolding unat_drop_bit_eq by (simp add: drop_bit_eq_div)
  finally have "x AND 0xF0 = word_of_nat (unat x div 16 * 16)" .
  moreover have "unat (word_of_nat (unat x div 16 * 16) :: 8 word) = unat x div 16 * 16"
    using unsigned_less [where 'a = nat, of x] by (simp only: unat_of_nat) simp
  ultimately show ?thesis by (simp only: word_unat_eq_iff)
qed

lemma to4_forms: "a \<in> {b, replicate 10 0 @ [255, 255] @ b} \<Longrightarrow> length b = 4 \<Longrightarrow> to4 a = Some b"
  by (auto simp: to4_def nth_append)

lemma digits_eq:
  fixes a p q r m :: nat
  assumes "q < m" "r < m"
  shows "a * m + q = p * m + r \<longleftrightarrow> a = p \<and> q = r"
proof
  assume eq: "a * m + q = p * m + r"
  have "(a * m + q) div m = a" "(p * m + r) div m = p" using assms by simp_all
  then have "a = p" using eq by simp
  then show "a = p \<and> q = r" using eq by simp
qed simp

lemma octets_eq:
  fixes a b c p q r :: nat
  assumes "b < 256" "c < 256" "q < 256" "r < 256"
  shows "a * 65536 + b * 256 + c = p * 65536 + q * 256 + r \<longleftrightarrow> a = p \<and> b = q \<and> c = r"
  using digits_eq [of c 256 r "a * 256 + b" "p * 256 + q"] digits_eq [of b 256 q a p] assms
  by (simp add: add_mult_distrib mult.commute)

lemma div_is: "0 < m \<Longrightarrow> n div m = q \<longleftrightarrow> q * m \<le> n \<and> n < Suc q * m" for m n q :: nat
  using less_eq_div_iff_mult_less_eq [of m q n] div_less_iff_less_mult [of m n "Suc q"] by linarith

lemma ranges:
  fixes a b :: nat
  assumes "a < 256" "b < 256"
  shows "a * 4 + b div 64 = 401 \<longleftrightarrow> a = 100 \<and> 64 \<le> b \<and> b \<le> 127"
    and "a * 128 + b div 2 = 25353 \<longleftrightarrow> a = 198 \<and> (b = 18 \<or> b = 19)"
    and "b div 16 * 16 = 16 \<longleftrightarrow> 16 \<le> b \<and> b \<le> 31"
    and "a div 16 * 16 = 224 \<longleftrightarrow> 224 \<le> a \<and> a \<le> 239"
    and "a div 16 = 15 \<longleftrightarrow> 240 \<le> a"
proof -
  have "b div 64 < 4" "b div 2 < 128" using assms(2) by simp_all
  then have "a * 4 + b div 64 = 401 \<longleftrightarrow> a = 100 \<and> b div 64 = 1" and "a * 128 + b div 2 = 25353 \<longleftrightarrow> a = 198 \<and> b div 2 = 9"
    using digits_eq [of "b div 64" 4 1 a 100] digits_eq [of "b div 2" 128 9 a 198] by simp_all
  moreover have "b div 64 = 1 \<longleftrightarrow> 64 \<le> b \<and> b \<le> 127" "b div 2 = 9 \<longleftrightarrow> b = 18 \<or> b = 19" by (auto simp: div_is)
  ultimately show "a * 4 + b div 64 = 401 \<longleftrightarrow> a = 100 \<and> 64 \<le> b \<and> b \<le> 127"
    and "a * 128 + b div 2 = 25353 \<longleftrightarrow> a = 198 \<and> (b = 18 \<or> b = 19)" by auto
  show "b div 16 * 16 = 16 \<longleftrightarrow> 16 \<le> b \<and> b \<le> 31" "a div 16 * 16 = 224 \<longleftrightarrow> 224 \<le> a \<and> a \<le> 239"
    "a div 16 = 15 \<longleftrightarrow> 240 \<le> a"
    using assms div_is [of 16 b 1] div_is [of 16 a 14] div_is [of 16 a 15] by auto
qed

lemma not_public_split:
  "ipv4_not_public a b c \<longleftrightarrow>
     (if a = 127 \<or> (a = 10 \<or> a = 172 \<and> 16 \<le> b \<and> b \<le> 31 \<or> a = 192 \<and> b = 168) \<or> a = 169 \<and> b = 254 \<or>
         a = 224 \<and> b = 0 \<and> c = 0 \<or> a = 0 \<and> b = 0 \<and> c = 0 \<and> d = 0 \<or> 224 \<le> a \<and> a \<le> 239 then True
      else a = 0 \<or> a = 100 \<and> 64 \<le> b \<and> b \<le> 127 \<or> a = 192 \<and> b = 0 \<and> c = 0 \<or> a = 192 \<and> b = 0 \<and> c = 2 \<or>
        a = 198 \<and> (b = 18 \<or> b = 19) \<or> a = 198 \<and> b = 51 \<and> c = 100 \<or> a = 203 \<and> b = 0 \<and> c = 113 \<or> 240 \<le> a)"
proof (cases "224 \<le> a")
  case True
  then have "240 \<le> a \<or> a \<le> 239" by linarith
  with True show ?thesis unfolding ipv4_not_public_def by (simp split: if_splits)
next
  case False
  then have low: "\<not> 240 \<le> a" "a \<noteq> 224" by linarith+
  consider "a = 0" | "a = 10" | "a = 127" | "a = 100" | "a = 169" | "a = 172" | "a = 192" | "a = 198" | "a = 203"
    | "a \<notin> {0, 10, 127, 100, 169, 172, 192, 198, 203}" by blast
  then show ?thesis unfolding ipv4_not_public_def using False low by cases auto
qed

text \<open>The IPv4 addresses the proxy treats as not public are exactly the listed ranges.\<close>

theorem non_public_ipv4_exact:
  "is_non_public_ip (Some (replicate 10 0 @ [255, 255, a, b, c, d])) \<longleftrightarrow> ipv4_not_public (unat a) (unat b) (unat c)"
proof -
  define x where "x = replicate 10 0 @ [255, 255, a, b, c, d]"
  have x: "to4 x = Some [a, b, c, d]" using to4_forms [of x "[a, b, c, d]"] by (simp add: x_def)
  have bounds: "unat a < 256" "unat b < 256" "unat c < 256" "unat d < 256"
    using unsigned_less [of a] unsigned_less [of b] unsigned_less [of c] unsigned_less [of d] by simp_all
  note steps = div_steps [OF bounds]
  have zero: "x \<noteq> replicate 16 0"
  proof
    assume "x = replicate 16 0"
    then have "x ! 10 = 0" by simp
    moreover have "x ! 10 = 255" by (simp add: x_def nth_append)
    ultimately show False by simp
  qed
  have cidr: "ipv4_in_cidr [a, b, c, d] [0, 0, 0, 0] 8 \<longleftrightarrow> unat a = 0"
    "ipv4_in_cidr [a, b, c, d] [100, 64, 0, 0] 10 \<longleftrightarrow> unat a = 100 \<and> 64 \<le> unat b \<and> unat b \<le> 127"
    "ipv4_in_cidr [a, b, c, d] [198, 18, 0, 0] 15 \<longleftrightarrow> unat a = 198 \<and> (unat b = 18 \<or> unat b = 19)"
    "ipv4_in_cidr [a, b, c, d] [240, 0, 0, 0] 4 \<longleftrightarrow> 240 \<le> unat a"
    by (simp_all add: in_cidr_div steps ranges [OF bounds(1,2)])
  have cidr24: "ipv4_in_cidr [a, b, c, d] [p, q, r, 0] 24 \<longleftrightarrow> unat a = unat p \<and> unat b = unat q \<and> unat c = unat r" for p q r
  proof -
    have pqr: "unat p < 256" "unat q < 256" "unat r < 256" "unat (0 :: 8 word) < 256"
      using unsigned_less [of p] unsigned_less [of q] unsigned_less [of r] by simp_all
    have "ipv4_in_cidr [a, b, c, d] [p, q, r, 0] 24 \<longleftrightarrow>
        unat a * 65536 + unat b * 256 + unat c = unat p * 65536 + unat q * 256 + unat r"
      using div_steps(4) [OF pqr] by (simp add: in_cidr_div steps mult.commute)
    then show ?thesis using octets_eq bounds pqr by simp
  qed
  have mask: "b AND 0xF0 = 16 \<longleftrightarrow> 16 \<le> unat b \<and> unat b \<le> 31" "a AND 0xF0 = 0xE0 \<longleftrightarrow> 224 \<le> unat a \<and> unat a \<le> 239"
    using ranges(3,4) [OF bounds(1,2)] by (simp_all add: nibble_mask)
  have classes: "ip_is_loopback x \<longleftrightarrow> a = 127"
    "ip_is_private x \<longleftrightarrow> a = 10 \<or> a = 172 \<and> b AND 0xF0 = 16 \<or> a = 192 \<and> b = 168"
    "ip_is_link_local_unicast x \<longleftrightarrow> a = 169 \<and> b = 254"
    "ip_is_link_local_multicast x \<longleftrightarrow> a = 224 \<and> b = 0 \<and> c = 0"
    "ip_is_unspecified x \<longleftrightarrow> a = 0 \<and> b = 0 \<and> c = 0 \<and> d = 0"
    "ip_is_multicast x \<longleftrightarrow> a AND 0xF0 = 0xE0"
    using zero by (simp_all add: ip_is_loopback_def ip_is_private_def ip_is_link_local_unicast_def ip_is_link_local_multicast_def
        ip_is_unspecified_def ip_is_multicast_def x)
  have unats: "(w :: 8 word) = v \<longleftrightarrow> unat w = unat v" for w v by (simp only: word_unat_eq_iff)
  have "is_non_public_ip (Some x) \<longleftrightarrow> ipv4_not_public (unat a) (unat b) (unat c)"
    unfolding not_public_split [where d = "unat d"]
    unfolding is_non_public_ip_def option.case classes x cidr cidr24 mask
    unfolding unats by simp
  then show ?thesis by (simp add: x_def)
qed


section \<open>Domain permissions\<close>

text \<open>A permission is a string of the configuration; \<open>PermUnset\<close> stands for the empty one.\<close>

datatype domain_permission = PermUnset | PermNone | PermAllow | PermDeny

type_synonym domain_entries = "(bytes \<times> domain_permission) list"

definition rank_permission :: "domain_permission \<Rightarrow> nat" where
  "rank_permission p = (case p of PermDeny \<Rightarrow> 2 | PermAllow \<Rightarrow> 1 | _ \<Rightarrow> 0)"

definition effective_of :: "domain_entries \<Rightarrow> bytes \<Rightarrow> domain_permission" where
  "effective_of eff pattern = (case map_of eff pattern of None \<Rightarrow> PermUnset | Some p \<Rightarrow> p)"

definition effective_step :: "bytes \<times> domain_permission \<Rightarrow> bytes list \<times> domain_entries \<Rightarrow> bytes list \<times> domain_entries" where
  "effective_step e = (\<lambda>(order, eff).
     (if map_of eff (fst e) = None then order @ [fst e] else order,
      if rank_permission (snd e) > rank_permission (effective_of eff (fst e)) then AList.update (fst e) (snd e) eff else eff))"

definition effective_entries :: "domain_entries \<Rightarrow> domain_entries" where
  "effective_entries entries =
     (let (order, eff) = fold effective_step entries ([], []) in map (\<lambda>p. (p, effective_of eff p)) order)"

text \<open>The settings the policy reads: the domains may be absent.\<close>

record proxy_settings =
  ps_enabled :: bool
  ps_mode :: bytes
  ps_domains :: "domain_entries option"
  ps_review :: "bytes list"
  ps_local_binding :: bool

definition mode_allows_method :: "bytes \<Rightarrow> bytes \<Rightarrow> bool" where
  "mode_allows_method mode method =
     (if mode = ''full'' then True else method = ''GET'' \<or> method = ''HEAD'' \<or> method = ''OPTIONS'')"

definition domains_with :: "domain_permission \<Rightarrow> proxy_settings \<Rightarrow> bytes list" where
  "domains_with p s = (case ps_domains s of
     None \<Rightarrow> [] | Some es \<Rightarrow> map fst (filter (\<lambda>e. snd e = p) (effective_entries es)))"

definition allowed_domains :: "proxy_settings \<Rightarrow> bytes list" where
  "allowed_domains s = domains_with PermAllow s"

definition denied_domains :: "proxy_settings \<Rightarrow> bytes list" where
  "denied_domains s = domains_with PermDeny s"

definition upsert_domain :: "(nat \<Rightarrow> nat) \<Rightarrow> bytes \<Rightarrow> domain_permission \<Rightarrow> proxy_settings \<Rightarrow> proxy_settings" where
  "upsert_domain lower_rune host p s =
     (let es = (case ps_domains s of None \<Rightarrow> [] | Some es \<Rightarrow> es);
          kept = filter (\<lambda>e. normalize_proxy_host lower_rune (fst e) \<noteq> normalize_proxy_host lower_rune host) es
      in s\<lparr>ps_domains := Some (kept @ [(host, p)])\<rparr>)"

fun append_new :: "domain_permission \<Rightarrow> bytes list \<Rightarrow> bytes list \<Rightarrow> domain_entries \<Rightarrow> domain_entries" where
  "append_new p seen [] es = es"
| "append_new p seen (d # ds) es =
     (if d \<in> set seen then append_new p seen ds es else append_new p (d # seen) ds (es @ [(d, p)]))"

definition set_domain_entries :: "bytes list \<Rightarrow> domain_permission \<Rightarrow> proxy_settings \<Rightarrow> proxy_settings" where
  "set_domain_entries ds p s =
     (let es = (case ps_domains s of None \<Rightarrow> [] | Some es \<Rightarrow> es);
          kept = filter (\<lambda>e. snd e \<noteq> p) es;
          es' = append_new p [] ds kept
      in s\<lparr>ps_domains := (if es' = [] then None else Some es')\<rparr>)"

section \<open>What the permissions say\<close>

lemma rank_values [simp]:
  "rank_permission p = 2 \<longleftrightarrow> p = PermDeny" "rank_permission p = 1 \<longleftrightarrow> p = PermAllow" "rank_permission p = Suc 0 \<longleftrightarrow> p = PermAllow"
  "rank_permission p \<le> 2"
  by (cases p; simp add: rank_permission_def)+

definition best_rank :: "domain_entries \<Rightarrow> bytes \<Rightarrow> nat" where
  "best_rank es p = (if (p, PermDeny) \<in> set es then 2 else if (p, PermAllow) \<in> set es then 1 else 0)"

lemma best_rank_snoc: "best_rank (es @ [(p, q)]) x = (if x = p then max (best_rank es p) (rank_permission q) else best_rank es x)"
  by (cases q) (auto simp: best_rank_def rank_permission_def)

lemma effective_step_apply:
  "effective_step (p, q) (order, eff) =
     (if map_of eff p = None then order @ [p] else order,
      if rank_permission q > rank_permission (effective_of eff p) then AList.update p q eff else eff)"
  by (simp add: effective_step_def)

lemma effective_fold:
  "fold effective_step es ([], []) = (order, eff) \<Longrightarrow>
     rank_permission (effective_of eff x) = best_rank es x \<and> set order = fst ` set es \<and> fst ` set eff \<subseteq> set order"
proof (induction es arbitrary: order eff x rule: rev_induct)
  case Nil
  then show ?case by (simp add: effective_of_def rank_permission_def best_rank_def)
next
  case (snoc e es)
  obtain order1 eff1 where f: "fold effective_step es ([], []) = (order1, eff1)" by fastforce
  obtain p q where e: "e = (p, q)" by (cases e)
  note IH = snoc.IH [OF f]
  have order: "order = (if map_of eff1 p = None then order1 @ [p] else order1)"
    and eff: "eff = (if rank_permission q > rank_permission (effective_of eff1 p) then AList.update p q eff1 else eff1)"
    using snoc.prems f by (simp_all add: effective_step_apply e)
  have "p \<in> set order1" if "map_of eff1 p \<noteq> None"
    using that IH [of p] by (metis map_of_eq_None_iff subsetD)
  then have set_order: "set order = fst ` set (es @ [e])" using IH [of p] by (auto simp: order e)
  have "rank_permission (effective_of eff x) = best_rank (es @ [e]) x"
    unfolding e best_rank_snoc using IH [of x] IH [of p] by (auto simp: eff effective_of_def max_def update_conv')
  moreover have "fst ` set eff \<subseteq> set order"
    unfolding set_order using IH [of p] by (auto simp: eff e dom_update)
  ultimately show ?case using set_order by blast
qed

lemma effective_entries_iff:
  "(x, PermDeny) \<in> set (effective_entries es) \<longleftrightarrow> (x, PermDeny) \<in> set es"
  "(x, PermAllow) \<in> set (effective_entries es) \<longleftrightarrow> (x, PermAllow) \<in> set es \<and> (x, PermDeny) \<notin> set es"
proof -
  obtain order eff where f: "fold effective_step es ([], []) = (order, eff)" by fastforce
  have r: "rank_permission (effective_of eff y) = best_rank es y" and o: "set order = fst ` set es" for y
    using effective_fold [OF f, of y] by simp_all
  have "(x, q) \<in> set (effective_entries es) \<longleftrightarrow> x \<in> fst ` set es \<and> effective_of eff x = q" for q
    by (auto simp: effective_entries_def f o [symmetric])
  moreover have "effective_of eff x = PermDeny \<longleftrightarrow> best_rank es x = 2" "effective_of eff x = PermAllow \<longleftrightarrow> best_rank es x = 1"
    using r [of x] by (metis rank_values(1), metis rank_values(2))
  ultimately show "(x, PermDeny) \<in> set (effective_entries es) \<longleftrightarrow> (x, PermDeny) \<in> set es"
    and "(x, PermAllow) \<in> set (effective_entries es) \<longleftrightarrow> (x, PermAllow) \<in> set es \<and> (x, PermDeny) \<notin> set es"
    by (auto simp: best_rank_def intro: rev_image_eqI split: if_splits)
qed

definition entries_of :: "proxy_settings \<Rightarrow> domain_entries" where
  "entries_of s = (case ps_domains s of None \<Rightarrow> [] | Some es \<Rightarrow> es)"

lemma set_domains_with:
  "set (denied_domains s) = {x. (x, PermDeny) \<in> set (entries_of s)}"
  "set (allowed_domains s) = {x. (x, PermAllow) \<in> set (entries_of s) \<and> (x, PermDeny) \<notin> set (entries_of s)}"
proof -
  have "x \<in> set (domains_with p s) \<longleftrightarrow> (x, p) \<in> set (effective_entries (entries_of s))" for x p
    by (cases "ps_domains s") (auto simp: domains_with_def entries_of_def effective_entries_def image_iff)
  then show "set (denied_domains s) = {x. (x, PermDeny) \<in> set (entries_of s)}"
    and "set (allowed_domains s) = {x. (x, PermAllow) \<in> set (entries_of s) \<and> (x, PermDeny) \<notin> set (entries_of s)}"
    by (auto simp: denied_domains_def allowed_domains_def effective_entries_iff)
qed

lemma set_append_new: "set (append_new p seen ds es) = set es \<union> (\<lambda>d. (d, p)) ` (set ds - set seen)"
  by (induction p seen ds es rule: append_new.induct) auto

lemma entries_of_set: "entries_of (set_domain_entries ds p s) = append_new p [] ds (filter (\<lambda>e. snd e \<noteq> p) (entries_of s))"
  by (auto simp: entries_of_def set_domain_entries_def Let_def)

text \<open>Replacing the allowed domains allows exactly the new ones that are not denied and leaves the denied
  ones, replacing the denied domains denies exactly the new ones and takes them from the allowed: a denial
  wins, in whatever order the entries were written.\<close>

theorem domain_denial_wins:
  "set (denied_domains (set_domain_entries ds PermAllow s)) = set (denied_domains s) \<and>
   set (allowed_domains (set_domain_entries ds PermAllow s)) = set ds - set (denied_domains s) \<and>
   set (denied_domains (set_domain_entries ds PermDeny s)) = set ds \<and>
   set (allowed_domains (set_domain_entries ds PermDeny s)) = {x. (x, PermAllow) \<in> set (entries_of s)} - set ds"
  unfolding set_domains_with entries_of_set set_append_new by auto

end
