(* ===== verification/Proxy_Evaluation.thy ===== *)
theory Proxy_Evaluation
  imports Proxy_Policy
begin

text \<open>
  The evaluation of a request by the proxy and the check when it connects (\<open>network/proxy_server.go\<close>).  An
  evaluation runs on the runtime policy it loads once.  Name service answers are indexed by the place that
  asks: 0 before the approval of the decider, 1 after it.  Audit events are kept without clock and
  metadata, logging is left out.
\<close>

section \<open>Requests, decisions, state\<close>

datatype proxy_protocol = ProtocolHTTP | ProtocolHTTPSConnect | ProtocolSocks5TCP | ProtocolSocks5UDP
datatype decision_source = SourceNone | SourceBaselinePolicy | SourceModeGuard | SourceProxyState | SourceDecider
datatype policy_verdict = VerdictNone | VerdictDeny | VerdictAsk

record proxy_request =
  rq_protocol :: proxy_protocol
  rq_host :: bytes
  rq_port :: "16 word"
  rq_environment :: bytes
  rq_client :: bytes
  rq_method :: bytes

record proxy_decision =
  pd_allow :: bool
  pd_reason :: bytes
  pd_source :: decision_source
  pd_verdict :: policy_verdict

record blocked_request =
  bk_request :: proxy_request
  bk_decision :: proxy_decision
  bk_mode :: bytes
  bk_time :: int

record audit_event =
  au_request :: proxy_request
  au_decision :: bytes
  au_source :: decision_source
  au_reason :: bytes
  au_override :: bool

record proxy_server =
  sv_blocked :: "blocked_request list"
  sv_blocked_total :: "64 word"
  sv_audit :: "audit_event list"

definition new_proxy_server :: proxy_server where
  "new_proxy_server = \<lparr>sv_blocked = [], sv_blocked_total = 0, sv_audit = []\<rparr>"

record runtime_policy =
  rp_settings :: proxy_settings
  rp_allow :: "bytes list option"
  rp_deny :: "bytes list option"
  rp_review :: "bytes list option"

datatype domain_list = AllowedDomains | DeniedDomains | ReviewDomains

definition label_error :: "domain_list \<Rightarrow> matcher_error + 'a \<Rightarrow> (domain_list \<times> matcher_error) + 'a" where
  "label_error l r = (case r of Inl e \<Rightarrow> Inl (l, e) | Inr v \<Rightarrow> Inr v)"

definition build_runtime_policy ::
  "(nat \<Rightarrow> nat) \<Rightarrow> (bytes \<Rightarrow> bool) \<Rightarrow> proxy_settings \<Rightarrow> (domain_list \<times> matcher_error) + runtime_policy" where
  "build_runtime_policy lower_rune lib_ok s =
     bind_res (label_error AllowedDomains (compile_matcher lower_rune lib_ok (allowed_domains s) False)) (\<lambda>a.
     bind_res (label_error DeniedDomains (compile_matcher lower_rune lib_ok (denied_domains s) True)) (\<lambda>d.
     bind_res (label_error ReviewDomains (compile_matcher lower_rune lib_ok (ps_review s) False)) (\<lambda>r.
     Inr \<lparr>rp_settings = s, rp_allow = Some a, rp_deny = Some d, rp_review = Some r\<rparr>)))"

definition deny_decision :: "bytes \<Rightarrow> decision_source \<Rightarrow> proxy_decision" where
  "deny_decision reason source =
     \<lparr>pd_allow = False, pd_reason = (if reason = '''' then ''policy_denied'' else reason), pd_source = source, pd_verdict = VerdictDeny\<rparr>"

definition ask_decision :: "bytes \<Rightarrow> decision_source \<Rightarrow> proxy_decision" where
  "ask_decision reason source =
     \<lparr>pd_allow = False, pd_reason = (if reason = '''' then ''policy_denied'' else reason), pd_source = source, pd_verdict = VerdictAsk\<rparr>"

definition allow_decision :: proxy_decision where
  "allow_decision = \<lparr>pd_allow = True, pd_reason = '''', pd_source = SourceNone, pd_verdict = VerdictNone\<rparr>"

section \<open>Local and private addresses\<close>

definition explicit_local_allowlisted :: "(nat \<Rightarrow> nat) \<Rightarrow> bytes list \<Rightarrow> bytes \<Rightarrow> bool" where
  "explicit_local_allowlisted lower_rune allowlist host =
     (let unscoped = unscoped_ip_literal host in
      list_ex (\<lambda>pattern.
        let trimmed = trim_space pattern in
        if list_ex (\<lambda>c. c = STAR \<or> c = QUERY) trimmed then False
        else
          let n = normalize_proxy_host lower_rune trimmed in n = host \<or> unscoped \<noteq> '''' \<and> n = unscoped) allowlist)"

definition host_resolves_non_public :: "(bytes \<Rightarrow> ip list option) \<Rightarrow> bytes \<Rightarrow> bool" where
  "host_resolves_non_public lookup host =
     (if host = '''' \<or> proxy_ip_literal host \<noteq> None then False
      else (case lookup host of
          None \<Rightarrow> True
        | Some addresses \<Rightarrow> if addresses = [] then True else list_ex (\<lambda>a. is_non_public_ip (Some a)) addresses))"

definition is_local_literal :: "(nat \<Rightarrow> nat) \<Rightarrow> bytes \<Rightarrow> bool" where
  "is_local_literal lower_rune host \<longleftrightarrow>
     is_non_public_ip (proxy_ip_literal host) \<or>
     is_loopback_host (case parse_proxy_host lower_rune host of Inl e \<Rightarrow> '''' | Inr v \<Rightarrow> v)"

definition literal_local_reason :: "(nat \<Rightarrow> nat) \<Rightarrow> bytes list \<Rightarrow> bytes \<Rightarrow> bool \<times> bytes" where
  "literal_local_reason lower_rune allowlist host =
     (if is_local_literal lower_rune host
      then (if \<not> explicit_local_allowlisted lower_rune allowlist host then (True, ''not_allowed_local'') else (True, ''''))
      else (False, ''''))"

definition baseline_local_reason ::
  "(nat \<Rightarrow> nat) \<Rightarrow> (bytes \<Rightarrow> ip list option) \<Rightarrow> bytes list \<Rightarrow> bytes \<Rightarrow> bool \<Rightarrow> bytes" where
  "baseline_local_reason lower_rune lookup allowlist host authorized =
     (case literal_local_reason lower_rune allowlist host of
        (handled, reason) \<Rightarrow>
          if handled then reason
          else if authorized \<and> host_resolves_non_public lookup host then ''not_allowed_local'' else '''')"

definition approved_local_reason :: "(nat \<Rightarrow> nat) \<Rightarrow> (bytes \<Rightarrow> ip list option) \<Rightarrow> bytes list \<Rightarrow> bytes \<Rightarrow> bytes" where
  "approved_local_reason lower_rune lookup allowlist host =
     (case literal_local_reason lower_rune allowlist host of
        (handled, reason) \<Rightarrow>
          if handled then reason
          else if host_resolves_non_public lookup host then ''not_allowed_local'' else '''')"

section \<open>The log of blocked requests and the audit trail\<close>

definition max_blocked_events :: nat where
  "max_blocked_events = 200"

definition record_blocked :: "int \<Rightarrow> proxy_request \<Rightarrow> proxy_decision \<Rightarrow> bytes \<Rightarrow> proxy_server \<Rightarrow> proxy_server" where
  "record_blocked now request d mode sv =
     (if pd_allow d then sv
      else
        let events = sv_blocked sv @ [\<lparr>bk_request = request, bk_decision = d, bk_mode = mode, bk_time = now\<rparr>]
        in sv\<lparr>sv_blocked := (if max_blocked_events < length events then drop (length events - max_blocked_events) events else events),
              sv_blocked_total := sv_blocked_total sv + 1\<rparr>)"

definition audit_of :: "proxy_request \<Rightarrow> proxy_decision \<Rightarrow> bool \<Rightarrow> audit_event" where
  "audit_of request d override =
     \<lparr>au_request = request,
      au_decision = (if pd_allow d then ''allow'' else case pd_verdict d of VerdictAsk \<Rightarrow> ''ask'' | _ \<Rightarrow> ''deny''),
      au_source = pd_source d, au_reason = pd_reason d, au_override = override\<rparr>"

definition emit_audit :: "proxy_request \<Rightarrow> proxy_decision \<Rightarrow> bool \<Rightarrow> proxy_server \<Rightarrow> proxy_server" where
  "emit_audit request d override sv = sv\<lparr>sv_audit := sv_audit sv @ [audit_of request d override]\<rparr>"

definition deny_request ::
  "int \<Rightarrow> proxy_request \<Rightarrow> bytes \<Rightarrow> bytes \<Rightarrow> decision_source \<Rightarrow> proxy_server \<Rightarrow> proxy_decision \<times> proxy_server" where
  "deny_request now request mode reason source sv =
     (let d = deny_decision reason source in (d, record_blocked now request d mode (emit_audit request d False sv)))"

section \<open>The evaluation\<close>

text \<open>A matcher that was not compiled with the policy is compiled here; one that does not compile matches
  nothing.\<close>

definition matcher_or_compile ::
  "(nat \<Rightarrow> nat) \<Rightarrow> (bytes \<Rightarrow> bool) \<Rightarrow> bytes list option \<Rightarrow> bytes list \<Rightarrow> bool \<Rightarrow> bytes list" where
  "matcher_or_compile lower_rune lib_ok m patterns reject = (case m of
     Some globs \<Rightarrow> globs
   | None \<Rightarrow> (case compile_matcher lower_rune lib_ok patterns reject of Inl e \<Rightarrow> [] | Inr globs \<Rightarrow> globs))"

definition evaluate_proxy_policy ::
  "(nat \<Rightarrow> nat) \<Rightarrow> (bytes \<Rightarrow> bool) \<Rightarrow> (bytes \<Rightarrow> bytes \<Rightarrow> bool) \<Rightarrow> (nat \<Rightarrow> bytes \<Rightarrow> ip list option) \<Rightarrow>
   (proxy_request \<Rightarrow> proxy_decision) option \<Rightarrow> int \<Rightarrow> runtime_policy \<Rightarrow> proxy_request \<Rightarrow> proxy_server \<Rightarrow>
   proxy_decision \<times> proxy_server" where
  "evaluate_proxy_policy lower_rune lib_ok lib_match lookup decider now policy request sv =
     (let s = rp_settings policy;
          deny = deny_request now request (ps_mode s);
          allowlist = allowed_domains s;
          allowed = matcher_match lower_rune lib_match
            (matcher_or_compile lower_rune lib_ok (rp_allow policy) allowlist False) (rq_host request);
          needs_review = (case rp_review policy of
            None \<Rightarrow> False | Some globs \<Rightarrow> matcher_match lower_rune lib_match globs (rq_host request))
      in if \<not> ps_enabled s then deny ''proxy_disabled'' SourceProxyState sv
         else if rq_protocol request = ProtocolHTTP \<and> \<not> mode_allows_method (ps_mode s) (rq_method request)
         then deny ''method_not_allowed'' SourceModeGuard sv
         else if matcher_match lower_rune lib_match
           (matcher_or_compile lower_rune lib_ok (rp_deny policy) (denied_domains s) True) (rq_host request)
         then deny ''denied'' SourceBaselinePolicy sv
         else if \<not> ps_local_binding s \<and>
           baseline_local_reason lower_rune (lookup 0) allowlist (rq_host request) (allowed \<and> \<not> needs_review) \<noteq> ''''
         then deny ''not_allowed_local'' SourceBaselinePolicy sv
         else if \<not> needs_review \<and> 0 < length allowlist \<and> allowed then
           let d = allow_decision\<lparr>pd_source := SourceBaselinePolicy, pd_reason := ''allow''\<rparr>
           in (d, record_blocked now request d (ps_mode s) (emit_audit request d False sv))
         else (case decider of
             None \<Rightarrow> deny ''not_allowed'' SourceBaselinePolicy sv
           | Some decide \<Rightarrow>
               let d = (decide request)\<lparr>pd_source := SourceDecider\<rparr>
               in if pd_allow d then
                    if \<not> ps_local_binding s \<and> approved_local_reason lower_rune (lookup 1) allowlist (rq_host request) \<noteq> ''''
                    then deny ''not_allowed_local'' SourceBaselinePolicy sv
                    else let d1 = d\<lparr>pd_reason := ''not_allowed''\<rparr> in (d1, emit_audit request d1 True sv)
                  else
                    let d1 = (if pd_reason d = '''' then d\<lparr>pd_reason := ''not_allowed''\<rparr> else d);
                        d2 = (if pd_verdict d1 = VerdictNone then d1\<lparr>pd_verdict := VerdictDeny\<rparr> else d1)
                    in (d2, emit_audit request d2 False sv)))"

definition block_reason_for ::
  "(nat \<Rightarrow> nat) \<Rightarrow> (bytes \<Rightarrow> bool) \<Rightarrow> (bytes \<Rightarrow> bytes \<Rightarrow> bool) \<Rightarrow> (nat \<Rightarrow> bytes \<Rightarrow> ip list option) \<Rightarrow>
   (proxy_request \<Rightarrow> proxy_decision) option \<Rightarrow> int \<Rightarrow> runtime_policy \<Rightarrow> proxy_request \<Rightarrow> proxy_server \<Rightarrow> bytes \<times> proxy_server" where
  "block_reason_for lower_rune lib_ok lib_match lookup decider now policy request sv =
     (case evaluate_proxy_policy lower_rune lib_ok lib_match lookup decider now policy
         (request\<lparr>rq_host := normalize_proxy_host lower_rune (rq_host request)\<rparr>) sv of
        (d, sv') \<Rightarrow> (if pd_allow d then '''' else pd_reason d, sv'))"


section \<open>The check when the proxy connects\<close>

text \<open>\<open>net.SplitHostPort\<close>.\<close>

definition split_host_port :: "bytes \<Rightarrow> (bytes \<times> bytes) option" where
  "split_host_port a =
     (if CHR '':'' \<notin> set a then None
      else
        let port = rev (takeWhile (\<lambda>c. c \<noteq> CHR '':'') (rev a)); i = length a - length port - 1 in
        if has_prefix a ''['' then
          (let inside = takeWhile (\<lambda>c. c \<noteq> CHR '']'') a; after = drop (length inside + 1) a in
           if length inside = length a \<or> length inside + 1 \<noteq> i then None
           else if CHR ''['' \<in> set (drop 1 a) \<or> CHR '']'' \<in> set after then None
           else Some (drop 1 inside, port))
        else if CHR '':'' \<in> set (take i a) \<or> CHR ''['' \<in> set a \<or> CHR '']'' \<in> set a then None
        else Some (take i a, port))"

datatype dial_target = DialAddress bytes | DialIp ip bytes bytes
datatype dial_error = BadAddress | RejectedByPolicy | LookupFailed | DialFailed dial_target | NoAddresses

text \<open>The loop over the resolved addresses, with the connections it tried.\<close>

fun dial_addresses ::
  "bool \<Rightarrow> (dial_target \<Rightarrow> bool) \<Rightarrow> bytes \<Rightarrow> (ip \<times> bytes) list \<Rightarrow> dial_error option \<Rightarrow>
   (dial_error + dial_target) \<times> dial_target list" where
  "dial_addresses local connect port [] lasterr = (Inl (case lasterr of None \<Rightarrow> NoAddresses | Some e \<Rightarrow> e), [])"
| "dial_addresses local connect port ((a, zone) # rest) lasterr =
     (if \<not> local \<and> is_non_public_ip (Some a) then dial_addresses local connect port rest (Some RejectedByPolicy)
      else
        let t = DialIp a zone port in
        if connect t then (Inr t, [t])
        else (case dial_addresses local connect port rest (Some (DialFailed t)) of (r, tried) \<Rightarrow> (r, t # tried)))"

definition dial_checked_target ::
  "(nat \<Rightarrow> nat) \<Rightarrow> (bytes \<Rightarrow> bytes \<Rightarrow> bool) \<Rightarrow> (bytes \<Rightarrow> (ip \<times> bytes) list option) \<Rightarrow> (dial_target \<Rightarrow> bool) \<Rightarrow>
   runtime_policy \<Rightarrow> bytes \<Rightarrow> (dial_error + dial_target) \<times> dial_target list" where
  "dial_checked_target lower_rune lib_match lookup connect policy address =
     (let s = rp_settings policy in
      case split_host_port address of
        None \<Rightarrow> (Inl BadAddress, [])
      | Some (host, port) \<Rightarrow>
          if (case rp_deny policy of None \<Rightarrow> False | Some globs \<Rightarrow> matcher_match lower_rune lib_match globs host)
          then (Inl RejectedByPolicy, [])
          else if proxy_ip_literal host \<noteq> None then
            (if \<not> ps_local_binding s \<and> is_non_public_ip (proxy_ip_literal host) then (Inl RejectedByPolicy, [])
             else
               let t = DialAddress address in ((if connect t then Inr t else Inl (DialFailed t)), [t]))
          else (case lookup host of
              None \<Rightarrow> (Inl LookupFailed, [])
            | Some addresses \<Rightarrow> dial_addresses (ps_local_binding s) connect port addresses None))"

section \<open>What an allowed request satisfies\<close>

lemma denied_not_allowed [simp]: "\<not> pd_allow (deny_decision reason source)"
  by (simp add: deny_decision_def)

lemma fst_deny_request [simp]: "fst (deny_request now request mode reason source sv) = deny_decision reason source"
  by (simp add: deny_request_def Let_def)

text \<open>The guard of local addresses, at the place that asks the name service.\<close>

definition local_guard_passed :: "(nat \<Rightarrow> nat) \<Rightarrow> (bytes \<Rightarrow> ip list option) \<Rightarrow> bytes list \<Rightarrow> bytes \<Rightarrow> bool" where
  "local_guard_passed lower_rune lookup allowlist host \<longleftrightarrow>
     (if is_local_literal lower_rune host then explicit_local_allowlisted lower_rune allowlist host
      else if host = '''' \<or> proxy_ip_literal host \<noteq> None then True
      else (case lookup host of None \<Rightarrow> False
        | Some addresses \<Rightarrow> addresses \<noteq> [] \<and> list_all (\<lambda>a. \<not> is_non_public_ip (Some a)) addresses))"

lemma approved_reason_iff:
  "approved_local_reason lower_rune lookup allowlist host = '''' \<longleftrightarrow> local_guard_passed lower_rune lookup allowlist host"
  by (auto simp: approved_local_reason_def literal_local_reason_def local_guard_passed_def host_resolves_non_public_def
      list_ex_iff list_all_iff split: option.splits)

lemma baseline_reason_iff:
  "baseline_local_reason lower_rune lookup allowlist host authorized = '''' \<longleftrightarrow>
     (if authorized then local_guard_passed lower_rune lookup allowlist host
      else if is_local_literal lower_rune host then explicit_local_allowlisted lower_rune allowlist host else True)"
proof (cases authorized)
  case True
  then have "baseline_local_reason lower_rune lookup allowlist host authorized = approved_local_reason lower_rune lookup allowlist host"
    by (simp add: baseline_local_reason_def approved_local_reason_def split: prod.split)
  then show ?thesis using True approved_reason_iff by simp
qed (simp add: baseline_local_reason_def literal_local_reason_def)

text \<open>C5: a request is allowed exactly when the proxy is enabled, its mode admits the method, no denied pattern
  matches the host, and either an allowed pattern matches and no review pattern does, or the decider
  approves; unless local binding is on, a local or private literal must also be listed explicitly and every
  address the name service gives, asked again after an approval, must be public.\<close>

theorem evaluate_allows_exactly:
  fixes lower_rune lib_ok lib_match policy request
  defines "s \<equiv> rp_settings policy" and "host \<equiv> rq_host request"
  defines "allowed \<equiv> matcher_match lower_rune lib_match
      (matcher_or_compile lower_rune lib_ok (rp_allow policy) (allowed_domains s) False) host"
    and "denied \<equiv> matcher_match lower_rune lib_match
      (matcher_or_compile lower_rune lib_ok (rp_deny policy) (denied_domains s) True) host"
    and "review \<equiv> (case rp_review policy of None \<Rightarrow> False | Some globs \<Rightarrow> matcher_match lower_rune lib_match globs host)"
  shows "pd_allow (fst (evaluate_proxy_policy lower_rune lib_ok lib_match lookup decider now policy request sv)) \<longleftrightarrow>
    ps_enabled s \<and> (if rq_protocol request = ProtocolHTTP then mode_allows_method (ps_mode s) (rq_method request) else True) \<and>
    \<not> denied \<and>
    (ps_local_binding s \<or>
     (if allowed \<and> \<not> review then local_guard_passed lower_rune (lookup 0) (allowed_domains s) host
      else if is_local_literal lower_rune host then explicit_local_allowlisted lower_rune (allowed_domains s) host else True)) \<and>
    (allowed \<and> \<not> review \<and> allowed_domains s \<noteq> [] \<or>
     (case decider of None \<Rightarrow> False
      | Some decide \<Rightarrow> pd_allow (decide request) \<and>
          (ps_local_binding s \<or> local_guard_passed lower_rune (lookup 1) (allowed_domains s) host)))"
proof (cases "ps_enabled s \<and> \<not> denied")
  case False
  then show ?thesis unfolding evaluate_proxy_policy_def Let_def
    s_def [symmetric] host_def [symmetric] allowed_def [symmetric] denied_def [symmetric] review_def [symmetric]
    by (cases "ps_enabled s"; cases denied) simp_all
next
  case True
  show ?thesis
  proof (cases decider)
    case None
    show ?thesis unfolding evaluate_proxy_policy_def Let_def baseline_reason_iff approved_reason_iff None
    s_def [symmetric] host_def [symmetric] allowed_def [symmetric] denied_def [symmetric] review_def [symmetric]
      using True by (cases allowed; cases review; cases "allowed_domains s") (simp_all add: allow_decision_def)
  next
    case (Some decide)
    show ?thesis unfolding evaluate_proxy_policy_def Let_def baseline_reason_iff approved_reason_iff Some
    s_def [symmetric] host_def [symmetric] allowed_def [symmetric] denied_def [symmetric] review_def [symmetric]
      using True by (cases "pd_allow (decide request)"; cases allowed; cases review; cases "allowed_domains s") (simp_all add: allow_decision_def)
  qed
qed


section \<open>No denial without a reason, one audit event per request\<close>

text \<open>The reason a caller tests is empty exactly when the request is allowed, whatever the decider answers:
  no denial is taken for a permission.\<close>

theorem block_reason_empty_iff:
  "fst (block_reason_for lower_rune lib_ok lib_match lookup decider now policy request sv) = '''' \<longleftrightarrow>
   pd_allow (fst (evaluate_proxy_policy lower_rune lib_ok lib_match lookup decider now policy
     (request\<lparr>rq_host := normalize_proxy_host lower_rune (rq_host request)\<rparr>) sv))"
proof -
  have "pd_allow (fst (evaluate_proxy_policy lower_rune lib_ok lib_match lookup decider now policy r sv)) \<or>
      pd_reason (fst (evaluate_proxy_policy lower_rune lib_ok lib_match lookup decider now policy r sv)) \<noteq> ''''" for r
    unfolding evaluate_proxy_policy_def Let_def
    by (cases decider) (simp_all add: allow_decision_def deny_decision_def deny_request_def Let_def)
  from this [of "request\<lparr>rq_host := normalize_proxy_host lower_rune (rq_host request)\<rparr>"] show ?thesis
    by (auto simp: block_reason_for_def case_prod_beta)
qed

record proxy_call =
  pc_lookup :: "nat \<Rightarrow> bytes \<Rightarrow> ip list option"
  pc_decider :: "(proxy_request \<Rightarrow> proxy_decision) option"
  pc_now :: int
  pc_policy :: runtime_policy
  pc_request :: proxy_request

definition call_result ::
  "(nat \<Rightarrow> nat) \<Rightarrow> (bytes \<Rightarrow> bool) \<Rightarrow> (bytes \<Rightarrow> bytes \<Rightarrow> bool) \<Rightarrow> proxy_call \<Rightarrow> proxy_server \<Rightarrow> proxy_decision \<times> proxy_server" where
  "call_result lower_rune lib_ok lib_match c sv =
     evaluate_proxy_policy lower_rune lib_ok lib_match (pc_lookup c) (pc_decider c) (pc_now c) (pc_policy c) (pc_request c) sv"

definition proxy_run ::
  "(nat \<Rightarrow> nat) \<Rightarrow> (bytes \<Rightarrow> bool) \<Rightarrow> (bytes \<Rightarrow> bytes \<Rightarrow> bool) \<Rightarrow> proxy_call list \<Rightarrow> proxy_server" where
  "proxy_run lower_rune lib_ok lib_match calls =
     fold (\<lambda>c sv. snd (call_result lower_rune lib_ok lib_match c sv)) calls new_proxy_server"

definition decision_on ::
  "(nat \<Rightarrow> nat) \<Rightarrow> (bytes \<Rightarrow> bool) \<Rightarrow> (bytes \<Rightarrow> bytes \<Rightarrow> bool) \<Rightarrow> proxy_call \<Rightarrow> proxy_decision" where
  "decision_on lower_rune lib_ok lib_match c = fst (call_result lower_rune lib_ok lib_match c new_proxy_server)"

definition denied_by_policy :: "proxy_decision \<Rightarrow> bool" where
  "denied_by_policy d \<longleftrightarrow> \<not> pd_allow d \<and> pd_source d \<noteq> SourceDecider"

definition blocked_entry :: "proxy_call \<Rightarrow> proxy_decision \<Rightarrow> blocked_request" where
  "blocked_entry c d = \<lparr>bk_request = pc_request c, bk_decision = d, bk_mode = ps_mode (rp_settings (pc_policy c)), bk_time = pc_now c\<rparr>"

text \<open>What a decision does to the server.\<close>

definition decision_effect :: "int \<Rightarrow> proxy_request \<Rightarrow> bytes \<Rightarrow> proxy_decision \<Rightarrow> proxy_server \<Rightarrow> proxy_server" where
  "decision_effect now request mode d sv =
     (let sv1 = emit_audit request d (pd_allow d \<and> pd_source d = SourceDecider) sv
      in if denied_by_policy d then record_blocked now request d mode sv1 else sv1)"

definition effect_ok :: "int \<Rightarrow> proxy_request \<Rightarrow> bytes \<Rightarrow> proxy_server \<Rightarrow> proxy_decision \<times> proxy_server \<Rightarrow> bool" where
  "effect_ok now request mode sv p \<longleftrightarrow> snd p = decision_effect now request mode (fst p) sv"

lemma effect_deny: "source \<noteq> SourceDecider \<Longrightarrow> effect_ok now request mode sv (deny_request now request mode reason source sv)"
  by (simp add: effect_ok_def decision_effect_def deny_request_def deny_decision_def denied_by_policy_def Let_def)

lemma effect_allow:
  "pd_allow d \<Longrightarrow> pd_source d \<noteq> SourceDecider \<Longrightarrow>
   effect_ok now request mode sv (d, record_blocked now request d mode (emit_audit request d False sv))"
  by (simp add: effect_ok_def decision_effect_def denied_by_policy_def record_blocked_def Let_def)

lemma effect_decider:
  "pd_source d = SourceDecider \<Longrightarrow> ov = pd_allow d \<Longrightarrow> effect_ok now request mode sv (d, emit_audit request d ov sv)"
  by (simp add: effect_ok_def decision_effect_def denied_by_policy_def Let_def)

lemma effect_if: "effect_ok now request mode sv (if c then p else q) \<longleftrightarrow>
    (c \<longrightarrow> effect_ok now request mode sv p) \<and> (\<not> c \<longrightarrow> effect_ok now request mode sv q)"
  by simp

lemma evaluate_effect:
  "effect_ok now request (ps_mode (rp_settings policy)) sv
     (evaluate_proxy_policy lower_rune lib_ok lib_match lookup decider now policy request sv)"
  unfolding evaluate_proxy_policy_def Let_def
  by (cases decider) (simp_all add: effect_if effect_deny effect_allow effect_decider allow_decision_def)

lemma evaluate_independent:
  "fst (evaluate_proxy_policy lower_rune lib_ok lib_match lookup decider now policy request sv) =
   fst (evaluate_proxy_policy lower_rune lib_ok lib_match lookup decider now policy request sv')"
  unfolding evaluate_proxy_policy_def Let_def
  by (cases decider) (simp_all only: if_distrib [of fst] fst_deny_request fst_conv option.case)

lemma call_result_effect:
  "snd (call_result lower_rune lib_ok lib_match c sv) =
     decision_effect (pc_now c) (pc_request c) (ps_mode (rp_settings (pc_policy c))) (decision_on lower_rune lib_ok lib_match c) sv"
  using evaluate_effect unfolding decision_on_def call_result_def effect_ok_def by (metis evaluate_independent)

lemma record_blocked_window:
  fixes now r mode d sv
  assumes "sv_blocked sv = last_n max_blocked_events h" and "sv_blocked_total sv = word_of_nat (length h)" and "\<not> pd_allow d"
  defines "sv' \<equiv> record_blocked now r d mode sv" and "e \<equiv> \<lparr>bk_request = r, bk_decision = d, bk_mode = mode, bk_time = now\<rparr>"
  shows "sv_blocked sv' = last_n max_blocked_events (h @ [e])" "sv_blocked_total sv' = word_of_nat (length (h @ [e]))"
    "sv_audit sv' = sv_audit sv"
proof -
  have "sv_blocked sv' = last_n max_blocked_events (sv_blocked sv @ [e])"
    using assms(3) by (auto simp: sv'_def e_def record_blocked_def Let_def drop_eq_last_n)
  then show "sv_blocked sv' = last_n max_blocked_events (h @ [e])" using assms(1) by simp
qed (use assms(2,3) in \<open>simp_all add: sv'_def record_blocked_def Let_def\<close>)

text \<open>After any requests, under policies that may be reloaded in between, the log holds the last 200 denials
  of the policy, their total is exact up to 64 bits, and the audit trail has one event per request, in order,
  that tells its decision and whether the decider overrode the policy.\<close>

theorem blocked_log_window:
  fixes lower_rune lib_ok lib_match calls
  defines "decided \<equiv> map (\<lambda>c. (c, decision_on lower_rune lib_ok lib_match c)) calls"
  shows "sv_blocked (proxy_run lower_rune lib_ok lib_match calls) =
      last_n 200 (map (\<lambda>(c, d). blocked_entry c d) (filter (\<lambda>(c, d). denied_by_policy d) decided)) \<and>
    sv_blocked_total (proxy_run lower_rune lib_ok lib_match calls) = word_of_nat (length (filter (\<lambda>(c, d). denied_by_policy d) decided)) \<and>
    sv_audit (proxy_run lower_rune lib_ok lib_match calls) =
      map (\<lambda>(c, d). audit_of (pc_request c) d (pd_allow d \<and> pd_source d = SourceDecider)) decided"
  unfolding decided_def max_blocked_events_def [symmetric]
proof (induction calls rule: rev_induct)
  case Nil
  then show ?case by (simp add: proxy_run_def new_proxy_server_def)
next
  case (snoc c calls)
  define sv where "sv = proxy_run lower_rune lib_ok lib_match calls"
  define d where "d = decision_on lower_rune lib_ok lib_match c"
  define sv1 where "sv1 = emit_audit (pc_request c) d (pd_allow d \<and> pd_source d = SourceDecider) sv"
  have run: "proxy_run lower_rune lib_ok lib_match (calls @ [c]) =
      (if denied_by_policy d then record_blocked (pc_now c) (pc_request c) d (ps_mode (rp_settings (pc_policy c))) sv1 else sv1)"
    by (simp add: proxy_run_def call_result_effect decision_effect_def Let_def d_def sv1_def sv_def)
  have sv1: "sv_blocked sv1 = sv_blocked sv" "sv_blocked_total sv1 = sv_blocked_total sv"
    "sv_audit sv1 = sv_audit sv @ [audit_of (pc_request c) d (pd_allow d \<and> pd_source d = SourceDecider)]"
    by (simp_all add: sv1_def emit_audit_def)
  show ?case
  proof (cases "denied_by_policy d")
    case True
    then have "\<not> pd_allow d" by (simp add: denied_by_policy_def)
    note window = record_blocked_window [OF _ _ this, of sv1]
    show ?thesis using snoc.IH True run window sv1
      by (simp add: sv_def [symmetric] d_def [symmetric] blocked_entry_def)
  next
    case False
    then show ?thesis using snoc.IH run sv1 by (simp add: sv_def [symmetric] d_def [symmetric])
  qed
qed

section \<open>Only public addresses are dialled\<close>

definition target_ip :: "dial_target \<Rightarrow> ip option" where
  "target_ip t = (case t of
     DialIp a zone port \<Rightarrow> Some a
   | DialAddress address \<Rightarrow> (case split_host_port address of None \<Rightarrow> None | Some (host, port) \<Rightarrow> proxy_ip_literal host))"

definition may_dial :: "bool \<Rightarrow> dial_target \<Rightarrow> bool" where
  "may_dial local t \<longleftrightarrow> (if local then True else \<not> is_non_public_ip (target_ip t))"

lemma dial_addresses_public:
  "list_all (may_dial local) (snd (dial_addresses local connect port addresses lasterr))"
  by (induction local connect port addresses lasterr rule: dial_addresses.induct)
     (auto simp: may_dial_def target_ip_def Let_def split: prod.split)

lemma dial_addresses_connected:
  "fst (dial_addresses local connect port addresses lasterr) = Inr t \<Longrightarrow>
   connect t \<and> (\<exists>before. snd (dial_addresses local connect port addresses lasterr) = before @ [t] \<and> list_all (\<lambda>u. \<not> connect u) before)"
proof (induction local connect port addresses lasterr rule: dial_addresses.induct)
  case (2 local connect port a zone rest lasterr)
  show ?case
  proof (cases "\<not> local \<and> is_non_public_ip (Some a) \<or> connect (DialIp a zone port)")
    case True
    then show ?thesis using 2 by (auto simp: Let_def split: if_splits)
  next
    case False
    then have r: "fst (dial_addresses local connect port rest (Some (DialFailed (DialIp a zone port)))) = Inr t"
      using 2(3) by (auto simp: Let_def split: prod.splits)
    then obtain before where "connect t" "list_all (\<lambda>u. \<not> connect u) before"
        "snd (dial_addresses local connect port rest (Some (DialFailed (DialIp a zone port)))) = before @ [t]"
      using 2(2) False by auto
    then show ?thesis using False by (auto simp: Let_def split: prod.splits intro!: exI [of _ "DialIp a zone port # before"])
  qed
qed simp

text \<open>C21: whatever the name service answers when the proxy connects, nothing is dialled for a denied host, and
  without local binding only public addresses are; a connection is the first of them that answers.\<close>

theorem dial_only_public:
  "case dial_checked_target lower_rune lib_match lookup connect policy address of (r, tried) \<Rightarrow>
     list_all (may_dial (ps_local_binding (rp_settings policy))) tried \<and>
     (case r of Inl e \<Rightarrow> True | Inr t \<Rightarrow> connect t \<and> tried \<noteq> [] \<and> last tried = t \<and> list_all (\<lambda>u. \<not> connect u) (butlast tried)) \<and>
     (case (split_host_port address, rp_deny policy) of
        (Some (host, port), Some globs) \<Rightarrow> if matcher_match lower_rune lib_match globs host then tried = [] else True
      | _ \<Rightarrow> True)"
proof -
  have loop: "case dial_addresses local connect port addresses None of (r, tried) \<Rightarrow>
      list_all (may_dial local) tried \<and>
      (case r of Inl e \<Rightarrow> True | Inr t \<Rightarrow> connect t \<and> tried \<noteq> [] \<and> last tried = t \<and> list_all (\<lambda>u. \<not> connect u) (butlast tried))"
    for local port addresses
    using dial_addresses_public [of local connect port addresses None] dial_addresses_connected [of local connect port addresses None]
    by (fastforce split: prod.split sum.split)
  show ?thesis
  proof (cases "split_host_port address")
    case (Some hp)
    obtain host port where hp: "split_host_port address = Some (host, port)" using Some by (cases hp) simp
    define denied where "denied = (case rp_deny policy of None \<Rightarrow> False | Some globs \<Rightarrow> matcher_match lower_rune lib_match globs host)"
    have dial: "dial_checked_target lower_rune lib_match lookup connect policy address =
        (if denied then (Inl RejectedByPolicy, [])
         else if proxy_ip_literal host \<noteq> None then
           (if \<not> ps_local_binding (rp_settings policy) \<and> is_non_public_ip (proxy_ip_literal host) then (Inl RejectedByPolicy, [])
            else (if connect (DialAddress address) then Inr (DialAddress address) else Inl (DialFailed (DialAddress address)), [DialAddress address]))
         else (case lookup host of None \<Rightarrow> (Inl LookupFailed, [])
             | Some addresses \<Rightarrow> dial_addresses (ps_local_binding (rp_settings policy)) connect port addresses None))"
      by (simp add: dial_checked_target_def hp denied_def Let_def)
    have deny: "(case (split_host_port address, rp_deny policy) of
        (Some (host, port), Some globs) \<Rightarrow> if matcher_match lower_rune lib_match globs host then tried = [] else True
      | _ \<Rightarrow> True) \<longleftrightarrow> (denied \<longrightarrow> tried = [])" for tried :: "dial_target list"
      by (simp add: hp denied_def split: option.split)
    show ?thesis
    proof (cases "denied \<or> proxy_ip_literal host \<noteq> None")
      case True
      then show ?thesis unfolding deny dial by (auto simp: may_dial_def target_ip_def hp)
    next
      case False
      then show ?thesis unfolding deny dial
        using loop [of "ps_local_binding (rp_settings policy)" port] by (auto split: option.split prod.split)
    qed
  qed (simp add: dial_checked_target_def)
qed

end
