(* ===== verification/Proxy_Constraints.thy ===== *)
theory Proxy_Constraints
  imports Proxy_Evaluation "HOL-Library.List_Lexorder" "HOL-Library.Char_ord"
begin

text \<open>
  Managed constraints of the network proxy, \<open>network/proxy_constraints.go\<close> with \<open>socket_path.go\<close> and the parts of
  \<open>proxy_config.go\<close> it calls: how requirements are composed with a configuration, how the result is validated,
  and how rules are added later.  What \<open>ValidateProxyMITMHookConfig\<close> says of the hooks, which nothing here
  changes, is a field of the configuration; credentials and certificates are left out.  Where the code names one of
  several missing entries in an error, in the order of a range over a map, the model names the first.
\<close>

section \<open>Configuration, requirements, constraints\<close>

datatype socket_permission = SocketAllow | SocketDeny | SocketOtherPermission bytes

record header_injection =
  hi_host :: bytes
  hi_methods :: "bytes list"
  hi_path_prefixes :: "bytes list"
  hi_headers :: "(bytes \<times> bytes) list"

record proxy_config =
  pc_settings :: proxy_settings
  pc_proxy_url :: bytes
  pc_socks_url :: bytes
  pc_upstream :: bool
  pc_non_loopback :: bool
  pc_all_sockets :: "bool option"
  pc_sockets :: "(bytes \<times> socket_permission) list option"
  pc_local_set :: bool
  pc_hook_error :: "bytes option"
  pc_injections :: "header_injection list"

record proxy_requirements =
  pr_enabled :: "bool option"
  pr_http_port :: "nat option"
  pr_socks_port :: "nat option"
  pr_upstream :: "bool option"
  pr_non_loopback :: "bool option"
  pr_all_sockets :: "bool option"
  pr_domains :: "domain_entries option"
  pr_review :: "bytes list"
  pr_managed_only :: bool
  pr_sockets :: "(bytes \<times> socket_permission) list option"
  pr_local_binding :: "bool option"
  pr_injections :: "header_injection list"

record proxy_constraints =
  cn_enabled :: "bool option"
  cn_mode :: "bytes option"
  cn_upstream :: "bool option"
  cn_non_loopback :: "bool option"
  cn_all_sockets :: "bool option"
  cn_allowed :: "bytes list option"
  cn_review :: "bytes list option"
  cn_allow_expansion :: "bool option"
  cn_denied :: "bytes list option"
  cn_deny_expansion :: "bool option"
  cn_sockets :: "bytes list option"
  cn_local_binding :: "bool option"
  cn_injections :: "header_injection list"

definition no_constraints :: proxy_constraints where
  "no_constraints = \<lparr>cn_enabled = None, cn_mode = None, cn_upstream = None, cn_non_loopback = None, cn_all_sockets = None,
     cn_allowed = None, cn_review = None, cn_allow_expansion = None, cn_denied = None, cn_deny_expansion = None,
     cn_sockets = None, cn_local_binding = None, cn_injections = []\<rparr>"

record proxy_spec =
  sp_config :: proxy_config
  sp_constraints :: proxy_constraints
  sp_hard_deny :: bool

section \<open>Unix sockets\<close>

definition sockets_allowed :: "(bytes \<times> socket_permission) list option \<Rightarrow> bytes list" where
  "sockets_allowed sockets = (case sockets of
     None \<Rightarrow> [] | Some es \<Rightarrow> sort (map fst (filter (\<lambda>e. snd e = SocketAllow) es)))"

definition set_sockets_allowed :: "bytes list \<Rightarrow> proxy_config \<Rightarrow> proxy_config" where
  "set_sockets_allowed paths c =
     (let kept = (case pc_sockets c of None \<Rightarrow> [] | Some es \<Rightarrow> filter (\<lambda>e. snd e \<noteq> SocketAllow) es)
      in c\<lparr>pc_sockets := Some (fold (\<lambda>p es. AList.update p SocketAllow es) paths kept)\<rparr>)"

datatype platform = PlatformUnknown | PlatformLinux | PlatformMacos | PlatformWindows

definition posix_convention :: "platform \<Rightarrow> bool" where
  "posix_convention p \<longleftrightarrow> p = PlatformLinux \<or> p = PlatformMacos"

definition socket_separator :: "char \<Rightarrow> bool" where
  "socket_separator c \<longleftrightarrow> c = CHR 0x5C \<or> c = CHR ''/''"

definition socket_alpha :: "char \<Rightarrow> bool" where
  "socket_alpha c \<longleftrightarrow> (let n = of_char c :: nat in 97 \<le> n \<and> n \<le> 122 \<or> 65 \<le> n \<and> n \<le> 90)"

fun socket_segments :: "bytes \<Rightarrow> bytes \<Rightarrow> bytes list" where
  "socket_segments seg [] = [seg]"
| "socket_segments seg (c # s) = (if socket_separator c then seg # socket_segments [] s else socket_segments (seg @ [c]) s)"

definition windows_path_is_absolute :: "bytes \<Rightarrow> bool" where
  "windows_path_is_absolute path =
     (if 3 \<le> length path \<and> socket_alpha (path ! 0) \<and> path ! 1 = CHR '':'' \<and> socket_separator (path ! 2) then True
      else if length path < 2 \<or> \<not> socket_separator (path ! 0) \<or> \<not> socket_separator (path ! 1) then False
      else if has_prefix path [CHR 0x5C, CHR 0x5C, CHR ''?'', CHR 0x5C] then True
      else let rest = drop 2 path in
        if 2 \<le> length rest \<and> rest ! 0 = CHR ''.'' \<and> socket_separator (rest ! 1) then True
        else let segs = socket_segments [] rest in 2 \<le> length segs \<and> segs ! 0 \<noteq> [] \<and> segs ! 1 \<noteq> [])"

definition socket_path_is_absolute :: "platform \<Rightarrow> bytes \<Rightarrow> bool" where
  "socket_path_is_absolute p path =
     (if has_prefix path ''/'' then True else if posix_convention p then False else windows_path_is_absolute path)"

section \<open>Errors\<close>

text \<open>The field, the value and what is allowed; in an error of a composition, what is wrong with it.\<close>

datatype constraint_error = InvalidConstraint bytes bytes bytes

datatype spec_error =
    LocalBindingRequired
  | SocketPathInvalid nat bytes
  | PatternsInvalid bytes matcher_error
  | ConstraintsInvalid constraint_error

text \<open>A sequence of checks that return at the first error.\<close>

fun first_error :: "'e option list \<Rightarrow> 'e option" where
  "first_error [] = None"
| "first_error (None # es) = first_error es"
| "first_error (Some e # es) = Some e"

section \<open>Applying the requirements\<close>

definition requirement_domains :: "domain_entries option \<Rightarrow> domain_permission \<Rightarrow> bytes list" where
  "requirement_domains domains p = (case domains of
     None \<Rightarrow> [] | Some es \<Rightarrow> map fst (filter (\<lambda>e. snd e = p) (effective_entries es)))"

text \<open>The loop of \<open>mergeProxyDomainLists\<close>; names are compared in lower case.\<close>

fun merge_new :: "(nat \<Rightarrow> nat) \<Rightarrow> bytes list \<Rightarrow> bytes list \<Rightarrow> bytes list" where
  "merge_new lower_rune seen [] = []"
| "merge_new lower_rune seen (d # ds) =
     (let key = to_lower lower_rune d in
      if key \<in> set seen then merge_new lower_rune seen ds else d # merge_new lower_rune (key # seen) ds)"

definition merge_domain_lists :: "(nat \<Rightarrow> nat) \<Rightarrow> bytes list \<Rightarrow> bytes list \<Rightarrow> bytes list" where
  "merge_domain_lists lower_rune managed user = managed @ merge_new lower_rune (map (to_lower lower_rune) managed) user"

definition loopback_url :: "nat \<Rightarrow> bytes" where
  "loopback_url port = ''http://127.0.0.1:'' @ dec_nat port"

definition apply_flags :: "proxy_requirements \<Rightarrow> proxy_config \<Rightarrow> proxy_config" where
  "apply_flags r c = c\<lparr>
     pc_settings := (case pr_enabled r of None \<Rightarrow> pc_settings c | Some b \<Rightarrow> pc_settings c\<lparr>ps_enabled := b\<rparr>),
     pc_proxy_url := (case pr_http_port r of None \<Rightarrow> pc_proxy_url c | Some port \<Rightarrow> loopback_url port),
     pc_socks_url := (case pr_socks_port r of None \<Rightarrow> pc_socks_url c | Some port \<Rightarrow> loopback_url port),
     pc_upstream := (case pr_upstream r of None \<Rightarrow> pc_upstream c | Some b \<Rightarrow> b),
     pc_non_loopback := (case pr_non_loopback r of None \<Rightarrow> pc_non_loopback c | Some b \<Rightarrow> b),
     pc_all_sockets := (case pr_all_sockets r of None \<Rightarrow> pc_all_sockets c | Some b \<Rightarrow> Some b)\<rparr>"

definition apply_allowed ::
  "(nat \<Rightarrow> nat) \<Rightarrow> bool \<Rightarrow> bytes list \<Rightarrow> proxy_settings \<Rightarrow> proxy_settings" where
  "apply_allowed lower_rune expansion managed s =
     set_domain_entries (if expansion then merge_domain_lists lower_rune managed (allowed_domains s) else managed) PermAllow s"

definition apply_denied ::
  "(nat \<Rightarrow> nat) \<Rightarrow> bool \<Rightarrow> bytes list \<Rightarrow> proxy_settings \<Rightarrow> proxy_settings" where
  "apply_denied lower_rune expansion managed s =
     set_domain_entries (if expansion then merge_domain_lists lower_rune managed (denied_domains s) else managed) PermDeny s"

definition apply_proxy_requirements ::
  "(nat \<Rightarrow> nat) \<Rightarrow> proxy_config \<Rightarrow> proxy_requirements \<Rightarrow> bool \<Rightarrow> bool \<Rightarrow> proxy_config \<times> proxy_constraints" where
  "apply_proxy_requirements lower_rune config r sandbox hard_deny =
     (let allow_expansion = (sandbox \<and> \<not> hard_deny);
          managed_allowed = requirement_domains (pr_domains r) PermAllow;
          has_allowed = (managed_allowed \<noteq> [] \<or> hard_deny);
          managed_denied = requirement_domains (pr_domains r) PermDeny;
          has_denied = (managed_denied \<noteq> []);
          c1 = apply_flags r config;
          s1 = (if has_allowed then apply_allowed lower_rune allow_expansion managed_allowed (pc_settings c1) else pc_settings c1);
          s2 = (if pr_review r \<noteq> [] then s1\<lparr>ps_review := merge_domain_lists lower_rune (pr_review r) (ps_review s1)\<rparr> else s1);
          s3 = (if has_denied then apply_denied lower_rune sandbox managed_denied s2 else s2);
          s4 = (case pr_local_binding r of None \<Rightarrow> s3 | Some b \<Rightarrow> s3\<lparr>ps_local_binding := b\<rparr>);
          c2 = (if pr_sockets r \<noteq> None then set_sockets_allowed (sockets_allowed (pr_sockets r)) c1 else c1)
      in (c2\<lparr>pc_settings := s4, pc_local_set := (pc_local_set c2 \<or> pr_local_binding r \<noteq> None), pc_injections := pr_injections r\<rparr>,
          no_constraints\<lparr>cn_enabled := pr_enabled r, cn_upstream := pr_upstream r, cn_non_loopback := pr_non_loopback r,
            cn_all_sockets := pr_all_sockets r,
            cn_allowed := (if has_allowed then Some managed_allowed else None),
            cn_allow_expansion := (if has_allowed then Some allow_expansion else None),
            cn_review := (if pr_review r \<noteq> [] then Some (pr_review r) else None),
            cn_denied := (if has_denied then Some managed_denied else None),
            cn_deny_expansion := (if has_denied then Some sandbox else None),
            cn_sockets := (if pr_sockets r \<noteq> None then Some (sockets_allowed (pr_sockets r)) else None),
            cn_local_binding := pr_local_binding r, cn_injections := pr_injections r\<rparr>))"

section \<open>Validation\<close>

definition mode_rank :: "bytes \<Rightarrow> nat" where
  "mode_rank mode = (if mode = ''full'' then 1 else 0)"

text \<open>A flag that is on although the constraint turns it off.\<close>

definition check_flag :: "bytes \<Rightarrow> bool \<Rightarrow> bool option \<Rightarrow> constraint_error option" where
  "check_flag field value constraint =
     (if constraint = Some False \<and> value then Some (InvalidConstraint field ''true'' ''false (disabled by managed config)'') else None)"

fun check_non_global :: "(nat \<Rightarrow> nat) \<Rightarrow> bytes \<Rightarrow> bytes list \<Rightarrow> constraint_error option" where
  "check_non_global lower_rune field [] = None"
| "check_non_global lower_rune field (p # ps) =
     (if dpt_domain (parse_domain_pattern lower_rune (normalize_constraint_pattern lower_rune p)) = ''*''
      then Some (InvalidConstraint field (trim_space p) ''exact hosts or scoped wildcards like *.example.com or **.example.com'')
      else check_non_global lower_rune field ps)"

definition shown_list :: "bytes list \<Rightarrow> bytes" where
  "shown_list xs = ''['' @ join_with '' '' xs @ '']''"

definition lower_set :: "(nat \<Rightarrow> nat) \<Rightarrow> bytes list \<Rightarrow> bytes set" where
  "lower_set lower_rune xs = set (map (to_lower lower_rune) xs)"

text \<open>The three ways to compare the allowed domains: nothing managed is missing, they are the managed ones less the
  denied ones, or each is within a managed pattern.\<close>

definition check_allowed ::
  "(nat \<Rightarrow> nat) \<Rightarrow> bool option \<Rightarrow> bytes list \<Rightarrow> bytes list \<Rightarrow> bytes list \<Rightarrow> constraint_error option" where
  "check_allowed lower_rune expansion managed candidate denied = (case expansion of
     Some True \<Rightarrow>
       map_option (\<lambda>entry. InvalidConstraint ''network.allowed_domains'' ''missing managed allowed_domains entries'' entry)
         (find (\<lambda>entry. to_lower lower_rune entry \<notin> lower_set lower_rune candidate \<and>
            to_lower lower_rune entry \<notin> lower_set lower_rune denied) managed)
   | Some False \<Rightarrow>
       if lower_set lower_rune candidate = lower_set lower_rune managed - lower_set lower_rune denied then None
       else Some (InvalidConstraint ''network.allowed_domains'' (shown_list candidate) ''must match managed allowed_domains'')
   | None \<Rightarrow>
       let parse = \<lambda>p. parse_domain_pattern lower_rune (normalize_constraint_pattern lower_rune p) in
       map_option (\<lambda>entry. InvalidConstraint ''network.allowed_domains'' entry ''subset of managed allowed_domains'')
         (find (\<lambda>entry. \<not> list_ex (\<lambda>m. pattern_allows lower_rune (parse m) (parse entry)) managed) candidate))"

definition check_denied :: "(nat \<Rightarrow> nat) \<Rightarrow> bool option \<Rightarrow> bytes list \<Rightarrow> bytes list \<Rightarrow> constraint_error option" where
  "check_denied lower_rune expansion managed candidate =
     (if expansion = Some False then
        (if lower_set lower_rune candidate = lower_set lower_rune managed then None
         else Some (InvalidConstraint ''network.denied_domains'' (shown_list candidate) ''must match managed denied_domains''))
      else map_option (\<lambda>entry. InvalidConstraint ''network.denied_domains'' ''missing managed denied_domains entries'' (to_lower lower_rune entry))
        (find (\<lambda>entry. to_lower lower_rune entry \<notin> lower_set lower_rune candidate) managed))"

definition check_sockets :: "bytes list \<Rightarrow> bytes list \<Rightarrow> constraint_error option" where
  "check_sockets managed candidate =
     map_option (\<lambda>path. InvalidConstraint ''network.allow_unix_sockets'' path ''subset of managed allow_unix_sockets'')
       (find (\<lambda>path. path \<notin> set managed) candidate)"

definition validate_constraints :: "(nat \<Rightarrow> nat) \<Rightarrow> proxy_config \<Rightarrow> proxy_constraints \<Rightarrow> constraint_error option" where
  "validate_constraints lower_rune c cn =
     (let s = pc_settings c; denied = denied_domains s in first_error [
        map_option (\<lambda>e. InvalidConstraint ''network.mitm_hooks'' e ''valid MITM hook configuration'') (pc_hook_error c),
        check_non_global lower_rune ''network.denied_domains'' denied,
        check_flag ''network.enabled'' (ps_enabled s) (cn_enabled cn),
        (case cn_mode cn of None \<Rightarrow> None | Some mode \<Rightarrow>
           if mode_rank (ps_mode s) > mode_rank mode
           then Some (InvalidConstraint ''network.mode'' (ps_mode s) (mode @ '' or more restrictive'')) else None),
        check_flag ''network.allow_upstream_proxy'' (pc_upstream c) (cn_upstream cn),
        check_flag ''network.dangerously_allow_non_loopback_proxy'' (pc_non_loopback c) (cn_non_loopback cn),
        check_flag ''network.dangerously_allow_all_unix_sockets'' (pc_all_sockets c = Some True)
          (case cn_all_sockets cn of None \<Rightarrow> Some (cn_sockets cn = None) | Some b \<Rightarrow> Some b),
        check_flag ''network.allow_local_binding'' (ps_local_binding s) (cn_local_binding cn),
        (case cn_allowed cn of None \<Rightarrow> None | Some managed \<Rightarrow> check_non_global lower_rune ''network.allowed_domains'' managed),
        (case cn_allowed cn of None \<Rightarrow> None | Some managed \<Rightarrow>
           check_allowed lower_rune (cn_allow_expansion cn) managed (allowed_domains s) denied),
        (case cn_denied cn of None \<Rightarrow> None | Some managed \<Rightarrow> check_non_global lower_rune ''network.denied_domains'' managed),
        (case cn_denied cn of None \<Rightarrow> None | Some managed \<Rightarrow> check_denied lower_rune (cn_deny_expansion cn) managed denied),
        (case cn_sockets cn of None \<Rightarrow> None | Some managed \<Rightarrow> check_sockets managed (sockets_allowed (pc_sockets c)))])"

section \<open>Specifications\<close>

fun check_socket_paths :: "platform \<Rightarrow> nat \<Rightarrow> bytes list \<Rightarrow> spec_error option" where
  "check_socket_paths p i [] = None"
| "check_socket_paths p i (path # paths) =
     (if \<not> socket_path_is_absolute p path \<or> CHR 0x00 \<in> set path then Some (SocketPathInvalid i path)
      else check_socket_paths p (i + 1) paths)"

definition matcher_failure :: "bytes \<Rightarrow> matcher_error + bytes list \<Rightarrow> spec_error option" where
  "matcher_failure field m = (case m of Inl e \<Rightarrow> Some (PatternsInvalid field e) | Inr _ \<Rightarrow> None)"

definition validate_domain_patterns :: "(nat \<Rightarrow> nat) \<Rightarrow> (bytes \<Rightarrow> bool) \<Rightarrow> proxy_settings \<Rightarrow> spec_error option" where
  "validate_domain_patterns lower_rune lib_ok s = first_error [
     matcher_failure ''network.allowed_domains'' (compile_matcher lower_rune lib_ok (allowed_domains s) False),
     matcher_failure '''' (compile_matcher lower_rune lib_ok (denied_domains s) True),
     matcher_failure ''network.review_domains'' (compile_matcher lower_rune lib_ok (ps_review s) False)]"

text \<open>The default of the local binding; \<open>require\<close> is \<open>LocalBindingRequireTrue\<close>.\<close>

definition resolve_local_binding :: "bool \<Rightarrow> proxy_config \<Rightarrow> spec_error + proxy_config" where
  "resolve_local_binding require c =
     (if \<not> pc_local_set c then Inr (c\<lparr>pc_settings := pc_settings c\<lparr>ps_local_binding := require\<rparr>, pc_local_set := True\<rparr>)
      else if require \<and> ps_enabled (pc_settings c) \<and> \<not> ps_local_binding (pc_settings c) then Inl LocalBindingRequired
      else Inr c)"

definition new_proxy_spec ::
  "(nat \<Rightarrow> nat) \<Rightarrow> (bytes \<Rightarrow> bool) \<Rightarrow> proxy_config \<Rightarrow> proxy_requirements option \<Rightarrow> bool \<Rightarrow> platform \<Rightarrow> bool \<Rightarrow>
   spec_error + proxy_spec" where
  "new_proxy_spec lower_rune lib_ok config requirements sandbox p require =
     (let hard_deny = (case requirements of None \<Rightarrow> False | Some r \<Rightarrow> pr_managed_only r);
          (c1, cn) = (case requirements of None \<Rightarrow> (config, no_constraints)
            | Some r \<Rightarrow> apply_proxy_requirements lower_rune config r sandbox hard_deny)
      in bind_res (resolve_local_binding require c1) (\<lambda>c.
           case first_error [check_socket_paths p 0 (sockets_allowed (pc_sockets c)),
                  validate_domain_patterns lower_rune lib_ok (pc_settings c),
                  map_option ConstraintsInvalid (validate_constraints lower_rune c cn)] of
             Some e \<Rightarrow> Inl e
           | None \<Rightarrow> Inr \<lparr>sp_config = c, sp_constraints = cn, sp_hard_deny = hard_deny\<rparr>))"

definition add_network_rule :: "(nat \<Rightarrow> nat) \<Rightarrow> bytes \<times> domain_permission \<Rightarrow> proxy_settings \<Rightarrow> proxy_settings" where
  "add_network_rule lower_rune rule s =
     (if snd rule = PermAllow \<or> snd rule = PermDeny then upsert_domain lower_rune (fst rule) (snd rule) s else s)"

definition with_network_rules :: "(nat \<Rightarrow> nat) \<Rightarrow> (bytes \<times> domain_permission) list \<Rightarrow> proxy_spec \<Rightarrow> spec_error + proxy_spec" where
  "with_network_rules lower_rune rules sp =
     (let c = (sp_config sp)\<lparr>pc_settings := fold (add_network_rule lower_rune) rules (pc_settings (sp_config sp))\<rparr> in
      case validate_constraints lower_rune c (sp_constraints sp) of
        Some e \<Rightarrow> Inl (ConstraintsInvalid e)
      | None \<Rightarrow> Inr (sp\<lparr>sp_config := c\<rparr>))"

section \<open>What the checks say\<close>

lemma first_error_None: "first_error es = None \<longleftrightarrow> list_all (\<lambda>e. e = None) es"
  by (induction es rule: first_error.induct) simp_all

lemma check_flag_None [simp]: "check_flag field value constraint = None \<longleftrightarrow> \<not> (constraint = Some False \<and> value)"
  by (simp add: check_flag_def)

lemma find_all_None: "find P xs = None \<longleftrightarrow> (\<forall>x \<in> set xs. \<not> P x)"
  by (auto simp: find_None_iff)

lemma check_sockets_None: "check_sockets managed candidate = None \<longleftrightarrow> set candidate \<subseteq> set managed"
  by (auto simp: check_sockets_def find_all_None)

lemma check_denied_None:
  "check_denied lower_rune expansion managed candidate = None \<longleftrightarrow>
     (if expansion = Some False then lower_set lower_rune candidate = lower_set lower_rune managed
      else lower_set lower_rune managed \<subseteq> lower_set lower_rune candidate)"
  by (auto simp: check_denied_def find_all_None lower_set_def)

lemma check_exact_None:
  "check_allowed lower_rune (Some False) managed candidate denied = None \<longleftrightarrow>
     lower_set lower_rune candidate = lower_set lower_rune managed - lower_set lower_rune denied"
  by (simp add: check_allowed_def)

lemma check_expanded_None:
  "check_allowed lower_rune (Some True) managed candidate denied = None \<longleftrightarrow>
     lower_set lower_rune managed \<subseteq> lower_set lower_rune candidate \<union> lower_set lower_rune denied"
  by (auto simp: check_allowed_def find_all_None lower_set_def)

lemma check_non_global_None:
  "check_non_global lower_rune field ps = None \<longleftrightarrow> (\<forall>p \<in> set ps. dpt_domain (pattern_of lower_rune p) \<noteq> ''*'')"
  by (induction ps) (auto simp: pattern_of_def)

lemmas check_results = check_sockets_None check_denied_None check_exact_None check_expanded_None check_non_global_None

lemma validate_None_iff:
  "validate_constraints lower_rune c cn = None \<longleftrightarrow>
     pc_hook_error c = None \<and>
     check_non_global lower_rune ''network.denied_domains'' (denied_domains (pc_settings c)) = None \<and>
     \<not> (cn_enabled cn = Some False \<and> ps_enabled (pc_settings c)) \<and>
     (case cn_mode cn of None \<Rightarrow> True | Some mode \<Rightarrow> mode_rank (ps_mode (pc_settings c)) \<le> mode_rank mode) \<and>
     \<not> (cn_upstream cn = Some False \<and> pc_upstream c) \<and>
     \<not> (cn_non_loopback cn = Some False \<and> pc_non_loopback c) \<and>
     ((case cn_all_sockets cn of None \<Rightarrow> cn_sockets cn = None | Some b \<Rightarrow> b) \<or> pc_all_sockets c \<noteq> Some True) \<and>
     \<not> (cn_local_binding cn = Some False \<and> ps_local_binding (pc_settings c)) \<and>
     (case cn_allowed cn of None \<Rightarrow> True | Some managed \<Rightarrow>
        check_non_global lower_rune ''network.allowed_domains'' managed = None \<and>
        check_allowed lower_rune (cn_allow_expansion cn) managed (allowed_domains (pc_settings c)) (denied_domains (pc_settings c)) = None) \<and>
     (case cn_denied cn of None \<Rightarrow> True | Some managed \<Rightarrow>
        check_non_global lower_rune ''network.denied_domains'' managed = None \<and>
        check_denied lower_rune (cn_deny_expansion cn) managed (denied_domains (pc_settings c)) = None) \<and>
     (case cn_sockets cn of None \<Rightarrow> True | Some managed \<Rightarrow> check_sockets managed (sockets_allowed (pc_sockets c)) = None)"
  unfolding validate_constraints_def Let_def first_error_None
  by (cases "cn_mode cn"; cases "cn_all_sockets cn"; cases "cn_allowed cn"; cases "cn_denied cn"; cases "cn_sockets cn")
     (auto simp: not_less)

section \<open>A specification keeps to what is managed\<close>

text \<open>Batches of rules added one after the other, as approvals of the user add them.\<close>

fun add_rule_batches ::
  "(nat \<Rightarrow> nat) \<Rightarrow> (bytes \<times> domain_permission) list list \<Rightarrow> proxy_spec \<Rightarrow> spec_error + proxy_spec" where
  "add_rule_batches lower_rune [] sp = Inr sp"
| "add_rule_batches lower_rune (rules # batches) sp =
     bind_res (with_network_rules lower_rune rules sp) (add_rule_batches lower_rune batches)"

definition spec_ok :: "(nat \<Rightarrow> nat) \<Rightarrow> proxy_spec \<Rightarrow> bool" where
  "spec_ok lower_rune sp \<longleftrightarrow> validate_constraints lower_rune (sp_config sp) (sp_constraints sp) = None"

lemma with_rules_ok:
  "with_network_rules lower_rune rules sp = Inr sp' \<Longrightarrow>
     spec_ok lower_rune sp' \<and> sp_constraints sp' = sp_constraints sp \<and> sp_hard_deny sp' = sp_hard_deny sp"
  by (auto simp: with_network_rules_def Let_def spec_ok_def split: option.splits)

lemma batches_ok:
  "add_rule_batches lower_rune batches sp = Inr sp' \<Longrightarrow> spec_ok lower_rune sp \<Longrightarrow>
     spec_ok lower_rune sp' \<and> sp_constraints sp' = sp_constraints sp \<and> sp_hard_deny sp' = sp_hard_deny sp"
  by (induction batches arbitrary: sp) (auto simp: bind_res_eq_Inr dest!: with_rules_ok)

lemma new_spec_ok:
  "new_proxy_spec lower_rune lib_ok config (Some r) sandbox p require = Inr sp \<Longrightarrow>
     spec_ok lower_rune sp \<and> sp_hard_deny sp = pr_managed_only r \<and>
     sp_constraints sp = snd (apply_proxy_requirements lower_rune config r sandbox (pr_managed_only r))"
  by (cases "apply_proxy_requirements lower_rune config r sandbox (pr_managed_only r)")
     (auto simp: new_proxy_spec_def Let_def bind_res_eq_Inr spec_ok_def first_error_None split: option.splits)

lemma session_valid:
  assumes "new_proxy_spec lower_rune lib_ok config (Some r) sandbox p require = Inr sp0"
    and "add_rule_batches lower_rune batches sp0 = Inr sp"
  shows "validate_constraints lower_rune (sp_config sp) (snd (apply_proxy_requirements lower_rune config r sandbox (pr_managed_only r))) = None"
proof -
  note new = new_spec_ok [OF assms(1)]
  then have "spec_ok lower_rune sp \<and> sp_constraints sp = sp_constraints sp0" using batches_ok [OF assms(2)] by blast
  then show ?thesis using new by (metis spec_ok_def)
qed

lemma applied_constraints:
  fixes lower_rune config r sandbox hard_deny
  defines "cn \<equiv> snd (apply_proxy_requirements lower_rune config r sandbox hard_deny)"
    and "managed \<equiv> requirement_domains (pr_domains r) PermAllow" and "banned \<equiv> requirement_domains (pr_domains r) PermDeny"
  shows "cn_enabled cn = pr_enabled r" "cn_mode cn = None" "cn_upstream cn = pr_upstream r"
    "cn_non_loopback cn = pr_non_loopback r" "cn_all_sockets cn = pr_all_sockets r" "cn_local_binding cn = pr_local_binding r"
    "cn_allowed cn = (if managed \<noteq> [] \<or> hard_deny then Some managed else None)"
    "cn_allow_expansion cn = (if managed \<noteq> [] \<or> hard_deny then Some (sandbox \<and> \<not> hard_deny) else None)"
    "cn_denied cn = (if banned \<noteq> [] then Some banned else None)"
    "cn_deny_expansion cn = (if banned \<noteq> [] then Some sandbox else None)"
    "cn_sockets cn = map_option (\<lambda>es. sockets_allowed (Some es)) (pr_sockets r)"
  by (auto simp: cn_def managed_def banned_def apply_proxy_requirements_def Let_def no_constraints_def)


section \<open>Only managed domains are reached\<close>

text \<open>C26: where only managed domains are allowed and nobody is asked, a request the proxy lets through, whatever rules were
  added, is for a host that an allowed pattern matches which is a managed one, names compared in lower case, and is not
  denied.\<close>

theorem managed_only_requests:
  assumes "new_proxy_spec lower_rune lib_ok config (Some r) sandbox p require = Inr sp0" and "pr_managed_only r"
    and "add_rule_batches lower_rune batches sp0 = Inr sp"
    and "build_runtime_policy lower_rune lib_ok (pc_settings (sp_config sp)) = Inr policy"
    and "pd_allow (fst (evaluate_proxy_policy lower_rune lib_ok lib_match lookup None now policy request sv))"
  shows "\<exists>raw candidate. to_lower lower_rune raw \<in> lower_set lower_rune (requirement_domains (pr_domains r) PermAllow) \<and>
    to_lower lower_rune raw \<notin> lower_set lower_rune (denied_domains (pc_settings (sp_config sp))) \<and>
    candidate \<in> set (pattern_candidates (pattern_of lower_rune raw)) \<and>
    glob_match lib_match (to_lower lower_rune candidate) (to_lower lower_rune (normalize_proxy_host lower_rune (rq_host request)))"
proof -
  define s where "s = pc_settings (sp_config sp)"
  define cn where "cn = snd (apply_proxy_requirements lower_rune config r sandbox (pr_managed_only r))"
  note cn_fields = applied_constraints [of lower_rune config r sandbox "pr_managed_only r", folded cn_def]
  have "validate_constraints lower_rune (sp_config sp) cn = None"
    unfolding cn_def by (rule session_valid [OF assms(1,3)])
  then have exact: "lower_set lower_rune (allowed_domains s) =
      lower_set lower_rune (requirement_domains (pr_domains r) PermAllow) - lower_set lower_rune (denied_domains s)"
    using assms(2) by (simp add: validate_None_iff cn_fields check_exact_None s_def)
  obtain globs where globs: "compile_matcher lower_rune lib_ok (allowed_domains s) False = Inr globs"
      and policy: "rp_settings policy = s" "rp_allow policy = Some globs"
    using assms(4) by (auto simp: build_runtime_policy_def bind_res_eq_Inr label_error_def s_def split: sum.splits)
  have "matcher_match lower_rune lib_match globs (rq_host request)"
    using assms(5) by (simp add: evaluate_proxy_policy_def Let_def policy matcher_or_compile_def split: if_splits)
  then obtain g where g: "g \<in> set globs"
      "glob_match lib_match g (to_lower lower_rune (normalize_proxy_host lower_rune (rq_host request)))"
    by (auto simp: matcher_match_def Let_def list_ex_iff)
  then obtain raw candidate where raw: "raw \<in> set (allowed_domains s)" "candidate \<in> set (pattern_candidates (pattern_of lower_rune raw))"
      "g = to_lower lower_rune candidate"
    using set_compile_patterns globs unfolding compile_matcher_def by fastforce
  have "to_lower lower_rune raw \<in> lower_set lower_rune (allowed_domains s)" using raw(1) by (simp add: lower_set_def)
  then show ?thesis using exact raw(2,3) g(2) unfolding s_def by blast
qed

section \<open>When a composition is accepted\<close>

lemma lower_set_merge: "lower_set lower_rune managed \<subseteq> lower_set lower_rune (merge_domain_lists lower_rune managed user)"
  by (auto simp: lower_set_def merge_domain_lists_def)

lemma set_merge: "set managed \<subseteq> set (merge_domain_lists lower_rune managed user)"
  by (auto simp: merge_domain_lists_def)

lemma allow_entries_set:
  "(x, PermAllow) \<in> set (entries_of (set_domain_entries ds PermAllow s)) \<longleftrightarrow> x \<in> set ds"
  "(x, PermDeny) \<in> set (entries_of (set_domain_entries ds PermAllow s)) \<longleftrightarrow> (x, PermDeny) \<in> set (entries_of s)"
  "(x, PermDeny) \<in> set (entries_of (set_domain_entries ds PermDeny s)) \<longleftrightarrow> x \<in> set ds"
  "(x, PermAllow) \<in> set (entries_of (set_domain_entries ds PermDeny s)) \<longleftrightarrow> (x, PermAllow) \<in> set (entries_of s)"
  by (auto simp: entries_of_set set_append_new)

lemma entries_of_updates [simp]:
  "entries_of (s\<lparr>ps_review := rs\<rparr>) = entries_of s" "entries_of (s\<lparr>ps_local_binding := b\<rparr>) = entries_of s"
  "entries_of (s\<lparr>ps_enabled := b\<rparr>) = entries_of s"
  by (simp_all add: entries_of_def)

lemma socket_entries:
  "set (sockets_allowed (Some es)) = {p. (p, SocketAllow) \<in> set es}"
  by (force simp: sockets_allowed_def)

lemma update_allowed:
  "(x, SocketAllow) \<in> set (AList.update p SocketAllow es) \<Longrightarrow> x = p \<or> (x, SocketAllow) \<in> set es"
  by (induction es) (auto split: if_splits)

lemma fold_allowed:
  "(x, SocketAllow) \<in> set (fold (\<lambda>p es. AList.update p SocketAllow es) paths es) \<Longrightarrow> x \<in> set paths \<or> (x, SocketAllow) \<in> set es"
  by (induction paths arbitrary: es) (auto dest: update_allowed)

lemma set_sockets_bound: "set (sockets_allowed (pc_sockets (set_sockets_allowed paths c))) \<subseteq> set paths"
  by (auto simp: set_sockets_allowed_def Let_def socket_entries dest!: fold_allowed split: option.splits)

text \<open>What the requirements do to the fields.\<close>

lemma set_sockets_fields [simp]:
  "pc_settings (set_sockets_allowed paths c) = pc_settings c" "pc_hook_error (set_sockets_allowed paths c) = pc_hook_error c"
  "pc_upstream (set_sockets_allowed paths c) = pc_upstream c" "pc_non_loopback (set_sockets_allowed paths c) = pc_non_loopback c"
  "pc_all_sockets (set_sockets_allowed paths c) = pc_all_sockets c"
  by (simp_all add: set_sockets_allowed_def Let_def)

lemma set_domain_fields [simp]:
  "ps_enabled (set_domain_entries ds p s) = ps_enabled s" "ps_local_binding (set_domain_entries ds p s) = ps_local_binding s"
  by (simp_all add: set_domain_entries_def Let_def)

lemma applied_flags:
  fixes lower_rune config r sandbox hard_deny
  defines "c \<equiv> fst (apply_proxy_requirements lower_rune config r sandbox hard_deny)"
  shows "pc_hook_error c = pc_hook_error config" "\<not> (pr_enabled r = Some False \<and> ps_enabled (pc_settings c))"
    "\<not> (pr_upstream r = Some False \<and> pc_upstream c)" "\<not> (pr_non_loopback r = Some False \<and> pc_non_loopback c)"
    "\<not> (pr_local_binding r = Some False \<and> ps_local_binding (pc_settings c))"
    "pc_all_sockets c = (case pr_all_sockets r of None \<Rightarrow> pc_all_sockets config | Some b \<Rightarrow> Some b)"
  unfolding c_def apply_proxy_requirements_def Let_def fst_conv
  by (auto simp: apply_flags_def apply_allowed_def apply_denied_def split: option.splits)

lemma applied_sockets:
  "pr_sockets r = Some es \<Longrightarrow>
     set (sockets_allowed (pc_sockets (fst (apply_proxy_requirements lower_rune config r sandbox hard_deny)))) \<subseteq> set (sockets_allowed (Some es))"
  unfolding apply_proxy_requirements_def Let_def fst_conv using set_sockets_bound by simp

lemma applied_denied:
  fixes r lower_rune config sandbox hard_deny
  defines "banned \<equiv> requirement_domains (pr_domains r) PermDeny"
    and "s \<equiv> pc_settings (fst (apply_proxy_requirements lower_rune config r sandbox hard_deny))"
  shows "set banned \<subseteq> set (denied_domains s)" and "banned \<noteq> [] \<Longrightarrow> \<not> sandbox \<Longrightarrow> set (denied_domains s) = set banned"
  unfolding s_def banned_def apply_proxy_requirements_def Let_def fst_conv set_domains_with
  using set_merge by (auto simp: apply_denied_def allow_entries_set split: option.splits)

lemma applied_allowed:
  fixes r lower_rune config sandbox hard_deny
  defines "managed \<equiv> requirement_domains (pr_domains r) PermAllow"
    and "s \<equiv> pc_settings (fst (apply_proxy_requirements lower_rune config r sandbox hard_deny))"
  assumes "managed \<noteq> [] \<or> hard_deny"
  shows "set managed - set (denied_domains s) \<subseteq> set (allowed_domains s)"
    and "\<not> (sandbox \<and> \<not> hard_deny) \<Longrightarrow> set (allowed_domains s) = set managed - set (denied_domains s)"
proof -
  have "(x, PermAllow) \<in> set (entries_of s) \<longleftrightarrow>
      x \<in> set (if sandbox \<and> \<not> hard_deny then merge_domain_lists lower_rune managed (allowed_domains (pc_settings (apply_flags r config))) else managed)" for x
    using assms(3) unfolding s_def managed_def apply_proxy_requirements_def Let_def fst_conv
    by (auto simp: apply_denied_def apply_allowed_def allow_entries_set split: option.splits)
  then show "set managed - set (denied_domains s) \<subseteq> set (allowed_domains s)"
    and "\<not> (sandbox \<and> \<not> hard_deny) \<Longrightarrow> set (allowed_domains s) = set managed - set (denied_domains s)"
    unfolding set_domains_with using subsetD [OF set_merge] by (auto split: if_splits)
qed

text \<open>What the checks of the lists say after a composition.\<close>

abbreviation global_pattern :: "(nat \<Rightarrow> nat) \<Rightarrow> bytes \<Rightarrow> bool" where
  "global_pattern lower_rune d \<equiv> dpt_domain (pattern_of lower_rune d) = ''*''"

lemma non_global_list: "check_non_global lower_rune field ps = None \<longleftrightarrow> list_all (\<lambda>d. \<not> global_pattern lower_rune d) ps"
  by (simp add: check_non_global_None list_all_iff)

lemma composed_allowed:
  fixes lower_rune config r sandbox hard_deny
  defines "managed \<equiv> requirement_domains (pr_domains r) PermAllow"
    and "s \<equiv> pc_settings (fst (apply_proxy_requirements lower_rune config r sandbox hard_deny))"
    and "cn \<equiv> snd (apply_proxy_requirements lower_rune config r sandbox hard_deny)"
  shows "(case cn_allowed cn of None \<Rightarrow> True | Some m \<Rightarrow>
        check_non_global lower_rune field m = None \<and>
        check_allowed lower_rune (cn_allow_expansion cn) m (allowed_domains s) (denied_domains s) = None) \<longleftrightarrow>
      (if managed \<noteq> [] \<or> hard_deny then list_all (\<lambda>d. \<not> global_pattern lower_rune d) managed else True) \<and>
      (if (managed \<noteq> [] \<or> hard_deny) \<and> \<not> (sandbox \<and> \<not> hard_deny)
       then list_all (\<lambda>d. d \<in> set (denied_domains s) \<or> to_lower lower_rune d \<notin> lower_set lower_rune (denied_domains s)) managed else True)"
proof (cases "managed \<noteq> [] \<or> hard_deny")
  case True
  note cn_fields = applied_constraints [of lower_rune config r sandbox hard_deny, folded cn_def managed_def]
  have cn: "cn_allowed cn = Some managed" "cn_allow_expansion cn = Some (sandbox \<and> \<not> hard_deny)"
    using True by (simp_all add: cn_fields)
  have allows: "set managed - set (denied_domains s) \<subseteq> set (allowed_domains s)"
      "\<not> (sandbox \<and> \<not> hard_deny) \<Longrightarrow> set (allowed_domains s) = set managed - set (denied_domains s)"
    using True applied_allowed [where r = r and hard_deny = hard_deny and lower_rune = lower_rune and config = config and sandbox = sandbox] by (simp_all add: s_def managed_def)
  show ?thesis
  proof (cases "sandbox \<and> \<not> hard_deny")
    case grow: True
    have "check_allowed lower_rune (Some True) managed (allowed_domains s) (denied_domains s) = None"
      unfolding check_expanded_None using allows(1) by (auto simp: lower_set_def)
    then show ?thesis using True grow by (simp add: cn non_global_list)
  next
    case fixed: False
    then have "check_allowed lower_rune (Some False) managed (allowed_domains s) (denied_domains s) = None \<longleftrightarrow>
        list_all (\<lambda>d. d \<in> set (denied_domains s) \<or> to_lower lower_rune d \<notin> lower_set lower_rune (denied_domains s)) managed"
      unfolding check_exact_None list_all_iff using allows(2) by (auto simp: lower_set_def)
    then show ?thesis unfolding cn option.case using True fixed by (simp only: non_global_list) simp
  qed
qed (simp add: applied_constraints cn_def managed_def)

lemma composed_denied:
  fixes lower_rune config r sandbox hard_deny
  defines "s \<equiv> pc_settings (fst (apply_proxy_requirements lower_rune config r sandbox hard_deny))"
    and "cn \<equiv> snd (apply_proxy_requirements lower_rune config r sandbox hard_deny)"
  assumes "list_all (\<lambda>d. \<not> global_pattern lower_rune d) (denied_domains s)"
  shows "case cn_denied cn of None \<Rightarrow> True | Some m \<Rightarrow>
    check_non_global lower_rune field m = None \<and> check_denied lower_rune (cn_deny_expansion cn) m (denied_domains s) = None"
proof -
  define banned where "banned = requirement_domains (pr_domains r) PermDeny"
  note cn_fields = applied_constraints [of lower_rune config r sandbox hard_deny, folded cn_def banned_def]
  have denies: "set banned \<subseteq> set (denied_domains s)" "banned \<noteq> [] \<Longrightarrow> \<not> sandbox \<Longrightarrow> set (denied_domains s) = set banned"
    using applied_denied [where r = r and hard_deny = hard_deny and lower_rune = lower_rune and config = config and sandbox = sandbox] by (simp_all add: s_def banned_def)
  have "check_denied lower_rune (Some sandbox) banned (denied_domains s) = None" if "banned \<noteq> []"
    using denies that by (auto simp: check_denied_None lower_set_def)
  moreover have "check_non_global lower_rune field banned = None"
    using denies(1) assms(3) by (auto simp: check_non_global_None list_all_iff)
  ultimately show ?thesis by (simp add: cn_fields)
qed

text \<open>What the requirements make of a configuration is accepted exactly when its hooks are valid, no denied pattern
  and, where the allowed domains are managed, no managed allowed one covers every host, the configuration does not keep
  all sockets allowed while sockets are managed, and, where the allowed domains are managed and may not grow, no managed one
  that is not itself denied equals a denied one up to case.\<close>

theorem composition_accepted_iff:
  fixes lower_rune config r sandbox hard_deny
  defines "managed \<equiv> requirement_domains (pr_domains r) PermAllow"
    and "c \<equiv> fst (apply_proxy_requirements lower_rune config r sandbox hard_deny)"
    and "cn \<equiv> snd (apply_proxy_requirements lower_rune config r sandbox hard_deny)"
  defines "denied \<equiv> denied_domains (pc_settings c)"
  shows "validate_constraints lower_rune c cn = None \<longleftrightarrow>
    pc_hook_error config = None \<and>
    list_all (\<lambda>d. \<not> global_pattern lower_rune d) denied \<and>
    (if managed \<noteq> [] \<or> hard_deny then list_all (\<lambda>d. \<not> global_pattern lower_rune d) managed else True) \<and>
    (if pr_sockets r \<noteq> None \<and> pr_all_sockets r = None then pc_all_sockets config \<noteq> Some True else True) \<and>
    (if (managed \<noteq> [] \<or> hard_deny) \<and> \<not> (sandbox \<and> \<not> hard_deny)
     then list_all (\<lambda>d. d \<in> set denied \<or> to_lower lower_rune d \<notin> lower_set lower_rune denied) managed else True)"
proof -
  define s where "s = pc_settings c"
  note cn_fields = applied_constraints [of lower_rune config r sandbox hard_deny, folded cn_def]
  have flags: "pc_hook_error c = pc_hook_error config" "\<not> (pr_enabled r = Some False \<and> ps_enabled s)"
      "\<not> (pr_upstream r = Some False \<and> pc_upstream c)" "\<not> (pr_non_loopback r = Some False \<and> pc_non_loopback c)"
      "\<not> (pr_local_binding r = Some False \<and> ps_local_binding s)"
      "pc_all_sockets c = (case pr_all_sockets r of None \<Rightarrow> pc_all_sockets config | Some b \<Rightarrow> Some b)"
    using applied_flags [where r = r and hard_deny = hard_deny and lower_rune = lower_rune and config = config and sandbox = sandbox] by (simp_all add: c_def s_def)
  have all_sockets: "((case cn_all_sockets cn of None \<Rightarrow> cn_sockets cn = None | Some b \<Rightarrow> b) \<or> pc_all_sockets c \<noteq> Some True) \<longleftrightarrow>
      (if pr_sockets r \<noteq> None \<and> pr_all_sockets r = None then pc_all_sockets config \<noteq> Some True else True)"
    by (cases "pr_all_sockets r"; cases "pr_sockets r") (simp_all add: cn_fields flags(6))
  have "set (sockets_allowed (pc_sockets c)) \<subseteq> set (sockets_allowed (Some es))" if "pr_sockets r = Some es" for es
    using applied_sockets [OF that] by (simp add: c_def)
  then have sockets_ok: "case cn_sockets cn of None \<Rightarrow> True | Some paths \<Rightarrow> check_sockets paths (sockets_allowed (pc_sockets c)) = None"
    by (simp add: cn_fields check_sockets_None split: option.split)
  note lists = composed_allowed [where r = r and hard_deny = hard_deny and lower_rune = lower_rune and config = config and sandbox = sandbox, folded cn_def c_def, folded s_def managed_def]
    and denies = composed_denied [where r = r and hard_deny = hard_deny and lower_rune = lower_rune and config = config and sandbox = sandbox, folded cn_def c_def, folded s_def]
  show ?thesis
    unfolding validate_None_iff all_sockets s_def [symmetric] denied_def [folded s_def] lists
      non_global_list [of lower_rune "''network.denied_domains''" "denied_domains s"]
    using flags(1-5) sockets_ok denies by (simp only: cn_fields(1-4,6) option.case) blast
qed

text \<open>So a denial that names a managed domain in other letters makes the specification fail, although it denies the
  same host: without it, or with the same letters, it is accepted.\<close>

definition plain_settings :: "domain_entries option \<Rightarrow> proxy_settings" where
  "plain_settings domains = \<lparr>ps_enabled = True, ps_mode = ''full'', ps_domains = domains, ps_review = [], ps_local_binding = True\<rparr>"

definition plain_config :: "domain_entries option \<Rightarrow> proxy_config" where
  "plain_config domains = \<lparr>pc_settings = plain_settings domains, pc_proxy_url = '''', pc_socks_url = '''', pc_upstream = True,
     pc_non_loopback = False, pc_all_sockets = None, pc_sockets = None, pc_local_set = True, pc_hook_error = None, pc_injections = []\<rparr>"

definition example_requirements :: proxy_requirements where
  "example_requirements = \<lparr>pr_enabled = Some True, pr_http_port = None, pr_socks_port = None, pr_upstream = Some False,
     pr_non_loopback = None, pr_all_sockets = None, pr_domains = Some [(''*.api.org'', PermAllow), (''x.api.org'', PermDeny)],
     pr_review = [], pr_managed_only = True, pr_sockets = None, pr_local_binding = None, pr_injections = []\<rparr>"

definition example_spec :: "domain_entries option \<Rightarrow> spec_error + proxy_spec" where
  "example_spec domains = new_proxy_spec id (\<lambda>g. False) (plain_config domains) (Some example_requirements) True PlatformLinux False"

lemma denial_in_other_letters:
  "example_spec (Some [(''*.API.org'', PermDeny)]) =
     Inl (ConstraintsInvalid (InvalidConstraint ''network.allowed_domains'' ''[*.api.org]'' ''must match managed allowed_domains''))"
  "\<not> isl (example_spec (Some [(''*.api.org'', PermDeny)]))"
  by code_simp code_simp

text \<open>A session in which nothing is denied by the user at first and another host later.\<close>

definition example_first :: proxy_spec where
  "example_first = projr (example_spec None)"

definition example_last :: proxy_spec where
  "example_last = projr (add_rule_batches id [[(''y.api.org'', PermDeny)]] example_first)"

definition example_policy :: runtime_policy where
  "example_policy = projr (build_runtime_policy id (\<lambda>g. False) (pc_settings (sp_config example_last)))"

definition example_request :: proxy_request where
  "example_request = \<lparr>rq_protocol = ProtocolHTTPSConnect, rq_host = ''Z.api.org'', rq_port = 443, rq_environment = '''',
     rq_client = '''', rq_method = ''GET''\<rparr>"

lemma example_inr:
  "new_proxy_spec id (\<lambda>g. False) (plain_config None) (Some example_requirements) True PlatformLinux False = Inr example_first"
  "add_rule_batches id [[(''y.api.org'', PermDeny)]] example_first = Inr example_last"
  "build_runtime_policy id (\<lambda>g. False) (pc_settings (sp_config example_last)) = Inr example_policy"
proof -
  have "\<not> isl (example_spec None)" by code_simp
  then show "new_proxy_spec id (\<lambda>g. False) (plain_config None) (Some example_requirements) True PlatformLinux False = Inr example_first"
    by (simp add: example_first_def example_spec_def)
  have "\<not> isl (add_rule_batches id [[(''y.api.org'', PermDeny)]] example_first)" by code_simp
  then show "add_rule_batches id [[(''y.api.org'', PermDeny)]] example_first = Inr example_last"
    by (simp add: example_last_def)
  have "\<not> isl (build_runtime_policy id (\<lambda>g. False) (pc_settings (sp_config example_last)))" by code_simp
  then show "build_runtime_policy id (\<lambda>g. False) (pc_settings (sp_config example_last)) = Inr example_policy"
    by (simp add: example_policy_def)
qed


theorem managed_only_requests_witness:
  "\<exists>raw candidate. to_lower id raw \<in> lower_set id (requirement_domains (pr_domains example_requirements) PermAllow) \<and>
    to_lower id raw \<notin> lower_set id (denied_domains (pc_settings (sp_config example_last))) \<and>
    candidate \<in> set (pattern_candidates (pattern_of id raw)) \<and>
    glob_match (\<lambda>g h. False) (to_lower id candidate) (to_lower id (normalize_proxy_host id (rq_host example_request)))"
proof (rule managed_only_requests [OF example_inr(1) _ example_inr(2,3)])
  show "pr_managed_only example_requirements" by (simp add: example_requirements_def)
  show "pd_allow (fst (evaluate_proxy_policy id (\<lambda>g. False) (\<lambda>g h. False) (\<lambda>n h. None) None 0 example_policy example_request new_proxy_server))"
    by code_simp
qed

theorem composition_accepted_iff_witness:
  "validate_constraints id (fst (apply_proxy_requirements id (plain_config (Some [(''*.api.org'', PermDeny)])) example_requirements True True))
     (snd (apply_proxy_requirements id (plain_config (Some [(''*.api.org'', PermDeny)])) example_requirements True True)) = None"
proof -
  have denied: "denied_domains (pc_settings (fst (apply_proxy_requirements id (plain_config (Some [(''*.api.org'', PermDeny)]))
      example_requirements True True))) = [''*.api.org'', ''x.api.org'']" by code_simp
  have managed: "requirement_domains (pr_domains example_requirements) PermAllow = [''*.api.org'']" by code_simp
  have "\<not> global_pattern id ''*.api.org''" "\<not> global_pattern id ''x.api.org''" by code_simp+
  then show ?thesis unfolding composition_accepted_iff denied managed by (simp add: plain_config_def example_requirements_def)
qed

end
