(* ===== verification/Go_Json_Field.thy ===== *)
theory Go_Json_Field
  imports Go_Json Go_Utf8
begin

text \<open>
  What the program uses of \<open>json.Unmarshal\<close> into a structure with one string field: the members of the top
  object, found with the scanner of \<open>Go_Json\<close>, the decoding of a string literal, and the value the field gets.
\<close>

section \<open>The members of an object\<close>

record member_scan =
  ms_state :: json_state
  ms_stack :: "json_container list"
  ms_key :: bytes
  ms_value :: bytes
  ms_members :: "(bytes \<times> bytes) list"

text \<open>One byte: the text of the current key or value of the outermost object grows, or a member is complete.\<close>

definition member_step :: "char \<Rightarrow> member_scan \<Rightarrow> member_scan option" where
  "member_step c m = (case json_step (ms_state m) (ms_stack m) c of
     None \<Rightarrow> None
   | Some (st, stack) \<Rightarrow> Some (
       let m1 = m\<lparr>ms_state := st, ms_stack := stack\<rparr> in
       if ms_stack m = [InObjectKey] then
         (if stack = [InObjectValue] then m1 else m1\<lparr>ms_key := ms_key m @ [c]\<rparr>)
       else if ms_stack m = [InObjectValue] \<and> (stack = [InObjectKey] \<or> stack = []) then
         m1\<lparr>ms_members := ms_members m @ [(ms_key m, ms_value m)], ms_key := [], ms_value := []\<rparr>
       else if ms_stack m \<noteq> [] \<and> last (ms_stack m) = InObjectValue then m1\<lparr>ms_value := ms_value m @ [c]\<rparr>
       else m1))"

fun member_scan_all :: "bytes \<Rightarrow> member_scan \<Rightarrow> member_scan option" where
  "member_scan_all [] m = Some m"
| "member_scan_all (c # s) m = (case member_step c m of None \<Rightarrow> None | Some m1 \<Rightarrow> member_scan_all s m1)"

definition json_trim :: "bytes \<Rightarrow> bytes" where
  "json_trim s = rev (dropWhile json_space (rev (dropWhile json_space s)))"

text \<open>The members of a valid text whose top value is an object, each key and value as it is written.\<close>

definition json_object_members :: "bytes \<Rightarrow> (bytes \<times> bytes) list option" where
  "json_object_members s =
     (if \<not> json_valid s \<or> take 1 (json_trim s) \<noteq> ''{'' then None
      else map_option (\<lambda>m. map (\<lambda>(k, v). (json_trim k, json_trim v)) (ms_members m))
        (member_scan_all s \<lparr>ms_state = BeginValue, ms_stack = [], ms_key = [], ms_value = [], ms_members = []\<rparr>))"

section \<open>String literals\<close>

definition hex_value :: "char \<Rightarrow> nat" where
  "hex_value c = (let n = of_char c in if n < 58 then n - 48 else if n < 71 then n - 55 else n - 87)"

definition hex_number :: "bytes \<Rightarrow> nat" where
  "hex_number s = foldl (\<lambda>n c. n * 16 + hex_value c) 0 s"

definition escaped_char :: "char \<Rightarrow> char" where
  "escaped_char c =
     (if c = CHR ''b'' then CHR 0x08 else if c = CHR ''f'' then CHR 0x0C else if c = CHR ''n'' then LF
      else if c = CHR ''r'' then CR else if c = CHR ''t'' then CHR 0x09 else c)"

text \<open>The contents of a valid literal: an escaped surrogate pair is one character, a surrogate alone and a byte
  that is no UTF-8 become the replacement character.\<close>

function json_unquote_body :: "bytes \<Rightarrow> bytes" where
  "json_unquote_body s = (case s of
     [] \<Rightarrow> []
   | c # t \<Rightarrow>
       if c = CHR 0x5C then
         (if take 1 t = ''u'' then
            let r = hex_number (take 4 (drop 1 t)); rest = drop 5 t in
            if 0xD800 \<le> r \<and> r < 0xE000 then
              let low = hex_number (take 4 (drop 2 rest)) in
              if r < 0xDC00 \<and> take 2 rest = [CHR 0x5C, CHR ''u''] \<and> 0xDC00 \<le> low \<and> low < 0xE000
              then string_of_runes [(r - 0xD800) * 0x400 + (low - 0xDC00) + 0x10000] @ json_unquote_body (drop 6 rest)
              else string_of_runes [rune_error] @ json_unquote_body rest
            else string_of_runes [r] @ json_unquote_body rest
          else map escaped_char (take 1 t) @ json_unquote_body (drop 1 t))
       else if (of_char c :: nat) < 128 then c # json_unquote_body t
       else let (r, w) = decode_rune (map of_char s) in string_of_runes [r] @ json_unquote_body (drop (max 1 w) s))"
  by pat_completeness auto
termination by (relation "measure length") auto

declare json_unquote_body.simps [simp del]

definition json_unquote :: "bytes \<Rightarrow> bytes" where
  "json_unquote literal = json_unquote_body (butlast (drop 1 literal))"

section \<open>One string field\<close>

definition ascii_upper :: "char \<Rightarrow> char" where
  "ascii_upper c = (let n = of_char c :: nat in if 97 \<le> n \<and> n \<le> 122 then char_of (n - 32) else c)"

text \<open>The value of the field of that name, \<open>None\<close> for an error.  Names are compared without regard to the case
  of ASCII letters, which is the folding of the library for names that have no \<open>k\<close> and no \<open>s\<close>; the last member
  counts, \<open>null\<close> changes nothing, and a value that is neither makes the decoding fail.\<close>

definition json_string_field :: "bytes \<Rightarrow> bytes \<Rightarrow> bytes option" where
  "json_string_field name s = (case json_object_members s of
     None \<Rightarrow> None
   | Some ms \<Rightarrow>
       let vs = map snd (filter (\<lambda>(k, v). map ascii_upper (json_unquote k) = map ascii_upper name) ms) in
       if list_all (\<lambda>v. take 1 v = [CHR 0x22] \<or> take 1 v = ''n'') vs
       then Some (foldl (\<lambda>field v. if take 1 v = [CHR 0x22] then json_unquote v else field) [] vs) else None)"


end
