(* ===== verification/Client_Tracker.thy ===== *)
theory Client_Tracker
  imports Remote_Reassembly Go_Json_Field
begin

text \<open>
  Connections of remote clients, \<open>remotecontrol/client_tracker.go\<close> with the parts of \<open>websocket_workers.go\<close> that
  drive it.  The tracker runs under a mutex, so each call is one step; the goroutine that forwards the messages
  of a connection, the receiver of the transport events and other trackers, which share the counter of
  connections, take steps in between.  Whether an event is received before the time limit, or the receiver is
  missing or the caller has given up, is a predicate of the step; so are the new stream id (a UUID) and the clock.
\<close>

section \<open>State\<close>

text \<open>The writer and the disconnect function of an opening event belong to the connection it names.\<close>

datatype remote_event =
    ConnectionOpened "64 word" stream_key
  | IncomingMessage "64 word" stream_key bytes
  | ConnectionClosed "64 word" stream_key

record remote_client =
  rc_conn :: "64 word"
  rc_activity :: int
  rc_seq :: "64 word option"

text \<open>A running \<open>runClientOutbound\<close>: its stream, whether its disconnect channel and its writer are closed, and
  what waits in the writer.\<close>

record outbound_worker =
  ow_key :: stream_key
  ow_disconnected :: bool
  ow_writer_closed :: bool
  ow_queue :: "bytes list"

record client_tracker =
  ct_clients :: "(stream_key \<times> remote_client) list"
  ct_legacy :: "(bytes \<times> bytes) list"
  ct_notices :: "stream_key list"
  ct_buffer :: nat
  ct_idle :: int
  ct_counter :: "64 word"
  ct_workers :: "(64 word \<times> outbound_worker) list"
  ct_events :: "remote_event list"
  ct_sent :: "server_envelope list"
  ct_late :: "remote_event list"

definition default_idle_timeout :: int where
  "default_idle_timeout = 600 * 10 ^ 9"

definition new_client_tracker :: "int \<Rightarrow> int \<Rightarrow> 64 word \<Rightarrow> client_tracker" where
  "new_client_tracker idle buffer counter =
     \<lparr>ct_clients = [], ct_legacy = [], ct_notices = [], ct_buffer = (if buffer \<le> 0 then 64 else nat buffer),
      ct_idle = (if idle \<le> 0 then default_idle_timeout else idle), ct_counter = counter, ct_workers = [],
      ct_events = [], ct_sent = [], ct_late = []\<rparr>"

section \<open>Sending, closing\<close>

definition send_event :: "(remote_event \<Rightarrow> bool) \<Rightarrow> remote_event \<Rightarrow> client_tracker \<Rightarrow> bool \<times> client_tracker" where
  "send_event deliver e t = (if deliver e then (True, t\<lparr>ct_events := ct_events t @ [e]\<rparr>) else (False, t))"

definition send_envelope :: "bool \<Rightarrow> server_envelope \<Rightarrow> client_tracker \<Rightarrow> bool \<times> client_tracker" where
  "send_envelope accepted e t = (if accepted then (True, t\<lparr>ct_sent := ct_sent t @ [e]\<rparr>) else (False, t))"

definition remove_client :: "stream_key \<Rightarrow> client_tracker \<Rightarrow> client_tracker" where
  "remove_client key t = t\<lparr>ct_clients := AList.delete key (ct_clients t),
     ct_legacy := (if map_of (ct_legacy t) (fst key) = Some (snd key) then AList.delete (fst key) (ct_legacy t) else ct_legacy t)\<rparr>"

definition disconnect :: "64 word \<Rightarrow> client_tracker \<Rightarrow> client_tracker" where
  "disconnect conn t = t\<lparr>ct_workers := map (\<lambda>(c, w). if c = conn then (c, w\<lparr>ow_disconnected := True\<rparr>) else (c, w)) (ct_workers t)\<rparr>"

definition close_client :: "(remote_event \<Rightarrow> bool) \<Rightarrow> stream_key \<Rightarrow> client_tracker \<Rightarrow> bool \<times> client_tracker" where
  "close_client deliver key t = (case map_of (ct_clients t) key of
     None \<Rightarrow> (True, t)
   | Some c \<Rightarrow> send_event deliver (ConnectionClosed (rc_conn c) key) (disconnect (rc_conn c) (remove_client key t)))"

fun close_clients :: "(remote_event \<Rightarrow> bool) \<Rightarrow> stream_key list \<Rightarrow> client_tracker \<Rightarrow> bool \<times> client_tracker" where
  "close_clients deliver [] t = (True, t)"
| "close_clients deliver (key # keys) t =
     (case close_client deliver key t of (ok, t1) \<Rightarrow> if ok then close_clients deliver keys t1 else (False, t1))"

section \<open>Messages of clients\<close>

definition starts_connection :: "bytes \<Rightarrow> bool" where
  "starts_connection message \<longleftrightarrow> message \<noteq> [] \<and> json_string_field ''method'' message = Some ''initialize''"

text \<open>The stream of an envelope: its own, or the one the tracker keeps for a client that sends none.\<close>

definition resolve_stream_id ::
  "bytes \<Rightarrow> bytes \<Rightarrow> bytes option \<Rightarrow> bool \<Rightarrow> client_event \<Rightarrow> client_tracker \<Rightarrow> bytes \<times> client_tracker" where
  "resolve_stream_id fresh client stream initialize event t = (case stream of
     Some s \<Rightarrow> (s, t)
   | None \<Rightarrow>
       (case map_of (ct_legacy t) client of
          Some s \<Rightarrow> if s \<noteq> '''' then
              (s, if initialize then t\<lparr>ct_legacy := AList.delete client (ct_legacy t)\<rparr> else t)
            else (if initialize \<or> event = ClientPing then fresh else '''', t)
        | None \<Rightarrow> (if initialize \<or> event = ClientPing then fresh else '''', t)))"

definition record_inbound :: "stream_key \<Rightarrow> 64 word option \<Rightarrow> client_tracker \<Rightarrow> client_tracker" where
  "record_inbound key seq t = (case (seq, map_of (ct_clients t) key) of
     (Some s, Some c) \<Rightarrow> t\<lparr>ct_clients := AList.update key (c\<lparr>rc_seq := Some s\<rparr>) (ct_clients t)\<rparr>
   | _ \<Rightarrow> t)"

text \<open>A message for a connection that exists.\<close>

definition forward_message ::
  "int \<Rightarrow> (remote_event \<Rightarrow> bool) \<Rightarrow> stream_key \<Rightarrow> client_envelope \<Rightarrow> remote_client \<Rightarrow> client_tracker \<Rightarrow> bool \<times> client_tracker" where
  "forward_message now deliver key e c t =
     (case send_event deliver (IncomingMessage (rc_conn c) key (ce_message e))
         (t\<lparr>ct_clients := AList.update key (c\<lparr>rc_activity := now\<rparr>) (ct_clients t)\<rparr>) of
        (ok, t1) \<Rightarrow> if ok then (True, record_inbound key (ce_seq e) t1) else (False, t1))"

text \<open>A new connection.  When its first message is not received, the connection is removed and its end is
  announced from a goroutine of its own, later or never.\<close>

definition open_connection ::
  "int \<Rightarrow> (remote_event \<Rightarrow> bool) \<Rightarrow> stream_key \<Rightarrow> client_envelope \<Rightarrow> bool \<Rightarrow> client_tracker \<Rightarrow> bool \<times> client_tracker" where
  "open_connection now deliver key e legacy t =
     (let conn = ct_counter t + 1; t1 = t\<lparr>ct_counter := conn\<rparr> in
      case send_event deliver (ConnectionOpened conn key) t1 of
        (False, t2) \<Rightarrow> (False, t2)
      | (True, t2) \<Rightarrow>
          let t3 = t2\<lparr>ct_clients := AList.update key \<lparr>rc_conn = conn, rc_activity = now, rc_seq = None\<rparr> (ct_clients t2),
                      ct_legacy := (if legacy then AList.update (fst key) (snd key) (ct_legacy t2) else ct_legacy t2),
                      ct_workers := (conn, \<lparr>ow_key = key, ow_disconnected = False, ow_writer_closed = False, ow_queue = []\<rparr>) # ct_workers t2\<rparr>
          in case send_event deliver (IncomingMessage conn key (ce_message e)) t3 of
               (True, t4) \<Rightarrow> (True, if legacy then t4 else record_inbound key (ce_seq e) t4)
             | (False, t4) \<Rightarrow>
                 (False, (disconnect conn (remove_client key t4))\<lparr>ct_late := ConnectionClosed conn key # ct_late t4\<rparr>))"

definition seen_before :: "stream_key \<Rightarrow> 64 word option \<Rightarrow> client_tracker \<Rightarrow> bool" where
  "seen_before key seq t = (case (seq, map_of (ct_clients t) key) of
     (Some s, Some c) \<Rightarrow> (case rc_seq c of Some l \<Rightarrow> s \<le> l | None \<Rightarrow> False)
   | _ \<Rightarrow> False)"

definition handle_client_message ::
  "int \<Rightarrow> (remote_event \<Rightarrow> bool) \<Rightarrow> stream_key \<Rightarrow> client_envelope \<Rightarrow> bool \<Rightarrow> bool \<Rightarrow> client_tracker \<Rightarrow> bool \<times> client_tracker" where
  "handle_client_message now deliver key e initialize legacy t =
     (if seen_before key (ce_seq e) t \<and> \<not> initialize then (True, t)
      else case (if initialize then close_client deliver key t else (True, t)) of
        (False, t1) \<Rightarrow> (False, t1)
      | (True, t1) \<Rightarrow>
          (case map_of (ct_clients t1) key of
             Some c \<Rightarrow> forward_message now deliver key e c t1
           | None \<Rightarrow> if initialize then open_connection now deliver key e legacy t1 else (True, t1)))"

definition plain_envelope :: "server_event \<Rightarrow> bytes \<Rightarrow> bytes option \<Rightarrow> stream_key \<Rightarrow> server_envelope" where
  "plain_envelope event message status key =
     \<lparr>se_type = event, se_message = message, se_segment_id = None, se_segment_count = None, se_message_size = None,
      se_chunk = None, se_status = status, se_client = fst key, se_stream = snd key, se_seq = 0\<rparr>"

definition handle_ping :: "int \<Rightarrow> bool \<Rightarrow> stream_key \<Rightarrow> client_tracker \<Rightarrow> bool \<times> client_tracker" where
  "handle_ping now accepted key t = (case map_of (ct_clients t) key of
     None \<Rightarrow> send_envelope accepted (plain_envelope ServerPong '''' (Some ''unknown'') key) t
   | Some c \<Rightarrow> send_envelope accepted (plain_envelope ServerPong '''' (Some ''active'') key)
       (t\<lparr>ct_clients := AList.update key (c\<lparr>rc_activity := now\<rparr>) (ct_clients t)\<rparr>))"

definition handle_message ::
  "int \<Rightarrow> bytes \<Rightarrow> (remote_event \<Rightarrow> bool) \<Rightarrow> bool \<Rightarrow> client_envelope option \<Rightarrow> client_tracker \<Rightarrow> bool \<times> client_tracker" where
  "handle_message now fresh deliver accepted envelope t = (case envelope of
     None \<Rightarrow> (True, t)
   | Some e \<Rightarrow>
       let legacy = (ce_stream e = None); initialize = starts_connection (ce_message e) in
       (case resolve_stream_id fresh (ce_client e) (ce_stream e) initialize (ce_type e) t of
          (stream, t1) \<Rightarrow>
            if stream = '''' then (True, t1)
            else let key = (ce_client e, stream) in
              (case ce_type e of
                 ClientMessage \<Rightarrow> handle_client_message now deliver key e initialize legacy t1
               | ClientPing \<Rightarrow> handle_ping now accepted key t1
               | ClientClosed \<Rightarrow> close_client deliver key t1
               | _ \<Rightarrow> (True, t1))))"

section \<open>Closing from outside\<close>

text \<open>\<open>order\<close> is the order in which the range over the map of clients comes.\<close>

definition expired_clients :: "int \<Rightarrow> stream_key list \<Rightarrow> client_tracker \<Rightarrow> stream_key list" where
  "expired_clients now order t = filter (\<lambda>key. case map_of (ct_clients t) key of
     None \<Rightarrow> False | Some c \<Rightarrow> ct_idle t \<le> now - rc_activity c) order"

definition close_expired_clients ::
  "int \<Rightarrow> stream_key list \<Rightarrow> (remote_event \<Rightarrow> bool) \<Rightarrow> client_tracker \<Rightarrow> stream_key list \<times> bool \<times> client_tracker" where
  "close_expired_clients now order deliver t =
     (let expired = expired_clients now order t in (expired, close_clients deliver expired t))"

text \<open>Shutting down closes every client, whatever fails.\<close>

fun shutdown_clients :: "(remote_event \<Rightarrow> bool) \<Rightarrow> stream_key list \<Rightarrow> client_tracker \<Rightarrow> client_tracker" where
  "shutdown_clients deliver [] t = t"
| "shutdown_clients deliver (key # keys) t = shutdown_clients deliver keys (snd (close_client deliver key t))"

text \<open>\<open>DrainClosedClients\<close> and the loop of \<open>drainClosedClients\<close>.\<close>

definition drain_closed_clients :: "(remote_event \<Rightarrow> bool) \<Rightarrow> client_tracker \<Rightarrow> stream_key list \<times> bool \<times> client_tracker" where
  "drain_closed_clients deliver t = (ct_notices t, close_clients deliver (ct_notices t) (t\<lparr>ct_notices := []\<rparr>))"

section \<open>The goroutine of a connection\<close>

definition update_worker :: "64 word \<Rightarrow> (outbound_worker \<Rightarrow> outbound_worker) \<Rightarrow> client_tracker \<Rightarrow> client_tracker" where
  "update_worker conn f t = t\<lparr>ct_workers := map (\<lambda>(c, w). if c = conn then (c, f w) else (c, w)) (ct_workers t)\<rparr>"

text \<open>Its end, when it was disconnected, its writer is closed and empty, or a message could not be sent: the stream
  is noted unless the channel of notes is full.\<close>

definition worker_exit :: "64 word \<Rightarrow> client_tracker \<Rightarrow> client_tracker" where
  "worker_exit conn t = (case map_of (ct_workers t) conn of
     None \<Rightarrow> t
   | Some w \<Rightarrow> t\<lparr>ct_workers := AList.delete conn (ct_workers t),
       ct_notices := (if length (ct_notices t) < ct_buffer t then ct_notices t @ [ow_key w] else ct_notices t)\<rparr>)"

definition worker_may_exit :: "64 word \<Rightarrow> client_tracker \<Rightarrow> bool" where
  "worker_may_exit conn t = (case map_of (ct_workers t) conn of
     None \<Rightarrow> False | Some w \<Rightarrow> ow_disconnected w \<or> ow_writer_closed w \<and> ow_queue w = [])"

definition worker_forward :: "bool \<Rightarrow> 64 word \<Rightarrow> client_tracker \<Rightarrow> client_tracker" where
  "worker_forward accepted conn t = (case map_of (ct_workers t) conn of
     None \<Rightarrow> t
   | Some w \<Rightarrow> (case ow_queue w of
       [] \<Rightarrow> t
     | message # rest \<Rightarrow>
         (case send_envelope accepted (plain_envelope ServerMessage message None (ow_key w))
             (update_worker conn (\<lambda>w. w\<lparr>ow_queue := rest\<rparr>) t) of
            (ok, t1) \<Rightarrow> if ok then t1 else worker_exit conn t1)))"

text \<open>What the receiver of the events does with the writer.\<close>

definition write_message :: "64 word \<Rightarrow> bytes \<Rightarrow> client_tracker \<Rightarrow> client_tracker" where
  "write_message conn message t =
     update_worker conn (\<lambda>w. if length (ow_queue w) < ct_buffer t then w\<lparr>ow_queue := ow_queue w @ [message]\<rparr> else w) t"

definition close_writer :: "64 word \<Rightarrow> client_tracker \<Rightarrow> client_tracker" where
  "close_writer conn = update_worker conn (\<lambda>w. w\<lparr>ow_writer_closed := True\<rparr>)"

text \<open>A goroutine that announces the end of a connection whose first message was not received.\<close>

definition late_close :: "bool \<Rightarrow> client_tracker \<Rightarrow> client_tracker" where
  "late_close accepted t = (case ct_late t of
     [] \<Rightarrow> t
   | e # rest \<Rightarrow> snd (send_event (\<lambda>_. accepted) e (t\<lparr>ct_late := rest\<rparr>)))"

section \<open>Runs\<close>

inductive tracker_step :: "client_tracker \<Rightarrow> client_tracker \<Rightarrow> bool" where
  step_message: "tracker_step t (snd (handle_message now fresh deliver accepted envelope t))"
| step_expire: "distinct order \<Longrightarrow> set order = set (keys_of (ct_clients t)) \<Longrightarrow>
    tracker_step t (snd (snd (close_expired_clients now order deliver t)))"
| step_shutdown: "distinct order \<Longrightarrow> set order = set (keys_of (ct_clients t)) \<Longrightarrow>
    tracker_step t (shutdown_clients deliver order t)"
| step_drain: "tracker_step t (snd (snd (drain_closed_clients deliver t)))"
| step_forward: "tracker_step t (worker_forward accepted conn t)"
| step_exit: "worker_may_exit conn t \<Longrightarrow> tracker_step t (worker_exit conn t)"
| step_write: "tracker_step t (write_message conn message t)"
| step_close_writer: "tracker_step t (close_writer conn t)"
| step_disconnect: "tracker_step t (disconnect conn t)"
| step_late: "tracker_step t (late_close accepted t)"
| step_other: "tracker_step t (t\<lparr>ct_counter := ct_counter t + 1\<rparr>)"

inductive tracker_run :: "client_tracker \<Rightarrow> nat \<Rightarrow> client_tracker \<Rightarrow> bool" where
  run_none: "tracker_run t 0 t"
| run_step: "tracker_run t n t1 \<Longrightarrow> tracker_step t1 t2 \<Longrightarrow> tracker_run t (Suc n) t2"

section \<open>One reader\<close>

text \<open>\<open>handleClientPayload\<close> on a decoded envelope: the websocket state puts chunks together, the tracker gets what
  is complete, and what was delivered is recorded.\<close>

definition handle_client_payload ::
  "int \<Rightarrow> bytes \<Rightarrow> (remote_event \<Rightarrow> bool) \<Rightarrow> bool \<Rightarrow> client_envelope \<Rightarrow> int \<Rightarrow> websocket_state \<times> client_tracker \<Rightarrow>
   bool \<times> websocket_state \<times> client_tracker" where
  "handle_client_payload now fresh deliver accepted e wire_size = (\<lambda>(ws, t).
     case observe_client_message now (Some e) wire_size ws of
       (Forward d, ws1) \<Rightarrow>
         (case handle_message now fresh deliver accepted (Some d) t of
            (False, t1) \<Rightarrow> (False, ws1, t1)
          | (True, t1) \<Rightarrow>
              let ws2 = record_client_message_delivery (Some d) ws1 in
              (True, (if ce_type d = ClientClosed
                      then (case ce_stream d of
                              None \<Rightarrow> invalidate_client_message_client (ce_client d) ws2
                            | Some s \<Rightarrow> invalidate_client_message_stream (ce_client d) s ws2)
                      else ws2), t1))
     | (_, ws1) \<Rightarrow> (True, ws1, t))"

definition invalidate_streams :: "stream_key list \<Rightarrow> websocket_state \<Rightarrow> websocket_state" where
  "invalidate_streams keys ws = fold (\<lambda>(client, stream). invalidate_client_message_stream client stream) keys ws"

definition drain_closed :: "(remote_event \<Rightarrow> bool) \<Rightarrow> websocket_state \<times> client_tracker \<Rightarrow> bool \<times> websocket_state \<times> client_tracker" where
  "drain_closed deliver = (\<lambda>(ws, t). case drain_closed_clients deliver t of
     (keys, ok, t1) \<Rightarrow> (ok, if ok then invalidate_streams keys ws else ws, t1))"

definition close_expired ::
  "int \<Rightarrow> stream_key list \<Rightarrow> (remote_event \<Rightarrow> bool) \<Rightarrow> websocket_state \<times> client_tracker \<Rightarrow> bool \<times> websocket_state \<times> client_tracker" where
  "close_expired now order deliver = (\<lambda>(ws, t). case close_expired_clients now order deliver t of
     (keys, ok, t1) \<Rightarrow> (ok, if ok then invalidate_streams keys ws else ws, t1))"

end
