(* ===== verification/Tracker_Runs.thy ===== *)
theory Tracker_Runs
  imports Client_Tracker
begin

text \<open>
  Runs of the tracker of remote clients: the life of a connection as the receiver of the events sees it, messages
  that are sent again, and what a note about a finished goroutine does to a newer connection of its stream.
\<close>

declare split_paired_All [simp del] split_paired_Ex [simp del]

section \<open>The life of a connection\<close>

datatype conn_phase = NotOpened | Live stream_key | Ended stream_key | Violated

fun conn_step :: "64 word \<Rightarrow> conn_phase \<Rightarrow> remote_event \<Rightarrow> conn_phase" where
  "conn_step conn ph (ConnectionOpened c key) =
     (if c \<noteq> conn then ph else case ph of NotOpened \<Rightarrow> Live key | _ \<Rightarrow> Violated)"
| "conn_step conn ph (IncomingMessage c key m) =
     (if c \<noteq> conn then ph else if ph = Live key then ph else Violated)"
| "conn_step conn ph (ConnectionClosed c key) =
     (if c \<noteq> conn then ph else if ph = Live key then Ended key else Violated)"

definition conn_phase_of :: "64 word \<Rightarrow> remote_event list \<Rightarrow> conn_phase" where
  "conn_phase_of conn events = foldl (conn_step conn) NotOpened events"

lemma phase_simps [simp]:
  "conn_phase_of conn [] = NotOpened"
  "conn_phase_of conn (es @ [e]) = conn_step conn (conn_phase_of conn es) e"
  by (simp_all add: conn_phase_of_def)

text \<open>What holds of the clients, the counter, the events received and the ends still to be announced.\<close>

definition conns_ok ::
  "nat \<Rightarrow> (stream_key \<times> remote_client) list \<Rightarrow> 64 word \<Rightarrow> remote_event list \<Rightarrow> remote_event list \<Rightarrow> bool" where
  "conns_ok n clients counter events late \<longleftrightarrow>
     unat counter \<le> n \<and>
     (\<forall>conn. conn_phase_of conn events \<noteq> Violated) \<and>
     (\<forall>conn. counter < conn \<longrightarrow> conn_phase_of conn events = NotOpened) \<and>
     (\<forall>key c. map_of clients key = Some c \<longrightarrow> conn_phase_of (rc_conn c) events = Live key) \<and>
     (\<forall>e \<in> set late. \<exists>conn key. e = ConnectionClosed conn key \<and> conn_phase_of conn events = Live key \<and>
        (\<forall>k c. map_of clients k = Some c \<longrightarrow> rc_conn c \<noteq> conn)) \<and>
     distinct late"

abbreviation tracker_ok :: "nat \<Rightarrow> client_tracker \<Rightarrow> bool" where
  "tracker_ok n t \<equiv> conns_ok n (ct_clients t) (ct_counter t) (ct_events t) (ct_late t)"

lemma ok_empty: "conns_ok 0 [] 0 [] []"
  by (simp add: conns_ok_def)

lemma client_live:
  "conns_ok n clients counter events late \<Longrightarrow> map_of clients key = Some c \<Longrightarrow> conn_phase_of (rc_conn c) events = Live key"
  unfolding conns_ok_def by blast

lemma opened_counted:
  "conns_ok n clients counter events late \<Longrightarrow> conn_phase_of conn events \<noteq> NotOpened \<Longrightarrow> conn \<le> counter"
  unfolding conns_ok_def by (meson not_less)

lemma ok_later: "conns_ok n clients counter events late \<Longrightarrow> n \<le> m \<Longrightarrow> conns_ok m clients counter events late"
  by (simp add: conns_ok_def)

lemma ok_touch:
  assumes "conns_ok n clients counter events late" "map_of clients key = Some c" "rc_conn c' = rc_conn c"
  shows "conns_ok n (AList.update key c' clients) counter events late"
  using assms unfolding conns_ok_def by (auto split: if_splits; blast)

lemma ok_remove: "conns_ok n clients counter events late \<Longrightarrow> conns_ok n (AList.delete key clients) counter events late"
  unfolding conns_ok_def by (auto split: if_splits; blast)

lemma ok_incoming:
  assumes "conns_ok n clients counter events late" "map_of clients key = Some c"
  shows "conns_ok n clients counter (events @ [IncomingMessage (rc_conn c) key m]) late"
proof -
  have "conn_phase_of conn (events @ [IncomingMessage (rc_conn c) key m]) = conn_phase_of conn events" for conn
    using assms by (auto simp: conns_ok_def)
  then show ?thesis using assms(1) unfolding conns_ok_def by metis
qed

lemma ok_closed:
  assumes "conns_ok n clients counter events late" "conn_phase_of conn events = Live key"
    and "\<And>k c. map_of clients k = Some c \<Longrightarrow> rc_conn c \<noteq> conn" "ConnectionClosed conn key \<notin> set late"
  shows "conns_ok n clients counter (events @ [ConnectionClosed conn key]) late"
proof -
  let ?es = "events @ [ConnectionClosed conn key]"
  have self: "conn_phase_of conn ?es = Ended key" and other: "conn' \<noteq> conn \<Longrightarrow> conn_phase_of conn' ?es = conn_phase_of conn' events" for conn'
    using assms(2) by auto
  have ok: "conn_phase_of c events \<noteq> Violated" "counter < c \<Longrightarrow> conn_phase_of c events = NotOpened" for c
    using assms(1) by (auto simp: conns_ok_def)
  have known: "\<not> counter < conn" using assms(2) ok(2) [of conn] by auto
  have "conn_phase_of c ?es \<noteq> Violated" for c using ok(1) self other by (cases "c = conn") auto
  moreover have "counter < c \<Longrightarrow> conn_phase_of c ?es = NotOpened" for c using ok(2) known other by (cases "c = conn") auto
  moreover have "conn_phase_of (rc_conn c) ?es = Live k" if "map_of clients k = Some c" for k c
  proof -
    have "conn_phase_of (rc_conn c) events = Live k" using assms(1) that by (simp add: conns_ok_def)
    then show ?thesis using other [OF assms(3) [OF that]] by simp
  qed
  moreover have "\<exists>conn' key'. e = ConnectionClosed conn' key' \<and> conn_phase_of conn' ?es = Live key' \<and>
      (\<forall>k c. map_of clients k = Some c \<longrightarrow> rc_conn c \<noteq> conn')" if e: "e \<in> set late" for e
  proof -
    obtain conn' key' where e': "e = ConnectionClosed conn' key'" "conn_phase_of conn' events = Live key'"
      "\<forall>k c. map_of clients k = Some c \<longrightarrow> rc_conn c \<noteq> conn'" using assms(1) e unfolding conns_ok_def by blast
    have "conn' \<noteq> conn" using e' e assms(2,4) by auto
    with e' other show ?thesis by auto
  qed
  ultimately show ?thesis using assms(1) unfolding conns_ok_def by blast
qed

lemma ok_late_close:
  assumes "conns_ok n clients counter events late" "conn_phase_of conn events = Live key"
    and "\<And>k c. map_of clients k = Some c \<Longrightarrow> rc_conn c \<noteq> conn" "ConnectionClosed conn key \<notin> set late"
  shows "conns_ok n clients counter events (ConnectionClosed conn key # late)"
  using assms unfolding conns_ok_def by auto

lemma ok_late_rest: "conns_ok n clients counter events (e # late) \<Longrightarrow> conns_ok n clients counter events late"
  by (simp add: conns_ok_def)

lemma counter_next:
  fixes counter :: "64 word"
  assumes "unat counter \<le> n" "Suc n < 2 ^ 64"
  shows "unat (counter + 1) = Suc (unat counter)" "counter < counter + 1"
proof -
  have "unat counter + unat (1 :: 64 word) < 2 ^ LENGTH(64)" using assms by simp
  then show eq: "unat (counter + 1) = Suc (unat counter)" by (simp add: unat_word_ariths)
  then show "counter < counter + 1" by (simp add: word_less_nat_alt)
qed

lemma ok_count:
  assumes "conns_ok n clients counter events late" "Suc n < 2 ^ 64"
  shows "conns_ok (Suc n) clients (counter + 1) events late"
proof -
  have "unat counter \<le> n" using assms(1) by (simp add: conns_ok_def)
  note next1 = counter_next [OF this assms(2)]
  then have "counter < c" if "counter + 1 < c" for c using that by (rule_tac order.strict_trans)
  then show ?thesis using assms(1) next1(1) unfolding conns_ok_def by auto
qed

lemma ok_open:
  assumes "conns_ok n clients counter events late" "Suc n < 2 ^ 64"
  shows "conns_ok (Suc n) clients (counter + 1) (events @ [ConnectionOpened (counter + 1) key]) late"
    and "conn_phase_of (counter + 1) (events @ [ConnectionOpened (counter + 1) key]) = Live key"
    and "map_of clients k = Some c \<Longrightarrow> rc_conn c \<noteq> counter + 1"
    and "ConnectionClosed (counter + 1) key' \<notin> set late"
proof -
  have "unat counter \<le> n" using assms(1) by (simp add: conns_ok_def)
  note next1 = counter_next [OF this assms(2)]
  let ?es = "events @ [ConnectionOpened (counter + 1) key]"
  have fresh: "conn_phase_of (counter + 1) events = NotOpened" using assms(1) next1(2) by (simp add: conns_ok_def)
  then show self: "conn_phase_of (counter + 1) ?es = Live key" by simp
  have other: "c \<noteq> counter + 1 \<Longrightarrow> conn_phase_of c ?es = conn_phase_of c events" for c by simp
  have clients: "rc_conn c \<noteq> counter + 1" if "map_of clients k = Some c" for k c
    using client_live [OF assms(1) that] fresh by auto
  then show "map_of clients k = Some c \<Longrightarrow> rc_conn c \<noteq> counter + 1" .
  show late: "ConnectionClosed (counter + 1) key' \<notin> set late" for key'
    using assms(1) fresh unfolding conns_ok_def by fastforce
  have "conns_ok (Suc n) clients (counter + 1) events late" by (rule ok_count [OF assms])
  moreover have "conn_phase_of c ?es \<noteq> Violated" for c
    using calculation self other by (cases "c = counter + 1") (auto simp: conns_ok_def)
  moreover have "counter + 1 < c \<Longrightarrow> conn_phase_of c ?es = NotOpened" for c
    using calculation(1) other [of c] by (auto simp: conns_ok_def)
  moreover have "conn_phase_of (rc_conn c) ?es = Live k" if "map_of clients k = Some c" for k c
    using other [OF clients [OF that]] client_live [OF assms(1) that] by (simp only:)
  moreover have "\<exists>conn key. e = ConnectionClosed conn key \<and> conn_phase_of conn ?es = Live key \<and>
      (\<forall>k c. map_of clients k = Some c \<longrightarrow> rc_conn c \<noteq> conn)" if e: "e \<in> set late" for e
  proof -
    obtain conn' key' where e': "e = ConnectionClosed conn' key'" "conn_phase_of conn' events = Live key'"
      "\<forall>k c. map_of clients k = Some c \<longrightarrow> rc_conn c \<noteq> conn'" using assms(1) e unfolding conns_ok_def by blast
    then have "conn' \<noteq> counter + 1" using fresh by auto
    with e' other show ?thesis by auto
  qed
  ultimately show "conns_ok (Suc n) clients (counter + 1) ?es late" unfolding conns_ok_def by blast
qed

lemma ok_new_client:
  assumes ok: "conns_ok n clients counter events late" and live: "conn_phase_of (rc_conn c) events = Live key"
    and late: "\<And>key'. ConnectionClosed (rc_conn c) key' \<notin> set late"
  shows "conns_ok n (AList.update key c clients) counter events late"
proof -
  have "\<exists>conn key'. e = ConnectionClosed conn key' \<and> conn_phase_of conn events = Live key' \<and>
      (\<forall>k c'. map_of (AList.update key c clients) k = Some c' \<longrightarrow> rc_conn c' \<noteq> conn)" if e: "e \<in> set late" for e
  proof -
    obtain conn key' where e': "e = ConnectionClosed conn key'" "conn_phase_of conn events = Live key'"
      "\<forall>k c. map_of clients k = Some c \<longrightarrow> rc_conn c \<noteq> conn" using ok e unfolding conns_ok_def by blast
    have "rc_conn c \<noteq> conn" using late [of key'] e e'(1) by auto
    with e' show ?thesis by auto
  qed
  moreover have "conn_phase_of (rc_conn c') events = Live k" if "map_of (AList.update key c clients) k = Some c'" for k c'
    using that live client_live [OF ok] by (auto split: if_splits)
  ultimately show ?thesis using ok unfolding conns_ok_def by blast
qed

section \<open>Each step keeps the account of connections\<close>

lemma untouched_simps [simp]:
  "ct_clients (disconnect conn t) = ct_clients t" "ct_counter (disconnect conn t) = ct_counter t"
  "ct_events (disconnect conn t) = ct_events t" "ct_late (disconnect conn t) = ct_late t"
  "ct_clients (update_worker conn f t) = ct_clients t" "ct_counter (update_worker conn f t) = ct_counter t"
  "ct_events (update_worker conn f t) = ct_events t" "ct_late (update_worker conn f t) = ct_late t"
  "ct_clients (worker_exit conn t) = ct_clients t" "ct_counter (worker_exit conn t) = ct_counter t"
  "ct_events (worker_exit conn t) = ct_events t" "ct_late (worker_exit conn t) = ct_late t"
  "ct_clients (worker_forward accepted conn t) = ct_clients t" "ct_counter (worker_forward accepted conn t) = ct_counter t"
  "ct_events (worker_forward accepted conn t) = ct_events t" "ct_late (worker_forward accepted conn t) = ct_late t"
  "ct_clients (snd (send_envelope accepted e t)) = ct_clients t" "ct_counter (snd (send_envelope accepted e t)) = ct_counter t"
  "ct_events (snd (send_envelope accepted e t)) = ct_events t" "ct_late (snd (send_envelope accepted e t)) = ct_late t"
  "ct_clients (remove_client key t) = AList.delete key (ct_clients t)" "ct_counter (remove_client key t) = ct_counter t"
  "ct_events (remove_client key t) = ct_events t" "ct_late (remove_client key t) = ct_late t"
  "ct_clients (snd (send_event deliver ev t)) = ct_clients t" "ct_counter (snd (send_event deliver ev t)) = ct_counter t"
  "ct_late (snd (send_event deliver ev t)) = ct_late t"
  "ct_events (snd (send_event deliver ev t)) = ct_events t @ (if deliver ev then [ev] else [])"
  by (simp_all add: disconnect_def update_worker_def worker_exit_def worker_forward_def send_envelope_def
      remove_client_def send_event_def split: option.split list.split)

lemma late_not_client:
  "conns_ok n clients counter events late \<Longrightarrow> map_of clients key = Some c \<Longrightarrow> ConnectionClosed (rc_conn c) key' \<notin> set late"
  unfolding conns_ok_def by fastforce

lemma other_client_conn:
  "conns_ok n clients counter events late \<Longrightarrow> map_of clients key = Some c \<Longrightarrow> map_of (AList.delete key clients) k = Some c' \<Longrightarrow>
    rc_conn c' \<noteq> rc_conn c"
  using client_live [of n clients counter events late key c] client_live [of n clients counter events late k c'] by (auto split: if_splits)

lemma close_client_ok: "tracker_ok n t \<Longrightarrow> tracker_ok n (snd (close_client deliver key t))"
proof (cases "map_of (ct_clients t) key")
  case (Some c)
  assume ok: "tracker_ok n t"
  let ?clients = "AList.delete key (ct_clients t)"
  have removed: "conns_ok n ?clients (ct_counter t) (ct_events t) (ct_late t)" by (rule ok_remove [OF ok])
  have "conns_ok n ?clients (ct_counter t) (ct_events t @ [ConnectionClosed (rc_conn c) key]) (ct_late t)"
    by (rule ok_closed [OF removed client_live [OF ok Some] other_client_conn [OF ok Some] late_not_client [OF ok Some]])
  with removed Some show ?thesis by (simp add: close_client_def)
qed (simp add: close_client_def)

lemma close_clients_ok: "tracker_ok n t \<Longrightarrow> tracker_ok n (snd (close_clients deliver keys t))"
proof (induction keys arbitrary: t)
  case (Cons key keys)
  have "tracker_ok n (snd (close_client deliver key t))" by (rule close_client_ok [OF Cons.prems])
  with Cons.IH show ?case by (auto split: prod.split)
qed simp

lemma shutdown_ok: "tracker_ok n t \<Longrightarrow> tracker_ok n (shutdown_clients deliver keys t)"
  by (induction keys arbitrary: t) (simp_all add: close_client_ok)

lemma late_close_ok: "tracker_ok n t \<Longrightarrow> tracker_ok n (late_close accepted t)"
proof (cases "ct_late t")
  case (Cons e rest)
  assume ok: "tracker_ok n t"
  then obtain conn key where e: "e = ConnectionClosed conn key" "conn_phase_of conn (ct_events t) = Live key"
    "\<And>k c. map_of (ct_clients t) k = Some c \<Longrightarrow> rc_conn c \<noteq> conn" and fresh: "e \<notin> set rest"
    using Cons unfolding conns_ok_def by auto
  have rest: "conns_ok n (ct_clients t) (ct_counter t) (ct_events t) rest" using ok Cons ok_late_rest by simp
  have "conns_ok n (ct_clients t) (ct_counter t) (ct_events t @ [e]) rest"
    unfolding e(1) by (rule ok_closed [OF rest e(2,3)]) (use fresh e(1) in auto)
  with rest Cons show ?thesis by (simp add: late_close_def)
qed (simp add: late_close_def)

lemma record_inbound_ok: "tracker_ok n t \<Longrightarrow> tracker_ok n (record_inbound key seq t)"
  by (auto simp: record_inbound_def intro: ok_touch split: option.split)

lemma forward_message_ok:
  assumes ok: "tracker_ok n t" and c: "map_of (ct_clients t) key = Some c"
  shows "tracker_ok n (snd (forward_message now deliver key e c t))"
proof -
  let ?t = "t\<lparr>ct_clients := AList.update key (c\<lparr>rc_activity := now\<rparr>) (ct_clients t)\<rparr>"
  let ?m = "IncomingMessage (rc_conn c) key (ce_message e)"
  have touched: "tracker_ok n ?t" using ok_touch [OF ok c] by simp
  have "conns_ok n (ct_clients ?t) (ct_counter ?t) (ct_events ?t @ [?m]) (ct_late ?t)"
    using ok_incoming [OF touched, of key "c\<lparr>rc_activity := now\<rparr>" "ce_message e"] by simp
  then have "tracker_ok n (snd (send_event deliver ?m ?t))" using touched by simp
  then show ?thesis
    by (cases "send_event deliver ?m ?t") (auto simp: forward_message_def record_inbound_ok)
qed

lemma open_connection_ok:
  assumes ok: "tracker_ok n t" and n: "Suc n < 2 ^ 64"
  shows "tracker_ok (Suc n) (snd (open_connection now deliver key e legacy t))"
proof -
  define conn where "conn = ct_counter t + 1"
  define c where "c = \<lparr>rc_conn = conn, rc_activity = now, rc_seq = None\<rparr>"
  let ?es = "ct_events t @ [ConnectionOpened conn key]"
  let ?m = "IncomingMessage conn key (ce_message e)"
  have counted: "conns_ok (Suc n) (ct_clients t) conn (ct_events t) (ct_late t)"
    unfolding conn_def by (rule ok_count [OF ok n])
  note opened = ok_open(1,2) [OF ok n, of key, folded conn_def] ok_open(3,4) [OF ok n, folded conn_def]
  have client: "conns_ok (Suc n) (AList.update key c (ct_clients t)) conn ?es (ct_late t)"
    by (rule ok_new_client) (use opened in \<open>simp_all add: c_def\<close>)
  have incoming: "conns_ok (Suc n) (AList.update key c (ct_clients t)) conn (?es @ [?m]) (ct_late t)"
    using ok_incoming [OF client, of key c] by (simp add: c_def)
  have removed: "conns_ok (Suc n) (AList.delete key (AList.update key c (ct_clients t))) conn ?es (ConnectionClosed conn key # ct_late t)"
    by (rule ok_late_close [OF ok_remove [OF client]]) (use opened in \<open>auto split: if_splits\<close>)
  show ?thesis
    using counted incoming removed
    by (auto simp: open_connection_def Let_def send_event_def conn_def [symmetric] c_def [symmetric] intro!: record_inbound_ok)
qed

lemma handle_client_message_ok:
  assumes ok: "tracker_ok n t" and n: "Suc n < 2 ^ 64"
  shows "tracker_ok (Suc n) (snd (handle_client_message now deliver key e initialize legacy t))"
proof -
  define r where "r = (if initialize then close_client deliver key t else (True, t))"
  have closed: "tracker_ok n (snd r)" using ok close_client_ok by (simp add: r_def)
  have later: "tracker_ok n t' \<Longrightarrow> tracker_ok (Suc n) t'" for t' by (rule ok_later [OF _ le_SucI [OF order_refl]])
  show ?thesis
    using later [OF ok] later [OF closed] later [OF forward_message_ok [OF closed]] open_connection_ok [OF closed n]
    by (cases r) (auto simp: handle_client_message_def r_def [symmetric] split: bool.split option.split)
qed

lemma resolve_untouched [simp]:
  "ct_clients (snd (resolve_stream_id fresh client stream initialize event t)) = ct_clients t"
  "ct_counter (snd (resolve_stream_id fresh client stream initialize event t)) = ct_counter t"
  "ct_events (snd (resolve_stream_id fresh client stream initialize event t)) = ct_events t"
  "ct_late (snd (resolve_stream_id fresh client stream initialize event t)) = ct_late t"
  by (simp_all add: resolve_stream_id_def split: option.split)

lemma handle_ping_ok: "tracker_ok n t \<Longrightarrow> tracker_ok n (snd (handle_ping now accepted key t))"
  by (auto simp: handle_ping_def intro: ok_touch split: option.split)

lemma handle_message_ok:
  assumes ok: "tracker_ok n t" and n: "Suc n < 2 ^ 64"
  shows "tracker_ok (Suc n) (snd (handle_message now fresh deliver accepted envelope t))"
proof (cases envelope)
  case None
  then show ?thesis using ok_later [OF ok, of "Suc n"] by (simp add: handle_message_def)
next
  case (Some e)
  obtain stream t1 where r: "resolve_stream_id fresh (ce_client e) (ce_stream e) (starts_connection (ce_message e)) (ce_type e) t = (stream, t1)"
    by fastforce
  have ok1: "tracker_ok n t1" using resolve_untouched [of fresh "ce_client e" "ce_stream e" "starts_connection (ce_message e)" "ce_type e" t] ok
    unfolding r by simp
  have later: "tracker_ok n t' \<Longrightarrow> tracker_ok (Suc n) t'" for t' by (rule ok_later [OF _ le_SucI [OF order_refl]])
  show ?thesis
    using later [OF ok1] handle_client_message_ok [OF ok1 n] later [OF handle_ping_ok [OF ok1]] later [OF close_client_ok [OF ok1]]
    by (simp add: handle_message_def Some r Let_def split: client_event.split)
qed

lemma tracker_step_ok: "tracker_step t t' \<Longrightarrow> tracker_ok n t \<Longrightarrow> Suc n < 2 ^ 64 \<Longrightarrow> tracker_ok (Suc n) t'"
proof (induction rule: tracker_step.induct)
  case (step_message t now fresh deliver accepted envelope)
  then show ?case by (rule handle_message_ok)
next
  case (step_expire order t now deliver)
  then show ?case by (auto simp: close_expired_clients_def Let_def intro!: close_clients_ok intro: ok_later)
next
  case (step_shutdown order t deliver)
  then show ?case by (auto intro!: shutdown_ok intro: ok_later)
next
  case (step_drain t deliver)
  then show ?case by (auto simp: drain_closed_clients_def intro!: close_clients_ok intro: ok_later)
next
  case (step_late t accepted)
  then show ?case by (auto intro!: late_close_ok intro: ok_later)
next
  case (step_other t)
  then show ?case using ok_count by simp
qed (auto simp: write_message_def close_writer_def intro: ok_later)

lemma tracker_run_ok: "tracker_run t n t' \<Longrightarrow> tracker_ok m t \<Longrightarrow> m + n < 2 ^ 64 \<Longrightarrow> tracker_ok (m + n) t'"
proof (induction rule: tracker_run.induct)
  case (run_step t n t1 t2)
  then have "tracker_ok (m + n) t1" "Suc (m + n) < 2 ^ 64" by simp_all
  from tracker_step_ok [OF run_step.hyps(2) this] show ?case by simp
qed simp

text \<open>The events of one connection: nothing, or its opening, its messages, and possibly its end, all under the same
  stream.\<close>

definition conn_events :: "64 word \<Rightarrow> remote_event list \<Rightarrow> remote_event list" where
  "conn_events conn = filter (\<lambda>e. case e of
     ConnectionOpened c _ \<Rightarrow> c = conn | IncomingMessage c _ _ \<Rightarrow> c = conn | ConnectionClosed c _ \<Rightarrow> c = conn)"

definition conn_life :: "64 word \<Rightarrow> conn_phase \<Rightarrow> remote_event list \<Rightarrow> bool" where
  "conn_life conn ph es \<longleftrightarrow> (case ph of
     NotOpened \<Rightarrow> es = []
   | Live key \<Rightarrow> \<exists>ms. es = ConnectionOpened conn key # map (IncomingMessage conn key) ms
   | Ended key \<Rightarrow> \<exists>ms. es = ConnectionOpened conn key # map (IncomingMessage conn key) ms @ [ConnectionClosed conn key]
   | Violated \<Rightarrow> True)"

lemma conn_life_of: "conn_life conn (conn_phase_of conn es) (conn_events conn es)"
proof (induction es rule: rev_induct)
  case (snoc e es)
  have one: "\<exists>ms'. map f ms @ [f m] = map f ms'" for f :: "bytes \<Rightarrow> remote_event" and ms m
    by (rule exI [of _ "ms @ [m]"]) simp
  show ?case using snoc one
    by (cases e) (auto simp: conn_life_def conn_events_def split: conn_phase.splits)
qed (simp add: conn_life_def conn_events_def)


section \<open>Messages that are sent again\<close>

text \<open>The connection has recorded the sequence number or a later one.\<close>

definition seq_kept :: "64 word \<Rightarrow> 64 word \<Rightarrow> (stream_key \<times> remote_client) list \<Rightarrow> bool" where
  "seq_kept conn s clients \<longleftrightarrow>
     (\<forall>key c. map_of clients key = Some c \<longrightarrow> rc_conn c = conn \<longrightarrow> (\<exists>l. rc_seq c = Some l \<and> s \<le> l))"

lemma seq_remove: "seq_kept conn s clients \<Longrightarrow> seq_kept conn s (AList.delete key clients)"
  by (auto simp: seq_kept_def split: if_splits)

lemma seq_put:
  assumes "seq_kept conn s clients" "rc_conn c = conn \<Longrightarrow> \<exists>l. rc_seq c = Some l \<and> s \<le> l"
  shows "seq_kept conn s (AList.update key c clients)"
  using assms by (auto simp: seq_kept_def split: if_splits)

lemma seq_touch:
  assumes "seq_kept conn s clients" "map_of clients key = Some c" "rc_conn c' = rc_conn c" "rc_seq c' = rc_seq c"
  shows "seq_kept conn s (AList.update key c' clients)"
  by (rule seq_put [OF assms(1)]) (use assms in \<open>auto simp: seq_kept_def\<close>)

lemma close_client_clients [simp]:
  "ct_clients (snd (close_client deliver key t)) = AList.delete key (ct_clients t)"
  by (auto simp: close_client_def delete_id split: option.split dest: map_of_eq_None_iff [THEN iffD1])

lemma seq_close_clients: "seq_kept conn s (ct_clients t) \<Longrightarrow> seq_kept conn s (ct_clients (snd (close_clients deliver keys t)))"
proof (induction keys arbitrary: t)
  case (Cons key keys)
  then show ?case
    using seq_remove [OF Cons.prems, of key] close_client_clients [of deliver key t] Cons.IH
    by (cases "close_client deliver key t") simp
qed simp

lemma seq_shutdown: "seq_kept conn s (ct_clients t) \<Longrightarrow> seq_kept conn s (ct_clients (shutdown_clients deliver keys t))"
  by (induction keys arbitrary: t) (simp_all add: seq_remove)

lemma seq_record:
  assumes "seq_kept conn s (ct_clients t)" "map_of (ct_clients t) key = Some c"
    and "\<And>q. seq = Some q \<Longrightarrow> rc_conn c = conn \<Longrightarrow> s \<le> q"
  shows "seq_kept conn s (ct_clients (record_inbound key seq t))"
  using assms by (auto simp: record_inbound_def split: option.split intro: seq_put)

lemma seq_forward:
  assumes kept: "seq_kept conn s (ct_clients t)" and c: "map_of (ct_clients t) key = Some c"
    and new: "\<not> seen_before key (ce_seq e) t"
  shows "seq_kept conn s (ct_clients (snd (forward_message now deliver key e c t)))"
proof -
  let ?c = "c\<lparr>rc_activity := now\<rparr>"
  let ?m = "IncomingMessage (rc_conn c) key (ce_message e)"
  obtain ok t1 where sent: "send_event deliver ?m (t\<lparr>ct_clients := AList.update key ?c (ct_clients t)\<rparr>) = (ok, t1)" by fastforce
  then have t1: "ct_clients t1 = AList.update key ?c (ct_clients t)"
    by (auto simp: send_event_def split: if_splits)
  have touched: "seq_kept conn s (ct_clients t1)" unfolding t1 by (rule seq_touch [OF kept c]) simp_all
  have "s \<le> q" if seq: "ce_seq e = Some q" and conn: "rc_conn ?c = conn" for q
  proof -
    obtain l where "rc_seq c = Some l" "s \<le> l" using kept c conn by (auto simp: seq_kept_def)
    then show ?thesis using new seq c by (simp add: seen_before_def)
  qed
  then have "seq_kept conn s (ct_clients (record_inbound key (ce_seq e) t1))"
    by (intro seq_record [OF touched]) (auto simp: t1)
  then show ?thesis using touched by (simp add: forward_message_def sent)
qed

lemma seq_open:
  assumes kept: "seq_kept conn s (ct_clients t)" and conn: "conn \<noteq> ct_counter t + 1"
  shows "seq_kept conn s (ct_clients (snd (open_connection now deliver key e legacy t)))"
proof -
  define c where "c = \<lparr>rc_conn = ct_counter t + 1, rc_activity = now, rc_seq = None\<rparr>"
  have "seq_kept conn s (AList.update key c (ct_clients t))" by (rule seq_put [OF kept]) (use conn in \<open>simp add: c_def\<close>)
  then show ?thesis using kept conn
    by (auto simp: open_connection_def Let_def send_event_def c_def [symmetric] intro: seq_remove intro!: seq_record [where c = c])
      (simp_all add: c_def)
qed

lemma seq_handle_client_message:
  assumes kept: "seq_kept conn s (ct_clients t)" and conn: "conn \<noteq> ct_counter t + 1"
  shows "seq_kept conn s (ct_clients (snd (handle_client_message now deliver key e initialize legacy t)))"
proof (cases initialize)
  case True
  obtain ok t1 where closed: "close_client deliver key t = (ok, t1)" by fastforce
  have t1: "ct_clients t1 = AList.delete key (ct_clients t)" "ct_counter t1 = ct_counter t"
    using close_client_clients [of deliver key t] closed
    by (auto simp: close_client_def send_event_def split: option.splits if_splits)
  have "seq_kept conn s (ct_clients t1)" using seq_remove [OF kept] t1 by simp
  then show ?thesis using seq_open [of conn s t1] conn t1 True
    by (auto simp: handle_client_message_def closed split: bool.split)
next
  case False
  then show ?thesis using kept seq_forward [OF kept] by (auto simp: handle_client_message_def split: option.split)
qed

lemma seq_handle_message:
  assumes kept: "seq_kept conn s (ct_clients t)" and conn: "conn \<noteq> ct_counter t + 1"
  shows "seq_kept conn s (ct_clients (snd (handle_message now fresh deliver accepted envelope t)))"
proof (cases envelope)
  case None
  then show ?thesis using kept by (simp add: handle_message_def)
next
  case (Some e)
  obtain stream t1 where r: "resolve_stream_id fresh (ce_client e) (ce_stream e) (starts_connection (ce_message e)) (ce_type e) t = (stream, t1)"
    by fastforce
  have t1: "ct_clients t1 = ct_clients t" "ct_counter t1 = ct_counter t"
    using resolve_untouched [of fresh "ce_client e" "ce_stream e" "starts_connection (ce_message e)" "ce_type e" t] unfolding r by simp_all
  have ping: "seq_kept conn s (ct_clients (snd (handle_ping now accepted key t1)))" for key
    using kept by (auto simp: handle_ping_def t1 intro: seq_touch split: option.split)
  show ?thesis
    using kept seq_handle_client_message [of conn s t1] ping conn
    by (simp add: handle_message_def Some r Let_def t1 seq_remove split: client_event.split)
qed

lemma seq_step:
  assumes "tracker_step t t'" "seq_kept conn s (ct_clients t)" "conn \<noteq> ct_counter t + 1"
  shows "seq_kept conn s (ct_clients t')"
  using assms
proof (induction rule: tracker_step.induct)
  case (step_message t now fresh deliver accepted envelope)
  then show ?case by (rule seq_handle_message)
qed (simp_all add: close_expired_clients_def drain_closed_clients_def seq_close_clients seq_shutdown Let_def
    write_message_def close_writer_def late_close_def split: list.split)

lemma counter_open: "ct_counter (snd (open_connection now deliver key e legacy t)) = ct_counter t + 1"
  by (auto simp: open_connection_def Let_def send_event_def record_inbound_def split: option.split)

lemma counter_simps [simp]:
  "ct_counter (snd (close_client deliver key t)) = ct_counter t"
  "ct_counter (record_inbound key seq t) = ct_counter t"
  "ct_counter (late_close accepted t) = ct_counter t"
  by (simp_all add: close_client_def record_inbound_def late_close_def split: option.split list.split)

lemma counter_close_clients [simp]: "ct_counter (snd (close_clients deliver keys t)) = ct_counter t"
proof (induction keys arbitrary: t)
  case (Cons key keys)
  then show ?case using counter_simps(1) [of deliver key t] by (cases "close_client deliver key t") simp
qed simp

lemma counter_shutdown [simp]: "ct_counter (shutdown_clients deliver keys t) = ct_counter t"
  by (induction keys arbitrary: t) simp_all

lemma counter_forward [simp]: "ct_counter (snd (forward_message now deliver key e c t)) = ct_counter t"
  by (simp add: forward_message_def send_event_def)

lemma counter_handle_client_message:
  "ct_counter (snd (handle_client_message now deliver key e initialize legacy t)) \<in> {ct_counter t, ct_counter t + 1}"
proof (cases "close_client deliver key t")
  case (Pair ok t1)
  then have "ct_counter t1 = ct_counter t" using counter_simps(1) [of deliver key t] by simp
  then show ?thesis by (auto simp: handle_client_message_def Pair counter_open split: bool.split option.split)
qed

lemma counter_handle_message:
  "ct_counter (snd (handle_message now fresh deliver accepted envelope t)) \<in> {ct_counter t, ct_counter t + 1}"
proof (cases envelope)
  case (Some e)
  obtain stream t1 where r: "resolve_stream_id fresh (ce_client e) (ce_stream e) (starts_connection (ce_message e)) (ce_type e) t = (stream, t1)"
    by fastforce
  have t1: "ct_counter t1 = ct_counter t"
    using resolve_untouched [of fresh "ce_client e" "ce_stream e" "starts_connection (ce_message e)" "ce_type e" t] unfolding r by simp
  have "ct_counter (snd (handle_ping now accepted key t1)) = ct_counter t1" for key
    by (simp add: handle_ping_def split: option.split)
  then show ?thesis
    using counter_handle_client_message [of now deliver "(ce_client e, stream)" e "starts_connection (ce_message e)" "ce_stream e = None" t1]
    by (auto simp: handle_message_def Some r Let_def t1 split: client_event.split)
qed (simp add: handle_message_def)

lemma counter_step: "tracker_step t t' \<Longrightarrow> ct_counter t' \<in> {ct_counter t, ct_counter t + 1}"
proof (induction rule: tracker_step.induct)
  case (step_message t now fresh deliver accepted envelope)
  then show ?case by (rule counter_handle_message)
qed (simp_all add: close_expired_clients_def drain_closed_clients_def Let_def write_message_def close_writer_def)

lemma seq_run:
  assumes "tracker_run t n t'" "tracker_ok m t" "m + n < 2 ^ 64" "conn \<le> ct_counter t" "seq_kept conn s (ct_clients t)"
  shows "conn \<le> ct_counter t' \<and> seq_kept conn s (ct_clients t')"
  using assms
proof (induction rule: tracker_run.induct)
  case (run_step t n t1 t2)
  then have before: "conn \<le> ct_counter t1" "seq_kept conn s (ct_clients t1)" by simp_all
  have ok: "tracker_ok (m + n) t1" using tracker_run_ok [OF run_step.hyps(1) run_step.prems(1)] run_step.prems(2) by simp
  then have "unat (ct_counter t1) \<le> m + n" by (simp add: conns_ok_def)
  from counter_next(2) [OF this] run_step.prems(2) have less: "ct_counter t1 < ct_counter t1 + 1" by simp
  then have "conn \<noteq> ct_counter t1 + 1" using before(1) by auto
  from seq_step [OF run_step.hyps(2) before(2) this] show ?case
    using counter_step [OF run_step.hyps(2)] before(1) less by auto
qed simp

lemma handled_message_recorded:
  assumes handled: "handle_client_message now deliver key e initialize False t = (True, t1)"
    and client: "map_of (ct_clients t1) key = Some c" and seq: "ce_seq e = Some s"
  shows "\<exists>l. rc_seq c = Some l \<and> s \<le> l"
proof -
  have recorded: "rc_seq c = Some s" if "map_of (ct_clients (record_inbound key (Some s) t')) key = Some c" for t'
    using that by (auto simp: record_inbound_def split: option.splits)
  consider (seen) "seen_before key (ce_seq e) t" "t1 = t"
    | (sent) t' where "t1 = record_inbound key (Some s) t'" | (none) "map_of (ct_clients t1) key = None"
    using handled seq
    by (auto simp: handle_client_message_def forward_message_def open_connection_def Let_def
        split: if_splits bool.splits prod.splits option.splits)
  then show ?thesis
  proof cases
    case seen
    then show ?thesis using client seq by (auto simp: seen_before_def split: option.splits)
  next
    case sent
    then show ?thesis using recorded client by auto
  qed (use client in simp)
qed


section \<open>Idle clients\<close>

lemma close_clients_map:
  "close_clients deliver keys t = (True, t1) \<Longrightarrow> map_of (ct_clients t1) key = (if key \<in> set keys then None else map_of (ct_clients t) key)"
proof (induction keys arbitrary: t)
  case (Cons k keys)
  obtain ok t2 where closed: "close_client deliver k t = (ok, t2)" by fastforce
  then have "ct_clients t2 = AList.delete k (ct_clients t)" using close_client_clients [of deliver k t] by simp
  then show ?case using Cons closed by (auto split: if_splits)
qed simp

text \<open>Closing the idle clients removes exactly those without activity for the idle time, when all their ends are
  received.\<close>

lemma expired_clients_closed:
  assumes "set order = set (keys_of (ct_clients t))" "close_expired_clients now order deliver t = (expired, True, t1)"
  shows "map_of (ct_clients t1) key = (case map_of (ct_clients t) key of
      None \<Rightarrow> None | Some c \<Rightarrow> if ct_idle t \<le> now - rc_activity c then None else Some c)"
proof -
  have expired: "expired = expired_clients now order t" and closed: "close_clients deliver expired t = (True, t1)"
    using assms(2) by (auto simp: close_expired_clients_def Let_def)
  have "key \<in> set order \<longleftrightarrow> map_of (ct_clients t) key \<noteq> None"
    unfolding assms(1) in_keys_iff by simp
  then show ?thesis unfolding close_clients_map [OF closed]
    by (auto simp: expired expired_clients_def split: option.splits)
qed

section \<open>A note that outlives its connection\<close>

lemma close_client_received: "close_client (\<lambda>_. True) key t = (True, snd (close_client (\<lambda>_. True) key t))"
  by (simp add: close_client_def send_event_def split: option.split)

lemma close_clients_received: "close_clients (\<lambda>_. True) keys t = (True, snd (close_clients (\<lambda>_. True) keys t))"
proof (induction keys arbitrary: t)
  case (Cons key keys)
  show ?case using Cons.IH [of "snd (close_client (\<lambda>_. True) key t)"] close_client_received [of key t]
    by (metis (mono_tags, lifting) case_prod_conv close_clients.simps(2))
qed simp

lemma close_client_events: "set (ct_events t) \<subseteq> set (ct_events (snd (close_client deliver key t)))"
  by (auto simp: close_client_def split: option.split)

lemma close_clients_events: "set (ct_events t) \<subseteq> set (ct_events (snd (close_clients deliver keys t)))"
proof (induction keys arbitrary: t)
  case (Cons key keys)
  obtain ok t1 where "close_client deliver key t = (ok, t1)" by fastforce
  then show ?case using close_client_events [of t deliver key] Cons.IH [of t1] by auto
qed simp

lemma closed_is_announced:
  assumes "map_of (ct_clients t) key = Some c" "key \<in> set keys"
  shows "ConnectionClosed (rc_conn c) key \<in> set (ct_events (snd (close_clients (\<lambda>_. True) keys t)))"
  using assms
proof (induction keys arbitrary: t)
  case (Cons k keys)
  have step: "close_clients (\<lambda>_. True) (k # keys) t = close_clients (\<lambda>_. True) keys (snd (close_client (\<lambda>_. True) k t))"
    using close_client_received [of k t] by (metis (mono_tags, lifting) case_prod_conv close_clients.simps(2))
  show ?case
  proof (cases "k = key")
    case True
    then have "ConnectionClosed (rc_conn c) key \<in> set (ct_events (snd (close_client (\<lambda>_. True) k t)))"
      using Cons.prems(1) by (simp add: close_client_def)
    then show ?thesis unfolding step using close_clients_events by blast
  next
    case False
    then show ?thesis unfolding step using Cons by simp
  qed
qed simp

lemma map_of_workers:
  "map_of (map (\<lambda>(c, w). if c = conn then (c, f w) else (c, w)) ws) k = (if k = conn then map_option f (map_of ws k) else map_of ws k)"
  by (induction ws) auto

lemma record_inbound_rest [simp]:
  "ct_workers (record_inbound key seq t) = ct_workers t" "ct_notices (record_inbound key seq t) = ct_notices t"
  "ct_buffer (record_inbound key seq t) = ct_buffer t"
  "map_option rc_conn (map_of (ct_clients (record_inbound key seq t)) k) = map_option rc_conn (map_of (ct_clients t) k)"
  by (simp_all add: record_inbound_def split: option.split)

text \<open>C38: a client that starts again on the same stream loses its new connection.  The goroutine of the old connection
  notes its stream when it ends, the note does not say of which connection, and the reader, which closes the
  clients that are noted, closes the new one.\<close>

theorem stale_note_closes_new:
  assumes client: "map_of (ct_clients t) key = Some c" "rc_conn c \<noteq> ct_counter t + 1"
    and worker: "map_of (ct_workers t) (rc_conn c) = Some w" "ow_key w = key"
    and room: "length (ct_notices t) < ct_buffer t"
    and restart: "ce_type e = ClientMessage" "ce_client e = fst key" "ce_stream e = Some (snd key)" "snd key \<noteq> ''''"
      "starts_connection (ce_message e)"
  shows "case handle_message now fresh (\<lambda>_. True) accepted (Some e) t of
      (ok, t1) \<Rightarrow> ok \<and> map_option rc_conn (map_of (ct_clients t1) key) = Some (ct_counter t + 1) \<and> worker_may_exit (rc_conn c) t1 \<and>
        (case drain_closed_clients (\<lambda>_. True) (worker_exit (rc_conn c) t1) of
           (keys, ok, t2) \<Rightarrow> ok \<and> map_of (ct_clients t2) key = None \<and>
             ConnectionClosed (ct_counter t + 1) key \<in> set (ct_events t2))"
proof -
  let ?yes = "\<lambda>_ :: remote_event. True"
  let ?new = "ct_counter t + 1"
  define t0 where "t0 = snd (close_client ?yes key t)"
  have t0: "map_of (ct_clients t0) key = None" "ct_counter t0 = ct_counter t" "ct_notices t0 = ct_notices t" "ct_buffer t0 = ct_buffer t"
    "map_of (ct_workers t0) (rc_conn c) = Some (w\<lparr>ow_disconnected := True\<rparr>)"
    using client(1) worker(1)
    by (simp_all add: t0_def close_client_def send_event_def disconnect_def remove_client_def map_of_workers)
  define t1 where "t1 = snd (open_connection now ?yes key e False t0)"
  have opened: "open_connection now ?yes key e False t0 = (True, t1)"
    by (simp add: t1_def open_connection_def send_event_def Let_def)
  have key: "(ce_client e, snd key) = key" using restart(2) by simp
  have handled: "handle_message now fresh ?yes accepted (Some e) t = (True, t1)"
    using restart close_client_received [of key t]
    by (simp add: handle_message_def resolve_stream_id_def handle_client_message_def key t0_def [symmetric] t0(1) opened)
  have t1: "map_option rc_conn (map_of (ct_clients t1) key) = Some ?new" "ct_notices t1 = ct_notices t" "ct_buffer t1 = ct_buffer t"
    "map_of (ct_workers t1) (rc_conn c) = Some (w\<lparr>ow_disconnected := True\<rparr>)"
    using client(2) by (simp_all add: t1_def open_connection_def send_event_def Let_def t0)
  then obtain c1 where c1: "map_of (ct_clients t1) key = Some c1" "rc_conn c1 = ?new" by auto
  define t2 where "t2 = (worker_exit (rc_conn c) t1)\<lparr>ct_notices := []\<rparr>"
  have noted: "ct_notices (worker_exit (rc_conn c) t1) = ct_notices t @ [key]"
    using t1 room worker(2) by (simp add: worker_exit_def)
  have t2: "map_of (ct_clients t2) key = Some c1" by (simp add: t2_def c1)
  have "worker_may_exit (rc_conn c) t1" using t1(4) by (simp add: worker_may_exit_def)
  moreover have "map_of (ct_clients (snd (close_clients ?yes (ct_notices t @ [key]) t2))) key = None"
    using close_clients_map [OF close_clients_received] by simp
  moreover have "ConnectionClosed ?new key \<in> set (ct_events (snd (close_clients ?yes (ct_notices t @ [key]) t2)))"
    using closed_is_announced [OF t2, of "ct_notices t @ [key]"] c1(2) by simp
  moreover have "drain_closed_clients ?yes (worker_exit (rc_conn c) t1) =
      (ct_notices t @ [key], True, snd (close_clients ?yes (ct_notices t @ [key]) t2))"
    using close_clients_received [of "ct_notices t @ [key]" t2] by (simp add: drain_closed_clients_def noted t2_def)
  ultimately show ?thesis using t1(1) by (simp add: handled)
qed

section \<open>Examples\<close>

definition initialize_message :: bytes where
  "initialize_message = ''{'' @ json_string ''method'' @ '':'' @ json_string ''initialize'' @ ''}''"

definition message_of :: "bytes \<Rightarrow> 64 word \<Rightarrow> client_envelope" where
  "message_of message seq = \<lparr>ce_type = ClientMessage, ce_message = message, ce_segment_id = None, ce_segment_count = None,
     ce_message_size = None, ce_chunk = None, ce_client = ''c'', ce_stream = Some ''s'', ce_seq = Some seq,
     ce_cursor = None, ce_reassembled = False\<rparr>"

lemma initialize_starts: "starts_connection initialize_message"
  by code_simp

lemma empty_starts_nothing: "\<not> starts_connection ''''"
  by (simp add: starts_connection_def)

definition started_tracker :: client_tracker where
  "started_tracker = snd (handle_message 0 '''' (\<lambda>_. True) True (Some (message_of initialize_message 1)) (new_client_tracker 0 0 0))"

lemma start_handled:
  "handle_message 0 '''' (\<lambda>_. True) True (Some (message_of initialize_message 1)) (new_client_tracker 0 0 0) = (True, started_tracker)"
  by (simp add: started_tracker_def handle_message_def message_of_def initialize_starts resolve_stream_id_def handle_client_message_def
      close_client_def new_client_tracker_def open_connection_def send_event_def Let_def)

lemma started_fields:
  "ct_clients started_tracker = [((''c'', ''s''), \<lparr>rc_conn = 1, rc_activity = 0, rc_seq = Some 1\<rparr>)]"
  "ct_workers started_tracker = [(1, \<lparr>ow_key = (''c'', ''s''), ow_disconnected = False, ow_writer_closed = False, ow_queue = []\<rparr>)]"
  "ct_notices started_tracker = []" "ct_buffer started_tracker = 64" "ct_counter started_tracker = 1"
  "ct_events started_tracker = [ConnectionOpened 1 (''c'', ''s''), IncomingMessage 1 (''c'', ''s'') initialize_message]"
  by (simp_all add: started_tracker_def handle_message_def message_of_def initialize_starts resolve_stream_id_def handle_client_message_def
      close_client_def new_client_tracker_def open_connection_def send_event_def record_inbound_def Let_def)

lemma started_run: "tracker_run (new_client_tracker 0 0 0) 1 started_tracker"
  using run_step [OF run_none step_message [of "new_client_tracker 0 0 0" 0 "''''" "\<lambda>_. True" True "Some (message_of initialize_message 1)"]]
  by (simp add: start_handled)



theorem stale_note_closes_new_witness:
  "case handle_message 5 '''' (\<lambda>_. True) True (Some (message_of initialize_message 2)) started_tracker of
      (ok, t1) \<Rightarrow> ok \<and> map_option rc_conn (map_of (ct_clients t1) (''c'', ''s'')) = Some 2 \<and>
        (case drain_closed_clients (\<lambda>_. True) (worker_exit 1 t1) of
           (keys, ok, t2) \<Rightarrow> map_of (ct_clients t2) (''c'', ''s'') = None)"
  using stale_note_closes_new [of started_tracker "(''c'', ''s'')" "\<lparr>rc_conn = 1, rc_activity = 0, rc_seq = Some 1\<rparr>"
      "\<lparr>ow_key = (''c'', ''s''), ow_disconnected = False, ow_writer_closed = False, ow_queue = []\<rparr>" "message_of initialize_message 2" 5 "''''" True]
  by (auto simp: started_fields message_of_def initialize_starts split: prod.splits)

end
