(* ===== verification/Go_Fold.thy ===== *)
theory Go_Fold
  imports Go_Case
begin

text \<open>
  \<open>strings.EqualFold\<close> against an ASCII text: besides the ASCII letters only the long s and the Kelvin sign fold to an
  ASCII letter.
\<close>

definition fold_rune :: "nat \<Rightarrow> nat" where
  "fold_rune r = (if r = 0x212A then 0x6B else if r = 0x17F then 0x73 else if 0x41 \<le> r \<and> r \<le> 0x5A then r + 0x20 else r)"

definition folds_to :: "bytes \<Rightarrow> bytes \<Rightarrow> bool" where
  "folds_to s t \<longleftrightarrow> map fold_rune (string_runes s) = map fold_rune (string_runes t)"

end
