(* ===== verification/Steer_Mailbox.thy ===== *)
theory Steer_Mailbox
  imports Go_Fold
begin

text \<open>
  Input that reaches a turn while it runs, \<open>turn/steer_mailbox.go\<close>: queues per turn, the phase in which a turn takes
  mail, the gate that closes while its last batch is recorded, and those who wait for input.  Every method runs under
  the mutex of the mailbox and is one step.  A channel is a number, and a channel that was closed stays in a list.
  A queued value that is a map is the list of its fields with the text \<open>fmt.Sprint\<close> gives each; any other value is
  opaque.  A map the code ranges over is the list of its entries in the order in which they come.
\<close>

section \<open>Values\<close>

datatype input_item = NilItem | PlainItem bytes | ObjectItem "(bytes \<times> bytes) list"

datatype delivery_phase = CurrentTurn | NextTurn | OtherPhase bytes

datatype activity = ActivityNone | ActivityMailbox | ActivitySteer

datatype wait_outcome = OutcomeTimedOut | OutcomeMailboxActivity | OutcomeSteered

datatype mailbox_error = MissingIds

record steer_mailbox =
  sm_items :: "(bytes \<times> input_item list) list"
  sm_metadata :: "(bytes \<times> (bytes \<times> bytes) list) list"
  sm_phases :: "(bytes \<times> delivery_phase) list"
  sm_finishing :: "(bytes \<times> nat) list"
  sm_changed :: "nat option"
  sm_injections :: "bytes list"
  sm_last_key :: bytes
  sm_last_activity :: activity
  sm_closed :: "nat list"
  sm_next :: nat

definition new_steer_mailbox :: steer_mailbox where
  "new_steer_mailbox = \<lparr>sm_items = [], sm_metadata = [], sm_phases = [], sm_finishing = [], sm_changed = None,
     sm_injections = [], sm_last_key = '''', sm_last_activity = ActivityNone, sm_closed = [], sm_next = 0\<rparr>"

record enqueue_params =
  en_thread :: bytes
  en_turn :: bytes
  en_items :: "input_item list"
  en_metadata :: "(bytes \<times> bytes) list"

definition field_text :: "(bytes \<times> bytes) list \<Rightarrow> bytes \<Rightarrow> bytes" where
  "field_text fs name = (case map_of fs name of None \<Rightarrow> ''<nil>'' | Some t \<Rightarrow> t)"

definition is_agent_mail :: "(nat \<Rightarrow> nat) \<Rightarrow> input_item \<Rightarrow> bool" where
  "is_agent_mail lower_rune item = (case item of
     ObjectItem fs \<Rightarrow> (let t = to_lower lower_rune (trim_space (field_text fs ''type'')) in
       t = ''agent_message'' \<or> t = ''agent_message_board_notification'')
   | _ \<Rightarrow> False)"

definition have_agent_mail :: "(nat \<Rightarrow> nat) \<Rightarrow> input_item list \<Rightarrow> bool" where
  "have_agent_mail lower_rune items = list_ex (is_agent_mail lower_rune) items"

definition carry_injection :: "(nat \<Rightarrow> nat) \<Rightarrow> input_item list \<Rightarrow> bool" where
  "carry_injection lower_rune items = list_ex (\<lambda>item. \<not> is_agent_mail lower_rune item) items"

definition have_function_call_output :: "input_item list \<Rightarrow> bool" where
  "have_function_call_output items = list_ex (\<lambda>item. case item of
     ObjectItem fs \<Rightarrow> folds_to (trim_space (field_text fs ''type'')) ''function_call_output'' | _ \<Rightarrow> False) items"

definition have_user_input :: "input_item list \<Rightarrow> bool" where
  "have_user_input items = list_ex (\<lambda>item. case item of
     ObjectItem fs \<Rightarrow> folds_to (trim_space (field_text fs ''type'')) ''message'' \<and>
       folds_to (trim_space (field_text fs ''role'')) ''user'' | _ \<Rightarrow> False) items"

fun items_activity :: "(nat \<Rightarrow> nat) \<Rightarrow> activity \<Rightarrow> input_item list \<Rightarrow> activity" where
  "items_activity lower_rune a [] = a"
| "items_activity lower_rune a (item # items) =
     (if \<not> is_agent_mail lower_rune item then ActivitySteer else items_activity lower_rune ActivityMailbox items)"

definition compact_input_items :: "input_item list \<Rightarrow> input_item list" where
  "compact_input_items items = filter (\<lambda>item. item \<noteq> NilItem) items"

definition compact_string_map :: "(bytes \<times> bytes) list \<Rightarrow> (bytes \<times> bytes) list" where
  "compact_string_map values = fold (\<lambda>(k, v) out. let k' = trim_space k; v' = trim_space v in
     if k' \<noteq> '''' \<and> v' \<noteq> '''' then AList.update k' v' out else out) values []"

definition mailbox_key :: "bytes \<Rightarrow> bytes \<Rightarrow> bytes" where
  "mailbox_key thread turn = trim_space thread @ CHR 0x00 # trim_space turn"

definition key_thread :: "bytes \<Rightarrow> bytes" where
  "key_thread key = takeWhile (\<lambda>c. c \<noteq> CHR 0x00) key"

definition missing_ids :: "bytes \<Rightarrow> bytes \<Rightarrow> bool" where
  "missing_ids thread turn \<longleftrightarrow> trim_space thread = '''' \<or> trim_space turn = ''''"

section \<open>Reading\<close>

definition queue_of :: "bytes \<Rightarrow> steer_mailbox \<Rightarrow> input_item list" where
  "queue_of key m = (case map_of (sm_items m) key of None \<Rightarrow> [] | Some items \<Rightarrow> items)"

definition metadata_of :: "bytes \<Rightarrow> steer_mailbox \<Rightarrow> (bytes \<times> bytes) list" where
  "metadata_of key m = (case map_of (sm_metadata m) key of None \<Rightarrow> [] | Some d \<Rightarrow> d)"

definition accepts_delivery :: "bytes \<Rightarrow> steer_mailbox \<Rightarrow> bool" where
  "accepts_delivery key m = (if map_of (sm_finishing m) key \<noteq> None then False else map_of (sm_phases m) key \<noteq> Some NextTurn)"

definition accepts_mailbox_delivery :: "bytes \<Rightarrow> bytes \<Rightarrow> steer_mailbox \<Rightarrow> bool" where
  "accepts_mailbox_delivery thread turn m = accepts_delivery (mailbox_key thread turn) m"

definition is_turn_finishing :: "bytes \<Rightarrow> bytes \<Rightarrow> steer_mailbox \<Rightarrow> bool" where
  "is_turn_finishing thread turn m \<longleftrightarrow> map_of (sm_finishing m) (mailbox_key thread turn) \<noteq> None"

definition has_pending :: "bytes \<Rightarrow> bytes \<Rightarrow> steer_mailbox \<Rightarrow> bool" where
  "has_pending thread turn m =
     (let key = mailbox_key thread turn in
      if map_of (sm_phases m) key = Some NextTurn then False
      else if queue_of key m \<noteq> [] then True else metadata_of key m \<noteq> [])"

definition has_pending_mailbox_items :: "(nat \<Rightarrow> nat) \<Rightarrow> bytes \<Rightarrow> bytes \<Rightarrow> steer_mailbox \<Rightarrow> bool" where
  "has_pending_mailbox_items lower_rune thread turn m = have_agent_mail lower_rune (queue_of (mailbox_key thread turn) m)"

definition has_pending_user_input :: "bytes \<Rightarrow> bytes \<Rightarrow> steer_mailbox \<Rightarrow> bool" where
  "has_pending_user_input thread turn m = have_user_input (queue_of (mailbox_key thread turn) m)"

definition pending_activity_of :: "(nat \<Rightarrow> nat) \<Rightarrow> bytes \<Rightarrow> steer_mailbox \<Rightarrow> activity" where
  "pending_activity_of lower_rune key m =
     (if key \<in> set (sm_injections m) then ActivitySteer
      else let items = queue_of key m in
        if have_user_input items \<or> have_function_call_output items then ActivitySteer
        else if have_agent_mail lower_rune items then ActivityMailbox else ActivityNone)"

definition pending_activity :: "(nat \<Rightarrow> nat) \<Rightarrow> bytes \<Rightarrow> bytes \<Rightarrow> steer_mailbox \<Rightarrow> activity" where
  "pending_activity lower_rune thread turn m = pending_activity_of lower_rune (mailbox_key thread turn) m"

definition last_activity_for :: "bytes \<Rightarrow> steer_mailbox \<Rightarrow> activity" where
  "last_activity_for thread m = (if key_thread (sm_last_key m) \<noteq> trim_space thread then ActivityNone else sm_last_activity m)"

section \<open>Writing\<close>

definition store_locked ::
  "(nat \<Rightarrow> nat) \<Rightarrow> bytes \<Rightarrow> input_item list \<Rightarrow> (bytes \<times> bytes) list \<Rightarrow> steer_mailbox \<Rightarrow> steer_mailbox" where
  "store_locked lower_rune key items metadata m = m\<lparr>
     sm_items := (if items \<noteq> [] then AList.update key (queue_of key m @ items) (sm_items m) else sm_items m),
     sm_metadata := (if metadata \<noteq> [] then AList.update key metadata (sm_metadata m) else sm_metadata m),
     sm_last_key := key,
     sm_last_activity := (let a = items_activity lower_rune ActivityNone items in if a = ActivityNone then ActivitySteer else a),
     sm_closed := (case sm_changed m of None \<Rightarrow> sm_closed m | Some c \<Rightarrow> c # sm_closed m),
     sm_changed := Some (sm_next m), sm_next := sm_next m + 1\<rparr>"

definition set_phase :: "bytes \<Rightarrow> delivery_phase \<Rightarrow> steer_mailbox \<Rightarrow> steer_mailbox" where
  "set_phase key phase m =
     (if phase \<noteq> NextTurn then m\<lparr>sm_phases := AList.delete key (sm_phases m)\<rparr>
      else m\<lparr>sm_phases := AList.update key phase (sm_phases m)\<rparr>)"

definition set_delivery_phase :: "bytes \<Rightarrow> bytes \<Rightarrow> delivery_phase \<Rightarrow> steer_mailbox \<Rightarrow> steer_mailbox" where
  "set_delivery_phase thread turn phase m = set_phase (mailbox_key thread turn) phase m"

definition accept_delivery_for_current_turn :: "bytes \<Rightarrow> bytes \<Rightarrow> steer_mailbox \<Rightarrow> steer_mailbox" where
  "accept_delivery_for_current_turn thread turn m = set_delivery_phase thread turn CurrentTurn m"

definition enqueue :: "(nat \<Rightarrow> nat) \<Rightarrow> enqueue_params option \<Rightarrow> steer_mailbox \<Rightarrow> mailbox_error option \<times> steer_mailbox" where
  "enqueue lower_rune params m = (case params of
     None \<Rightarrow> (Some MissingIds, m)
   | Some p \<Rightarrow>
       if missing_ids (en_thread p) (en_turn p) then (Some MissingIds, m)
       else let items = compact_input_items (en_items p); metadata = compact_string_map (en_metadata p);
                key = mailbox_key (en_thread p) (en_turn p) in
         if items = [] \<and> metadata = [] then (None, m)
         else let m1 = (if carry_injection lower_rune items
                        then m\<lparr>sm_injections := List.insert key (sm_injections m)\<rparr> else m);
                  m2 = store_locked lower_rune key items metadata m1
              in (None, if have_user_input items then set_phase key CurrentTurn m2 else m2))"

definition enqueue_if_accepting ::
  "(nat \<Rightarrow> nat) \<Rightarrow> enqueue_params option \<Rightarrow> steer_mailbox \<Rightarrow> (mailbox_error + bool) \<times> steer_mailbox" where
  "enqueue_if_accepting lower_rune params m = (case params of
     None \<Rightarrow> (Inl MissingIds, m)
   | Some p \<Rightarrow>
       if missing_ids (en_thread p) (en_turn p) then (Inl MissingIds, m)
       else let items = compact_input_items (en_items p); metadata = compact_string_map (en_metadata p);
                key = mailbox_key (en_thread p) (en_turn p) in
         if items = [] \<and> metadata = [] then (Inr False, m)
         else if \<not> accepts_delivery key m then (Inr False, m)
         else (Inr True, store_locked lower_rune key items metadata m))"

definition forget_queue :: "bytes \<Rightarrow> steer_mailbox \<Rightarrow> steer_mailbox" where
  "forget_queue key m = m\<lparr>sm_items := AList.delete key (sm_items m), sm_metadata := AList.delete key (sm_metadata m),
     sm_injections := removeAll key (sm_injections m)\<rparr>"

definition drain_with_metadata ::
  "bytes \<Rightarrow> bytes \<Rightarrow> steer_mailbox \<Rightarrow> (input_item list \<times> (bytes \<times> bytes) list) \<times> steer_mailbox" where
  "drain_with_metadata thread turn m =
     (if missing_ids thread turn then (([], []), m)
      else let key = mailbox_key thread turn in ((queue_of key m, metadata_of key m), forget_queue key m))"

definition clear_mailbox :: "bytes \<Rightarrow> bytes \<Rightarrow> steer_mailbox \<Rightarrow> steer_mailbox" where
  "clear_mailbox thread turn m = (if missing_ids thread turn then m else forget_queue (mailbox_key thread turn) m)"

section \<open>The end of a turn\<close>

definition close_admission :: "bytes \<Rightarrow> steer_mailbox \<Rightarrow> steer_mailbox" where
  "close_admission key m = (case map_of (sm_finishing m) key of
     Some _ \<Rightarrow> m
   | None \<Rightarrow> m\<lparr>sm_finishing := AList.update key (sm_next m) (sm_finishing m), sm_next := sm_next m + 1\<rparr>)"

text \<open>The function that reopens the turn is the key it releases, or nothing.\<close>

definition begin_turn_finish :: "bytes \<Rightarrow> bytes \<Rightarrow> steer_mailbox \<Rightarrow> bytes option \<times> steer_mailbox" where
  "begin_turn_finish thread turn m =
     (if missing_ids thread turn then (None, m)
      else let key = mailbox_key thread turn in (Some key, close_admission key m))"

definition release_turn_finish :: "bytes \<Rightarrow> steer_mailbox \<Rightarrow> steer_mailbox" where
  "release_turn_finish key m = (case map_of (sm_finishing m) key of
     None \<Rightarrow> m
   | Some c \<Rightarrow> m\<lparr>sm_finishing := AList.delete key (sm_finishing m), sm_closed := c # sm_closed m\<rparr>)"

definition finish_or_take_pending ::
  "bytes \<Rightarrow> bytes \<Rightarrow> steer_mailbox \<Rightarrow> (input_item list \<times> (bytes \<times> bytes) list) option \<times> steer_mailbox" where
  "finish_or_take_pending thread turn m =
     (if missing_ids thread turn then (None, m)
      else let key = mailbox_key thread turn in
        if accepts_delivery key m \<and> (queue_of key m \<noteq> [] \<or> metadata_of key m \<noteq> [])
        then (Some (queue_of key m, metadata_of key m), forget_queue key m)
        else (None, close_admission key m))"

text \<open>\<open>WaitForTurnFinish\<close> waits for the gate it finds, if there is one.\<close>

definition finish_gate :: "bytes \<Rightarrow> bytes \<Rightarrow> steer_mailbox \<Rightarrow> nat option" where
  "finish_gate thread turn m = map_of (sm_finishing m) (mailbox_key thread turn)"

section \<open>Waiting for input\<close>

definition subscribe_activity ::
  "(nat \<Rightarrow> nat) \<Rightarrow> bytes \<Rightarrow> bytes \<Rightarrow> steer_mailbox \<Rightarrow> (nat \<times> activity) \<times> steer_mailbox" where
  "subscribe_activity lower_rune thread turn m = (case sm_changed m of
     Some c \<Rightarrow> ((c, pending_activity lower_rune thread turn m), m)
   | None \<Rightarrow> ((sm_next m, pending_activity lower_rune thread turn m), m\<lparr>sm_changed := Some (sm_next m), sm_next := sm_next m + 1\<rparr>))"

definition outcome_for :: "activity \<Rightarrow> wait_outcome option" where
  "outcome_for a = (case a of
     ActivityMailbox \<Rightarrow> Some OutcomeMailboxActivity | ActivitySteer \<Rightarrow> Some OutcomeSteered | ActivityNone \<Rightarrow> None)"

text \<open>A waiter that found nothing holds the channel; when the channel was closed it reads the last activity and then,
  under another lock, looks again.  A deadline or a cancellation may end it instead while it holds the channel.\<close>

datatype wait_state = Waiting nat | LookAgain | WaitDone wait_outcome

definition wait_round :: "(nat \<Rightarrow> nat) \<Rightarrow> bytes \<Rightarrow> bytes \<Rightarrow> steer_mailbox \<Rightarrow> wait_state \<times> steer_mailbox" where
  "wait_round lower_rune thread turn m =
     (case subscribe_activity lower_rune thread turn m of
        ((c, pending), m1) \<Rightarrow> (case outcome_for pending of Some out \<Rightarrow> (WaitDone out, m1) | None \<Rightarrow> (Waiting c, m1)))"

definition wait_begin :: "(nat \<Rightarrow> nat) \<Rightarrow> bytes \<Rightarrow> bytes \<Rightarrow> steer_mailbox \<Rightarrow> wait_state \<times> steer_mailbox" where
  "wait_begin lower_rune thread turn m =
     (if trim_space thread = '''' then (WaitDone OutcomeTimedOut, m) else wait_round lower_rune (trim_space thread) turn m)"

definition wait_wake :: "bytes \<Rightarrow> wait_state \<Rightarrow> steer_mailbox \<Rightarrow> wait_state" where
  "wait_wake thread w m = (case w of
     Waiting c \<Rightarrow>
       if c \<notin> set (sm_closed m) then w
       else (case outcome_for (last_activity_for thread m) of Some out \<Rightarrow> WaitDone out | None \<Rightarrow> LookAgain)
   | _ \<Rightarrow> w)"

definition wait_look :: "(nat \<Rightarrow> nat) \<Rightarrow> bytes \<Rightarrow> bytes \<Rightarrow> wait_state \<Rightarrow> steer_mailbox \<Rightarrow> wait_state \<times> steer_mailbox" where
  "wait_look lower_rune thread turn w m = (case w of
     LookAgain \<Rightarrow> wait_round lower_rune (trim_space thread) turn m | _ \<Rightarrow> (w, m))"

text \<open>A watcher cancels its signal once its test holds of the mailbox.\<close>

datatype watch_state = Watching "nat option" | Signalled

definition watch_begin :: "(steer_mailbox \<Rightarrow> bool) \<Rightarrow> steer_mailbox \<Rightarrow> watch_state \<times> steer_mailbox" where
  "watch_begin test m =
     (let m1 = (case sm_changed m of
            Some _ \<Rightarrow> m | None \<Rightarrow> m\<lparr>sm_changed := Some (sm_next m), sm_next := sm_next m + 1\<rparr>)
      in (if test m1 then Signalled else Watching (sm_changed m1), m1))"

definition watch_wake :: "(steer_mailbox \<Rightarrow> bool) \<Rightarrow> watch_state \<Rightarrow> steer_mailbox \<Rightarrow> watch_state" where
  "watch_wake test w m = (case w of
     Watching (Some c) \<Rightarrow>
       if c \<in> set (sm_closed m) then (if test m then Signalled else Watching (sm_changed m)) else w
   | _ \<Rightarrow> w)"

definition activity_test :: "(nat \<Rightarrow> nat) \<Rightarrow> bytes \<Rightarrow> bytes \<Rightarrow> steer_mailbox \<Rightarrow> bool" where
  "activity_test lower_rune thread turn m \<longleftrightarrow> pending_activity lower_rune thread turn m \<noteq> ActivityNone"

definition steer_test :: "(nat \<Rightarrow> nat) \<Rightarrow> bytes \<Rightarrow> bytes \<Rightarrow> steer_mailbox \<Rightarrow> bool" where
  "steer_test lower_rune thread turn m \<longleftrightarrow> pending_activity lower_rune thread turn m = ActivitySteer"

definition user_input_test :: "bytes \<Rightarrow> bytes \<Rightarrow> steer_mailbox \<Rightarrow> bool" where
  "user_input_test thread turn m \<longleftrightarrow> has_pending_user_input thread turn m"

end
