(* ===== verification/Mailbox_Runs.thy ===== *)
theory Mailbox_Runs
  imports Steer_Mailbox
begin

text \<open>
  Runs of the steer mailbox: its callers in any order, each call one step.  No input is lost, repeated or reordered;
  a turn that closed takes no mail; a channel wakes its holder exactly when it should; and two places where a waiter or a
  turn misses input.
\<close>

section \<open>Runs of calls\<close>

datatype mailbox_op =
    OpEnqueue "enqueue_params option"
  | OpDeliver "enqueue_params option"
  | OpBeginFinish bytes bytes
  | OpRelease bytes
  | OpFinishOrTake bytes bytes
  | OpDrain bytes bytes
  | OpClear bytes bytes
  | OpSetPhase bytes bytes delivery_phase
  | OpSubscribe bytes bytes

text \<open>What a call stored and what it took out, each with its queue.\<close>

type_synonym mailbox_io = "(bytes \<times> input_item list) option \<times> (bytes \<times> input_item list) option"

definition params_key :: "enqueue_params \<Rightarrow> bytes" where
  "params_key p = mailbox_key (en_thread p) (en_turn p)"

definition stored_input :: "enqueue_params \<Rightarrow> (bytes \<times> input_item list) option" where
  "stored_input p =
     (if missing_ids (en_thread p) (en_turn p) \<or> compact_input_items (en_items p) = [] \<and> compact_string_map (en_metadata p) = []
      then None else Some (params_key p, compact_input_items (en_items p)))"

fun mailbox_step :: "(nat \<Rightarrow> nat) \<Rightarrow> mailbox_op \<Rightarrow> steer_mailbox \<Rightarrow> mailbox_io \<times> steer_mailbox" where
  "mailbox_step lower_rune (OpEnqueue params) m = (case enqueue lower_rune params m of
     (e, m1) \<Rightarrow> ((Option.bind params stored_input, None), m1))"
| "mailbox_step lower_rune (OpDeliver params) m = (case enqueue_if_accepting lower_rune params m of
     (r, m1) \<Rightarrow> ((if r = Inr True then Option.bind params stored_input else None, None), m1))"
| "mailbox_step lower_rune (OpBeginFinish thread turn) m = ((None, None), snd (begin_turn_finish thread turn m))"
| "mailbox_step lower_rune (OpRelease key) m = ((None, None), release_turn_finish key m)"
| "mailbox_step lower_rune (OpFinishOrTake thread turn) m = (case finish_or_take_pending thread turn m of
     (r, m1) \<Rightarrow> ((None, map_option (\<lambda>d. (mailbox_key thread turn, fst d)) r), m1))"
| "mailbox_step lower_rune (OpDrain thread turn) m = (case drain_with_metadata thread turn m of
     (d, m1) \<Rightarrow> ((None, Some (mailbox_key thread turn, fst d)), m1))"
| "mailbox_step lower_rune (OpClear thread turn) m =
     ((None, if missing_ids thread turn then None else Some (mailbox_key thread turn, queue_of (mailbox_key thread turn) m)),
      clear_mailbox thread turn m)"
| "mailbox_step lower_rune (OpSetPhase thread turn phase) m = ((None, None), set_delivery_phase thread turn phase m)"
| "mailbox_step lower_rune (OpSubscribe thread turn) m = ((None, None), snd (subscribe_activity lower_rune thread turn m))"

fun run_ops :: "('op \<Rightarrow> 's \<Rightarrow> 'io \<times> 's) \<Rightarrow> 'op list \<Rightarrow> 's \<Rightarrow> 'io list \<times> 's" where
  "run_ops step [] s = ([], s)"
| "run_ops step (op # ops) s = (case step op s of (io, s1) \<Rightarrow> case run_ops step ops s1 of (ios, s2) \<Rightarrow> (io # ios, s2))"

definition part_for :: "bytes \<Rightarrow> (bytes \<times> input_item list) option \<Rightarrow> input_item list" where
  "part_for key part = (case part of None \<Rightarrow> [] | Some (k, items) \<Rightarrow> if k = key then items else [])"

section \<open>A queue that only its ends change\<close>

locale conserved_queue =
  fixes step :: "'op \<Rightarrow> 's \<Rightarrow> 'io \<times> 's"
    and queue :: "'s \<Rightarrow> 'a list"
    and added removed :: "'io \<Rightarrow> 'a list"
  assumes step_law: "step op s = (io, s') \<Longrightarrow> queue s @ added io = removed io @ queue s'"
begin

lemma run_law: "run_ops step ops s = (ios, s') \<Longrightarrow> queue s @ concat (map added ios) = concat (map removed ios) @ queue s'"
proof (induction ops arbitrary: s ios)
  case (Cons op ops)
  then obtain io s1 ios1 where s: "step op s = (io, s1)" "run_ops step ops s1 = (ios1, s')" "ios = io # ios1"
    by (auto split: prod.splits)
  have "queue s @ concat (map added ios) = (queue s @ added io) @ concat (map added ios1)" by (simp add: s(3))
  also have "\<dots> = removed io @ queue s1 @ concat (map added ios1)" unfolding step_law [OF s(1)] by simp
  also have "\<dots> = concat (map removed ios) @ queue s'" unfolding Cons.IH [OF s(2)] by (simp add: s(3))
  finally show ?case .
qed simp

end

lemma queue_of_fields [simp]:
  "queue_of k (m\<lparr>sm_phases := ps\<rparr>) = queue_of k m" "queue_of k (m\<lparr>sm_finishing := fs\<rparr>) = queue_of k m"
  "queue_of k (m\<lparr>sm_changed := c\<rparr>) = queue_of k m" "queue_of k (m\<lparr>sm_injections := js\<rparr>) = queue_of k m"
  "queue_of k (m\<lparr>sm_closed := cs\<rparr>) = queue_of k m" "queue_of k (m\<lparr>sm_next := n\<rparr>) = queue_of k m"
  by (simp_all add: queue_of_def)

lemma queue_of_store [simp]:
  "queue_of k (store_locked lower_rune key items metadata m) = (if k = key then queue_of k m @ items else queue_of k m)"
  by (simp add: queue_of_def store_locked_def update_conv')

lemma queue_of_forget [simp]: "queue_of k (forget_queue key m) = (if k = key then [] else queue_of k m)"
  by (simp add: queue_of_def forget_queue_def delete_conv')

lemma queue_of_set_phase [simp]: "queue_of k (set_phase key phase m) = queue_of k m"
  by (simp add: set_phase_def)

lemma queue_of_close_admission [simp]: "queue_of k (close_admission key m) = queue_of k m"
  by (simp add: close_admission_def split: option.split)

lemma queue_of_release [simp]: "queue_of k (release_turn_finish key m) = queue_of k m"
  by (simp add: release_turn_finish_def split: option.split)

lemma queue_of_subscribe [simp]: "queue_of k (snd (subscribe_activity lower_rune thread turn m)) = queue_of k m"
  by (simp add: subscribe_activity_def split: option.split)

lemma store_locked_fields:
  "sm_closed (store_locked lower_rune key items metadata m) = (case sm_changed m of None \<Rightarrow> sm_closed m | Some c \<Rightarrow> c # sm_closed m)"
  "sm_changed (store_locked lower_rune key items metadata m) = Some (sm_next m)"
  "sm_injections (store_locked lower_rune key items metadata m) = sm_injections m"
  "sm_last_key (store_locked lower_rune key items metadata m) = key"
  "sm_closed (set_phase key phase m) = sm_closed m" "sm_changed (set_phase key phase m) = sm_changed m"
  "sm_injections (set_phase key phase m) = sm_injections m" "sm_last_key (set_phase key phase m) = sm_last_key m"
  by (simp_all add: store_locked_def set_phase_def)

lemma enqueue_eq:
  "enqueue lower_rune params m = (case Option.bind params stored_input of
     None \<Rightarrow> (if params = None \<or> missing_ids (en_thread (the params)) (en_turn (the params)) then Some MissingIds else None, m)
   | Some (key, items) \<Rightarrow> (None,
       let m1 = (if carry_injection lower_rune items then m\<lparr>sm_injections := List.insert key (sm_injections m)\<rparr> else m);
           m2 = store_locked lower_rune key items (compact_string_map (en_metadata (the params))) m1
       in if have_user_input items then set_phase key CurrentTurn m2 else m2))"
  by (auto simp: enqueue_def stored_input_def params_key_def Let_def split: option.splits)

lemma deliver_eq:
  "enqueue_if_accepting lower_rune params m = (case Option.bind params stored_input of
     None \<Rightarrow> (if params = None \<or> missing_ids (en_thread (the params)) (en_turn (the params)) then Inl MissingIds else Inr False, m)
   | Some (key, items) \<Rightarrow>
       if accepts_delivery key m then (Inr True, store_locked lower_rune key items (compact_string_map (en_metadata (the params))) m)
       else (Inr False, m))"
  by (auto simp: enqueue_if_accepting_def stored_input_def params_key_def Let_def split: option.splits)

lemma mailbox_step_law:
  "mailbox_step lower_rune op m = (io, m') \<Longrightarrow>
     queue_of key m @ part_for key (fst io) = part_for key (snd io) @ queue_of key m'"
proof (cases op)
  case (OpEnqueue params)
  moreover assume "mailbox_step lower_rune op m = (io, m')"
  ultimately show ?thesis
    by (auto simp: enqueue_eq part_for_def Let_def split: option.splits prod.splits if_splits)
next
  case (OpDeliver params)
  moreover assume "mailbox_step lower_rune op m = (io, m')"
  ultimately show ?thesis by (auto simp: deliver_eq part_for_def split: option.splits prod.splits if_splits)
qed (auto simp: part_for_def begin_turn_finish_def finish_or_take_pending_def drain_with_metadata_def clear_mailbox_def
    set_delivery_phase_def Let_def split: prod.splits if_splits option.splits)

interpretation input_queue: conserved_queue "mailbox_step lower_rune" "queue_of key" "\<lambda>io. part_for key (fst io)" "\<lambda>io. part_for key (snd io)"
  for lower_rune key
  by unfold_locales (rule mailbox_step_law)

text \<open>C14: whatever the callers do in whatever order, what was stored for a turn is what was taken out of its queue, in
  the same order, followed by what still waits there: no input is lost, repeated or overtaken.\<close>

theorem input_kept_in_order:
  "(case run_ops (mailbox_step lower_rune) ops new_steer_mailbox of (ios, m) \<Rightarrow>
     concat (map (\<lambda>io. part_for key (fst io)) ios) = concat (map (\<lambda>io. part_for key (snd io)) ios) @ queue_of key m)"
  using input_queue.run_law [of lower_rune ops new_steer_mailbox _ _ key]
  by (auto simp: queue_of_def new_steer_mailbox_def split: prod.split)

section \<open>Channels\<close>

definition channels_ok :: "steer_mailbox \<Rightarrow> bool" where
  "channels_ok m \<longleftrightarrow> (\<forall>c \<in> set (sm_closed m). c < sm_next m) \<and>
     (\<forall>k c. map_of (sm_finishing m) k = Some c \<longrightarrow> c < sm_next m \<and> c \<notin> set (sm_closed m) \<and> sm_changed m \<noteq> Some c) \<and>
     (\<forall>k k' c. map_of (sm_finishing m) k = Some c \<and> map_of (sm_finishing m) k' = Some c \<longrightarrow> k = k') \<and>
     (\<forall>c. sm_changed m = Some c \<longrightarrow> c < sm_next m \<and> c \<notin> set (sm_closed m))"

definition same_channels :: "steer_mailbox \<Rightarrow> steer_mailbox \<Rightarrow> bool" where
  "same_channels m m' \<longleftrightarrow> sm_closed m' = sm_closed m \<and> sm_finishing m' = sm_finishing m \<and> sm_changed m' = sm_changed m \<and>
     sm_next m' = sm_next m"

text \<open>What a call does to the channels: nothing, or one of four changes.\<close>

inductive channel_change :: "bytes option \<Rightarrow> bool \<Rightarrow> steer_mailbox \<Rightarrow> steer_mailbox \<Rightarrow> bool" where
  change_none: "same_channels m m' \<Longrightarrow> (case released of None \<Rightarrow> True | Some key \<Rightarrow> map_of (sm_finishing m) key = None) \<Longrightarrow>
    channel_change released False m m'"
| change_store: "sm_closed m' = (case sm_changed m of None \<Rightarrow> sm_closed m | Some c \<Rightarrow> c # sm_closed m) \<Longrightarrow>
    sm_finishing m' = sm_finishing m \<Longrightarrow> sm_changed m' = Some (sm_next m) \<Longrightarrow> sm_next m' = sm_next m + 1 \<Longrightarrow>
    channel_change None True m m'"
| change_close: "map_of (sm_finishing m) key = None \<Longrightarrow> sm_finishing m' = AList.update key (sm_next m) (sm_finishing m) \<Longrightarrow>
    sm_closed m' = sm_closed m \<Longrightarrow> sm_changed m' = sm_changed m \<Longrightarrow> sm_next m' = sm_next m + 1 \<Longrightarrow> channel_change None False m m'"
| change_release: "map_of (sm_finishing m) key = Some c \<Longrightarrow> sm_finishing m' = AList.delete key (sm_finishing m) \<Longrightarrow>
    sm_closed m' = c # sm_closed m \<Longrightarrow> sm_changed m' = sm_changed m \<Longrightarrow> sm_next m' = sm_next m \<Longrightarrow>
    channel_change (Some key) False m m'"
| change_make: "sm_changed m = None \<Longrightarrow> sm_changed m' = Some (sm_next m) \<Longrightarrow> sm_next m' = sm_next m + 1 \<Longrightarrow>
    sm_closed m' = sm_closed m \<Longrightarrow> sm_finishing m' = sm_finishing m \<Longrightarrow> channel_change None False m m'"

lemma same_channels_simps [simp]:
  "same_channels m m" "same_channels m (set_phase key phase m)" "same_channels m (forget_queue key m)"
  "same_channels m (m\<lparr>sm_injections := js\<rparr>)"
  by (simp_all add: same_channels_def set_phase_def forget_queue_def)

lemma no_change [simp]: "channel_change None False m m"
  by (simp add: change_none same_channels_def)

lemma forget_change [simp]: "channel_change None False m (forget_queue key m)" "channel_change None False m (set_phase key phase m)"
  by (simp_all add: change_none)

lemma store_change:
  "channel_change None True m (store_locked lower_rune key items metadata m)"
  "channel_change None True m (store_locked lower_rune key items metadata (m\<lparr>sm_injections := js\<rparr>))"
  "channel_change None True m (set_phase key phase (store_locked lower_rune key items metadata m))"
  "channel_change None True m (set_phase key phase (store_locked lower_rune key items metadata (m\<lparr>sm_injections := js\<rparr>)))"
  by (auto simp: store_locked_def set_phase_def intro!: change_store split: option.split)

lemma admission_change: "channel_change None False m (close_admission key m)"
proof (cases "map_of (sm_finishing m) key")
  case None
  then show ?thesis by (intro change_close [of m key]) (simp_all add: close_admission_def)
qed (auto simp: close_admission_def intro: change_none)

lemma release_change: "channel_change (Some key) False m (release_turn_finish key m)"
proof (cases "map_of (sm_finishing m) key")
  case (Some c)
  then show ?thesis by (intro change_release [of m key c]) (simp_all add: release_turn_finish_def)
qed (auto simp: release_turn_finish_def intro: change_none)

lemma subscribe_change: "channel_change None False m (snd (subscribe_activity lower_rune thread turn m))"
proof (cases "sm_changed m")
  case None
  then show ?thesis by (intro change_make) (simp_all add: subscribe_activity_def)
qed (auto simp: subscribe_activity_def intro: change_none)

lemma mailbox_step_change:
  assumes "mailbox_step lower_rune op m = (io, m')"
  shows "channel_change (case op of OpRelease key \<Rightarrow> Some key | _ \<Rightarrow> None) (fst io \<noteq> None) m m'"
proof (cases op)
  case (OpEnqueue params)
  then show ?thesis using assms
    by (auto simp: enqueue_eq Let_def split: option.splits prod.splits if_splits intro: change_none store_change)
next
  case (OpDeliver params)
  then show ?thesis using assms
    by (auto simp: deliver_eq split: option.splits prod.splits if_splits intro: change_none store_change)
next
  case (OpFinishOrTake thread turn)
  then show ?thesis using assms admission_change
    by (auto simp: finish_or_take_pending_def Let_def split: prod.splits if_splits intro: change_none)
qed (use assms admission_change release_change subscribe_change in
    \<open>auto simp: begin_turn_finish_def drain_with_metadata_def clear_mailbox_def set_delivery_phase_def Let_def
       split: prod.splits if_splits intro: change_none\<close>)

lemma channel_change_ok:
  assumes "channel_change released stored m m'" and "channels_ok m"
  shows "channels_ok m'"
  using assms
proof cases
  case change_none
  then show ?thesis using assms(2) by (simp add: channels_ok_def same_channels_def)
next
  case change_store
  then show ?thesis using assms(2) unfolding channels_ok_def by (auto split: option.splits intro: less_SucI)
next
  case (change_close key)
  then show ?thesis using assms(2) unfolding channels_ok_def by (auto simp: update_conv' intro: less_SucI split: if_splits)
next
  case (change_release key c)
  then show ?thesis using assms(2) unfolding channels_ok_def by (auto simp: delete_conv' split: if_splits)
next
  case change_make
  then show ?thesis using assms(2) unfolding channels_ok_def by (auto intro: less_SucI)
qed

lemma change_signal:
  assumes "channel_change released stored m m'" and "channels_ok m" and "sm_changed m = Some c"
  shows "if stored then c \<in> set (sm_closed m') else sm_changed m' = Some c"
  using assms by cases (auto simp: same_channels_def)

lemma change_gate:
  assumes "channel_change released stored m m'" and "channels_ok m" and "map_of (sm_finishing m) key = Some c"
  shows "if released = Some key then c \<in> set (sm_closed m') else map_of (sm_finishing m') key = Some c"
  using assms by cases (auto simp: same_channels_def update_conv' delete_conv' split: option.splits)

lemma change_closed:
  "channel_change released stored m m' \<Longrightarrow> set (sm_closed m) \<subseteq> set (sm_closed m')"
  by (erule channel_change.cases) (auto simp: same_channels_def split: option.splits)

lemma run_channels:
  assumes "run_ops (mailbox_step lower_rune) ops m = (ios, m')" and "channels_ok m"
  shows "channels_ok m' \<and> set (sm_closed m) \<subseteq> set (sm_closed m')"
  using assms
proof (induction ops arbitrary: m ios)
  case (Cons op ops)
  then obtain io m1 ios1 where step: "mailbox_step lower_rune op m = (io, m1)" "run_ops (mailbox_step lower_rune) ops m1 = (ios1, m')"
    by (auto split: prod.splits)
  note change = mailbox_step_change [OF step(1)]
  show ?case using Cons.IH [OF step(2) channel_change_ok [OF change Cons.prems(2)]] change_closed [OF change] by blast
qed simp

lemma run_signal:
  assumes "run_ops (mailbox_step lower_rune) ops m = (ios, m')" and "channels_ok m" and "sm_changed m = Some c"
  shows "if list_ex (\<lambda>io. fst io \<noteq> None) ios then c \<in> set (sm_closed m') else sm_changed m' = Some c"
  using assms
proof (induction ops arbitrary: m ios)
  case (Cons op ops)
  then obtain io m1 ios1 where step: "mailbox_step lower_rune op m = (io, m1)" "run_ops (mailbox_step lower_rune) ops m1 = (ios1, m')"
      "ios = io # ios1"
    by (auto split: prod.splits)
  note change = mailbox_step_change [OF step(1)]
  note ok = channel_change_ok [OF change Cons.prems(2)]
  show ?case
  proof (cases "fst io = None")
    case True
    then have "sm_changed m1 = Some c" using change_signal [OF change Cons.prems(2,3)] by simp
    then show ?thesis using Cons.IH [OF step(2) ok] True by (simp add: step(3))
  next
    case False
    then have "c \<in> set (sm_closed m1)" using change_signal [OF change Cons.prems(2,3)] by simp
    then show ?thesis using run_channels [OF step(2) ok] False by (auto simp: step(3))
  qed
qed simp

lemma run_gate:
  assumes "run_ops (mailbox_step lower_rune) ops m = (ios, m')" and "channels_ok m" and "map_of (sm_finishing m) key = Some c"
  shows "if OpRelease key \<in> set ops then c \<in> set (sm_closed m') else map_of (sm_finishing m') key = Some c"
  using assms
proof (induction ops arbitrary: m ios)
  case (Cons op ops)
  then obtain io m1 ios1 where step: "mailbox_step lower_rune op m = (io, m1)" "run_ops (mailbox_step lower_rune) ops m1 = (ios1, m')"
    by (auto split: prod.splits)
  note change = mailbox_step_change [OF step(1)]
  note ok = channel_change_ok [OF change Cons.prems(2)]
  show ?case
  proof (cases "op = OpRelease key")
    case True
    then have "c \<in> set (sm_closed m1)" using change_gate [OF change Cons.prems(2,3)] by simp
    then show ?thesis using run_channels [OF step(2) ok] True by auto
  next
    case False
    then have "map_of (sm_finishing m1) key = Some c"
      using change_gate [OF change Cons.prems(2,3)] by (cases op) auto
    then show ?thesis using Cons.IH [OF step(2) ok] False by auto
  qed
qed simp

lemma new_channels_ok: "channels_ok new_steer_mailbox"
  by (simp add: channels_ok_def new_steer_mailbox_def)

section \<open>Waking up\<close>

text \<open>Nothing that was not stored becomes pending.\<close>

lemma quiet_step:
  assumes "mailbox_step lower_rune op m = (io, m')" and "fst io = None" and "pending_activity_of lower_rune key m = ActivityNone"
  shows "pending_activity_of lower_rune key m' = ActivityNone"
proof -
  have "set (sm_injections m') \<subseteq> set (sm_injections m) \<and> (queue_of key m' = queue_of key m \<or> queue_of key m' = [])"
    using assms(1,2)
    by (cases op)
       (auto simp: enqueue_eq deliver_eq begin_turn_finish_def finish_or_take_pending_def drain_with_metadata_def clear_mailbox_def
          set_delivery_phase_def close_admission_def release_turn_finish_def subscribe_activity_def set_phase_def Let_def
          forget_queue_def queue_of_def delete_conv' split: option.splits prod.splits if_splits)
  then show ?thesis using assms(3)
    by (auto simp: pending_activity_of_def Let_def have_user_input_def have_function_call_output_def have_agent_mail_def split: if_splits)
qed

lemma quiet_run:
  "run_ops (mailbox_step lower_rune) ops m = (ios, m') \<Longrightarrow> \<not> list_ex (\<lambda>io. fst io \<noteq> None) ios \<Longrightarrow>
     pending_activity_of lower_rune key m = ActivityNone \<Longrightarrow> pending_activity_of lower_rune key m' = ActivityNone"
proof (induction ops arbitrary: m ios)
  case (Cons op ops)
  then obtain io m1 ios1 where step: "mailbox_step lower_rune op m = (io, m1)" "run_ops (mailbox_step lower_rune) ops m1 = (ios1, m')"
      "ios = io # ios1"
    by (auto split: prod.splits)
  have quiet: "fst io = None" "\<not> list_ex (\<lambda>io. fst io \<noteq> None) ios1"
    using Cons.prems(2) by (auto simp: step(3) simp del: not_None_eq not_Some_eq)
  show ?case by (rule Cons.IH [OF step(2) quiet(2) quiet_step [OF step(1) quiet(1) Cons.prems(3)]])
qed simp

text \<open>C27: whoever subscribed holds a channel that is closed exactly when something was stored since; so once input is
  pending for a turn whose subscriber saw none, the subscriber can go on, whatever happened in between.\<close>

theorem no_missed_wakeup:
  assumes "run_ops (mailbox_step lower_rune) before new_steer_mailbox = (ios0, m)"
    and "subscribe_activity lower_rune thread turn m = ((c, seen), m1)"
    and "run_ops (mailbox_step lower_rune) ops m1 = (ios, m2)"
  shows "(c \<in> set (sm_closed m2) \<longleftrightarrow> list_ex (\<lambda>io. fst io \<noteq> None) ios) \<and>
    (seen = ActivityNone \<and> pending_activity lower_rune thread turn m2 \<noteq> ActivityNone \<longrightarrow> c \<in> set (sm_closed m2))"
proof -
  have ok: "channels_ok m" using run_channels [OF assms(1) new_channels_ok] by simp
  have m1: "m1 = snd (subscribe_activity lower_rune thread turn m)" using assms(2) by simp
  have ok1: "channels_ok m1" using channel_change_ok [OF subscribe_change ok] by (simp add: m1)
  have c: "sm_changed m1 = Some c" and seen: "seen = pending_activity lower_rune thread turn m1"
    using assms(2)
    by (auto simp: subscribe_activity_def pending_activity_def pending_activity_of_def split: option.splits)
  have closed: "c \<in> set (sm_closed m2) \<longleftrightarrow> list_ex (\<lambda>io. fst io \<noteq> None) ios"
    using run_signal [OF assms(3) ok1 c] run_channels [OF assms(3) ok1] by (auto simp: channels_ok_def split: if_splits)
  moreover have "pending_activity lower_rune thread turn m2 = ActivityNone"
    if "seen = ActivityNone" "\<not> list_ex (\<lambda>io. fst io \<noteq> None) ios"
    using quiet_run [OF assms(3) that(2)] that(1) by (simp add: seen pending_activity_def)
  ultimately show ?thesis by blast
qed

text \<open>Whoever waits for the end of a turn can go on exactly when the turn was released since.\<close>

theorem gate_opens_on_release:
  assumes "run_ops (mailbox_step lower_rune) before new_steer_mailbox = (ios0, m)"
    and "finish_gate thread turn m = Some c"
    and "run_ops (mailbox_step lower_rune) ops m = (ios, m')"
  shows "c \<in> set (sm_closed m') \<longleftrightarrow> OpRelease (mailbox_key thread turn) \<in> set ops"
proof -
  have ok: "channels_ok m" using run_channels [OF assms(1) new_channels_ok] by simp
  show ?thesis
    using run_gate [OF assms(3) ok assms(2) [unfolded finish_gate_def]] run_channels [OF assms(3) ok]
    by (auto simp: channels_ok_def split: if_splits)
qed

section \<open>A turn that closed\<close>

text \<open>Calls other than the release of the turn and explicit input for it.\<close>

fun leaves_closed :: "bytes \<Rightarrow> mailbox_op \<Rightarrow> bool" where
  "leaves_closed key (OpRelease k) \<longleftrightarrow> k \<noteq> key"
| "leaves_closed key (OpEnqueue (Some p)) \<longleftrightarrow> params_key p \<noteq> key"
| "leaves_closed key op \<longleftrightarrow> True"

lemma closed_step:
  assumes "mailbox_step lower_rune op m = (io, m')" and "leaves_closed key op" and "map_of (sm_finishing m) key \<noteq> None"
  shows "map_of (sm_finishing m') key \<noteq> None \<and> part_for key (fst io) = []"
proof -
  have "map_of (sm_finishing m') key \<noteq> None"
    using mailbox_step_change [OF assms(1)] assms(2,3)
    by cases (auto simp: same_channels_def update_conv' delete_conv' split: mailbox_op.splits)
  moreover have "part_for key (fst io) = []"
  proof (cases op)
    case (OpEnqueue params)
    then show ?thesis using assms by (cases params) (auto simp: enqueue_eq stored_input_def part_for_def split: option.splits if_splits)
  next
    case (OpDeliver params)
    then show ?thesis using assms
      by (auto simp: deliver_eq stored_input_def part_for_def accepts_delivery_def split: option.splits if_splits)
  qed (use assms(1) in \<open>auto simp: part_for_def split: prod.splits\<close>)
  ultimately show ?thesis by simp
qed

lemma closed_run:
  assumes "run_ops (mailbox_step lower_rune) ops m = (ios, m')" and "list_all (leaves_closed key) ops"
    and "map_of (sm_finishing m) key \<noteq> None"
  shows "map_of (sm_finishing m') key \<noteq> None \<and> concat (map (\<lambda>io. part_for key (fst io)) ios) = []"
  using assms
proof (induction ops arbitrary: m ios)
  case (Cons op ops)
  then obtain io m1 ios1 where step: "mailbox_step lower_rune op m = (io, m1)" "run_ops (mailbox_step lower_rune) ops m1 = (ios1, m')"
      "ios = io # ios1"
    by (auto split: prod.splits)
  show ?case using closed_step [OF step(1) _ Cons.prems(3)] Cons.IH [OF step(2)] Cons.prems(2) by (simp add: step(3))
qed simp

text \<open>C28: once a turn closed for its last batch, no mail is stored for it until it is released, and each delivery is
  refused; if the turn accepted mail when it closed, nothing waits in its queue.\<close>

theorem finishing_takes_no_mail:
  assumes "finish_or_take_pending thread turn m = (None, m1)" and "\<not> missing_ids thread turn"
    and "run_ops (mailbox_step lower_rune) ops m1 = (ios, m2)" and "list_all (leaves_closed (mailbox_key thread turn)) ops"
  shows "is_turn_finishing thread turn m2 \<and>
    concat (map (\<lambda>io. part_for (mailbox_key thread turn) (fst io)) ios) = [] \<and>
    (\<forall>p. params_key p = mailbox_key thread turn \<longrightarrow> fst (enqueue_if_accepting lower_rune (Some p) m2) \<noteq> Inr True) \<and>
    (accepts_delivery (mailbox_key thread turn) m \<longrightarrow> queue_of (mailbox_key thread turn) m2 = [])"
proof -
  define key where "key = mailbox_key thread turn"
  have m1: "m1 = close_admission key m" and empty: "accepts_delivery key m \<longrightarrow> queue_of key m1 = []"
    using assms(1,2) by (auto simp: finish_or_take_pending_def Let_def key_def split: if_splits)
  have "map_of (sm_finishing m1) key \<noteq> None" by (simp add: m1 close_admission_def update_conv' split: option.split)
  note closed = closed_run [OF assms(3) assms(4) [folded key_def] this]
  have "queue_of key m1 @ [] = concat (map (\<lambda>io. part_for key (snd io)) ios) @ queue_of key m2"
    using input_queue.run_law [OF assms(3), of key] closed by simp
  then have "accepts_delivery key m \<longrightarrow> queue_of key m2 = []" using empty by auto
  moreover have "\<forall>p. params_key p = key \<longrightarrow> fst (enqueue_if_accepting lower_rune (Some p) m2) \<noteq> Inr True"
    using closed by (auto simp: deliver_eq stored_input_def accepts_delivery_def)
  ultimately show ?thesis using closed by (simp add: is_turn_finishing_def key_def)
qed

section \<open>Two gaps\<close>

text \<open>C39: a waiter that is woken by input for another turn of its thread misses it when another thread is written to before
  it looks: the mailbox remembers the last write only.\<close>

theorem other_thread_hides_activity:
  fixes lower_rune p q m1
  assumes "wait_begin lower_rune thread turn m = (Waiting c, m1)"
    and "stored_input p = Some (mailbox_key thread turn', [x])" and "mailbox_key thread turn' \<noteq> mailbox_key thread turn"
    and "stored_input q = Some (mailbox_key other turn'', items)" and "key_thread (mailbox_key other turn'') \<noteq> trim_space thread"
    and "mailbox_key other turn'' \<noteq> mailbox_key thread turn" and "mailbox_key other turn'' \<noteq> mailbox_key thread turn'"
    and "have_user_input [x]"
  defines "m2 \<equiv> snd (enqueue lower_rune (Some p) m1)"
  defines "m3 \<equiv> snd (enqueue lower_rune (Some q) m2)"
  shows "c \<in> set (sm_closed m3) \<and> pending_activity lower_rune thread turn' m3 = ActivitySteer \<and>
    wait_wake thread (Waiting c) m3 = LookAgain \<and>
    (case wait_look lower_rune thread turn LookAgain m3 of (Waiting c', m4) \<Rightarrow> sm_changed m4 = Some c' | (_, m4) \<Rightarrow> False)"
proof -
  define k where "k = mailbox_key thread turn"
  have key: "mailbox_key (trim_space thread) turn = k" by (simp add: k_def mailbox_key_def)
  have c: "sm_changed m1 = Some c" and quiet: "pending_activity_of lower_rune k m1 = ActivityNone"
    using assms(1) key
    by (auto simp: wait_begin_def wait_round_def subscribe_activity_def outcome_for_def pending_activity_def pending_activity_of_def
        split: option.splits activity.splits if_splits)
  have m2: "queue_of k m2 = queue_of k m1" "queue_of (mailbox_key thread turn') m2 = queue_of (mailbox_key thread turn') m1 @ [x]"
      "c \<in> set (sm_closed m2)" "sm_changed m2 \<noteq> None" "k \<in> set (sm_injections m2) \<longleftrightarrow> k \<in> set (sm_injections m1)"
    using assms(2,3,8) c unfolding m2_def k_def
    by (auto simp: enqueue_eq Let_def store_locked_fields)
  have m3: "queue_of k m3 = queue_of k m1" "queue_of (mailbox_key thread turn') m3 = queue_of (mailbox_key thread turn') m1 @ [x]"
      "c \<in> set (sm_closed m3)" "sm_last_key m3 = mailbox_key other turn''"
      "k \<in> set (sm_injections m3) \<longleftrightarrow> k \<in> set (sm_injections m1)"
    using assms(4,6,7) m2 unfolding m3_def k_def
    by (auto simp: enqueue_eq Let_def store_locked_fields split: option.splits)
  obtain c' where c': "sm_changed m3 = Some c'"
    using assms(4) unfolding m3_def by (auto simp: enqueue_eq Let_def store_locked_fields)
  have "last_activity_for thread m3 = ActivityNone" using assms(5) by (simp add: last_activity_for_def m3)
  moreover have "pending_activity_of lower_rune k m3 = ActivityNone" using quiet unfolding pending_activity_of_def m3(1) m3(5) .
  moreover have "pending_activity lower_rune thread turn' m3 = ActivitySteer"
    using assms(8) by (simp add: pending_activity_def pending_activity_of_def m3 have_user_input_def)
  ultimately show ?thesis
    by (simp add: wait_wake_def wait_look_def outcome_for_def wait_round_def subscribe_activity_def pending_activity_def key c' m3)
qed


text \<open>The loop of a turn asks for user input and then closes the turn for mail, in two steps.  Input a user sends in
  between is stored, and yet the turn ends without it: it is not pending, and the turn closes over it.\<close>

theorem late_phase_strands_input:
  fixes lower_rune p m
  assumes "stored_input p = Some (mailbox_key thread turn, items)" and "have_user_input items"
    and "\<not> missing_ids thread turn"
  defines "m1 \<equiv> set_delivery_phase thread turn NextTurn (snd (enqueue lower_rune (Some p) m))"
  shows "\<not> has_pending thread turn m1 \<and>
    (case finish_or_take_pending thread turn m1 of
       (taken, m2) \<Rightarrow> taken = None \<and> is_turn_finishing thread turn m2 \<and>
         queue_of (mailbox_key thread turn) m2 = queue_of (mailbox_key thread turn) m @ items)"
  using assms(1-3) unfolding m1_def
  by (auto simp: has_pending_def set_delivery_phase_def set_phase_def enqueue_eq finish_or_take_pending_def accepts_delivery_def
      is_turn_finishing_def close_admission_def Let_def update_conv' split: option.split)

section \<open>Examples\<close>

definition user_message :: input_item where
  "user_message = ObjectItem [(''type'', ''message''), (''role'', ''user''), (''content'', ''hi'')]"

definition agent_mail :: input_item where
  "agent_mail = ObjectItem [(''type'', ''agent_message'')]"

definition to_turn :: "bytes \<Rightarrow> bytes \<Rightarrow> input_item \<Rightarrow> enqueue_params" where
  "to_turn thread turn x = \<lparr>en_thread = thread, en_turn = turn, en_items = [x], en_metadata = []\<rparr>"

lemma new_pending: "pending_activity lower_rune thread turn new_steer_mailbox = ActivityNone"
  by (simp add: pending_activity_def pending_activity_of_def new_steer_mailbox_def queue_of_def have_user_input_def
      have_function_call_output_def have_agent_mail_def)

lemma new_fields: "sm_changed new_steer_mailbox = None" "sm_next new_steer_mailbox = 0"
  by (simp_all add: new_steer_mailbox_def)

lemma example_input:
  "have_user_input [user_message]"
  "stored_input (to_turn ''a'' ''t'' user_message) = Some (mailbox_key ''a'' ''t'', [user_message])"
  "stored_input (to_turn ''a'' ''u'' user_message) = Some (mailbox_key ''a'' ''u'', [user_message])"
  "stored_input (to_turn ''b'' ''v'' agent_mail) = Some (mailbox_key ''b'' ''v'', [agent_mail])"
proof -
  have "trim_space ''message'' = ''message''" "trim_space ''user'' = ''user''" by code_simp+
  then show "have_user_input [user_message]"
    by (simp add: have_user_input_def user_message_def field_text_def folds_to_def)
qed code_simp+

theorem no_missed_wakeup_witness:
  "0 \<in> set (sm_closed (snd (run_ops (mailbox_step id) [OpSetPhase ''a'' ''t'' CurrentTurn, OpEnqueue (Some (to_turn ''a'' ''t'' user_message))]
     (snd (subscribe_activity id ''a'' ''t'' new_steer_mailbox)))))"
proof -
  define m1 where "m1 = snd (subscribe_activity id ''a'' ''t'' new_steer_mailbox)"
  define ops where "ops = [OpSetPhase ''a'' ''t'' CurrentTurn, OpEnqueue (Some (to_turn ''a'' ''t'' user_message))]"
  have "fst (subscribe_activity id ''a'' ''t'' new_steer_mailbox) = (0, ActivityNone)"
    by (simp add: subscribe_activity_def new_pending new_fields)
  then have sub: "subscribe_activity id ''a'' ''t'' new_steer_mailbox = ((0, ActivityNone), m1)" by (simp add: m1_def prod_eq_iff)
  have run: "run_ops (mailbox_step id) ops m1 = (fst (run_ops (mailbox_step id) ops m1), snd (run_ops (mailbox_step id) ops m1))" by simp
  have "list_ex (\<lambda>io. fst io \<noteq> None) (fst (run_ops (mailbox_step id) ops m1))"
    by (auto simp: ops_def example_input split: prod.splits)
  then show ?thesis
    using no_missed_wakeup [OF _ sub run, of "[]" "[]"] by (simp add: m1_def ops_def del: mailbox_step.simps)
qed

theorem finishing_takes_no_mail_witness:
  "queue_of (mailbox_key ''a'' ''t'') (snd (run_ops (mailbox_step id) [OpDeliver (Some (to_turn ''a'' ''t'' agent_mail))]
     (snd (finish_or_take_pending ''a'' ''t'' new_steer_mailbox)))) = []"
proof -
  define m1 where "m1 = snd (finish_or_take_pending ''a'' ''t'' new_steer_mailbox)"
  obtain ios m2 where run: "run_ops (mailbox_step id) [OpDeliver (Some (to_turn ''a'' ''t'' agent_mail))] m1 = (ios, m2)" by fastforce
  have "fst (finish_or_take_pending ''a'' ''t'' new_steer_mailbox) = None" by code_simp
  then have "finish_or_take_pending ''a'' ''t'' new_steer_mailbox = (None, m1)" by (simp add: m1_def prod_eq_iff)
  moreover have "\<not> missing_ids ''a'' ''t''" "accepts_delivery (mailbox_key ''a'' ''t'') new_steer_mailbox" by code_simp+
  ultimately show ?thesis using finishing_takes_no_mail [OF _ _ run] run by (simp add: m1_def)
qed

theorem gate_opens_on_release_witness:
  "0 \<in> set (sm_closed (snd (mailbox_step id (OpRelease (mailbox_key ''a'' ''t'')) (snd (begin_turn_finish ''a'' ''t'' new_steer_mailbox)))))"
proof -
  define m where "m = snd (begin_turn_finish ''a'' ''t'' new_steer_mailbox)"
  have "run_ops (mailbox_step id) [OpBeginFinish ''a'' ''t''] new_steer_mailbox = ([(None, None)], m)" by (simp add: m_def)
  moreover have "finish_gate ''a'' ''t'' m = Some 0" unfolding m_def by code_simp
  moreover have "run_ops (mailbox_step id) [OpRelease (mailbox_key ''a'' ''t'')] m = ([(None, None)], release_turn_finish (mailbox_key ''a'' ''t'') m)"
    by simp
  ultimately have "0 \<in> set (sm_closed (release_turn_finish (mailbox_key ''a'' ''t'') m)) \<longleftrightarrow>
      OpRelease (mailbox_key ''a'' ''t'') \<in> set [OpRelease (mailbox_key ''a'' ''t'')]" by (rule gate_opens_on_release)
  then show ?thesis by (simp add: m_def)
qed

theorem other_thread_hides_activity_witness:
  "case wait_look id ''a'' ''t'' LookAgain
       (snd (enqueue id (Some (to_turn ''b'' ''v'' agent_mail))
         (snd (enqueue id (Some (to_turn ''a'' ''u'' user_message)) (snd (wait_begin id ''a'' ''t'' new_steer_mailbox)))))) of
     (Waiting c', m4) \<Rightarrow> sm_changed m4 = Some c' | (_, m4) \<Rightarrow> False"
proof -
  have "trim_space ''a'' = ''a''" by code_simp
  then have "fst (wait_begin id ''a'' ''t'' new_steer_mailbox) = Waiting 0"
    by (simp add: wait_begin_def wait_round_def subscribe_activity_def new_pending outcome_for_def new_fields)
  then have wait: "wait_begin id ''a'' ''t'' new_steer_mailbox = (Waiting 0, snd (wait_begin id ''a'' ''t'' new_steer_mailbox))"
    by (simp add: prod_eq_iff)
  have ne: "mailbox_key ''a'' ''u'' \<noteq> mailbox_key ''a'' ''t''" "key_thread (mailbox_key ''b'' ''v'') \<noteq> trim_space ''a''"
    "mailbox_key ''b'' ''v'' \<noteq> mailbox_key ''a'' ''t''" "mailbox_key ''b'' ''v'' \<noteq> mailbox_key ''a'' ''u''" by code_simp+
  show ?thesis
    by (rule other_thread_hides_activity [OF wait example_input(3) ne(1) example_input(4) ne(2-4) example_input(1),
        THEN conjunct2, THEN conjunct2, THEN conjunct2])
qed

theorem late_phase_strands_input_witness:
  "\<not> has_pending ''a'' ''t'' (set_delivery_phase ''a'' ''t'' NextTurn (snd (enqueue id (Some (to_turn ''a'' ''t'' user_message)) new_steer_mailbox)))"
proof (rule late_phase_strands_input [THEN conjunct1])
  show "stored_input (to_turn ''a'' ''t'' user_message) = Some (mailbox_key ''a'' ''t'', [user_message])" by (rule example_input)
  show "have_user_input [user_message]" by (rule example_input)
  show "\<not> missing_ids ''a'' ''t''" by code_simp
qed

end
