(* ===== verification/Go_Json_Any.thy ===== *)
theory Go_Json_Any
  imports Go_Json_Field "HOL-Library.AList"
begin

text \<open>
  Values of the type \<open>any\<close>: what \<open>json.Unmarshal\<close> puts into a \<open>map[string]any\<close>, and the other dynamic types that the
  modelled code looks for.  A number is the text it has in the JSON.  A text is decoded after \<open>Go_Json\<close> found it
  valid, so the decoder only has to take it apart.
\<close>

datatype any =
    AnyNil
  | AnyBool bool
  | AnyNumber bytes
  | AnyText bytes
  | AnyList "any list"
  | AnyMap "(bytes \<times> any) list"
  | AnyTexts "bytes list"
  | AnyRaw bytes

text \<open>The text between two quotes, and what follows them.\<close>

fun literal_end :: "bytes \<Rightarrow> bytes \<times> bytes" where
  "literal_end [] = ([], [])"
| "literal_end (c # s) =
     (if c = CHR 0x22 then ([], s)
      else if c = CHR 0x5C then (case s of [] \<Rightarrow> ([c], []) | d # t \<Rightarrow> (case literal_end t of (body, rest) \<Rightarrow> (c # d # body, rest)))
      else (case literal_end s of (body, rest) \<Rightarrow> (c # body, rest)))"

definition json_skip :: "bytes \<Rightarrow> bytes" where
  "json_skip s = dropWhile json_space s"

definition json_atom :: "bytes \<Rightarrow> any" where
  "json_atom t = (if t = ''null'' then AnyNil else if t = ''true'' then AnyBool True else if t = ''false'' then AnyBool False
     else AnyNumber t)"

definition atom_char :: "char \<Rightarrow> bool" where
  "atom_char c \<longleftrightarrow> \<not> json_space c \<and> c \<notin> set '',]}''"

fun json_value :: "nat \<Rightarrow> bytes \<Rightarrow> any \<times> bytes"
  and json_members :: "nat \<Rightarrow> (bytes \<times> any) list \<Rightarrow> bytes \<Rightarrow> (bytes \<times> any) list \<times> bytes"
  and json_elements :: "nat \<Rightarrow> bytes \<Rightarrow> any list \<times> bytes" where
  "json_value 0 s = (AnyNil, s)"
| "json_value (Suc n) s = (case json_skip s of
     [] \<Rightarrow> (AnyNil, [])
   | c # t \<Rightarrow>
       if c = CHR 0x22 then (case literal_end t of (body, rest) \<Rightarrow> (AnyText (json_unquote_body body), rest))
       else if c = CHR ''{'' then (case json_members n [] t of (ms, rest) \<Rightarrow> (AnyMap ms, rest))
       else if c = CHR ''['' then (case json_elements n t of (vs, rest) \<Rightarrow> (AnyList vs, rest))
       else (json_atom (takeWhile atom_char (c # t)), dropWhile atom_char (c # t)))"
| "json_members 0 ms s = (ms, s)"
| "json_members (Suc n) ms s = (case json_skip s of
     [] \<Rightarrow> (ms, [])
   | c # t \<Rightarrow>
       if c = CHR ''}'' then (ms, t)
       else if c = CHR '','' then json_members n ms t
       else (case literal_end t of (key, rest) \<Rightarrow>
         (case json_value n (drop 1 (json_skip rest)) of (v, rest') \<Rightarrow>
           json_members n (AList.update (json_unquote_body key) v ms) rest')))"
| "json_elements 0 s = ([], s)"
| "json_elements (Suc n) s = (case json_skip s of
     [] \<Rightarrow> ([], [])
   | c # t \<Rightarrow>
       if c = CHR '']'' then ([], t)
       else if c = CHR '','' then json_elements n t
       else (case json_value n (c # t) of (v, rest) \<Rightarrow>
         (case json_elements n rest of (vs, rest') \<Rightarrow> (v # vs, rest'))))"

text \<open>Each call goes one level down the text and consumes a byte or ends, so twice the length is enough.\<close>

definition json_decode :: "bytes \<Rightarrow> any option" where
  "json_decode s = (if json_valid s then Some (fst (json_value (2 * length s + 2) s)) else None)"

text \<open>Into a map; \<open>null\<close> leaves it empty, and an error leaves what is decoded unused.\<close>

definition json_decode_map :: "bytes \<Rightarrow> (bytes \<times> any) list option" where
  "json_decode_map s = (case json_decode s of Some (AnyMap ms) \<Rightarrow> Some ms | Some AnyNil \<Rightarrow> Some [] | _ \<Rightarrow> None)"

definition text_field :: "(bytes \<times> any) list \<Rightarrow> bytes \<Rightarrow> bytes option" where
  "text_field ms key = (case map_of ms key of Some (AnyText t) \<Rightarrow> Some t | _ \<Rightarrow> None)"


end
