(* ===== verification/Compact_Items.thy ===== *)
theory Compact_Items
  imports Go_Json_Any Go_Fold Output_Truncation "HOL-Library.Word"
begin

text \<open>
  The items of a model history as compaction sees them, \<open>compact/compact.go\<close>: what each item is, which items a
  compacted history keeps, and what an item is estimated to cost in tokens.  A map an item carries is the list of its
  entries; the raw form is its bytes, decoded with \<open>Go_Json_Any\<close> where the code calls \<open>json.Unmarshal\<close>.  The tables of
  \<open>unicode\<close>, \<open>json.Marshal\<close> of a dynamic value, the duration of encoded audio and the rewriting of harness metadata are
  arguments.  The token counts are far below the bounds of an \<open>int\<close> and do not wrap.
\<close>

section \<open>Items\<close>

record compact_env =
  ce_lower :: "nat \<Rightarrow> nat"
  ce_wide :: "nat \<Rightarrow> bool"
  ce_mark :: "nat \<Rightarrow> bool"
  ce_marshal :: "any \<Rightarrow> bytes option"
  ce_audio_tokens :: "bytes \<Rightarrow> int"
  ce_incomplete :: "any \<Rightarrow> any option"

record content_part =
  pt_type :: bytes
  pt_text :: bytes
  pt_image_url :: bytes
  pt_file_id :: bytes
  pt_audio_url :: bytes
  pt_detail :: "bytes option"

record history_item =
  hi_id :: bytes
  hi_type :: bytes
  hi_role :: bytes
  hi_name :: bytes
  hi_namespace :: bytes
  hi_call_id :: bytes
  hi_text :: bytes
  hi_kind :: bytes
  hi_content :: "content_part list"
  hi_data :: "(bytes \<times> any) list"
  hi_raw :: bytes
  hi_created :: int
  hi_sequence :: "64 word"
  hi_sampled :: "64 word"

definition new_part :: "bytes \<Rightarrow> bytes \<Rightarrow> content_part" where
  "new_part type text = \<lparr>pt_type = type, pt_text = text, pt_image_url = [], pt_file_id = [], pt_audio_url = [], pt_detail = None\<rparr>"

definition new_item :: history_item where
  "new_item = \<lparr>hi_id = [], hi_type = [], hi_role = [], hi_name = [], hi_namespace = [], hi_call_id = [], hi_text = [],
     hi_kind = [], hi_content = [], hi_data = [], hi_raw = [], hi_created = 0, hi_sequence = 0, hi_sampled = 0\<rparr>"

text \<open>\<open>strings.ToLower(strings.TrimSpace(s))\<close>.\<close>

definition folded :: "compact_env \<Rightarrow> bytes \<Rightarrow> bytes" where
  "folded e s = to_lower (ce_lower e) (trim_space s)"

definition item_text :: "history_item \<Rightarrow> bytes" where
  "item_text item =
     (if trim_space (hi_text item) \<noteq> [] then hi_text item
      else let parts = filter (\<lambda>t. trim_space t \<noteq> []) (map pt_text (hi_content item)) in
        if parts \<noteq> [] then join_with [LF] parts
        else (case filter (\<lambda>t. trim_space t \<noteq> []) (List.map_filter (text_field (hi_data item))
                 [''text'', ''output'', ''input'', ''arguments'', ''summary'']) of
            [] \<Rightarrow> [] | t # _ \<Rightarrow> t))"

section \<open>Agent messages\<close>

definition raw_map :: "history_item \<Rightarrow> (bytes \<times> any) list option" where
  "raw_map item = (if hi_raw item = [] then None else json_decode_map (hi_raw item))"

definition names_type :: "(bytes \<times> any) list \<Rightarrow> bytes \<Rightarrow> bool" where
  "names_type ms type \<longleftrightarrow> (case text_field ms ''type'' of Some t \<Rightarrow> trim_space t = type | None \<Rightarrow> False)"

definition is_structured_agent_message :: "history_item \<Rightarrow> bool" where
  "is_structured_agent_message item \<longleftrightarrow> hi_type item = ''agent_message'' \<and>
     (case raw_map item of
        None \<Rightarrow> False
      | Some ms \<Rightarrow> names_type ms ''agent_message'' \<and> (map_of ms ''author'' \<noteq> None \<or> map_of ms ''recipient'' \<noteq> None))"

definition agent_author_recipient :: "history_item \<Rightarrow> bytes \<times> bytes" where
  "agent_author_recipient item = (case raw_map item of
     None \<Rightarrow> ([], [])
   | Some ms \<Rightarrow> (case_option [] id (text_field ms ''author''), case_option [] id (text_field ms ''recipient'')))"

definition raw_agent_content :: "history_item \<Rightarrow> any list" where
  "raw_agent_content item = (case raw_map item of
     None \<Rightarrow> []
   | Some ms \<Rightarrow> (case map_of ms ''content'' of Some (AnyList vs) \<Rightarrow> vs | _ \<Rightarrow> []))"

definition first_agent_text :: "history_item \<Rightarrow> bytes option" where
  "first_agent_text item = (case raw_agent_content item of
     AnyMap block # _ \<Rightarrow> if names_type block ''input_text'' then text_field block ''text'' else None
   | _ \<Rightarrow> None)"

definition is_agent_completion :: "history_item \<Rightarrow> bool" where
  "is_agent_completion item \<longleftrightarrow> (case first_agent_text item of
     Some t \<Rightarrow> has_prefix t (''Message Type: FINAL_ANSWER'' @ [LF]) | None \<Rightarrow> False)"

definition is_descendant_progress :: "history_item \<Rightarrow> bool" where
  "is_descendant_progress item \<longleftrightarrow> (case agent_author_recipient item of (author, recipient) \<Rightarrow>
     author \<noteq> [] \<and> recipient \<noteq> [] \<and> has_prefix author (recipient @ ''/'') \<and>
     (case first_agent_text item of
        Some t \<Rightarrow> has_prefix t (''Message Type: MESSAGE'' @ [LF]) \<or> has_prefix t (''Message Type: CHANNEL_POST'' @ [LF])
      | None \<Rightarrow> False))"

section \<open>Client-authored items\<close>

definition item_harness_metadata :: "history_item \<Rightarrow> (bytes \<times> any) list" where
  "item_harness_metadata item = (case map_of (hi_data item) ''harness_metadata'' of
     Some (AnyRaw r) \<Rightarrow> case_option [] id (json_decode_map r)
   | Some (AnyText t) \<Rightarrow> if trim_space t = [] then [] else case_option [] id (json_decode_map t)
   | Some (AnyMap ms) \<Rightarrow> ms
   | _ \<Rightarrow> [])"

definition is_client_authored :: "history_item \<Rightarrow> bool" where
  "is_client_authored item \<longleftrightarrow> map_of (item_harness_metadata item) ''client_authored'' = Some (AnyBool True)"

definition is_client_developer :: "history_item \<Rightarrow> bool" where
  "is_client_developer item \<longleftrightarrow> folds_to (trim_space (hi_role item)) ''developer'' \<and> is_client_authored item"

definition tool_output_call_id :: "history_item \<Rightarrow> bytes" where
  "tool_output_call_id item =
     (if trim_space (hi_call_id item) \<noteq> [] then trim_space (hi_call_id item)
      else case text_field (hi_data item) ''call_id'' of Some v \<Rightarrow> trim_space v | None \<Rightarrow> [])"

definition is_retained_tool_output :: "history_item \<Rightarrow> bool" where
  "is_retained_tool_output item \<longleftrightarrow> is_client_authored item \<and> folds_to (trim_space (hi_type item)) ''function_call_output'' \<and>
     tool_output_call_id item = [] \<and> trim_space (hi_name item) \<noteq> []"

record retention_policy =
  rp_developer_messages :: bool
  rp_tool_outputs :: bool
  rp_image_budget :: bool

section \<open>What a compacted history keeps\<close>

definition should_keep :: "history_item \<Rightarrow> bool" where
  "should_keep item \<longleftrightarrow>
     (if hi_type item = ''agent_message'' then \<not> is_agent_completion item \<and> \<not> is_descendant_progress item
      else if hi_type item = ''compaction'' \<or> hi_type item = ''context_compaction'' then True
      else if hi_type item = ''compaction_trigger'' then False
      else if hi_type item \<noteq> ''message'' \<and> hi_type item \<noteq> ''user_message'' \<and> hi_type item \<noteq> ''assistant_message'' then False
      else if hi_role item = ''developer'' \<or> hi_role item = ''system'' then False
      else if hi_role item = ''assistant'' then True
      else if hi_role item = ''user'' then hi_kind item = ''user_message'' \<or> hi_kind item = ''hook_prompt'' \<or> hi_kind item = ''compaction_summary''
      else False)"

definition filter_compacted :: "retention_policy \<Rightarrow> history_item list \<Rightarrow> history_item list" where
  "filter_compacted policy items = filter (\<lambda>item. should_keep item \<or>
     rp_developer_messages policy \<and> is_client_developer item \<or> rp_tool_outputs policy \<and> is_retained_tool_output item) items"

definition summary_prefix :: bytes where
  "summary_prefix = ''Another language model started to solve this problem and produced a summary of its thinking process. You also have access to the state of the tools that were used by that language model. Use this to build on the work that has already been done and avoid duplicating work. Here is the summary produced by the other language model, use the information in this summary to assist with your own analysis:''"

definition is_real_user_or_agent :: "history_item \<Rightarrow> bool" where
  "is_real_user_or_agent item \<longleftrightarrow>
     (if hi_type item = ''agent_message'' then \<not> is_agent_completion item
      else if hi_role item \<noteq> ''user'' \<and> hi_type item \<noteq> ''user_message'' then False
      else hi_kind item \<noteq> ''compaction_summary'' \<and> \<not> has_prefix (trim_space (hi_text item)) (summary_prefix @ [LF]))"

section \<open>Tokens of a text\<close>

definition space_rune :: "nat \<Rightarrow> bool" where
  "space_rune r \<longleftrightarrow> 9 \<le> r \<and> r \<le> 13 \<or> r = 32 \<or> r = 0x85 \<or> r = 0xA0 \<or> r = 0x1680 \<or> 0x2000 \<le> r \<and> r \<le> 0x200A \<or>
     r = 0x2028 \<or> r = 0x2029 \<or> r = 0x202F \<or> r = 0x205F \<or> r = 0x3000"

definition segment_tokens :: "int \<Rightarrow> int" where
  "segment_tokens n = (if n = 0 then 0 else if n \<le> 12 then 1 else (n + 3) div 4)"

fun count_tokens :: "compact_env \<Rightarrow> int \<Rightarrow> nat list \<Rightarrow> int" where
  "count_tokens e n [] = segment_tokens n"
| "count_tokens e n (r # rs) =
     (if space_rune r then segment_tokens n + count_tokens e 0 rs
      else if ce_wide e r then segment_tokens n + 1 + count_tokens e 0 rs
      else if ce_mark e r then segment_tokens n + 1 + count_tokens e 0 rs
      else count_tokens e (n + 1) rs)"

definition text_tokens :: "compact_env \<Rightarrow> bytes \<Rightarrow> int" where
  "text_tokens e text = (let t = trim_space text in if t = [] then 0 else count_tokens e 0 (string_runes t))"

definition tokens_from_bytes :: "int \<Rightarrow> int" where
  "tokens_from_bytes n = (if n \<le> 0 then 0 else (n + 3) div 4)"

section \<open>Tokens of an item\<close>

definition compact_resized_image_bytes :: int where "compact_resized_image_bytes = 7373"

definition image_reference_bytes :: "content_part \<Rightarrow> int" where
  "image_reference_bytes part =
     (if trim_space (pt_file_id part) = [] then compact_resized_image_bytes
      else case pt_detail part of
          Some d \<Rightarrow> if folds_to (trim_space d) ''original'' then 10000 * 4 else compact_resized_image_bytes
        | None \<Rightarrow> compact_resized_image_bytes)"

text \<open>The tokens of an uploaded recording whose duration was measured, or the maximum of twenty minutes.\<close>

type_synonym audio_durations = "bytes \<Rightarrow> int option"

definition file_tokens :: "audio_durations \<Rightarrow> bytes \<Rightarrow> int" where
  "file_tokens durations file = (case durations (trim_space file) of Some n \<Rightarrow> n | None \<Rightarrow> 12000)"

definition audio_reference_bytes :: "compact_env \<Rightarrow> audio_durations \<Rightarrow> content_part \<Rightarrow> int" where
  "audio_reference_bytes e durations part =
     (if trim_space (pt_audio_url part) = [] \<and> trim_space (pt_file_id part) \<noteq> [] then file_tokens durations (pt_file_id part) * 4
      else ce_audio_tokens e (pt_audio_url part) * 4)"

definition text_kind :: "bytes \<Rightarrow> bool" where
  "text_kind k \<longleftrightarrow> k = ''input_text'' \<or> k = ''output_text'' \<or> k = ''text''"

definition image_kind :: "bytes \<Rightarrow> bool" where
  "image_kind k \<longleftrightarrow> k = ''input_image'' \<or> k = ''image''"

definition audio_kind :: "bytes \<Rightarrow> bool" where
  "audio_kind k \<longleftrightarrow> k = ''input_audio'' \<or> k = ''audio''"

definition part_bytes :: "compact_env \<Rightarrow> audio_durations \<Rightarrow> content_part \<Rightarrow> int" where
  "part_bytes e durations part =
     (let k = folded e (pt_type part) in
      if text_kind k then int (length (pt_text part))
      else if image_kind k then image_reference_bytes part
      else if audio_kind k then audio_reference_bytes e durations part else 0)"

definition text_length :: "history_item \<Rightarrow> int" where
  "text_length item = int (length (trim_space (item_text item)))"

definition item_content_bytes :: "compact_env \<Rightarrow> audio_durations \<Rightarrow> history_item \<Rightarrow> int" where
  "item_content_bytes e durations item =
     (if hi_content item = [] then text_length item
      else let n = sum_list (map (part_bytes e durations) (hi_content item)) in if n = 0 then text_length item else n)"

definition function_call_bytes :: "compact_env \<Rightarrow> history_item \<Rightarrow> int" where
  "function_call_bytes e item =
     (let namespace = trim_space (hi_namespace item); shown = (if namespace = [] then ''functions'' else namespace)
      in int (length (hi_name item)) + int (length shown) + item_content_bytes e (\<lambda>_. None) item)"

definition function_output_bytes :: "compact_env \<Rightarrow> history_item \<Rightarrow> int" where
  "function_output_bytes e item = item_content_bytes e (\<lambda>_. None) item + int (length (hi_call_id item)) +
     int (length (hi_name item)) + int (length (trim_space (hi_namespace item)))"

definition encrypted_output_bytes :: "int \<Rightarrow> int" where
  "encrypted_output_bytes n = (n * 9 + 15) div 16"

definition agent_block_bytes :: "any \<Rightarrow> int" where
  "agent_block_bytes v = (case v of
     AnyMap block \<Rightarrow>
       (if names_type block ''input_text'' then case_option 0 (\<lambda>t. int (length t)) (text_field block ''text'')
        else if names_type block ''encrypted_content''
          then case_option 0 (\<lambda>t. encrypted_output_bytes (int (length t))) (text_field block ''encrypted_content'')
        else 0)
   | _ \<Rightarrow> 0)"

definition agent_message_bytes :: "history_item \<Rightarrow> int" where
  "agent_message_bytes item = (case agent_author_recipient item of (author, recipient) \<Rightarrow>
     max 0 (int (length author) + int (length recipient) + sum_list (map agent_block_bytes (raw_agent_content item))))"

definition compaction_content_length :: "int \<Rightarrow> int" where
  "compaction_content_length n = (if n \<le> 0 then 0 else (n + 2) div 3)"

definition compaction_item_tokens :: "history_item \<Rightarrow> int option" where
  "compaction_item_tokens item = (case raw_map item of
     None \<Rightarrow> None
   | Some ms \<Rightarrow> (case text_field ms ''encrypted_content'' of
        None \<Rightarrow> None
      | Some encrypted \<Rightarrow> Some (tokens_from_bytes (max 0 (int (length (hi_raw item)) - int (length encrypted))) +
          tokens_from_bytes (compaction_content_length (int (length encrypted))))))"

definition encrypted_reasoning :: "history_item \<Rightarrow> bytes" where
  "encrypted_reasoning item =
     (let own = (case text_field (hi_data item) ''encrypted_content'' of Some t \<Rightarrow> if trim_space t \<noteq> [] then t else [] | None \<Rightarrow> []) in
      if own \<noteq> [] then own
      else case raw_map item of
          None \<Rightarrow> []
        | Some ms \<Rightarrow> (case text_field ms ''encrypted_content'' of Some t \<Rightarrow> if trim_space t = [] then [] else t | None \<Rightarrow> []))"

definition encrypted_reasoning_tokens :: "history_item \<Rightarrow> int option" where
  "encrypted_reasoning_tokens item =
     (let encrypted = encrypted_reasoning item in
      if encrypted = [] then None
      else Some (tokens_from_bytes (max 0 (int (length encrypted) * 3 div 4 - 650))))"

definition tool_search_output_tokens :: "compact_env \<Rightarrow> history_item \<Rightarrow> int option" where
  "tool_search_output_tokens e item = (case map_of (hi_data item) ''tools'' of
     None \<Rightarrow> None
   | Some tools \<Rightarrow> map_option (\<lambda>s. tokens_from_bytes (int (length s))) (ce_marshal e tools))"

definition tool_search_call_tokens :: "compact_env \<Rightarrow> history_item \<Rightarrow> int" where
  "tool_search_call_tokens e item =
     (case (case map_of (hi_data item) ''arguments'' of
              None \<Rightarrow> None | Some AnyNil \<Rightarrow> None | Some v \<Rightarrow> ce_marshal e v) of
        Some s \<Rightarrow> tokens_from_bytes (int (length s))
      | None \<Rightarrow> tokens_from_bytes (text_length item))"

text \<open>What the switch over the type returns, if it returns.\<close>

definition typed_tokens :: "compact_env \<Rightarrow> history_item \<Rightarrow> int option" where
  "typed_tokens e item =
     (let k = folded e (hi_type item) in
      if k = ''compaction'' \<or> k = ''context_compaction'' then compaction_item_tokens item
      else if k = ''function_call'' \<or> k = ''custom_tool_call'' then Some (tokens_from_bytes (function_call_bytes e item))
      else if k = ''function_call_output'' \<or> k = ''custom_tool_call_output'' \<or> k = ''tool_output''
        then Some (tokens_from_bytes (function_output_bytes e item))
      else if k = ''tool_search_call'' then Some (tool_search_call_tokens e item)
      else if k = ''tool_search_output'' then tool_search_output_tokens e item
      else if k = ''reasoning'' then encrypted_reasoning_tokens item
      else None)"

definition item_tokens_with :: "compact_env \<Rightarrow> audio_durations \<Rightarrow> history_item \<Rightarrow> int" where
  "item_tokens_with e durations item = (case typed_tokens e item of
     Some n \<Rightarrow> n
   | None \<Rightarrow>
       if is_structured_agent_message item then (agent_message_bytes item + 3) div 4
       else if folds_to (trim_space (hi_type item)) ''message'' then tokens_from_bytes (item_content_bytes e durations item)
       else if text_tokens e (item_text item) > 0 then text_tokens e (item_text item)
       else tokens_from_bytes (int (length (hi_raw item))))"

definition item_tokens :: "compact_env \<Rightarrow> history_item \<Rightarrow> int" where
  "item_tokens e item = item_tokens_with e (\<lambda>_. None) item"

definition history_tokens :: "compact_env \<Rightarrow> history_item list \<Rightarrow> int" where
  "history_tokens e items = sum_list (map (item_tokens e) items)"

section \<open>An environment for examples\<close>

definition plain_env :: compact_env where
  "plain_env = \<lparr>ce_lower = id, ce_wide = (\<lambda>_. False), ce_mark = (\<lambda>_. False), ce_marshal = (\<lambda>_. None), ce_audio_tokens = (\<lambda>_. 0),
     ce_incomplete = (\<lambda>_. None)\<rparr>"

end
