(* ===== verification/Compact_Retention.thy ===== *)
theory Compact_Retention
  imports Compact_Items
begin

text \<open>
  What compaction keeps of the messages within a budget of tokens, \<open>compact/compact.go\<close>: the user messages of a local
  compaction, the messages of a remote one with their media, and a history cut down for the request.  Loops that scan
  from the end are recursions over the reversed list.
\<close>

section \<open>Parts and their kinds\<close>

definition unknown_kind :: bytes where "unknown_kind = ''unknown''"

text \<open>\<open>contentItemKinds\<close>: entries that are no text are dropped, and the later ones move up.\<close>

definition content_item_kinds :: "(bytes \<times> any) list \<Rightarrow> bytes list" where
  "content_item_kinds data = (case map_of data ''content_item_kinds'' of
     Some (AnyTexts ts) \<Rightarrow> ts
   | Some (AnyList vs) \<Rightarrow> List.map_filter (\<lambda>v. case v of AnyText t \<Rightarrow> Some t | _ \<Rightarrow> None) vs
   | _ \<Rightarrow> [])"

definition kind_at :: "bytes list \<Rightarrow> nat \<Rightarrow> bytes" where
  "kind_at kinds i = (if i < length kinds \<and> trim_space (kinds ! i) \<noteq> [] then kinds ! i else unknown_kind)"

definition no_reference :: "content_part \<Rightarrow> bool" where
  "no_reference part \<longleftrightarrow> pt_image_url part = [] \<and> pt_audio_url part = [] \<and> pt_file_id part = []"

definition part_is_text :: "compact_env \<Rightarrow> content_part \<Rightarrow> bool" where
  "part_is_text e part \<longleftrightarrow> folded e (pt_type part) \<in> {'''', ''text'', ''input_text'', ''output_text''} \<and> no_reference part"

definition parts_are_text :: "compact_env \<Rightarrow> content_part list \<Rightarrow> bool" where
  "parts_are_text e parts = list_all (part_is_text e) parts"

text \<open>The labels around media, \<open>eventmap/eventmap.go\<close>.\<close>

definition local_open_tag :: "bytes \<Rightarrow> bytes \<Rightarrow> bool" where
  "local_open_tag text prefix = (case cut_prefix text prefix of Some rest \<Rightarrow> has_suffix rest ''>'' | None \<Rightarrow> False)"

definition image_open_label :: "bytes \<Rightarrow> bool" where
  "image_open_label t \<longleftrightarrow> t = ''<image>'' \<or> local_open_tag t ''<image name=''"

definition audio_open_label :: "bytes \<Rightarrow> bool" where
  "audio_open_label t \<longleftrightarrow> t = ''<audio>'' \<or> local_open_tag t ''<audio name=''"

definition is_media_label :: "(bytes \<times> bytes) list \<Rightarrow> nat \<Rightarrow> bool" where
  "is_media_label items i =
     (let text = snd (items ! i); after = (\<lambda>k. i + 1 < length items \<and> fst (items ! (i + 1)) = k);
          before = (\<lambda>k. 0 < i \<and> fst (items ! (i - 1)) = k)
      in image_open_label text \<and> after ''input_image'' \<or> text = ''</image>'' \<and> before ''input_image'' \<or>
         audio_open_label text \<and> after ''input_audio'' \<or> text = ''</audio>'' \<and> before ''input_audio'')"

definition user_input_indices :: "(bytes \<times> bytes) list \<Rightarrow> nat list" where
  "user_input_indices items =
     filter (\<lambda>i. \<not> (fst (items ! i) = ''input_text'' \<and> is_media_label items i)) [0..<length items]"

definition compacted_text_parts :: "compact_env \<Rightarrow> history_item \<Rightarrow> (content_part \<times> bytes) list" where
  "compacted_text_parts e item =
     (let kinds = content_item_kinds (hi_data item); parts = hi_content item;
          items = map (\<lambda>p. (folded e (pt_type p), pt_text p)) parts
      in map (\<lambda>i. (new_part (pt_type (parts ! i)) (pt_text (parts ! i)), kind_at kinds i))
           (filter (\<lambda>i. part_is_text e (parts ! i)) (user_input_indices items)))"

section \<open>Cutting annotated parts\<close>

text \<open>One part at its offset in the joined text: what is left of it, with the marker at the first part that is cut.\<close>

fun cut_parts :: "text_truncation \<Rightarrow> bool \<Rightarrow> int \<Rightarrow> (content_part \<times> bytes) list \<Rightarrow> (content_part \<times> bytes) list" where
  "cut_parts t pending offset [] = []"
| "cut_parts t pending start ((part, kind) # rest) =
     (let len = int (length (pt_text part)); offset = start + len in
      if offset \<le> tt_removed_start t \<or> tt_removed_end t \<le> start then (part, kind) # cut_parts t pending offset rest
      else let prefix_end = max 0 (tt_removed_start t - start); suffix_start = max 0 (min len (tt_removed_end t - start)) in
        (if 0 < prefix_end then [(new_part (pt_type part) (take (nat prefix_end) (pt_text part)), kind)] else []) @
        (if pending then [(new_part ''input_text'' (tt_marker t), unknown_kind)] else []) @
        (if suffix_start < len then [(new_part (pt_type part) (drop (nat suffix_start) (pt_text part)), kind)] else []) @
        cut_parts t False offset rest)"

definition truncate_user_parts :: "(content_part \<times> bytes) list \<Rightarrow> int \<Rightarrow> (content_part \<times> bytes) list" where
  "truncate_user_parts parts max_tokens =
     (case plan_token_truncation (concat (map (\<lambda>p. pt_text (fst p)) parts)) max_tokens of
        None \<Rightarrow> parts | Some t \<Rightarrow> cut_parts t True 0 parts)"

text \<open>\<open>truncateTextToTokens\<close>: the number of runes is found by bisection.\<close>

function search_tokens :: "compact_env \<Rightarrow> nat list \<Rightarrow> int \<Rightarrow> nat \<Rightarrow> nat \<Rightarrow> nat" where
  "search_tokens e rs max_tokens low high =
     (if low < high then
        let mid = low + (high - low + 1) div 2 in
        if text_tokens e (string_of_runes (take mid rs)) \<le> max_tokens then search_tokens e rs max_tokens mid high
        else search_tokens e rs max_tokens low (mid - 1)
      else low)"
  by pat_completeness auto
termination by (relation "measure (\<lambda>(e, rs, m, low, high). high - low)") auto

declare search_tokens.simps [simp del]

definition truncate_text_to_tokens :: "compact_env \<Rightarrow> bytes \<Rightarrow> int \<Rightarrow> bytes" where
  "truncate_text_to_tokens e text max_tokens =
     (if max_tokens \<le> 0 then []
      else let t = trim_space text in
        if text_tokens e t \<le> max_tokens then t
        else let rs = string_runes t in
          trim_space (string_of_runes (take (search_tokens e rs max_tokens 0 (length rs)) rs)))"

section \<open>User messages of a local compaction\<close>

definition mark_incomplete :: "compact_env \<Rightarrow> history_item \<Rightarrow> history_item" where
  "mark_incomplete e item = (case map_of (hi_data item) ''harness_metadata'' of
     None \<Rightarrow> item
   | Some v \<Rightarrow> (case ce_incomplete e v of
        None \<Rightarrow> item | Some v' \<Rightarrow> item\<lparr>hi_data := AList.update ''harness_metadata'' v' (hi_data item)\<rparr>))"

definition part_texts :: "content_part list \<Rightarrow> bytes list" where
  "part_texts parts = filter (\<lambda>t. trim_space t \<noteq> []) (map pt_text parts)"

definition message_tokens :: "compact_env \<Rightarrow> history_item \<Rightarrow> int" where
  "message_tokens e item = max 1 (text_tokens e (item_text item))"

text \<open>A message that does not fit, or that has media, from its text parts.\<close>

definition shortened_message :: "compact_env \<Rightarrow> int \<Rightarrow> history_item \<Rightarrow> history_item" where
  "shortened_message e remaining item =
     (let own = compacted_text_parts e item;
          parts = (if own = [] then [(new_part ''input_text'' (if hi_content item = [] then item_text item else []), unknown_kind)]
                   else own);
          cut = truncate_user_parts parts remaining;
          fallback = item\<lparr>hi_raw := [], hi_content := map fst cut, hi_text := join_with [LF] (part_texts (map fst cut)),
            hi_data := AList.update ''content_item_kinds'' (AnyTexts (map snd cut)) (hi_data item)\<rparr>
      in if remaining < message_tokens e item then mark_incomplete e fallback else fallback)"

text \<open>Newest first.\<close>

fun user_loop :: "compact_env \<Rightarrow> int \<Rightarrow> history_item list \<Rightarrow> history_item list" where
  "user_loop e remaining [] = []"
| "user_loop e remaining (item # older) =
     (if message_tokens e item \<le> remaining \<and> parts_are_text e (hi_content item)
      then item # user_loop e (remaining - message_tokens e item) older
      else [shortened_message e remaining item])"

definition is_user_candidate :: "history_item \<Rightarrow> bool" where
  "is_user_candidate item \<longleftrightarrow> hi_role item = ''user'' \<and> hi_kind item \<noteq> ''compaction_summary'' \<and> should_keep item"

definition retained_user_messages :: "compact_env \<Rightarrow> history_item list \<Rightarrow> int \<Rightarrow> history_item list" where
  "retained_user_messages e items max_tokens =
     (if max_tokens \<le> 0 then [] else rev (user_loop e max_tokens (rev (filter is_user_candidate items))))"

definition last_user_messages :: "history_item list \<Rightarrow> nat \<Rightarrow> history_item list" where
  "last_user_messages history count =
     rev (take count (filter (\<lambda>i. hi_role i = ''user'' \<and> hi_kind i \<noteq> ''compaction_summary'') (rev history)))"

section \<open>Media parts\<close>

definition part_kind :: "compact_env \<Rightarrow> content_part \<Rightarrow> bytes" where
  "part_kind e part = folded e (pt_type part)"

definition is_file_audio :: "compact_env \<Rightarrow> content_part \<Rightarrow> bool" where
  "is_file_audio e part \<longleftrightarrow> audio_kind (part_kind e part) \<and> trim_space (pt_audio_url part) = [] \<and> trim_space (pt_file_id part) \<noteq> []"

definition part_tokens :: "compact_env \<Rightarrow> bool \<Rightarrow> audio_durations \<Rightarrow> content_part \<Rightarrow> int" where
  "part_tokens e charge_images durations part =
     (let k = part_kind e part in
      if text_kind k then text_tokens e (pt_text part)
      else if image_kind k then (if charge_images then tokens_from_bytes (image_reference_bytes part) else 0)
      else if audio_kind k then (if is_file_audio e part then file_tokens durations (pt_file_id part) else 0)
      else 0)"

definition is_image_part :: "compact_env \<Rightarrow> content_part \<Rightarrow> bool" where
  "is_image_part e part \<longleftrightarrow> image_kind (part_kind e part)"

definition is_media_part :: "compact_env \<Rightarrow> content_part \<Rightarrow> bool" where
  "is_media_part e part \<longleftrightarrow> image_kind (part_kind e part) \<or> audio_kind (part_kind e part)"

definition is_open_label :: "compact_env \<Rightarrow> content_part \<Rightarrow> content_part \<Rightarrow> bool" where
  "is_open_label e part media \<longleftrightarrow> part_kind e part = ''input_text'' \<and>
     (if is_image_part e media
      then pt_text part = ''<image>'' \<or> has_prefix (pt_text part) ''<image name='' \<and> has_suffix (pt_text part) ''>''
      else pt_text part = ''<audio>'' \<or> has_prefix (pt_text part) ''<audio name='' \<and> has_suffix (pt_text part) ''>'')"

definition is_close_label :: "compact_env \<Rightarrow> content_part \<Rightarrow> content_part \<Rightarrow> bool" where
  "is_close_label e part previous \<longleftrightarrow> part_kind e part = ''input_text'' \<and>
     pt_text part = (if is_image_part e previous then ''</image>'' else ''</audio>'')"

definition image_count :: "history_item \<Rightarrow> nat" where
  "image_count item = length (filter (\<lambda>p. folds_to (trim_space (pt_type p)) ''input_image'') (hi_content item))"

definition file_audio_count :: "compact_env \<Rightarrow> history_item \<Rightarrow> nat" where
  "file_audio_count e item = length (filter (is_file_audio e) (hi_content item))"

definition requires_media_boundary :: "compact_env \<Rightarrow> bool \<Rightarrow> history_item \<Rightarrow> bool" where
  "requires_media_boundary e charge_images item \<longleftrightarrow> charge_images \<and> 0 < image_count item \<or> 0 < file_audio_count e item"

text \<open>How many of the last parts, which come first here, form a group: a media part with the labels around it.\<close>

definition media_group :: "compact_env \<Rightarrow> content_part list \<Rightarrow> nat" where
  "media_group e rparts =
     (let with_open = (\<lambda>n media. case drop n rparts of p # _ \<Rightarrow> if is_open_label e p media then n + 1 else n | [] \<Rightarrow> n) in
      case rparts of
        [] \<Rightarrow> 0
      | part # before \<Rightarrow>
          if is_media_part e part then with_open 1 part
          else case before of
              previous # _ \<Rightarrow> if is_close_label e part previous then with_open 2 previous else 0
            | [] \<Rightarrow> 0)"

function media_loop :: "compact_env \<Rightarrow> bool \<Rightarrow> audio_durations \<Rightarrow> int \<Rightarrow> content_part list \<Rightarrow> content_part list" where
  "media_loop e charge durations remaining rparts =
     (if remaining \<le> 0 then []
      else case rparts of
        [] \<Rightarrow> []
      | part # before \<Rightarrow>
          let g = media_group e rparts in
          if 0 < g then
            let tokens = sum_list (map (part_tokens e charge durations) (take g rparts)) in
            if remaining < tokens then [] else take g rparts @ media_loop e charge durations (remaining - tokens) (drop g rparts)
          else if text_kind (part_kind e part) then
            let tokens = text_tokens e (pt_text part);
                part' = (if tokens \<le> remaining then part else part\<lparr>pt_text := truncate_text_to_tokens e (pt_text part) remaining\<rparr>);
                remaining' = (if tokens \<le> remaining then remaining - tokens else 0)
            in (if pt_text part' \<noteq> [] then [part'] else []) @ media_loop e charge durations remaining' before
          else part # media_loop e charge durations remaining before)"
  by pat_completeness auto
termination by (relation "measure (\<lambda>(e, c, d, r, ps). length ps)") auto

declare media_loop.simps [simp del]

definition retained_text :: "compact_env \<Rightarrow> content_part list \<Rightarrow> bytes" where
  "retained_text e parts = join_with [LF] (map pt_text (filter (\<lambda>p. part_kind e p = ''input_text'' \<and> pt_text p \<noteq> []) parts))"

definition retained_kinds :: "compact_env \<Rightarrow> content_part list \<Rightarrow> bytes list" where
  "retained_kinds e parts = map (\<lambda>p. if part_kind e p = ''input_image'' then ''user.image''
     else if part_kind e p = ''input_audio'' then ''user.audio'' else ''user.text'') parts"

definition truncate_with_media ::
  "compact_env \<Rightarrow> history_item \<Rightarrow> int \<Rightarrow> bool \<Rightarrow> audio_durations \<Rightarrow> history_item option" where
  "truncate_with_media e item max_tokens charge durations =
     (if max_tokens \<le> 0 \<or> hi_content item = [] then None
      else let kept = rev (media_loop e charge durations max_tokens (rev (hi_content item))) in
        if kept = [] then None
        else Some (item\<lparr>hi_content := kept, hi_text := retained_text e kept, hi_raw := [],
          hi_data := (if map_of (hi_data item) ''content_item_kinds'' = None then hi_data item
                      else AList.update ''content_item_kinds'' (AnyTexts (retained_kinds e kept)) (hi_data item))\<rparr>))"

end
