(* ===== verification/Compact_History.thy ===== *)
theory Compact_History
  imports Compact_Retention
begin

text \<open>
  Compaction of a history, \<open>compact/compact.go\<close>: when it is due, the messages and the mail it keeps, where the summary
  and the context go, the local and the remote run, what is cut to fit a window, and the tokens in use.  Times, the
  numbers of windows in a request and the fields of a result that are only passed on are left out.
\<close>

section \<open>When compaction is due\<close>

datatype compaction_scope = ScopeTotal | ScopeBodyAfterPrefix | OtherScope bytes

datatype compaction_reason = NoReason | ReasonContextWindowExceeded | ReasonTokenLimit | OtherReason bytes

record compaction_policy =
  cp_enabled :: bool
  cp_token_limit :: int
  cp_window :: int
  cp_prefill :: int
  cp_scope :: compaction_scope
  cp_buffer :: int

record token_status =
  ts_active :: int
  ts_scope_tokens :: int
  ts_scope_limit :: int
  ts_until :: "int option"
  ts_base_remaining :: "int option"
  ts_should_compact :: bool
  ts_reason :: compaction_reason
  ts_new_window :: bool

definition evaluate_policy :: "compaction_policy \<Rightarrow> int \<Rightarrow> token_status" where
  "evaluate_policy p active =
     (let status = \<lparr>ts_active = active, ts_scope_tokens = 0, ts_scope_limit = 0, ts_until = None, ts_base_remaining = None,
            ts_should_compact = False, ts_reason = NoReason, ts_new_window = False\<rparr> in
      if \<not> cp_enabled p then status
      else let scope_tokens = (if cp_scope p = ScopeBodyAfterPrefix then max 0 (active - cp_prefill p) else active);
               limit = (if cp_token_limit p = 0 then cp_window p else cp_token_limit p);
               status = status\<lparr>ts_scope_tokens := scope_tokens, ts_scope_limit := limit\<rparr> in
        if limit \<le> 0 then status
        else let base = max 0 (limit - scope_tokens);
                 base = (if 0 < cp_window p then min base (max 0 (cp_window p - active)) else base);
                 buffered = limit + max 0 (cp_buffer p);
                 status = status\<lparr>ts_base_remaining := Some base, ts_until := Some (buffered - scope_tokens)\<rparr>;
                 status = (if buffered \<le> scope_tokens then status\<lparr>ts_should_compact := True, ts_reason := ReasonTokenLimit\<rparr>
                           else status)
             in if 0 < cp_window p \<and> cp_window p \<le> active
                then status\<lparr>ts_should_compact := True, ts_reason := ReasonContextWindowExceeded, ts_new_window := True\<rparr>
                else status)"

section \<open>Mail that was not sampled yet\<close>

text \<open>The sequence of the first agent message after the last checkpoint.\<close>

definition sampled_through :: "history_item list \<Rightarrow> 64 word" where
  "sampled_through items = fold (\<lambda>i n. max n (hi_sampled i)) items 0"

definition pending_mail_sequence :: "history_item list \<Rightarrow> (64 word) option" where
  "pending_mail_sequence items = map_option hi_sequence
     (find (\<lambda>i. hi_type i = ''agent_message'' \<and> sampled_through items < hi_sequence i) items)"

definition is_retained_pending_mail :: "compact_env \<Rightarrow> 64 word \<Rightarrow> history_item \<Rightarrow> bool" where
  "is_retained_pending_mail e first item \<longleftrightarrow> hi_type item = ''agent_message'' \<and> first \<le> hi_sequence item \<and> item_tokens e item \<le> 10000"

fun pending_loop :: "compact_env \<Rightarrow> 64 word \<Rightarrow> int \<Rightarrow> history_item list \<Rightarrow> history_item list" where
  "pending_loop e first remaining [] = []"
| "pending_loop e first remaining (item # older) =
     (if remaining \<le> 0 then []
      else if \<not> is_retained_pending_mail e first item then pending_loop e first remaining older
      else let cost = max 1 (item_tokens e item) in
        if remaining < cost then pending_loop e first remaining older
        else item # pending_loop e first (remaining - cost) older)"

definition pending_agent_messages :: "compact_env \<Rightarrow> history_item list \<Rightarrow> 64 word \<Rightarrow> int \<Rightarrow> history_item list" where
  "pending_agent_messages e items first budget =
     (if budget \<le> 0 then [] else rev (pending_loop e first budget (rev items)))"

definition sort_by_sequence :: "history_item list \<Rightarrow> history_item list" where
  "sort_by_sequence items = sort_key hi_sequence items"

definition insert_before_pending :: "history_item list \<Rightarrow> history_item list \<Rightarrow> (64 word) option \<Rightarrow> history_item list" where
  "insert_before_pending items inserted pending =
     (if inserted = [] then items
      else let before = (case pending of None \<Rightarrow> items | Some first \<Rightarrow> takeWhile (\<lambda>i. hi_sequence i < first) items)
        in before @ inserted @ drop (length before) items)"

section \<open>Where the context goes\<close>

text \<open>The position of the last item that satisfies a test.\<close>

definition last_index :: "('a \<Rightarrow> bool) \<Rightarrow> 'a list \<Rightarrow> nat option" where
  "last_index test xs = (if list_ex test xs then Some (length xs - 1 - length (takeWhile (\<lambda>x. \<not> test x) (rev xs))) else None)"

definition insert_initial_context :: "history_item list \<Rightarrow> history_item list \<Rightarrow> history_item list" where
  "insert_initial_context history initial =
     (if initial = [] then history
      else let at = (case last_index (\<lambda>i. is_retained_tool_output i \<or> is_real_user_or_agent i) history of
               Some i \<Rightarrow> i
             | None \<Rightarrow> (case last_index (\<lambda>i. hi_kind i = ''compaction_summary'') history of Some i \<Rightarrow> i | None \<Rightarrow> length history))
        in take at history @ initial @ drop at history)"

definition contains_real :: "history_item list \<Rightarrow> bool" where
  "contains_real items = list_ex is_real_user_or_agent items"

definition install_prefix ::
  "history_item list \<Rightarrow> history_item list \<Rightarrow> int \<Rightarrow> history_item list \<Rightarrow> history_item list \<Rightarrow> history_item list" where
  "install_prefix history replacement prefix_len prefix_context initial =
     (let n = nat (min (max 0 prefix_len) (int (length history))); suffix = drop n history;
          installed = (if contains_real suffix then replacement @ initial else insert_initial_context replacement initial)
      in prefix_context @ installed @ suffix)"

section \<open>Cutting a history\<close>

text \<open>The parts of a message that is cut to a budget, in order.\<close>

fun trim_parts :: "compact_env \<Rightarrow> int \<Rightarrow> (content_part \<times> bytes) list \<Rightarrow> (content_part \<times> bytes) list" where
  "trim_parts e remaining [] = []"
| "trim_parts e remaining ((part, kind) # rest) =
     (if \<not> part_is_text e part then (part, kind) # trim_parts e remaining rest
      else if remaining = 0 then trim_parts e remaining rest
      else let tokens = text_tokens e (pt_text part) in
        if tokens \<le> remaining then (part, kind) # trim_parts e (remaining - tokens) rest
        else truncate_user_parts [(part, kind)] remaining @ trim_parts e 0 rest)"

definition trim_item :: "compact_env \<Rightarrow> history_item \<Rightarrow> int \<Rightarrow> history_item option" where
  "trim_item e item max_tokens =
     (if hi_content item = [] then
        let text = truncate_text_to_tokens e (item_text item) max_tokens in
        if text = [] then None
        else Some (item\<lparr>hi_raw := [], hi_text := text,
          hi_data := AList.update ''content_item_kinds'' (AnyTexts [unknown_kind]) (hi_data item)\<rparr>)
      else
        let kinds = content_item_kinds (hi_data item);
            kept = trim_parts e max_tokens (map (\<lambda>(i, p). (p, kind_at kinds i)) (enumerate 0 (hi_content item)))
        in if kept = [] then None
           else Some (item\<lparr>hi_raw := [], hi_content := map fst kept, hi_text := retained_text e (map fst kept),
             hi_data := AList.update ''content_item_kinds'' (AnyTexts (map snd kept)) (hi_data item)\<rparr>))"

fun trim_loop :: "compact_env \<Rightarrow> int \<Rightarrow> int \<Rightarrow> bool \<Rightarrow> history_item list \<Rightarrow> history_item list" where
  "trim_loop e max_tokens used some [] = []"
| "trim_loop e max_tokens used some (item # older) =
     (let cost = (if item_tokens e item = 0 then 1 else item_tokens e item) in
      if used + cost \<le> max_tokens then item # trim_loop e max_tokens (used + cost) True older
      else if some then []
      else if is_structured_agent_message item then trim_loop e max_tokens used some older
      else case trim_item e item (max_tokens - used) of None \<Rightarrow> [] | Some t \<Rightarrow> [t])"

definition trim_history :: "compact_env \<Rightarrow> history_item list \<Rightarrow> int \<Rightarrow> history_item list" where
  "trim_history e items max_tokens =
     (if max_tokens \<le> 0 then [] else rev (trim_loop e max_tokens 0 False (rev items)))"

text \<open>Tool outputs give way to a notice, newest first, until the window holds the history.\<close>

definition truncated_notice :: bytes where
  "truncated_notice = ''Output exceeded the available model context and was truncated''"

definition rewritten_output :: "compact_env \<Rightarrow> history_item \<Rightarrow> history_item option" where
  "rewritten_output e item =
     (let k = folded e (hi_type item) in
      if k = ''function_call_output'' \<or> k = ''custom_tool_call_output'' then
        Some (item\<lparr>hi_content := [], hi_raw := [], hi_text := truncated_notice,
          hi_data := AList.update ''output'' (AnyText truncated_notice) (AList.delete ''content_items'' (hi_data item))\<rparr>)
      else if k = ''tool_search_output'' then
        Some (item\<lparr>hi_content := [], hi_raw := [], hi_text := [], hi_data := AList.update ''tools'' (AnyList []) (hi_data item)\<rparr>)
      else None)"

fun rewrite_loop :: "compact_env \<Rightarrow> int \<Rightarrow> bool \<Rightarrow> int \<Rightarrow> history_item list \<Rightarrow> history_item list \<times> nat" where
  "rewrite_loop e window retain estimated [] = ([], 0)"
| "rewrite_loop e window retain estimated (item # older) =
     (if estimated \<le> window then (item # older, 0)
      else if retain \<and> is_retained_tool_output item then (item # older, 0)
      else case rewritten_output e item of
          None \<Rightarrow> (item # older, 0)
        | Some r \<Rightarrow> (case rewrite_loop e window retain (estimated - item_tokens e item + item_tokens e r) older of
            (rest, n) \<Rightarrow> (r # rest, n + 1)))"

definition trim_function_call_history ::
  "compact_env \<Rightarrow> history_item list \<Rightarrow> int \<Rightarrow> bytes \<Rightarrow> bool \<Rightarrow> history_item list \<times> nat" where
  "trim_function_call_history e items window base retain =
     (let estimated = text_tokens e base + history_tokens e items in
      if window \<le> 0 \<or> estimated \<le> window then (items, 0)
      else case rewrite_loop e window retain estimated (rev items) of (r, n) \<Rightarrow> (rev r, n))"

section \<open>Tokens in use\<close>

definition is_model_generated :: "history_item \<Rightarrow> bool" where
  "is_model_generated item \<longleftrightarrow> hi_role item = ''assistant'' \<or>
     hi_type item \<in> {''reasoning'', ''function_call'', ''tool_search_call'', ''web_search_call'', ''image_generation_call'',
       ''custom_tool_call'', ''local_shell_call'', ''compaction'', ''context_compaction''}"

definition items_after_model :: "history_item list \<Rightarrow> history_item list" where
  "items_after_model items = (case last_index is_model_generated items of None \<Rightarrow> [] | Some i \<Rightarrow> drop (i + 1) items)"

definition items_since_usage :: "history_item list \<Rightarrow> int \<Rightarrow> history_item list" where
  "items_since_usage items boundary =
     (if boundary < 0 then items_after_model items
      else if int (length items) \<le> boundary then [] else drop (nat boundary) items)"

definition is_turn_boundary :: "history_item \<Rightarrow> bool" where
  "is_turn_boundary item \<longleftrightarrow> folds_to (trim_space (hi_type item)) ''agent_message'' \<or>
     folds_to (trim_space (hi_type item)) ''message'' \<and> trim_space (hi_role item) = ''user'' \<and> trim_space (hi_text item) \<noteq> []"

definition counts_as_reasoning :: "history_item \<Rightarrow> bool" where
  "counts_as_reasoning item \<longleftrightarrow> folds_to (trim_space (hi_type item)) ''reasoning'' \<and> encrypted_reasoning item \<noteq> []"

definition reasoning_tokens_since :: "compact_env \<Rightarrow> history_item list \<Rightarrow> int \<Rightarrow> int" where
  "reasoning_tokens_since e items boundary =
     (case last_index is_turn_boundary items of
        None \<Rightarrow> 0
      | Some i \<Rightarrow>
          let n = (if 0 \<le> boundary \<and> boundary < int i then nat boundary else i)
          in if i = 0 then 0 else history_tokens e (filter counts_as_reasoning (take n items)))"

definition active_context_tokens :: "compact_env \<Rightarrow> history_item list \<Rightarrow> int \<Rightarrow> bool \<Rightarrow> int \<Rightarrow> int" where
  "active_context_tokens e items last_total server_reasoning boundary =
     (let total = max 0 last_total + history_tokens e (items_since_usage items boundary)
      in if server_reasoning then total else total + reasoning_tokens_since e items boundary)"

end
