(* ===== verification/Compact_Run.thy ===== *)
theory Compact_Run
  imports Compact_History
begin

text \<open>
  Runs of compaction, \<open>compact/compact.go\<close>: the messages a remote compaction retains, how they are joined with what
  the remote side returns, the local and the remote run, and the window a thread is in.
\<close>

section \<open>Messages a remote compaction retains\<close>

definition is_message_type :: "compact_env \<Rightarrow> history_item \<Rightarrow> bool" where
  "is_message_type e item \<longleftrightarrow> folded e (hi_type item) \<in> {''message'', ''user_message'', ''assistant_message''}"

definition retained_message_tokens :: "compact_env \<Rightarrow> bool \<Rightarrow> audio_durations \<Rightarrow> history_item \<Rightarrow> int" where
  "retained_message_tokens e charge durations item =
     (if \<not> is_message_type e item then item_tokens_with e durations item
      else if hi_content item = [] then text_tokens e (item_text item)
      else sum_list (map (part_tokens e charge durations) (hi_content item)))"

definition retained_candidate :: "compact_env \<Rightarrow> retention_policy \<Rightarrow> (64 word) option \<Rightarrow> history_item \<Rightarrow> bool" where
  "retained_candidate e policy pending item =
     (let mail = (case pending of None \<Rightarrow> False | Some first \<Rightarrow> is_retained_pending_mail e first item);
          keep = (hi_type item = ''message'' \<or> hi_type item = ''user_message'') \<and> hi_role item = ''user'' \<and> should_keep item \<or>
            rp_developer_messages policy \<and> is_client_developer item \<or> rp_tool_outputs policy \<and> is_retained_tool_output item
      in if is_structured_agent_message item then mail \<or> \<not> is_agent_completion item \<and> item_tokens e item \<le> 10000
         else keep \<or> mail)"

definition charge_images :: "retention_policy \<Rightarrow> history_item \<Rightarrow> bool" where
  "charge_images policy item \<longleftrightarrow> rp_image_budget policy \<and> \<not> is_client_developer item"

definition retained_cost :: "compact_env \<Rightarrow> retention_policy \<Rightarrow> audio_durations \<Rightarrow> history_item \<Rightarrow> int" where
  "retained_cost e policy durations item =
     (if is_message_type e item \<and> \<not> is_client_developer item
      then max 1 (retained_message_tokens e (charge_images policy item) durations item)
      else max 1 (item_tokens_with e durations item))"

text \<open>Newest first.  What the code sets to zero ends the loop.\<close>

fun retain_loop ::
  "compact_env \<Rightarrow> retention_policy \<Rightarrow> audio_durations \<Rightarrow> int \<Rightarrow> history_item list \<Rightarrow> history_item list" where
  "retain_loop e policy durations remaining [] = []"
| "retain_loop e policy durations remaining (item # older) =
     (if remaining \<le> 0 then []
      else let cost = retained_cost e policy durations item in
        if cost \<le> remaining then item # retain_loop e policy durations (remaining - cost) older
        else if is_retained_tool_output item then []
        else if is_structured_agent_message item then retain_loop e policy durations remaining older
        else if requires_media_boundary e (charge_images policy item) item then
          (case truncate_with_media e item remaining (charge_images policy item) durations of None \<Rightarrow> [] | Some t \<Rightarrow> [t])
        else let text = truncate_text_to_tokens e (item_text item) remaining in
          if trim_space text \<noteq> [] then [item\<lparr>hi_text := text, hi_content := [], hi_data := [], hi_raw := []\<rparr>] else [])"

definition retained_messages ::
  "compact_env \<Rightarrow> history_item list \<Rightarrow> int \<Rightarrow> retention_policy \<Rightarrow> audio_durations \<Rightarrow> history_item list" where
  "retained_messages e items max_tokens policy durations =
     (if max_tokens \<le> 0 then []
      else rev (retain_loop e policy durations max_tokens
             (rev (filter (retained_candidate e policy (pending_mail_sequence items)) items))))"

definition same_item :: "history_item \<Rightarrow> history_item \<Rightarrow> bool" where
  "same_item candidate item \<longleftrightarrow>
     hi_id candidate \<noteq> [] \<and> hi_id candidate = hi_id item \<and> hi_type candidate = hi_type item \<or>
     hi_id candidate = [] \<and> hi_id item = [] \<and> hi_type candidate = hi_type item \<and> hi_role candidate = hi_role item \<and>
       hi_kind candidate = hi_kind item \<and> item_text candidate = item_text item \<and> hi_raw candidate = hi_raw item"

definition is_checkpoint :: "history_item \<Rightarrow> bool" where
  "is_checkpoint item \<longleftrightarrow> hi_type item = ''compaction'' \<or> hi_type item = ''context_compaction''"

text \<open>The items of the remote side that are new, the checkpoints among them apart.\<close>

fun merge_remote :: "history_item list \<Rightarrow> history_item list \<Rightarrow> history_item list \<Rightarrow> history_item list \<times> history_item list" where
  "merge_remote history checkpoints [] = (history, checkpoints)"
| "merge_remote history checkpoints (item # rest) =
     (if list_ex (same_item item) history then merge_remote history checkpoints rest
      else if is_checkpoint item then merge_remote history (checkpoints @ [item]) rest
      else merge_remote (history @ [item]) checkpoints rest)"

definition retained_budget :: int where "retained_budget = 64000"

definition process_remote_history ::
  "compact_env \<Rightarrow> history_item list \<Rightarrow> history_item list \<Rightarrow> history_item list \<Rightarrow> bool \<Rightarrow> retention_policy \<Rightarrow> audio_durations \<Rightarrow>
     history_item list" where
  "process_remote_history e remote original initial inject policy durations =
     (let retained = retained_messages e original retained_budget policy durations;
          (history, checkpoints) = merge_remote retained [] (filter_compacted policy remote);
          pending = pending_mail_sequence original;
          history = (if pending \<noteq> None then sort_by_sequence history else history);
          history = insert_before_pending history checkpoints pending
      in if inject then insert_initial_context history initial else history)"

section \<open>Requests and results\<close>

record compaction_request =
  cq_thread :: bytes
  cq_turn :: bytes
  cq_trigger :: bytes
  cq_reason :: bytes
  cq_phase :: bytes
  cq_prompt :: bytes
  cq_history :: "history_item list"
  cq_max_tokens :: int

datatype compaction_error = RequestNil | ThreadIdRequired | TriggerRequired | ReasonRequired | PhaseRequired | RunnerRequired
  | RunnerError bytes

definition validate_request :: "compaction_request option \<Rightarrow> compaction_error option" where
  "validate_request request = (case request of
     None \<Rightarrow> Some RequestNil
   | Some q \<Rightarrow>
       if trim_space (cq_thread q) = [] then Some ThreadIdRequired
       else if cq_trigger q = [] then Some TriggerRequired
       else if cq_reason q = [] then Some ReasonRequired
       else if cq_phase q = [] then Some PhaseRequired else None)"

definition build_request ::
  "bytes \<Rightarrow> bytes \<Rightarrow> bytes \<Rightarrow> bytes \<Rightarrow> bytes \<Rightarrow> bytes \<Rightarrow> history_item list \<Rightarrow> compaction_error + compaction_request" where
  "build_request thread turn trigger reason phase prompt history =
     (let q = \<lparr>cq_thread = thread, cq_turn = turn, cq_trigger = trigger, cq_reason = reason, cq_phase = phase,
            cq_prompt = (if prompt = [] then ''Summarize the conversation so far, preserving user intent, decisions, file changes, commands, and unresolved work.'' else prompt),
            cq_history = history, cq_max_tokens = 0\<rparr>
      in case validate_request (Some q) of Some err \<Rightarrow> Inl err | None \<Rightarrow> Inr q)"

datatype compaction_source = SourceUnset | SourceLocal | SourceRemote | OtherSource bytes

record compaction_result =
  cr_completed :: bool
  cr_summary :: bytes
  cr_history :: "history_item list"
  cr_source :: compaction_source

definition request_history :: "compact_env \<Rightarrow> compaction_request \<Rightarrow> history_item list" where
  "request_history e q = (if 0 < cq_max_tokens q then trim_history e (cq_history q) (cq_max_tokens q) else cq_history q)"

section \<open>Summaries\<close>

definition summary_item :: "bytes \<Rightarrow> history_item" where
  "summary_item summary = new_item\<lparr>hi_id := ''compaction-summary'', hi_type := ''message'', hi_role := ''user'',
     hi_kind := ''compaction_summary'', hi_text := trim_space (summary_prefix @ [LF] @ summary),
     hi_data := [(''internal_chat_message_metadata_passthrough'',
       AnyMap [(''content_item_kinds'', AnyList [AnyText ''compaction.summary''])])]\<rparr>"

definition build_compacted_history :: "history_item list \<Rightarrow> history_item list \<Rightarrow> bytes \<Rightarrow> history_item list" where
  "build_compacted_history prefix user_messages summary = prefix @ user_messages @ [summary_item summary]"

definition summary_line :: "history_item \<Rightarrow> bytes" where
  "summary_line item =
     (let label = (if hi_role item \<noteq> [] then hi_role item else if hi_type item \<noteq> [] then hi_type item else ''item'')
      in label @ '': '' @ trim_space (item_text item))"

fun summary_loop :: "int \<Rightarrow> bytes \<Rightarrow> history_item list \<Rightarrow> bytes" where
  "summary_loop max_chars out [] = out"
| "summary_loop max_chars out (item # rest) =
     (if item_text item = [] then summary_loop max_chars out rest
      else let out' = (if out \<noteq> [] then out @ [LF] else out) @ summary_line item in
        if max_chars \<le> int (length out') then out' else summary_loop max_chars out' rest)"

definition summarize_locally :: "history_item list \<Rightarrow> int \<Rightarrow> bytes" where
  "summarize_locally history max_chars =
     (let m = (if max_chars \<le> 0 then 4000 else max_chars) in trim_space (take (nat m) (summary_loop m [] history)))"

section \<open>The local and the remote run\<close>

definition user_message_budget :: int where "user_message_budget = 20000"

definition compact_locally ::
  "compact_env \<Rightarrow> compaction_request option \<Rightarrow> int \<Rightarrow> history_item list \<Rightarrow> bool \<Rightarrow> compaction_error + compaction_result" where
  "compact_locally e request max_summary initial inject = (case validate_request request of
     Some err \<Rightarrow> Inl err
   | None \<Rightarrow>
       let history = request_history e (the request);
           summary = summarize_locally history max_summary;
           pending = pending_mail_sequence history;
           mail = (case pending of None \<Rightarrow> [] | Some first \<Rightarrow> pending_agent_messages e history first user_message_budget);
           budget = max 0 (user_message_budget - sum_list (map (\<lambda>i. max 1 (item_tokens e i)) mail));
           retained = retained_user_messages e history budget @ mail;
           compacted = (if pending \<noteq> None then insert_before_pending (sort_by_sequence retained) [summary_item summary] pending
                        else retained @ [summary_item summary]);
           compacted = (if inject then insert_initial_context compacted initial else compacted)
       in Inr \<lparr>cr_completed = True, cr_summary = summary, cr_history = compacted, cr_source = SourceLocal\<rparr>)"

text \<open>\<open>features.Enabled\<close> for the three keys that compaction asks for.\<close>

definition feature_enabled :: "(bytes \<times> bool) list \<Rightarrow> bytes \<Rightarrow> bool" where
  "feature_enabled settings key = (case map_of settings key of
     Some v \<Rightarrow> v
   | None \<Rightarrow> key = ''retain_client_tool_outputs'' \<or> key = ''compaction_image_budget'')"

record remote_options =
  ro_runner :: "(compaction_request \<Rightarrow> compaction_result option \<times> bytes option) option"
  ro_max_summary :: int
  ro_initial :: "history_item list"
  ro_inject :: bool
  ro_fallback :: bool
  ro_developer_messages :: bool
  ro_tool_outputs :: bool
  ro_settings :: "(bytes \<times> bool) list"
  ro_durations :: audio_durations

definition resolve_policy :: "remote_options \<Rightarrow> retention_policy" where
  "resolve_policy o1 = \<lparr>
     rp_developer_messages = (ro_developer_messages o1 \<or> feature_enabled (ro_settings o1) ''retain_client_developer_messages''),
     rp_tool_outputs = (ro_tool_outputs o1 \<or> feature_enabled (ro_settings o1) ''retain_client_tool_outputs''),
     rp_image_budget = feature_enabled (ro_settings o1) ''compaction_image_budget''\<rparr>"

definition accept_remote :: "compact_env \<Rightarrow> compaction_request \<Rightarrow> remote_options \<Rightarrow> compaction_result \<Rightarrow> compaction_result" where
  "accept_remote e q o1 r =
     (let given = (if cr_history r = [] \<and> trim_space (cr_summary r) \<noteq> []
                   then build_compacted_history [] (last_user_messages (request_history e q) 1) (cr_summary r) else cr_history r)
      in r\<lparr>cr_source := (if cr_source r = SourceUnset then SourceRemote else cr_source r),
           cr_history := process_remote_history e given (request_history e q) (ro_initial o1) (ro_inject o1) (resolve_policy o1)
             (ro_durations o1)\<rparr>)"

definition compact_remotely ::
  "compact_env \<Rightarrow> compaction_request option \<Rightarrow> remote_options \<Rightarrow> compaction_error + compaction_result" where
  "compact_remotely e request o1 = (case validate_request request of
     Some err \<Rightarrow> Inl err
   | None \<Rightarrow>
       let q = the request;
           fallback = (if \<not> ro_fallback o1 then Inl RunnerRequired
                       else compact_locally e request (ro_max_summary o1) (ro_initial o1) (ro_inject o1))
       in case ro_runner o1 of
          None \<Rightarrow> fallback
        | Some run \<Rightarrow> (case run q of
            (Some r, None) \<Rightarrow> if cr_completed r then Inr (accept_remote e q o1 r)
              else if \<not> ro_fallback o1 then Inr r else fallback
          | (result, Some err) \<Rightarrow> if \<not> ro_fallback o1 then Inl (RunnerError err) else fallback
          | (None, None) \<Rightarrow> fallback))"

section \<open>The window of a thread\<close>

record compact_window =
  cw_number :: "64 word"
  cw_first :: bytes
  cw_previous :: bytes
  cw_id :: bytes
  cw_requested :: bool
  cw_prefill :: "int option"
  cw_observed :: bool
  cw_reminded :: bool
  cw_fallback :: bool

definition new_window_with_ids :: "bytes \<Rightarrow> bytes \<Rightarrow> bytes \<Rightarrow> compact_window" where
  "new_window_with_ids first previous wid = \<lparr>cw_number = 0, cw_first = (if first = [] then wid else first), cw_previous = previous,
     cw_id = wid, cw_requested = False, cw_prefill = None, cw_observed = False, cw_reminded = False, cw_fallback = False\<rparr>"

definition window_restore :: "64 word \<Rightarrow> bytes \<Rightarrow> bytes \<Rightarrow> bytes \<Rightarrow> compact_window \<Rightarrow> compact_window" where
  "window_restore number first previous wid w = w\<lparr>cw_number := number, cw_first := (if first = [] then wid else first),
     cw_previous := previous, cw_id := wid\<rparr>"

text \<open>The identifier is what the generator gives.\<close>

definition window_advance :: "bytes \<Rightarrow> compact_window \<Rightarrow> compact_window" where
  "window_advance wid w = w\<lparr>cw_number := cw_number w + 1, cw_previous := cw_id w, cw_id := wid, cw_requested := False,
     cw_reminded := False, cw_fallback := False\<rparr>"

definition claim_fallback :: "compact_window \<Rightarrow> bool \<times> compact_window" where
  "claim_fallback w = (if cw_fallback w then (False, w) else (True, w\<lparr>cw_fallback := True\<rparr>))"

definition claim_reminder :: "compact_window \<Rightarrow> bool \<times> compact_window" where
  "claim_reminder w = (if cw_reminded w then (False, w) else (True, w\<lparr>cw_reminded := True\<rparr>))"

definition request_window :: "compact_window \<Rightarrow> compact_window" where
  "request_window w = w\<lparr>cw_requested := True\<rparr>"

definition take_window_request :: "compact_window \<Rightarrow> bool \<times> compact_window" where
  "take_window_request w = (cw_requested w, w\<lparr>cw_requested := False\<rparr>)"

definition clear_prefill :: "compact_window \<Rightarrow> compact_window" where
  "clear_prefill w = w\<lparr>cw_prefill := None, cw_observed := False\<rparr>"

definition set_estimated_prefill :: "int \<Rightarrow> compact_window \<Rightarrow> compact_window" where
  "set_estimated_prefill tokens w = (if cw_observed w then w else w\<lparr>cw_prefill := Some (max tokens 0)\<rparr>)"

definition observe_prefill :: "int \<Rightarrow> compact_window \<Rightarrow> compact_window" where
  "observe_prefill tokens w = (if cw_observed w then w else w\<lparr>cw_prefill := Some (max tokens 0), cw_observed := True\<rparr>)"

end
