(* ===== verification/Compact_Bounds.thy ===== *)
theory Compact_Bounds
  imports Compact_Run "HOL-Library.Sublist"
begin

text \<open>
  What compaction keeps within a budget: a cut message reads like the cut text, the user messages of a local
  compaction, the messages of a remote one, and a history that is cut for the request, whose bound does not hold.
\<close>

section \<open>Tokens\<close>

lemma segment_tokens_nonneg: "0 \<le> n \<Longrightarrow> 0 \<le> segment_tokens n"
  by (simp add: segment_tokens_def pos_imp_zdiv_nonneg_iff)

lemma count_tokens_nonneg: "0 \<le> n \<Longrightarrow> 0 \<le> count_tokens e n rs"
  by (induction e n rs rule: count_tokens.induct) (simp_all add: segment_tokens_nonneg)

lemma text_tokens_nonneg: "0 \<le> text_tokens e s"
  by (simp add: text_tokens_def Let_def count_tokens_nonneg)

lemma text_tokens_Nil [simp]: "text_tokens e [] = 0"
  by (simp add: text_tokens_def)

lemma text_tokens_trim [simp]: "text_tokens e (trim_space s) = text_tokens e s"
  by (simp add: text_tokens_def)

lemma search_tokens_fits:
  "text_tokens e (string_of_runes (take low rs)) \<le> m \<Longrightarrow>
     text_tokens e (string_of_runes (take (search_tokens e rs m low high) rs)) \<le> m"
proof (induction e rs m low high rule: search_tokens.induct)
  case (1 e rs m low high)
  show ?case
  proof (cases "low < high")
    case True
    define mid where "mid = low + (high - low + 1) div 2"
    show ?thesis
    proof (cases "text_tokens e (string_of_runes (take mid rs)) \<le> m")
      case fits: True
      have "search_tokens e rs m low high = search_tokens e rs m mid high"
        using True fits by (subst search_tokens.simps) (simp add: mid_def Let_def)
      then show ?thesis using "1.IH"(1) [OF True mid_def fits fits] by simp
    next
      case False
      have "search_tokens e rs m low high = search_tokens e rs m low (mid - 1)"
        using True False by (subst search_tokens.simps) (simp add: mid_def Let_def)
      then show ?thesis using "1.IH"(2) [OF True mid_def False "1.prems"] by simp
    qed
  next
    case False
    then show ?thesis using "1.prems" by (subst search_tokens.simps) simp
  qed
qed

lemma truncate_text_fits: "0 \<le> m \<Longrightarrow> text_tokens e (truncate_text_to_tokens e s m) \<le> m"
  by (simp add: truncate_text_to_tokens_def Let_def search_tokens_fits)

section \<open>A cut message reads like the cut text\<close>

abbreviation parts_text :: "(content_part \<times> bytes) list \<Rightarrow> bytes" where
  "parts_text parts \<equiv> concat (map (\<lambda>p. pt_text (fst p)) parts)"

lemma new_part_text [simp]: "pt_text (new_part k t) = t"
  by (simp add: new_part_def)

lemma cut_parts_before:
  "start + int (length (parts_text parts)) \<le> tt_removed_start t \<Longrightarrow> cut_parts t pending start parts = parts"
  by (induction parts arbitrary: start) (auto simp: Let_def)

lemma cut_parts_after: "tt_removed_end t \<le> start \<Longrightarrow> cut_parts t pending start parts = parts"
  by (induction parts arbitrary: start) (auto simp: Let_def)

text \<open>Once the marker stands, the rest of what is removed goes.\<close>

lemma cut_parts_inside:
  assumes "tt_removed_start t \<le> start" and "start \<le> tt_removed_end t"
    and "tt_removed_end t \<le> start + int (length (parts_text parts))"
  shows "parts_text (cut_parts t False start parts) = drop (nat (tt_removed_end t - start)) (parts_text parts)"
  using assms
proof (induction parts arbitrary: start)
  case (Cons p rest)
  obtain part kind where p: "p = (part, kind)" by (cases p)
  define len where "len = int (length (pt_text part))"
  show ?case
  proof (cases "start + len \<le> tt_removed_start t \<or> tt_removed_end t \<le> start")
    case True
    then have "len \<le> 0 \<or> tt_removed_end t \<le> start" using Cons.prems(1) by linarith
    then have "pt_text part = [] \<or> tt_removed_end t \<le> start" by (simp add: len_def)
    then show ?thesis
    proof
      assume empty: "pt_text part = []"
      then have "parts_text (cut_parts t False start rest) = drop (nat (tt_removed_end t - start)) (parts_text rest)"
        using Cons.IH [of start] Cons.prems p by simp
      moreover have "len = 0" using empty by (simp add: len_def)
      ultimately show ?thesis using True empty p Cons.prems by (auto simp: len_def Let_def)
    next
      assume "tt_removed_end t \<le> start"
      then show ?thesis using cut_parts_after [of t start] by simp
    qed
  next
    case False
    show ?thesis
    proof (cases "tt_removed_end t \<le> start + len")
      case True
      have after: "cut_parts t False (start + len) rest = rest" by (rule cut_parts_after) (rule True)
      have "nat (tt_removed_end t - start) \<le> length (pt_text part)" using True by (simp add: len_def)
      then show ?thesis using False True Cons.prems p after by (auto simp: Let_def len_def)
    next
      case more: False
      have "parts_text (cut_parts t False (start + len) rest) = drop (nat (tt_removed_end t - (start + len))) (parts_text rest)"
        using Cons.IH [of "start + len"] Cons.prems more p by (simp add: len_def)
      moreover have "nat (tt_removed_end t - (start + len)) = nat (tt_removed_end t - start) - length (pt_text part)"
        by (simp add: len_def)
      moreover have "length (pt_text part) \<le> nat (tt_removed_end t - start)" using more by (simp add: len_def)
      ultimately show ?thesis using False more Cons.prems p by (auto simp: Let_def len_def)
    qed
  qed
qed simp

lemma cut_parts_text:
  assumes "start \<le> tt_removed_start t" and "tt_removed_start t < tt_removed_end t"
    and "tt_removed_end t \<le> start + int (length (parts_text parts))"
  shows "parts_text (cut_parts t True start parts) =
    take (nat (tt_removed_start t - start)) (parts_text parts) @ tt_marker t @ drop (nat (tt_removed_end t - start)) (parts_text parts)"
  using assms
proof (induction parts arbitrary: start)
  case (Cons p rest)
  obtain part kind where p: "p = (part, kind)" by (cases p)
  define len where "len = int (length (pt_text part))"
  show ?case
  proof (cases "start + len \<le> tt_removed_start t")
    case True
    have "parts_text (cut_parts t True (start + len) rest) =
        take (nat (tt_removed_start t - (start + len))) (parts_text rest) @ tt_marker t @
        drop (nat (tt_removed_end t - (start + len))) (parts_text rest)"
      using Cons.IH [of "start + len"] Cons.prems True p by (simp add: len_def)
    moreover have "nat (tt_removed_start t - (start + len)) = nat (tt_removed_start t - start) - length (pt_text part)"
      "nat (tt_removed_end t - (start + len)) = nat (tt_removed_end t - start) - length (pt_text part)"
      by (simp_all add: len_def)
    moreover have "length (pt_text part) \<le> nat (tt_removed_start t - start)" "length (pt_text part) \<le> nat (tt_removed_end t - start)"
      using True Cons.prems by (simp_all add: len_def)
    ultimately show ?thesis using True p by (simp add: Let_def len_def)
  next
    case False
    have ends: "max 0 (tt_removed_start t - start) = tt_removed_start t - start" using Cons.prems by simp
    have overlap: "\<not> (start + len \<le> tt_removed_start t \<or> tt_removed_end t \<le> start)" using False Cons.prems by auto
    have start_in: "nat (tt_removed_start t - start) \<le> length (pt_text part)" using False by (simp add: len_def)
    show ?thesis
    proof (cases "tt_removed_end t \<le> start + len")
      case True
      have after: "cut_parts t False (start + len) rest = rest" by (rule cut_parts_after) (rule True)
      have "nat (tt_removed_end t - start) \<le> length (pt_text part)" using True by (simp add: len_def)
      then show ?thesis using overlap True Cons.prems p after start_in by (auto simp: Let_def len_def ends)
    next
      case more: False
      have "parts_text (cut_parts t False (start + len) rest) = drop (nat (tt_removed_end t - (start + len))) (parts_text rest)"
        using cut_parts_inside [of t "start + len" rest] Cons.prems False more p by (simp add: len_def)
      moreover have "nat (tt_removed_end t - (start + len)) = nat (tt_removed_end t - start) - length (pt_text part)"
        by (simp add: len_def)
      moreover have "length (pt_text part) \<le> nat (tt_removed_end t - start)" using more by (simp add: len_def)
      ultimately show ?thesis using overlap more Cons.prems p start_in by (auto simp: Let_def len_def ends)
    qed
  qed
qed simp

lemma floor_scan_le: "floor_scan s i \<le> i"
  by (induction s i rule: floor_scan.induct) auto

lemma floor_char_range: "0 \<le> floor_char_boundary s i \<and> floor_char_boundary s i \<le> max 0 i"
  using floor_scan_le [of s "nat i"] by (auto simp: floor_char_boundary_def)

lemma ceil_char_range:
  "i \<le> int (length s) \<Longrightarrow> i \<le> ceil_char_boundary s i \<and> ceil_char_boundary s i \<le> int (length s)"
  using length_takeWhile_le [of "\<lambda>c. \<not> rune_start c" "drop (nat i) s"]
  by (auto simp: ceil_char_boundary_def)

lemma plan_range:
  assumes "plan_token_truncation s m = Some t" and "0 \<le> m" and "m < 2 ^ 61"
  shows "0 \<le> tt_removed_start t" and "tt_removed_start t < tt_removed_end t" and "tt_removed_end t \<le> int (length s)"
proof -
  define b where "b = approx_bytes_for_tokens m"
  have b: "0 \<le> b" using assms(2,3) by (auto simp: b_def approx_bytes_for_tokens_def wrap_int_def)
  have long: "b < int (length s)" using assms(1) by (auto simp: plan_token_truncation_def b_def Let_def split: if_splits)
  obtain left right where split: "split_budget b = (left, right)" by fastforce
  have ends: "0 \<le> left" "0 \<le> right" "left + right = b" using split b by (auto simp: split_budget_def split: if_splits)
  have t: "tt_removed_start t = floor_char_boundary s left" "tt_removed_end t = ceil_char_boundary s (int (length s) - right)"
    using assms(1) long split by (auto simp: plan_token_truncation_def b_def Let_def split: if_splits)
  have start: "0 \<le> tt_removed_start t" "tt_removed_start t \<le> left" using floor_char_range [of s left] ends by (auto simp: t)
  have stop: "int (length s) - right \<le> tt_removed_end t" "tt_removed_end t \<le> int (length s)"
    using ceil_char_range [of "int (length s) - right" s] ends by (auto simp: t)
  show "0 \<le> tt_removed_start t" "tt_removed_start t < tt_removed_end t" "tt_removed_end t \<le> int (length s)"
    using start stop long ends by linarith+
qed

definition annotated_slice :: "(content_part \<times> bytes) list \<Rightarrow> content_part \<times> bytes \<Rightarrow> bool" where
  "annotated_slice parts p \<longleftrightarrow>
     list_ex (\<lambda>q. pt_type (fst p) = pt_type (fst q) \<and> snd p = snd q \<and> sublist (pt_text (fst p)) (pt_text (fst q))) parts \<or>
     pt_type (fst p) = ''input_text'' \<and> snd p = unknown_kind"

lemma annotated_slice_Cons: "annotated_slice parts p \<Longrightarrow> annotated_slice (q # parts) p"
  by (auto simp: annotated_slice_def)

lemma annotated_slice_hd:
  "sublist text (pt_text part) \<Longrightarrow> pt_type p = pt_type part \<Longrightarrow> pt_text p = text \<Longrightarrow> annotated_slice ((part, kind) # parts) (p, kind)"
  by (simp add: annotated_slice_def)

lemma new_part_type [simp]: "pt_type (new_part k t) = k"
  by (simp add: new_part_def)

lemma cut_parts_annotated: "list_all (annotated_slice parts) (cut_parts t pending start parts)"
proof (induction t pending start parts rule: cut_parts.induct)
  case (2 t pending start part kind rest)
  have weaken: "list_all (annotated_slice rest) ps \<Longrightarrow> list_all (annotated_slice ((part, kind) # rest)) ps" for ps
    by (auto simp: list_all_iff intro: annotated_slice_Cons)
  have own: "annotated_slice ((part, kind) # rest) (part, kind)" by (rule annotated_slice_hd) simp_all
  have prefix: "annotated_slice ((part, kind) # rest) (new_part (pt_type part) (take n (pt_text part)), kind)"
    and suffix: "annotated_slice ((part, kind) # rest) (new_part (pt_type part) (drop n (pt_text part)), kind)" for n
    by (rule annotated_slice_hd [OF sublist_take] annotated_slice_hd [OF sublist_drop], simp_all)+
  have notice: "annotated_slice ((part, kind) # rest) (new_part ''input_text'' marker, unknown_kind)" for marker
    by (simp add: annotated_slice_def)
  show ?case using weaken [OF "2.IH"(1)] weaken [OF "2.IH"(2)] own prefix suffix notice by (simp add: Let_def)
qed simp


section \<open>The user messages of a local compaction\<close>

lemma message_tokens_pos: "0 < message_tokens e item"
  by (simp add: message_tokens_def)

text \<open>The loop keeps whole messages from the newest on and shortens the first that does not go whole.\<close>

definition kept_whole :: "compact_env \<Rightarrow> int \<Rightarrow> history_item list \<Rightarrow> bool" where
  "kept_whole e budget whole \<longleftrightarrow> sum_list (map (message_tokens e) whole) \<le> budget \<and>
     list_all (\<lambda>i. parts_are_text e (hi_content i)) whole"

lemma user_loop_split:
  "0 \<le> budget \<Longrightarrow> \<exists>n \<le> length items. kept_whole e budget (take n items) \<and>
     user_loop e budget items = take n items @
       (case drop n items of [] \<Rightarrow> [] | next # _ \<Rightarrow> [shortened_message e (budget - sum_list (map (message_tokens e) (take n items))) next]) \<and>
     (case drop n items of [] \<Rightarrow> True | next # _ \<Rightarrow> \<not> kept_whole e budget (next # take n items))"
proof (induction items arbitrary: budget)
  case (Cons item older)
  show ?case
  proof (cases "message_tokens e item \<le> budget \<and> parts_are_text e (hi_content item)")
    case True
    then obtain n where n: "n \<le> length older" "kept_whole e (budget - message_tokens e item) (take n older)"
      "user_loop e (budget - message_tokens e item) older = take n older @ (case drop n older of [] \<Rightarrow> []
         | next # _ \<Rightarrow> [shortened_message e (budget - message_tokens e item - sum_list (map (message_tokens e) (take n older))) next])"
      "case drop n older of [] \<Rightarrow> True | next # _ \<Rightarrow> \<not> kept_whole e (budget - message_tokens e item) (next # take n older)"
      using Cons.IH [of "budget - message_tokens e item"] by auto
    show ?thesis
      by (rule exI [of _ "Suc n"], use True n in \<open>auto simp: kept_whole_def algebra_simps split: list.splits\<close>)
  next
    case False
    show ?thesis
      by (rule exI [of _ 0], use False Cons.prems in \<open>auto simp: kept_whole_def\<close>)
  qed
qed (simp add: kept_whole_def)

lemma sum_map_rev: "sum_list (map f (rev xs)) = (sum_list (map f xs) :: int)"
  by (simp add: rev_map [symmetric])

lemma kept_whole_rev: "kept_whole e budget (rev whole) \<longleftrightarrow> kept_whole e budget whole"
  by (simp add: kept_whole_def sum_map_rev list_all_iff)

lemma kept_whole_snoc: "kept_whole e budget (whole @ [x]) \<longleftrightarrow> kept_whole e budget (x # whole)"
  by (auto simp: kept_whole_def list_all_iff algebra_simps)

text \<open>C19: a local compaction keeps the newest user messages that fit the budget together, whole and in order, and of
  the next older one, which does not fit or has media, a shortened form; nothing older.\<close>

theorem user_messages_newest_first:
  "let candidates = filter is_user_candidate items; kept = retained_user_messages e items max_tokens in
   if max_tokens \<le> 0 then kept = []
   else \<exists>n. n \<le> length candidates \<and> kept_whole e max_tokens (drop n candidates) \<and>
     (if n = 0 then kept = candidates
      else kept = shortened_message e (max_tokens - sum_list (map (message_tokens e) (drop n candidates))) (candidates ! (n - 1))
              # drop n candidates \<and>
           \<not> kept_whole e max_tokens (candidates ! (n - 1) # drop n candidates))"
proof -
  define cs where "cs = filter is_user_candidate items"
  have "\<exists>n. n \<le> length cs \<and> kept_whole e max_tokens (drop n cs) \<and>
     (if n = 0 then retained_user_messages e items max_tokens = cs
      else retained_user_messages e items max_tokens =
             shortened_message e (max_tokens - sum_list (map (message_tokens e) (drop n cs))) (cs ! (n - 1)) # drop n cs \<and>
           \<not> kept_whole e max_tokens (cs ! (n - 1) # drop n cs))" if pos: "\<not> max_tokens \<le> 0"
  proof -
    obtain k where k: "k \<le> length cs" "kept_whole e max_tokens (take k (rev cs))"
      "user_loop e max_tokens (rev cs) = take k (rev cs) @ (case drop k (rev cs) of [] \<Rightarrow> []
         | next # _ \<Rightarrow> [shortened_message e (max_tokens - sum_list (map (message_tokens e) (take k (rev cs)))) next])"
      "case drop k (rev cs) of [] \<Rightarrow> True | next # _ \<Rightarrow> \<not> kept_whole e max_tokens (next # take k (rev cs))"
      using user_loop_split [of max_tokens "rev cs" e] pos by auto
    define n where "n = length cs - k"
    have take: "take k (rev cs) = rev (drop n cs)" by (simp add: n_def take_rev)
    have kept: "retained_user_messages e items max_tokens = rev (user_loop e max_tokens (rev cs))"
      using pos by (simp add: retained_user_messages_def cs_def)
    show ?thesis
    proof (cases "n = 0")
      case True
      then have "drop k (rev cs) = []" using k(1) by (simp add: n_def)
      then show ?thesis using k(2,3) True take kept by (auto simp: kept_whole_rev intro!: exI [of _ 0])
    next
      case False
      then have "k < length (rev cs)" by (simp add: n_def)
      then have drop: "drop k (rev cs) = rev cs ! k # drop (Suc k) (rev cs)" by (rule Cons_nth_drop_Suc [symmetric])
      have older: "rev cs ! k = cs ! (n - 1)" using False by (simp add: n_def rev_nth)
      have "\<not> kept_whole e max_tokens (cs ! (n - 1) # rev (drop n cs))" using k(4) by (simp add: drop older take)
      then have "\<not> kept_whole e max_tokens (cs ! (n - 1) # drop n cs)"
        by (simp add: kept_whole_def sum_map_rev list_all_iff)
      then show ?thesis
        using k(2,3) False take kept by (intro exI [of _ n]) (simp add: drop older kept_whole_rev sum_map_rev n_def)
    qed
  qed
  note main = this
  show ?thesis
  proof (cases "max_tokens \<le> 0")
    case True
    then show ?thesis by (simp add: retained_user_messages_def)
  next
    case False
    show ?thesis unfolding Let_def cs_def [symmetric] using main [OF False] False by (simp only: if_False)
  qed
qed

section \<open>The messages of a remote compaction\<close>

lemma part_kind_text [simp]: "part_kind e (part\<lparr>pt_text := t\<rparr>) = part_kind e part"
  by (simp add: part_kind_def)

lemma media_group_media: "media_group e (part # before) = 0 \<Longrightarrow> \<not> is_media_part e part"
  by (auto simp: media_group_def Let_def split: list.splits if_splits)

lemma media_loop_tokens: "sum_list (map (part_tokens e c d) (media_loop e c d remaining parts)) \<le> max 0 remaining"
proof (induction e c d remaining parts rule: media_loop.induct)
  case (1 e c d remaining parts)
  show ?case
  proof (cases "remaining \<le> 0 \<or> parts = []")
    case True
    then show ?thesis by (subst media_loop.simps) (auto split: list.split)
  next
    case False
    then obtain part before where parts: "parts = part # before" by (cases parts) auto
    have pos: "\<not> remaining \<le> 0" using False by simp
    define g where "g = media_group e parts"
    show ?thesis
    proof (cases "0 < g")
      case True
      define tokens where "tokens = sum_list (map (part_tokens e c d) (take g parts))"
      show ?thesis
      proof (cases "remaining < tokens")
        case more: True
        then show ?thesis using pos True parts by (subst media_loop.simps) (simp add: g_def tokens_def Let_def)
      next
        case fits: False
        have "media_loop e c d remaining parts = take g parts @ media_loop e c d (remaining - tokens) (drop g parts)"
          using pos True parts fits by (subst media_loop.simps) (simp add: g_def tokens_def Let_def)
        then show ?thesis
          using "1.IH"(1) [OF pos parts g_def True tokens_def fits] fits by (simp add: tokens_def)
      qed
    next
      case no_group: False
      then have media: "\<not> is_media_part e part" using media_group_media by (simp add: g_def parts)
      show ?thesis
      proof (cases "text_kind (part_kind e part)")
        case True
        define tokens where "tokens = text_tokens e (pt_text part)"
        define part' where "part' = (if tokens \<le> remaining then part else part\<lparr>pt_text := truncate_text_to_tokens e (pt_text part) remaining\<rparr>)"
        define remaining' where "remaining' = (if tokens \<le> remaining then remaining - tokens else 0)"
        have eq: "media_loop e c d remaining parts = (if pt_text part' \<noteq> [] then [part'] else []) @ media_loop e c d remaining' before"
          using pos no_group parts True
          by (subst media_loop.simps) (simp only: g_def tokens_def part'_def remaining'_def Let_def if_False if_True list.case)
        have own: "part_tokens e c d part' = text_tokens e (pt_text part')" using True by (simp add: part_tokens_def part'_def Let_def)
        have "text_tokens e (pt_text part') + remaining' \<le> remaining" "0 \<le> remaining'"
          using pos truncate_text_fits [of remaining e "pt_text part"] by (auto simp: part'_def remaining'_def tokens_def)
        then show ?thesis
          using "1.IH"(2) [OF pos parts g_def no_group True tokens_def part'_def remaining'_def] pos own text_tokens_nonneg [of e "pt_text part'"]
          by (simp add: eq)
      next
        case other: False
        have eq: "media_loop e c d remaining parts = part # media_loop e c d remaining before"
          using pos no_group parts other by (subst media_loop.simps) (simp add: g_def Let_def)
        have "part_tokens e c d part = 0" using other media by (simp add: part_tokens_def is_media_part_def Let_def)
        then show ?thesis using "1.IH"(3) [OF pos parts g_def no_group other] by (simp add: eq)
      qed
    qed
  qed
qed

lemma subseq_reverse: "subseq xs ys \<Longrightarrow> subseq (rev xs) (rev ys)"
  by (induction rule: list_emb.induct) (simp_all add: subseq_rev_drop_many)

text \<open>What is left of a message that is cut: who it is from, and its charge within the budget that was left.\<close>

definition cut_tokens :: "compact_env \<Rightarrow> bool \<Rightarrow> audio_durations \<Rightarrow> history_item \<Rightarrow> int" where
  "cut_tokens e charge durations c =
     (if hi_content c = [] then text_tokens e (item_text c) else sum_list (map (part_tokens e charge durations) (hi_content c)))"

definition cut_from ::
  "compact_env \<Rightarrow> retention_policy \<Rightarrow> audio_durations \<Rightarrow> int \<Rightarrow> history_item \<times> history_item \<Rightarrow> bool" where
  "cut_from e policy durations budget = (\<lambda>(whole, c).
     hi_id c = hi_id whole \<and> hi_type c = hi_type whole \<and> hi_role c = hi_role whole \<and> hi_kind c = hi_kind whole \<and>
     hi_sequence c = hi_sequence whole \<and> budget < retained_cost e policy durations whole \<and>
     cut_tokens e (charge_images policy whole) durations c \<le> budget)"

lemma truncate_with_media_cut:
  assumes "truncate_with_media e item m charge durations = Some c"
  shows "hi_id c = hi_id item \<and> hi_type c = hi_type item \<and> hi_role c = hi_role item \<and> hi_kind c = hi_kind item \<and>
    hi_sequence c = hi_sequence item \<and> cut_tokens e charge durations c \<le> m"
  using assms media_loop_tokens [of e charge durations m "rev (hi_content item)"]
  by (auto simp: truncate_with_media_def cut_tokens_def Let_def sum_map_rev split: if_splits)

definition text_cut :: "compact_env \<Rightarrow> int \<Rightarrow> history_item \<Rightarrow> history_item" where
  "text_cut e m item =
     item\<lparr>hi_text := truncate_text_to_tokens e (item_text item) m, hi_content := [], hi_data := [], hi_raw := []\<rparr>"

lemma text_cut_from:
  assumes "0 \<le> m" and "trim_space (truncate_text_to_tokens e (item_text item) m) \<noteq> []" and "m < retained_cost e policy durations item"
  shows "cut_from e policy durations m (item, text_cut e m item)"
  using truncate_text_fits [OF assms(1), of e "item_text item"] assms(2,3)
  by (simp add: cut_from_def cut_tokens_def item_text_def text_cut_def)

text \<open>A message that is cut carries no harness metadata any more: one that a client authored is kept this time and not
  the next.\<close>

lemma text_cut_not_authored: "\<not> is_client_authored (text_cut e m item)"
  by (simp add: is_client_authored_def item_harness_metadata_def text_cut_def)

lemma retain_loop_split:
  "0 \<le> remaining \<Longrightarrow> \<exists>whole cut. retain_loop e policy durations remaining items = whole @ map snd cut \<and> length cut \<le> 1 \<and>
     subseq (whole @ map fst cut) items \<and> sum_list (map (retained_cost e policy durations) whole) \<le> remaining \<and>
     list_all (cut_from e policy durations (remaining - sum_list (map (retained_cost e policy durations) whole))) cut"
proof (induction items arbitrary: remaining)
  case Nil
  then show ?case by (intro exI [of _ "[]"]) simp
next
  case (Cons item older)
  have none: ?case if "retain_loop e policy durations remaining (item # older) = []"
    using Cons.prems that by (intro exI [of _ "[]"]) simp
  have single: ?case if "retain_loop e policy durations remaining (item # older) = [c]" "cut_from e policy durations remaining (item, c)" for c
    using Cons.prems that by (intro exI [of _ "[]"] exI [of _ "[(item, c)]"]) simp
  show ?case
  proof (cases "remaining \<le> 0")
    case True
    then show ?thesis by (intro none) simp
  next
    case False
    define cost where "cost = retained_cost e policy durations item"
    show ?thesis
    proof (cases "cost \<le> remaining")
      case True
      then obtain whole cut where "retain_loop e policy durations (remaining - cost) older = whole @ map snd cut" "length cut \<le> 1"
        "subseq (whole @ map fst cut) older" "sum_list (map (retained_cost e policy durations) whole) \<le> remaining - cost"
        "list_all (cut_from e policy durations (remaining - cost - sum_list (map (retained_cost e policy durations) whole))) cut"
        using Cons.IH [of "remaining - cost"] by auto
      then show ?thesis
        using True False
        by (intro exI [of _ "item # whole"] exI [of _ cut]) (simp add: cost_def algebra_simps)
    next
      case more: False
      show ?thesis
      proof (cases "is_retained_tool_output item")
        case True
        then show ?thesis using more by (intro none) (simp add: cost_def)
      next
        case no_output: False
        show ?thesis
        proof (cases "is_structured_agent_message item")
          case True
          then have "retain_loop e policy durations remaining (item # older) = retain_loop e policy durations remaining older"
            using more False no_output by (simp add: cost_def)
          then show ?thesis using Cons.IH [OF Cons.prems] by (metis list_emb_Cons)
        next
          case no_agent: False
          show ?thesis
          proof (cases "requires_media_boundary e (charge_images policy item) item")
            case True
            show ?thesis
            proof (cases "truncate_with_media e item remaining (charge_images policy item) durations")
              case None
              then show ?thesis using more True no_output no_agent by (intro none) (simp add: cost_def)
            next
              case (Some c)
              then show ?thesis using more True no_output no_agent False truncate_with_media_cut [OF Some]
                by (intro single [of c]) (simp_all add: cost_def cut_from_def)
            qed
          next
            case no_media: False
            show ?thesis
            proof (cases "trim_space (truncate_text_to_tokens e (item_text item) remaining) = []")
              case True
              then show ?thesis using more no_media no_output no_agent by (intro none) (simp add: cost_def Let_def)
            next
              case shown: False
              then show ?thesis
                using more no_media no_output no_agent False text_cut_from [OF Cons.prems shown]
                by (intro single [of "text_cut e remaining item"]) (simp_all add: cost_def Let_def text_cut_def)
            qed
          qed
        qed
      qed
    qed
  qed
qed

text \<open>C18: what a remote compaction retains is, in the order of the history, items that stay whole and before them at
  most one that is cut; the whole ones cost at most the budget, and the cut one, whose original does not fit, at most
  what they leave.\<close>

theorem retained_within_budget:
  "\<exists>cut whole. retained_messages e items max_tokens policy durations = map snd cut @ whole \<and> length cut \<le> 1 \<and>
     subseq (map fst cut @ whole) (filter (retained_candidate e policy (pending_mail_sequence items)) items) \<and>
     sum_list (map (retained_cost e policy durations) whole) \<le> max 0 max_tokens \<and>
     list_all (cut_from e policy durations (max 0 max_tokens - sum_list (map (retained_cost e policy durations) whole))) cut"
proof (cases "max_tokens \<le> 0")
  case True
  then show ?thesis by (intro exI [of _ "[]"]) (simp add: retained_messages_def)
next
  case False
  define cs where "cs = filter (retained_candidate e policy (pending_mail_sequence items)) items"
  obtain whole cut where loop: "retain_loop e policy durations max_tokens (rev cs) = whole @ map snd cut" "length cut \<le> 1"
    "subseq (whole @ map fst cut) (rev cs)" "sum_list (map (retained_cost e policy durations) whole) \<le> max_tokens"
    "list_all (cut_from e policy durations (max_tokens - sum_list (map (retained_cost e policy durations) whole))) cut"
    using retain_loop_split [of max_tokens e policy durations "rev cs"] False by auto
  have one: "rev (map f cut) = map f cut" for f :: "history_item \<times> history_item \<Rightarrow> history_item"
    using loop(2) by (cases cut) auto
  have "subseq (map fst cut @ rev whole) cs"
    using subseq_reverse [OF loop(3)] one [of fst] by (simp add: rev_map [symmetric])
  then show ?thesis
    using loop False one [of snd]
    by (intro exI [of _ cut] exI [of _ "rev whole"]) (simp add: retained_messages_def cs_def sum_map_rev)
qed

section \<open>A history cut to a budget\<close>

text \<open>A message of words of twelve letters: one token each where texts are cut, and three and a quarter where items are
  charged.\<close>

definition letters :: bytes where "letters = ''aaaaaaaaaaaa''"

definition words_message :: "nat \<Rightarrow> history_item" where
  "words_message m = new_item\<lparr>hi_type := ''message'', hi_role := ''user'', hi_text := concat (replicate m (letters @ '' '')) @ letters\<rparr>"

lemma words_trim: "trim_space (concat (replicate m (letters @ '' '')) @ letters) = concat (replicate m (letters @ '' '')) @ letters"
proof (rule trim_space_id)
  have snoc: "concat (replicate m (letters @ '' '')) @ letters = (concat (replicate m (letters @ '' '')) @ ''aaaaaaaaaaa'') @ [CHR ''a'']"
    by (simp add: letters_def)
  show "trailing_space (concat (replicate m (letters @ '' '')) @ letters) = None"
    unfolding snoc by (rule trailing_space_graphic) (simp add: ascii_graphic_def)
  have "\<exists>s. concat (replicate m (letters @ '' '')) @ letters = CHR ''a'' # s" by (cases m) (simp_all add: letters_def)
  then show "leading_space (concat (replicate m (letters @ '' '')) @ letters) = None"
    using leading_space_graphic [of "CHR ''a''"] by (auto simp: ascii_graphic_def)
qed

lemma words_runes:
  "string_runes (concat (replicate m (letters @ '' '')) @ letters) =
     concat (replicate m (map of_char letters @ [32])) @ map of_char letters"
proof -
  have codes: "map of_char (concat (replicate m (letters @ '' '')) @ letters) =
      (concat (replicate m (map of_char letters @ [32])) @ map of_char letters :: nat list)"
    by (simp add: map_concat)
  moreover have "b < 0x80" if "b \<in> set (concat (replicate m (map of_char letters @ [32])) @ map of_char letters :: nat list)" for b
    using that by (auto simp: letters_def split: if_splits)
  ultimately show ?thesis using runes_of_ascii unfolding string_runes_def codes by blast
qed

lemma words_count:
  assumes "\<not> ce_wide e 97" and "\<not> ce_mark e 97"
  shows "count_tokens e 0 (concat (replicate m (map of_char letters @ [32])) @ map of_char letters) = int m + 1"
proof (induction m)
  case 0
  show ?case using assms by (simp add: letters_def space_rune_def segment_tokens_def)
next
  case (Suc m)
  have "count_tokens e 0 (map of_char letters @ 32 # rest) = 1 + count_tokens e 0 rest" for rest
    using assms by (simp add: letters_def space_rune_def segment_tokens_def)
  then show ?case using Suc by simp
qed

lemma words_tokens:
  assumes "\<not> ce_wide e 97" and "\<not> ce_mark e 97"
  shows "text_tokens e (concat (replicate m (letters @ '' '')) @ letters) = int m + 1"
proof -
  have "concat (replicate m (letters @ '' '')) @ letters \<noteq> []" by (simp add: letters_def)
  then show ?thesis using words_count [OF assms] by (simp only: text_tokens_def words_trim words_runes Let_def if_False)
qed

lemma message_folded [simp]: "folded e ''message'' = ''message''"
proof -
  have "trim_space ''message'' = ''message''" by code_simp
  then show ?thesis by (simp add: folded_def to_lower_def is_ascii_def ascii_lower_def)
qed

lemma plain_message_tokens:
  "hi_type item = ''message'' \<Longrightarrow> hi_content item = [] \<Longrightarrow>
     item_tokens e item = tokens_from_bytes (int (length (trim_space (item_text item))))"
proof -
  have "trim_space ''message'' = ''message''" by code_simp
  then show "hi_type item = ''message'' \<Longrightarrow> hi_content item = [] \<Longrightarrow> ?thesis"
    by (simp add: item_tokens_def item_tokens_with_def typed_tokens_def is_structured_agent_message_def folds_to_def
        item_content_bytes_def text_length_def)
qed

text \<open>C40: a history that is cut for a request may cost more than three times its budget: the text of a message is cut
  by another measure than the one that charges it.\<close>

theorem trimmed_history_exceeds:
  assumes "\<not> ce_wide e 97" and "\<not> ce_mark e 97"
  shows "history_tokens e (trim_history e [words_message m] (int m + 1)) = (13 * int m + 15) div 4 \<and>
    int m + 1 < (13 * int m + 15) div 4"
proof -
  define t where "t = concat (replicate m (letters @ '' '')) @ letters"
  have len: "int (length t) = 13 * int m + 12" unfolding t_def by (induction m) (simp_all add: letters_def)
  have trim: "trim_space t = t" unfolding t_def by (rule words_trim)
  have tokens: "text_tokens e t = int m + 1" unfolding t_def by (rule words_tokens [OF assms])
  have nonempty: "t \<noteq> []" by (simp add: t_def letters_def)
  have shown: "item_text i = t" if "hi_text i = t" for i using that trim nonempty by (simp add: item_text_def)
  have words: "hi_text (words_message m) = t" "hi_type (words_message m) = ''message''" "hi_content (words_message m) = []"
    by (simp_all add: words_message_def new_item_def t_def)
  have cost: "item_tokens e i = (13 * int m + 15) div 4" if "hi_text i = t" "hi_type i = ''message''" "hi_content i = []" for i
    using plain_message_tokens [OF that(2,3), of e] shown [OF that(1)] trim len by (simp add: tokens_from_bytes_def)
  have "13 * int m + 12 \<le> 4 * ((13 * int m + 15) div 4)"
    using minus_mod_eq_mult_div [of "13 * int m + 15" 4] pos_mod_bound [of 4 "13 * int m + 15"] by linarith
  then have more: "int m + 1 < (13 * int m + 15) div 4" by linarith
  have cut: "truncate_text_to_tokens e t (int m + 1) = t" using tokens by (simp add: truncate_text_to_tokens_def trim)
  define c where "c = (words_message m)\<lparr>hi_raw := [], hi_text := t,
    hi_data := AList.update ''content_item_kinds'' (AnyTexts [unknown_kind]) (hi_data (words_message m))\<rparr>"
  have "trim_item e (words_message m) (int m + 1) = Some c"
    using words cut nonempty shown [OF words(1)] by (simp add: trim_item_def c_def)
  moreover have "\<not> is_structured_agent_message (words_message m)" using words by (simp add: is_structured_agent_message_def)
  ultimately have "trim_history e [words_message m] (int m + 1) = [c]"
    using cost [OF words] more by (simp add: trim_history_def Let_def)
  moreover have "item_tokens e c = (13 * int m + 15) div 4" using words by (intro cost) (simp_all add: c_def)
  ultimately show ?thesis using more by (simp add: history_tokens_def)
qed

section \<open>Examples\<close>


theorem trimmed_history_exceeds_witness:
  "history_tokens plain_env (trim_history plain_env [words_message 1] 2) = 7"
  using trimmed_history_exceeds [of plain_env 1] by (simp add: plain_env_def)

end
