(* ===== verification/Compact_Order.thy ===== *)
theory Compact_Order
  imports Compact_Run
begin

text \<open>
  Where compaction puts things: the summary before the mail that was not sampled, items that came while it ran, the
  context, and the outputs that give way to a notice; what is charged for the tokens in use; the notices of a window.
\<close>

section \<open>The last position\<close>

lemma last_index_None: "last_index test xs = None \<longleftrightarrow> \<not> list_ex test xs"
  by (simp add: last_index_def)

lemma last_index_split:
  assumes "last_index test xs = Some i"
  shows "i < length xs \<and> test (xs ! i) \<and> list_all (\<lambda>x. \<not> test x) (drop (i + 1) xs)"
proof -
  define k where "k = length (takeWhile (\<lambda>x. \<not> test x) (rev xs))"
  have "list_ex test (rev xs)" and i: "i = length xs - 1 - k"
    using assms by (auto simp: last_index_def k_def list_ex_iff split: if_splits)
  then have "takeWhile (\<lambda>x. \<not> test x) (rev xs) \<noteq> rev xs" by (auto simp: takeWhile_eq_all_conv list_ex_iff)
  then have k: "k < length (rev xs)" unfolding k_def by (metis not_less takeWhile_eq_take take_all)
  have "test (rev xs ! k)" using nth_length_takeWhile [of "\<lambda>x. \<not> test x" "rev xs"] k by (simp add: k_def)
  then have here: "test (xs ! i)" using k by (simp add: rev_nth i)
  have "take k (rev xs) = takeWhile (\<lambda>x. \<not> test x) (rev xs)" unfolding k_def by (metis takeWhile_eq_take)
  moreover have "take k (rev xs) = rev (drop (i + 1) xs)" using k by (simp add: take_rev i Suc_diff_Suc)
  ultimately have "rev (drop (i + 1) xs) = takeWhile (\<lambda>x. \<not> test x) (rev xs)" by simp
  then have "list_all (\<lambda>x. \<not> test x) (rev (drop (i + 1) xs))" by (auto simp: list_all_iff dest: set_takeWhileD)
  then show ?thesis using here k i by (auto simp: list_all_iff)
qed

section \<open>The summary and the mail\<close>

lemma pending_after_sampled: "pending_mail_sequence items = Some first \<Longrightarrow> sampled_through items < first"
  by (auto simp: pending_mail_sequence_def find_Some_iff)

lemma insert_before_pending_split:
  assumes "inserted \<noteq> []"
  shows "\<exists>before after. insert_before_pending (sort_by_sequence items) inserted (Some first) = before @ inserted @ after \<and>
    sort_by_sequence items = before @ after \<and>
    list_all (\<lambda>i. hi_sequence i < first) before \<and> list_all (\<lambda>i. first \<le> hi_sequence i) after"
proof -
  define xs where "xs = sort_by_sequence items"
  define before where "before = takeWhile (\<lambda>i. hi_sequence i < first) xs"
  define after where "after = dropWhile (\<lambda>i. hi_sequence i < first) xs"
  have "sorted (map hi_sequence xs)" by (simp add: xs_def sort_by_sequence_def)
  then have "sorted (map hi_sequence after)" unfolding after_def by (metis dropWhile_eq_drop drop_map sorted_wrt_drop)
  moreover have "after = [] \<or> \<not> hi_sequence (hd after) < first" unfolding after_def by (metis hd_dropWhile)
  ultimately have "list_all (\<lambda>i. first \<le> hi_sequence i) after" by (cases after) (auto simp: list_all_iff)
  moreover have "list_all (\<lambda>i. hi_sequence i < first) before" by (auto simp: before_def list_all_iff dest: set_takeWhileD)
  moreover have "xs = before @ after" by (simp add: before_def after_def)
  moreover have "insert_before_pending xs inserted (Some first) = before @ inserted @ after"
    using assms by (simp add: insert_before_pending_def before_def after_def dropWhile_eq_drop Let_def)
  ultimately show ?thesis unfolding xs_def by blast
qed

lemma pending_loop_cost:
  "0 \<le> budget \<Longrightarrow> sum_list (map (\<lambda>i. max 1 (item_tokens e i)) (pending_loop e first budget items)) \<le> budget"
proof (induction e first budget items rule: pending_loop.induct)
  case (2 e first remaining item older)
  define c where "c = max 1 (item_tokens e item)"
  show ?case
  proof (cases "\<not> remaining \<le> 0 \<and> is_retained_pending_mail e first item \<and> c \<le> remaining")
    case True
    then show ?thesis using "2.IH"(3) [OF _ _ refl] "2.prems" by (simp add: c_def [symmetric] Let_def)
  next
    case False
    then show ?thesis using "2.IH"(1) "2.IH"(2) [OF _ _ refl] "2.prems" by (auto simp: c_def [symmetric] Let_def)
  qed
qed simp

text \<open>The mail a local compaction keeps, and what is left of the budget for the user messages.\<close>

definition kept_mail :: "compact_env \<Rightarrow> history_item list \<Rightarrow> history_item list" where
  "kept_mail e history = (case pending_mail_sequence history of
     None \<Rightarrow> [] | Some first \<Rightarrow> pending_agent_messages e history first user_message_budget)"

definition mail_cost :: "compact_env \<Rightarrow> history_item list \<Rightarrow> int" where
  "mail_cost e history = sum_list (map (\<lambda>i. max 1 (item_tokens e i)) (kept_mail e history))"

lemma mail_cost_bound: "mail_cost e history \<le> user_message_budget"
proof -
  have "sum_list (map f (rev xs)) = (sum_list (map f xs) :: int)" for f :: "history_item \<Rightarrow> int" and xs
    by (simp add: rev_map [symmetric])
  then show ?thesis
    using pending_loop_cost [of user_message_budget e]
    by (auto simp: mail_cost_def kept_mail_def pending_agent_messages_def user_message_budget_def split: option.split)
qed


section \<open>Items that came while compaction ran\<close>

definition context_boundary :: "history_item \<Rightarrow> bool" where
  "context_boundary i \<longleftrightarrow> is_retained_tool_output i \<or> is_real_user_or_agent i"

lemma insert_initial_context_split:
  "\<exists>i. i \<le> length history \<and> insert_initial_context history initial = take i history @ initial @ drop i history \<and>
     (if initial = [] then True else list_all (\<lambda>x. \<not> context_boundary x) (drop (i + 1) history)) \<and>
     (if initial = [] \<or> \<not> list_ex context_boundary history then True else context_boundary (history ! i))"
proof (cases "initial = []")
  case True
  then show ?thesis by (intro exI [of _ 0]) (simp add: insert_initial_context_def)
next
  case False
  show ?thesis
  proof (cases "last_index context_boundary history")
    case (Some i)
    then have "insert_initial_context history initial = take i history @ initial @ drop i history"
      using False by (simp add: insert_initial_context_def context_boundary_def [abs_def])
    then show ?thesis using last_index_split [OF Some] by (intro exI [of _ i]) auto
  next
    case None
    define i where "i = (case last_index (\<lambda>i. hi_kind i = ''compaction_summary'') history of Some i \<Rightarrow> i | None \<Rightarrow> length history)"
    have "insert_initial_context history initial = take i history @ initial @ drop i history"
      using False None by (simp add: insert_initial_context_def context_boundary_def [abs_def] i_def Let_def)
    moreover have "i \<le> length history" using last_index_split by (fastforce simp: i_def split: option.split)
    moreover have "\<not> list_ex context_boundary history" using None by (simp add: last_index_None)
    ultimately show ?thesis by (intro exI [of _ i]) (auto simp: list_all_iff list_ex_iff dest: in_set_dropD)
  qed
qed


section \<open>Outputs that give way\<close>

definition keeps_output :: "compact_env \<Rightarrow> bool \<Rightarrow> history_item \<Rightarrow> bool" where
  "keeps_output e retain i \<longleftrightarrow> retain \<and> is_retained_tool_output i \<or> rewritten_output e i = None"

lemma history_tokens_simps [simp]:
  "history_tokens e [] = 0" "history_tokens e (x # xs) = item_tokens e x + history_tokens e xs"
  "history_tokens e (xs @ ys) = history_tokens e xs + history_tokens e ys" "history_tokens e (rev xs) = history_tokens e xs"
  by (simp_all add: history_tokens_def rev_map [symmetric])

lemma rewrite_loop_spec:
  "rewrite_loop e window retain (base + history_tokens e items) items = (out, n) \<Longrightarrow>
     n \<le> length items \<and> drop n out = drop n items \<and> map Some (take n out) = map (rewritten_output e) (take n items) \<and>
     list_all (\<lambda>i. \<not> keeps_output e retain i) (take n items) \<and> length out = length items \<and>
     (if window < base + history_tokens e out \<and> n < length items then keeps_output e retain (items ! n) else True) \<and>
     list_all (\<lambda>k. window < base + history_tokens e (take k out @ drop k items)) [0..<n]"
proof (induction items arbitrary: base out n)
  case (Cons item older)
  have stop: ?case if "rewrite_loop e window retain (base + history_tokens e (item # older)) (item # older) = (item # older, 0)"
      "base + history_tokens e (item # older) \<le> window \<or> keeps_output e retain item"
    using that Cons.prems by auto
  show ?case
  proof (cases "base + history_tokens e (item # older) \<le> window \<or> keeps_output e retain item")
    case True
    then show ?thesis by (intro stop) (auto simp: keeps_output_def)
  next
    case False
    then obtain r where r: "rewritten_output e item = Some r" by (auto simp: keeps_output_def)
    obtain rest m where rest: "rewrite_loop e window retain (base + item_tokens e r + history_tokens e older) older = (rest, m)"
      by fastforce
    have eq: "out = r # rest" "n = m + 1"
      using Cons.prems False rest by (auto simp: r keeps_output_def algebra_simps)
    note IH = Cons.IH [OF rest]
    have "window < base + history_tokens e (take k out @ drop k (item # older))" if "k < n" for k
    proof (cases k)
      case 0
      then show ?thesis using False by simp
    next
      case (Suc j)
      then have "j < m" using that by (simp add: eq)
      then show ?thesis using IH by (simp add: Suc eq list_all_iff algebra_simps)
    qed
    then have "list_all (\<lambda>k. window < base + history_tokens e (take k out @ drop k (item # older))) [0..<n]"
      by (auto simp: list_all_iff)
    then show ?thesis using IH False by (simp add: eq r algebra_simps del: upt_Suc)
  qed
qed simp

text \<open>C15: exactly the newest outputs give way, as few as are needed: all that came before stays, each replaced item is an
  output that may go, before each replacement the history was too large, and if it is still too large then every item
  was replaced or the next one has to stay.\<close>

theorem newest_outputs_give_way:
  "case trim_function_call_history e items window base retain of (out, n) \<Rightarrow>
     let m = length items - n; held = (\<lambda>k. text_tokens e base + history_tokens e (take k items @ drop k out)) in
     n \<le> length items \<and> take m out = take m items \<and> map Some (drop m out) = map (rewritten_output e) (drop m items) \<and>
     list_all (\<lambda>i. \<not> keeps_output e retain i) (drop m items) \<and>
     list_all (\<lambda>k. window < held k) [m + 1..<length items + 1] \<and>
     (if 0 < window \<and> window < text_tokens e base + history_tokens e out \<and> 0 < m then keeps_output e retain (items ! (m - 1)) else True)"
proof -
  define b where "b = text_tokens e base"
  obtain r n where loop: "rewrite_loop e window retain (b + history_tokens e items) (rev items) = (r, n)" by fastforce
  show ?thesis
  proof (cases "window \<le> 0 \<or> b + history_tokens e items \<le> window")
    case True
    then show ?thesis by (auto simp: trim_function_call_history_def b_def [symmetric] Let_def)
  next
    case False
    then have trim: "trim_function_call_history e items window base retain = (rev r, n)"
      using loop by (simp add: trim_function_call_history_def b_def [symmetric])
    have spec: "n \<le> length items" "drop n r = drop n (rev items)" "map Some (take n r) = map (rewritten_output e) (take n (rev items))"
      "list_all (\<lambda>i. \<not> keeps_output e retain i) (take n (rev items))" "length r = length items"
      "if window < b + history_tokens e r \<and> n < length items then keeps_output e retain (rev items ! n) else True"
      "list_all (\<lambda>k. window < b + history_tokens e (take k r @ drop k (rev items))) [0..<n]"
      using rewrite_loop_spec [of e window retain b "rev items" r n] loop by simp_all
    define m where "m = length items - n"
    have head: "take m (rev r) = take m items" using arg_cong [OF spec(2), of rev] spec(1,5) by (simp add: rev_drop m_def)
    have "rev (map Some (take n r)) = rev (map (rewritten_output e) (take n (rev items)))" using spec(3) by simp
    then have tail: "map Some (drop m (rev r)) = map (rewritten_output e) (drop m items)"
      using spec(1,5) by (simp add: rev_map take_rev drop_rev m_def)
    have may: "list_all (\<lambda>i. \<not> keeps_output e retain i) (drop m items)" using spec(4) by (simp add: take_rev m_def list_all_iff)
    have "window < b + history_tokens e (take k items @ drop k (rev r))" if "m < k" "k \<le> length items" for k
    proof -
      have "window < b + history_tokens e (take (length items - k) r @ drop (length items - k) (rev items))"
        using spec(7) that by (auto simp: list_all_iff m_def)
      moreover have "rev (drop (length items - k) (rev items)) = take k items" using that by (simp add: rev_drop)
      moreover have "rev (take (length items - k) r) = drop k (rev r)" using that spec(5) by (simp add: rev_take)
      ultimately show ?thesis by (metis (no_types, lifting) add.commute history_tokens_simps(3,4))
    qed
    note held = this
    have "list_all (\<lambda>k. window < b + history_tokens e (take k items @ drop k (rev r))) [m + 1..<length items + 1]"
      unfolding list_all_iff
    proof
      fix k assume "k \<in> set [m + 1..<length items + 1]"
      then show "window < b + history_tokens e (take k items @ drop k (rev r))" by (intro held) auto
    qed
    moreover have "rev items ! n = items ! (m - 1)" if "0 < m" using that by (simp add: rev_nth m_def)
    ultimately show ?thesis
      using spec(1,6) head tail may unfolding trim by (auto simp: m_def [symmetric] b_def [symmetric] Let_def split: if_splits) (simp add: m_def)
  qed
qed

section \<open>Tokens in use\<close>

lemma reasoning_tokens_eq:
  "\<exists>n. reasoning_tokens_since e items boundary = history_tokens e (filter counts_as_reasoning (take n items)) \<and>
     (0 \<le> boundary \<longrightarrow> int n \<le> boundary)"
proof (cases "last_index is_turn_boundary items")
  case None
  then show ?thesis by (intro exI [of _ 0]) (simp add: reasoning_tokens_since_def)
next
  case (Some i)
  show ?thesis
  proof (cases "i = 0")
    case True
    then show ?thesis by (intro exI [of _ 0]) (simp add: reasoning_tokens_since_def Some Let_def)
  next
    case False
    then show ?thesis
      by (intro exI [of _ "if 0 \<le> boundary \<and> boundary < int i then nat boundary else i"])
         (simp add: reasoning_tokens_since_def Some Let_def)
  qed
qed

lemma items_since_suffix: "0 \<le> boundary \<Longrightarrow> items_since_usage items boundary = drop (nat boundary) items"
  by (simp add: items_since_usage_def)


section \<open>The window\<close>

datatype window_op = OpAdvance bytes | OpRemind | OpFallback | OpAsk | OpTakeRequest | OpClearPrefill | OpEstimate int | OpObserve int

fun window_step :: "window_op \<Rightarrow> compact_window \<Rightarrow> bool \<times> compact_window" where
  "window_step (OpAdvance wid) w = (False, window_advance wid w)"
| "window_step OpRemind w = claim_reminder w"
| "window_step OpFallback w = claim_fallback w"
| "window_step OpAsk w = (False, request_window w)"
| "window_step OpTakeRequest w = take_window_request w"
| "window_step OpClearPrefill w = (False, clear_prefill w)"
| "window_step (OpEstimate n) w = (False, set_estimated_prefill n w)"
| "window_step (OpObserve n) w = (False, observe_prefill n w)"

text \<open>How often a call of one kind was answered with yes.\<close>

fun granted :: "('op \<Rightarrow> 's \<Rightarrow> bool \<times> 's) \<Rightarrow> 'op \<Rightarrow> 'op list \<Rightarrow> 's \<Rightarrow> nat" where
  "granted step op [] s = 0"
| "granted step op (x # xs) s = (if x = op \<and> fst (step x s) then 1 else 0) + granted step op xs (snd (step x s))"

definition calls :: "('op \<Rightarrow> bool) \<Rightarrow> 'op list \<Rightarrow> nat" where
  "calls test ops = length (filter test ops)"

text \<open>An answer that spends a credit is given no more often than credits are earned.\<close>

locale spends_credit =
  fixes step :: "'op \<Rightarrow> 's \<Rightarrow> bool \<times> 's"
    and credit :: "'s \<Rightarrow> nat"
    and op :: 'op
    and earns :: "'op \<Rightarrow> bool"
  assumes step_law: "(if x = op \<and> fst (step x s) then 1 else 0) + credit (snd (step x s)) \<le> credit s + (if earns x then 1 else 0)"
begin

lemma granted_bound: "granted step op ops s \<le> credit s + calls earns ops"
proof (induction ops arbitrary: s)
  case (Cons x xs)
  have calls: "calls earns (x # xs) = (if earns x then 1 else 0) + calls earns xs" by (simp add: calls_def)
  show ?case using Cons.IH [of "snd (step x s)"] step_law [of x s] unfolding granted.simps calls by linarith
qed (simp add: calls_def)

end

definition is_advance :: "window_op \<Rightarrow> bool" where
  "is_advance op \<longleftrightarrow> (case op of OpAdvance _ \<Rightarrow> True | _ \<Rightarrow> False)"

lemmas window_defs = window_advance_def claim_reminder_def claim_fallback_def request_window_def take_window_request_def
  clear_prefill_def set_estimated_prefill_def observe_prefill_def is_advance_def

interpretation reminder: spends_credit window_step "\<lambda>w. if cw_reminded w then 0 else 1" OpRemind is_advance
proof unfold_locales
  fix x w
  show "(if x = OpRemind \<and> fst (window_step x w) then 1 else 0) + (if cw_reminded (snd (window_step x w)) then 0 else 1)
      \<le> (if cw_reminded w then 0 else 1) + (if is_advance x then 1 else (0 :: nat))"
    by (cases x) (auto simp: window_defs)
qed

interpretation fallback: spends_credit window_step "\<lambda>w. if cw_fallback w then 0 else 1" OpFallback is_advance
proof unfold_locales
  fix x w
  show "(if x = OpFallback \<and> fst (window_step x w) then 1 else 0) + (if cw_fallback (snd (window_step x w)) then 0 else 1)
      \<le> (if cw_fallback w then 0 else 1) + (if is_advance x then 1 else (0 :: nat))"
    by (cases x) (auto simp: window_defs)
qed

interpretation new_window: spends_credit window_step "\<lambda>w. if cw_requested w then 1 else 0" OpTakeRequest "\<lambda>x. x = OpAsk"
proof unfold_locales
  fix x w
  show "(if x = OpTakeRequest \<and> fst (window_step x w) then 1 else 0) + (if cw_requested (snd (window_step x w)) then 1 else 0)
      \<le> (if cw_requested w then 1 else 0) + (if x = OpAsk then 1 else (0 :: nat))"
    by (cases x) (auto simp: window_defs)
qed

text \<open>From a new window on, the reminder and the prompt of the fallback are each given at most once per window,
  and a new window is begun no more often than one was asked for.\<close>

theorem window_notices_once:
  "granted window_step OpRemind ops (new_window_with_ids first previous wid) \<le> 1 + calls is_advance ops \<and>
   granted window_step OpFallback ops (new_window_with_ids first previous wid) \<le> 1 + calls is_advance ops \<and>
   granted window_step OpTakeRequest ops (new_window_with_ids first previous wid) \<le> calls (\<lambda>x. x = OpAsk) ops"
  using reminder.granted_bound [of ops "new_window_with_ids first previous wid"]
    fallback.granted_bound [of ops "new_window_with_ids first previous wid"]
    new_window.granted_bound [of ops "new_window_with_ids first previous wid"]
  by (simp add: new_window_with_ids_def)

section \<open>When compaction is due\<close>

text \<open>Compaction is due exactly when the policy is on, has a limit, and the tokens in its scope reach the limit with
  its buffer or those in use reach the window; the buffer never defers it beyond the window, and where tokens remain in
  the base window, the window is not full.\<close>

theorem compaction_due_iff:
  "let s = evaluate_policy p active; limit = (if cp_token_limit p = 0 then cp_window p else cp_token_limit p);
       scope = (if cp_scope p = ScopeBodyAfterPrefix then max 0 (active - cp_prefill p) else active);
       full = (0 < cp_window p \<and> cp_window p \<le> active) in
   (ts_should_compact s \<longleftrightarrow> cp_enabled p \<and> 0 < limit \<and> (limit + max 0 (cp_buffer p) \<le> scope \<or> full)) \<and>
   (ts_new_window s \<longleftrightarrow> cp_enabled p \<and> 0 < limit \<and> full) \<and>
   (ts_reason s = NoReason \<longleftrightarrow> \<not> ts_should_compact s) \<and>
   (case ts_until s of None \<Rightarrow> \<not> ts_should_compact s | Some n \<Rightarrow> ts_should_compact s \<longleftrightarrow> n \<le> 0 \<or> full) \<and>
   (case ts_base_remaining s of None \<Rightarrow> \<not> ts_should_compact s | Some n \<Rightarrow> 0 \<le> n \<and> (if 0 < n then \<not> ts_should_compact s else True))"
proof -
  define limit where "limit = (if cp_token_limit p = 0 then cp_window p else cp_token_limit p)"
  define scope where "scope = (if cp_scope p = ScopeBodyAfterPrefix then max 0 (active - cp_prefill p) else active)"
  define full where "full \<longleftrightarrow> 0 < cp_window p \<and> cp_window p \<le> active"
  define buffered where "buffered = limit + max 0 (cp_buffer p)"
  define base where "base = (if 0 < cp_window p then min (max 0 (limit - scope)) (max 0 (cp_window p - active)) else max 0 (limit - scope))"
  define s where "s = evaluate_policy p active"
  have off: "\<not> ts_should_compact s" "\<not> ts_new_window s" "ts_reason s = NoReason" "ts_until s = None" "ts_base_remaining s = None"
    if "\<not> (cp_enabled p \<and> 0 < limit)"
    using that by (auto simp: s_def evaluate_policy_def Let_def limit_def)
  have on: "ts_should_compact s \<longleftrightarrow> buffered \<le> scope \<or> full" "ts_new_window s \<longleftrightarrow> full"
      "ts_reason s = NoReason \<longleftrightarrow> \<not> (buffered \<le> scope \<or> full)" "ts_until s = Some (buffered - scope)" "ts_base_remaining s = Some base"
    if "cp_enabled p \<and> 0 < limit"
    using that unfolding s_def evaluate_policy_def limit_def [symmetric] scope_def [symmetric] Let_def full_def [symmetric]
      buffered_def [symmetric] base_def [symmetric] by simp_all
  have "0 \<le> base" by (simp add: base_def)
  moreover have "\<not> (buffered \<le> scope \<or> full)" if "0 < base" using that by (auto simp: base_def buffered_def full_def split: if_splits)
  moreover have "buffered - scope \<le> 0 \<longleftrightarrow> buffered \<le> scope" by linarith
  ultimately show ?thesis
    unfolding limit_def [symmetric] scope_def [symmetric] full_def [symmetric] s_def [symmetric] Let_def buffered_def [symmetric]
    using off on by (cases "cp_enabled p \<and> 0 < limit") auto
qed

section \<open>Examples\<close>


end
