(* ===== verification/Spec2Isabelle.thy ===== *)
theory Spec2Isabelle
  imports Head_Tail_Buffer Process_Store Patch_Roundtrip Update_Semantics Os_Disk Agent_Registry Remote_Reassembly Board_Steps Network_Policy Exec_Requirements Shell_Quote Output_Items Exec_Approval Proxy_Constraints Tracker_Runs Mailbox_Runs Compact_Bounds Compact_Order
begin

text \<open>
  A verification development for \<open>codex_go\<close>, the Go port of a coding agent: a command line program and
  an app server that run model turns, execute commands, edit files with \<open>apply_patch\<close>, and run trees
  of agents that talk over a message board and are driven remotely over a websocket.  The development
  covers the packages that keep the agent's own state: the edits, the processes, the agent tree, the
  board, and the transport of remote control.

  \<^bold>\<open>Conventions.\<close>  A Go string or byte slice is a list of bytes (\<open>bytes\<close>, one \<open>char\<close> per byte).  A
  Go \<open>int\<close> is an \<open>int\<close> or, for indexes and lengths, a \<open>nat\<close>; sequence numbers that may wrap are 64-bit
  words.  A Go map is an association list with distinct keys where it is iterated, and a HOL map
  otherwise; the iteration orders the code leaves open never reach a result.  An error is a value of a
  sum or an option, every early return a branch.  Code that runs under a mutex is one step, and what
  another caller may do between two critical sections is a step in between.  What the program asks of
  third-party code, of the clock or of the operating system is an argument: the \<open>%q\<close> format verb, the
  Unicode case tables, the answers of the message board's host, the temporary directory and symbolic
  links of a host file system, the syntax tree of a shell script.

  \<^bold>\<open>Go's library.\<close>  \<open>Go_Prelude\<close> (results, association lists), \<open>Go_Strings\<close> (\<open>strings\<close>, \<open>utf8\<close>,
  \<open>strconv\<close>), \<open>Go_Utf8\<close> (ranging over the runes of a string), \<open>Go_Paths\<close> (\<open>path/filepath\<close> on Unix), \<open>Go_Base64\<close> (\<open>encoding/base64\<close>), \<open>Go_Json\<close> (validity
  and compact string encoding of \<open>encoding/json\<close>), \<open>Go_Json_Field\<close> (one string field of a decoded object).

  \<^bold>\<open>Process output, \<open>exec/buffer.go\<close>.\<close>  \<open>Head_Tail_Buffer\<close>: the buffer that keeps the head and the tail
  of an output within a budget.  Its contents are a closed function of the bytes written, whatever the
  chunking, and bounded; the locale \<open>output_sink\<close> states what the store uses of it.  \<open>Process_Store\<close>: the
  table of processes with its limit; an invariant of all runs, and what an exit makes final.

  \<^bold>\<open>Patches, \<open>applypatch/\<close>.\<close>  \<open>Patch_Parser\<close> is the line-by-line parser with its error values,
  \<open>Patch_Roundtrip\<close> a grammar of patches whose rendering it reads back exactly.  \<open>Source_File\<close> models line
  endings, the four-level search and the replacements of \<open>line_endings.go\<close>; \<open>Update_Semantics\<close> states
  what an update hunk means, as the replay of its edits, and that the code does exactly this.
  \<open>Patch_Apply\<close> is verification (the dry run in a shadow directory) and commit over an arbitrary file
  system, \<open>Os_Disk\<close> the default one over a disk of files and directories; it interprets the locale
  \<open>patch_store\<close>, in which the effect of a commit is proved.

  \<^bold>\<open>Agents, \<open>agent/path.go\<close> and \<open>agent/registry.go\<close>.\<close>  \<open>Agent_Path\<close>: the grammar of agent paths, joining,
  the prefix test as the ancestor relation.  \<open>Agent_Registry\<close>: metadata, nicknames and the spawn
  protocol as a step relation, with the exact account of slots as its invariant.

  \<^bold>\<open>Remote control, \<open>remotecontrol/\<close>.\<close>  \<open>Remote_Segments\<close>: envelopes of \<open>protocol.go\<close> and the splitting of
  a large message into chunks within a frame.  \<open>Remote_Reassembly\<close>: the reassembler, the delivery
  records, the outbound buffer and the sequence numbers of \<open>websocket_state.go\<close>.

  \<^bold>\<open>Remote clients, \<open>remotecontrol/client_tracker.go\<close>, \<open>websocket_workers.go\<close>.\<close>  \<open>Client_Tracker\<close>: connections over
  the streams of a client, the goroutine of each, what one websocket connection asks of them, as a step relation over
  everything that may happen in between.  \<open>Tracker_Runs\<close>: the protocol each connection shows to its receiver, as long
  as fewer than \<open>2 ^ 64\<close> steps were taken, so that the shared 64-bit counter of connections has not come round;
  repeated messages; a late note that closes the wrong connection.

  \<^bold>\<open>Message board, \<open>agentboard/\<close>.\<close>  \<open>Message_Board\<close>: the operations and queries of \<open>inmemory.go\<close> with the
  requests of \<open>api.go\<close> and \<open>types.go\<close> and the paging helpers of \<open>local.go\<close>.  \<open>Board_Invariants\<close>: its
  indexes as functions of the posts, one lemma per step.  \<open>Board_Steps\<close>: the step relation, the
  reachable boards, retries, notifications, and what the queries return.

  \<^bold>\<open>Network policy, \<open>network/network_policy.go\<close>.\<close>  \<open>Network_Policy\<close>: destination policies, the permits handed
  out under them, the handles of transports and the controller.  A run of operations in the order they
  take the mutex keeps every permit in use within the policy in force; an account change is final.

  \<^bold>\<open>Network proxy, \<open>network/proxy_policy.go\<close>, \<open>proxy_config.go\<close>, \<open>proxy_server.go\<close>.\<close>  \<open>Go_Ip\<close> is what the proxy
  uses of \<open>net\<close>.  \<open>Domain_Matcher\<close>: the wildcard matcher over bytes, whose loop is shown to terminate and to
  agree with the meaning of a pattern, domain patterns and the order between them.  \<open>Proxy_Policy\<close>: ranges of
  addresses and domain permissions.  \<open>Proxy_Evaluation\<close>: the decision on a request, exactly; the log of
  denials and the audit trail; what is dialled when the name service changes its answers.  \<open>Proxy_Constraints\<close>
  (\<open>proxy_constraints.go\<close>, \<open>socket_path.go\<close>): how managed requirements are composed with a configuration and
  validated, exactly when that succeeds, and that no rule a user adds later gets around them.

  \<^bold>\<open>Command policies, \<open>execpolicy/\<close>.\<close>  \<open>Exec_Policy\<close>: matching of prefix rules and the strictest decision of
  \<open>execpolicy.go\<close>.  \<open>Exec_Requirements\<close>: managed policies of \<open>requirements.go\<close>, which only tighten, and the
  snapshots of \<open>inheritance.go\<close>.  \<open>Shell_Words\<close>: shell words, hosts and protocols.  \<open>Dangerous_Command\<close>: the
  classifier of \<open>dangerous_command.go\<close> with the wrappers it looks through, at most eight deep.

  \<^bold>\<open>Approval of commands, \<open>tool/\<close>, \<open>safety/\<close>, \<open>shell/\<close>, \<open>sandbox/\<close>.\<close>  \<open>Shell_Script\<close>: the words of a script, from the
  syntax tree of the shell parser, which is a parameter.  \<open>Approval_Requirement\<close>: what the evaluation of the
  rules asks for, \<open>safety.go\<close>.  \<open>Exec_Approval\<close>: the two gates of \<open>exec_policy_requirement.go\<close> and
  \<open>tool/dangerous_command.go\<close> before a shell call, built on the command policies and the classifier: what is
  rejected, what is asked, what leaves the sandbox.  \<open>Shell_Quote\<close>: quoting of an argument vector in
  \<open>shell/command.go\<close>, which the splitter of \<open>Shell_Words\<close> inverts.

  \<^bold>\<open>Output truncation, \<open>utils/outputtrunc.go\<close>.\<close>  \<open>Output_Truncation\<close>: cutting a text in its middle within a budget of
  bytes or tokens, never inside a character.  \<open>Output_Items\<close>: the same for the items of a tool output, with
  the positions that point into them.

  \<^bold>\<open>Input of a running turn, \<open>turn/steer_mailbox.go\<close>.\<close>  \<open>Steer_Mailbox\<close>: the queues, the gate that closes while a
  turn records its last batch, and those who wait for input.  \<open>Mailbox_Runs\<close>: in any order of calls no input is lost
  or overtaken, a closed turn takes no mail, a channel wakes its holder exactly when it should, and two places where
  input is missed all the same.

  \<^bold>\<open>Compaction of the history, \<open>compact/compact.go\<close>.\<close>  \<open>Compact_Items\<close>: what an item is, whether a compacted history
  keeps it, what it is estimated to cost; \<open>Go_Json_Any\<close> decodes raw items, \<open>Go_Fold\<close> is \<open>strings.EqualFold\<close>.
  \<open>Compact_Retention\<close>: messages cut to a budget.  \<open>Compact_History\<close>: when compaction is due, mail that was not sampled,
  where the context goes, what gives way to fit a window, the tokens in use.  \<open>Compact_Run\<close>: what a remote compaction
  retains, the local and the remote run, the window of a thread.  \<open>Compact_Bounds\<close>: what is kept, in which order and
  within which budget, and the cut that misses its budget.  \<open>Compact_Order\<close>: the summary stands before mail that was not
  sampled, items that came meanwhile survive, outputs give way newest first, no item is charged twice.

  \<^bold>\<open>Recursion.\<close>  Loops over data are structural.  \<open>split_loop\<close> of \<open>Remote_Segments\<close> and \<open>evict_if_full\<close> of
  \<open>Remote_Reassembly\<close> have termination proofs by a measure, \<open>byte_match_loop\<close> of \<open>Domain_Matcher\<close> by
  three; \<open>search_tokens\<close> and \<open>media_loop\<close> of \<open>Compact_Retention\<close> by a measure.  The decoder of \<open>Go_Json_Any\<close> has twice the
  length of the text as fuel, enough because every second call consumes a byte.  The page walk of \<open>Message_Board\<close> is a
  specification with one unit of fuel per result and one more, enough because every page that names a
  next one is not empty.

  \<^bold>\<open>Not modelled.\<close>  Delivery of notifications, the loops that move bytes over sockets and terminals,
  databases, and everything above these packages: the app server, the terminal interface, the model
  clients, configuration, tools and sandboxes.  Of the modelled packages: the persistent and the remote
  message board (SQL and HTTP with the contract of the one in memory), the reference counts of its
  handles, the JSON forms of its types; enrolment of remote control; the control
  and mailboxes of agents; the Windows rules of dangerous commands; the safety of patches in \<open>safety.go\<close>.
  Of \<open>turn\<close> only the steer mailbox; of \<open>context\<close> nothing, and of \<open>execpolicy\<close> not the rule language.
\<close>

end
